(* ===== verification/Py_Prelude.thy ===== *)
theory Py_Prelude
  imports Main "HOL-Library.AList" "HOL-Library.List_Lexorder" "HOL-Library.Char_ord"
begin

text \<open>
  Shared vocabulary of the development: the Python values the BitBake sources compute with
  and the effects they have.

  \<^item> \<open>exn\<close>: the exceptions the modelled code raises, and \<open>OutOfFuel\<close>, the mark of a
    recursion cut off by its fuel (each fuelled function has a lemma that its fuel is enough).
  \<^item> strings are \<open>string\<close>, one \<open>char\<close> per code point, so code points up to 255;
    the order on strings is the lexicographic one of the library theories
    List_Lexorder and Char_ord, which is Python's.
  \<^item> a dict is an association list in insertion order (\<open>AList.update\<close> overwrites in
    place or appends, \<open>AList.delete\<close> removes), \<open>map_of\<close> is its lookup.
  \<^item> a Python set is a list without duplicates; its order stands for the iteration order,
    which Python leaves open, so the properties of the library speak of \<open>set xs\<close>.
  \<^item> \<open>('s, 'a) act\<close>: an action on a state \<open>'s\<close> that returns a value or raises, and keeps
    the changes it made before the exception, as Python does; \<open>triple\<close> is its Hoare triple,
    with one rule per combinator.
\<close>

named_theorems str_simps "string operations"
named_theorems dict_simps "dictionary operations"
named_theorems act_simps "evaluation of actions"
named_theorems triple_intros "Hoare rules of actions"

section \<open>Exceptions\<close>

datatype exn =
    KeyError
  | IndexError
  | ValueError
  | AttributeError
  | TypeError
  | VersionStringException string
  | NoProvider string
  | NoRProvider string
  | MultipleRProvider string
  | BBHandledException
  | SystemExit
  | TaskFailure "string list"
  | HTTPError nat string
  | URLError string
  | ExternalExn string
  | SkipRecipe string
  | SyntaxError bool
  | SelfReference string
  | ExpansionError "string list"
  | ParseError string nat
  | FileMissing string
  | OutOfFuel

type_synonym 'a res = "exn + 'a"

definition res_bind :: "'a res \<Rightarrow> ('a \<Rightarrow> 'b res) \<Rightarrow> 'b res" where
  "res_bind r f = (case r of Inl e \<Rightarrow> Inl e | Inr x \<Rightarrow> f x)"

lemma res_bind_simps [simp, act_simps]:
  "res_bind (Inl e) f = Inl e"
  "res_bind (Inr x) f = f x"
  by (simp_all add: res_bind_def)

lemma res_bind_Inr_iff: "res_bind r f = Inr y \<longleftrightarrow> (\<exists>x. r = Inr x \<and> f x = Inr y)"
  by (cases r) auto

lemma res_bind_Inr_E:
  assumes "res_bind r f = Inr y"
  obtains x where "r = Inr x" and "f x = Inr y"
  using assms by (cases r) auto

lemma res_bind_Inl_iff:
  "res_bind r f = Inl e \<longleftrightarrow> r = Inl e \<or> (\<exists>x. r = Inr x \<and> f x = Inl e)"
  by (cases r) auto

text \<open>A comprehension \<open>[f(x) for x in xs]\<close> whose body may raise.\<close>

fun res_map :: "('a \<Rightarrow> 'b res) \<Rightarrow> 'a list \<Rightarrow> 'b list res" where
  "res_map f [] = Inr []"
| "res_map f (x # xs) = res_bind (f x) (\<lambda>y. res_bind (res_map f xs) (\<lambda>ys. Inr (y # ys)))"

text \<open>A loop that threads an accumulator and may raise.\<close>

fun res_fold :: "('x \<Rightarrow> 'a \<Rightarrow> 'a res) \<Rightarrow> 'x list \<Rightarrow> 'a \<Rightarrow> 'a res" where
  "res_fold f [] a = Inr a"
| "res_fold f (x # xs) a = res_bind (f x a) (res_fold f xs)"

lemma res_fold_append:
  "res_fold f (xs @ ys) a = res_bind (res_fold f xs a) (res_fold f ys)"
  by (induction xs arbitrary: a) (auto simp: res_bind_def split: sum.splits)

lemma res_fold_invariant:
  assumes "res_fold f xs a = Inr b" and "I a"
    and "\<And>x a b. x \<in> set xs \<Longrightarrow> I a \<Longrightarrow> f x a = Inr b \<Longrightarrow> I b"
  shows "I b"
  using assms
proof (induction xs arbitrary: a)
  case (Cons x xs)
  from Cons.prems(1) obtain c where c: "f x a = Inr c" "res_fold f xs c = Inr b"
    by (auto elim: res_bind_Inr_E)
  with Cons.prems(2,3) have "I c" by auto
  with c(2) show ?case by (rule Cons.IH) (auto intro: Cons.prems(3))
qed simp

lemma res_map_length: "res_map f xs = Inr ys \<Longrightarrow> length ys = length xs"
  by (induction xs arbitrary: ys) (auto simp: res_bind_Inr_iff)

lemma res_map_all: "res_map f xs = Inr ys \<Longrightarrow> x \<in> set xs \<Longrightarrow> \<exists>y \<in> set ys. f x = Inr y"
  by (induction xs arbitrary: ys) (fastforce simp: res_bind_Inr_iff)+

section \<open>Strings\<close>

text \<open>\<open>s.startswith(p)\<close>, \<open>s.endswith(p)\<close>\<close>

definition startswith :: "string \<Rightarrow> string \<Rightarrow> bool" where
  "startswith s p \<longleftrightarrow> take (length p) s = p"

definition endswith :: "string \<Rightarrow> string \<Rightarrow> bool" where
  "endswith s p \<longleftrightarrow> length p \<le> length s \<and> drop (length s - length p) s = p"

text \<open>\<open>s.split(c)\<close> for a separator of one character\<close>

fun split_on :: "char \<Rightarrow> string \<Rightarrow> string list" where
  "split_on c [] = [[]]"
| "split_on c (x # xs) =
     (if x = c then [] # split_on c xs
      else (case split_on c xs of [] \<Rightarrow> [[x]] | w # ws \<Rightarrow> (x # w) # ws))"

text \<open>\<open>s.split(c, n)\<close>: at most \<open>n\<close> splits\<close>

fun split_max :: "nat \<Rightarrow> char \<Rightarrow> string \<Rightarrow> string list" where
  "split_max 0 c s = [s]"
| "split_max (Suc n) c s =
     (if c \<in> set s
      then takeWhile (\<lambda>x. x \<noteq> c) s # split_max n c (tl (dropWhile (\<lambda>x. x \<noteq> c) s))
      else [s])"

text \<open>\<open>s.rsplit(c, 1)\<close>: one split, at the last occurrence\<close>

definition rsplit1 :: "char \<Rightarrow> string \<Rightarrow> string list" where
  "rsplit1 c s =
     (if c \<in> set s
      then [rev (tl (dropWhile (\<lambda>x. x \<noteq> c) (rev s))), rev (takeWhile (\<lambda>x. x \<noteq> c) (rev s))]
      else [s])"

text \<open>\<open>sep.join(ws)\<close>\<close>

fun join :: "string \<Rightarrow> string list \<Rightarrow> string" where
  "join sep [] = []"
| "join sep [w] = w"
| "join sep (w # v # ws) = w @ sep @ join sep (v # ws)"

text \<open>Whitespace of \<open>str.split()\<close> and \<open>str.strip()\<close> among code points below 256\<close>

definition py_space :: "char \<Rightarrow> bool" where
  "py_space c =
     (let n = (of_char c :: nat)
      in (9 \<le> n \<and> n \<le> 13) \<or> (28 \<le> n \<and> n \<le> 32) \<or> n = 133 \<or> n = 160)"

fun words_from :: "string \<Rightarrow> string \<Rightarrow> string list" where
  "words_from w [] = (if w = [] then [] else [w])"
| "words_from w (c # cs) =
     (if py_space c then (if w = [] then words_from [] cs else w # words_from [] cs)
      else words_from (w @ [c]) cs)"

definition split_ws :: "string \<Rightarrow> string list" where
  "split_ws s = words_from [] s"

text \<open>\<open>s.strip(chars)\<close>, \<open>s.lstrip(chars)\<close>, \<open>s.rstrip(chars)\<close>\<close>

definition lstrip_chars :: "(char \<Rightarrow> bool) \<Rightarrow> string \<Rightarrow> string" where
  "lstrip_chars p s = dropWhile p s"

definition rstrip_chars :: "(char \<Rightarrow> bool) \<Rightarrow> string \<Rightarrow> string" where
  "rstrip_chars p s = rev (dropWhile p (rev s))"

definition strip_chars :: "(char \<Rightarrow> bool) \<Rightarrow> string \<Rightarrow> string" where
  "strip_chars p s = rstrip_chars p (lstrip_chars p s)"

text \<open>Decimal digits, \<open>string.digits\<close> and \<open>string.ascii_letters\<close>\<close>

definition is_digit :: "char \<Rightarrow> bool" where
  "is_digit c = (let n = (of_char c :: nat) in 48 \<le> n \<and> n \<le> 57)"

definition is_alpha :: "char \<Rightarrow> bool" where
  "is_alpha c = (let n = (of_char c :: nat) in (65 \<le> n \<and> n \<le> 90) \<or> (97 \<le> n \<and> n \<le> 122))"

definition digit_val :: "char \<Rightarrow> nat" where
  "digit_val c = of_char c - 48"

definition nat_of_digits :: "string \<Rightarrow> nat" where
  "nat_of_digits ds = foldl (\<lambda>n c. 10 * n + digit_val c) 0 ds"

text \<open>\<open>s.lower()\<close>, and \<open>s.partition(c)\<close> and \<open>s.rpartition(c)\<close> without the separator\<close>

definition lower_char :: "char \<Rightarrow> char" where
  "lower_char c = (let n = (of_char c :: nat) in
     if (65 \<le> n \<and> n \<le> 90) \<or> (192 \<le> n \<and> n \<le> 222 \<and> n \<noteq> 215) then char_of (n + 32) else c)"

definition lower :: "string \<Rightarrow> string" where
  "lower = List.map lower_char"

definition partition_at :: "char \<Rightarrow> string \<Rightarrow> string \<times> string" where
  "partition_at c s = (takeWhile (\<lambda>x. x \<noteq> c) s, tl (dropWhile (\<lambda>x. x \<noteq> c) s))"

definition after_last :: "char \<Rightarrow> string \<Rightarrow> string" where
  "after_last c s = rev (takeWhile (\<lambda>x. x \<noteq> c) (rev s))"

text \<open>\<open>str(n)\<close>\<close>

function str_nat :: "nat \<Rightarrow> string" where
  "str_nat n = (if n < 10 then [char_of (48 + n)] else str_nat (n div 10) @ [char_of (48 + n mod 10)])"
  by pat_completeness auto
termination by (relation "measure id") auto

declare str_nat.simps [simp del]

text \<open>
  \<open>int(s)\<close>: surrounding whitespace, an optional sign, then digits with single underscores
  between them; anything else is a ValueError.
\<close>

fun digits_underscores :: "string \<Rightarrow> string option" where
  "digits_underscores [] = None"
| "digits_underscores [c] = (if is_digit c then Some [c] else None)"
| "digits_underscores (c # d # cs) =
     (if \<not> is_digit c then None
      else if d = CHR ''_'' then map_option ((#) c) (digits_underscores cs)
      else map_option ((#) c) (digits_underscores (d # cs)))"

definition py_int :: "string \<Rightarrow> int res" where
  "py_int s =
     (let t = strip_chars py_space s;
          (sg, u) = (case t of
              c # cs \<Rightarrow> if c = CHR ''-'' then (-1, cs) else if c = CHR ''+'' then (1, cs) else (1, t)
            | [] \<Rightarrow> (1, t))
      in (case digits_underscores u of
            None \<Rightarrow> Inl ValueError
          | Some ds \<Rightarrow> Inr (sg * int (nat_of_digits ds))))"

lemma startswith_append [simp, str_simps]: "startswith (p @ s) p"
  by (simp add: startswith_def)

lemma startswith_iff: "startswith s p \<longleftrightarrow> (\<exists>t. s = p @ t)"
  by (metis append_eq_conv_conj append_take_drop_id startswith_def)

lemma endswith_iff: "endswith s p \<longleftrightarrow> (\<exists>t. s = t @ p)"
proof
  assume "endswith s p"
  then have "s = take (length s - length p) s @ p"
    by (metis append_take_drop_id endswith_def)
  then show "\<exists>t. s = t @ p" by blast
qed (auto simp: endswith_def)

lemma split_on_Nil [simp]: "split_on c s \<noteq> []"
  by (cases s) (auto split: list.splits)

lemma split_on_no_sep [simp, str_simps]: "c \<notin> set s \<Longrightarrow> split_on c s = [s]"
  by (induction s) auto

lemma split_on_append [str_simps]:
  "c \<notin> set s \<Longrightarrow> split_on c (s @ c # t) = s # split_on c t"
  by (induction s) auto

lemma split_on_words: "w \<in> set (split_on c s) \<Longrightarrow> c \<notin> set w"
proof (induction s arbitrary: w)
  case (Cons x xs)
  then show ?case by (cases "split_on c xs") (auto split: if_splits)
qed simp

lemma join_split_on [str_simps]: "join [c] (split_on c s) = s"
proof (induction s)
  case (Cons x xs)
  then show ?case
    by (cases "split_on c xs" rule: list.exhaust; cases "tl (split_on c xs)") auto
qed simp

lemma split_on_join [str_simps]:
  "ws \<noteq> [] \<Longrightarrow> \<forall>w \<in> set ws. c \<notin> set w \<Longrightarrow> split_on c (join [c] ws) = ws"
  by (induction "[c]" ws rule: join.induct) (auto simp: split_on_append)

lemma length_split_on: "length (split_on c s) = Suc (count_list s c)"
proof (induction s)
  case (Cons x xs)
  then show ?case by (cases "split_on c xs") auto
qed simp

lemma rsplit1_append [simp, str_simps]: "c \<notin> set t \<Longrightarrow> rsplit1 c (s @ c # t) = [s, t]"
proof -
  assume t: "c \<notin> set t"
  then have ne: "x \<in> set (rev t) \<Longrightarrow> x \<noteq> c" for x by auto
  have "takeWhile (\<lambda>x. x \<noteq> c) (rev t @ c # rev s) = rev t"
    and "dropWhile (\<lambda>x. x \<noteq> c) (rev t @ c # rev s) = c # rev s"
    using ne by (subst takeWhile_append2 dropWhile_append2; auto)+
  with t show ?thesis by (simp add: rsplit1_def)
qed

lemma rsplit1_no_sep [simp, str_simps]: "c \<notin> set s \<Longrightarrow> rsplit1 c s = [s]"
  by (simp add: rsplit1_def)

lemma rsplit1_cases:
  obtains "c \<notin> set s" and "rsplit1 c s = [s]"
  | a b where "s = a @ c # b" and "c \<notin> set b" and "rsplit1 c s = [a, b]"
proof (cases "c \<in> set s")
  case True
  then obtain a b where "s = a @ c # b" "c \<notin> set b"
    by (metis split_list_last)
  then show ?thesis using that(2) by simp
qed (use that(1) in simp)

lemma words_from_no_space:
  "list_all (\<lambda>c. \<not> py_space c) v \<Longrightarrow> w \<in> set (words_from v t) \<Longrightarrow>
   list_all (\<lambda>c. \<not> py_space c) w"
proof (induction v t rule: words_from.induct)
  case (2 v c cs)
  show ?case
  proof (cases "py_space c")
    case True
    with 2 show ?thesis by (cases "v = []") auto
  next
    case False
    with 2 show ?thesis by simp
  qed
qed (simp split: if_splits)

lemma split_ws_no_space: "w \<in> set (split_ws s) \<Longrightarrow> \<forall>c \<in> set w. \<not> py_space c"
  using words_from_no_space[of "[]" w s] by (simp add: split_ws_def list_all_iff)

lemma split_ws_nonempty: "w \<in> set (split_ws s) \<Longrightarrow> w \<noteq> []"
proof -
  have "w \<in> set (words_from v t) \<Longrightarrow> w \<noteq> []" for v t
  proof (induction v t rule: words_from.induct)
    case (2 v c cs)
    then show ?case by (cases "py_space c"; cases "v = []") auto
  qed (simp split: if_splits)
  then show "w \<in> set (split_ws s) \<Longrightarrow> w \<noteq> []" by (simp add: split_ws_def)
qed

section \<open>Substrings\<close>

text \<open>\<open>s.split(sub)[0]\<close> and \<open>s.replace(sub, "")\<close> for a non-empty \<open>sub\<close>\<close>

fun before_sub :: "string \<Rightarrow> string \<Rightarrow> string" where
  "before_sub sub [] = []"
| "before_sub sub (c # cs) = (if startswith (c # cs) sub then [] else c # before_sub sub cs)"

function remove_sub :: "string \<Rightarrow> string \<Rightarrow> string" where
  "remove_sub sub s =
     (case s of [] \<Rightarrow> []
      | c # cs \<Rightarrow> if sub \<noteq> [] \<and> startswith s sub then remove_sub sub (drop (length sub) s)
                 else c # remove_sub sub cs)"
  by pat_completeness auto
termination
  by (relation "measure (length \<circ> snd)") auto

declare remove_sub.simps [simp del]

text \<open>\<open>s.split(sub, 1)[1]\<close> where \<open>sub\<close> occurs, and \<open>sub in s\<close>\<close>

fun after_sub :: "string \<Rightarrow> string \<Rightarrow> string" where
  "after_sub sub [] = []"
| "after_sub sub (c # cs) = (if startswith (c # cs) sub then drop (length sub) (c # cs) else after_sub sub cs)"

fun contains :: "string \<Rightarrow> string \<Rightarrow> bool" where
  "contains [] sub \<longleftrightarrow> sub = []"
| "contains (c # cs) sub \<longleftrightarrow> startswith (c # cs) sub \<or> contains cs sub"

text \<open>\<open>os.path.basename\<close>\<close>

definition basename :: "string \<Rightarrow> string" where
  "basename s = rev (takeWhile (\<lambda>c. c \<noteq> CHR ''/'') (rev s))"

section \<open>Dictionaries\<close>

type_synonym ('k, 'v) dict = "('k \<times> 'v) list"

abbreviation dict_keys :: "('k, 'v) dict \<Rightarrow> 'k list" where
  "dict_keys d \<equiv> List.map fst d"

abbreviation wf_dict :: "('k, 'v) dict \<Rightarrow> bool" where
  "wf_dict d \<equiv> distinct (dict_keys d)"

text \<open>\<open>d[k]\<close>, which raises KeyError, and \<open>d[k]\<close> of a \<open>defaultdict(list)\<close> read only\<close>

definition dict_get :: "('k, 'v) dict \<Rightarrow> 'k \<Rightarrow> 'v res" where
  "dict_get d k = (case map_of d k of None \<Rightarrow> Inl KeyError | Some v \<Rightarrow> Inr v)"

definition dict_list :: "('k, 'v list) dict \<Rightarrow> 'k \<Rightarrow> 'v list" where
  "dict_list d k = (case map_of d k of None \<Rightarrow> [] | Some vs \<Rightarrow> vs)"

definition has_key :: "('k, 'v) dict \<Rightarrow> 'k \<Rightarrow> bool" where
  "has_key d k \<longleftrightarrow> k \<in> set (dict_keys d)"

text \<open>\<open>d.get(k, default)\<close>\<close>

definition get_or :: "'x option \<Rightarrow> 'x \<Rightarrow> 'x" where
  "get_or a b = (case a of None \<Rightarrow> b | Some x \<Rightarrow> x)"

text \<open>\<open>d[k].append(v)\<close> on a \<open>defaultdict(list)\<close>\<close>

definition dict_append :: "'k \<Rightarrow> 'v \<Rightarrow> ('k, 'v list) dict \<Rightarrow> ('k, 'v list) dict" where
  "dict_append k v d = AList.update k (dict_list d k @ [v]) d"

lemma has_key_map_of: "has_key d k \<longleftrightarrow> map_of d k \<noteq> None"
  by (simp add: has_key_def map_of_eq_None_iff image_def)

lemma has_key_Some: "map_of d k = Some v \<Longrightarrow> has_key d k"
  by (simp add: has_key_map_of)

lemma map_of_update_eq [simp, dict_simps]:
  "map_of (AList.update k v d) k' = (if k' = k then Some v else map_of d k')"
  by (simp add: update_conv' update_conv)

lemma map_of_delete_eq [simp, dict_simps]:
  "map_of (AList.delete k d) k' = (if k' = k then None else map_of d k')"
  by (simp add: delete_conv')

lemma wf_dict_update [simp, dict_simps]: "wf_dict d \<Longrightarrow> wf_dict (AList.update k v d)"
  by (rule distinct_update)

lemma wf_dict_delete [simp, dict_simps]: "wf_dict d \<Longrightarrow> wf_dict (AList.delete k d)"
  by (rule distinct_delete)

lemma has_key_update [simp, dict_simps]:
  "has_key (AList.update k v d) k' \<longleftrightarrow> k' = k \<or> has_key d k'"
  by (simp add: has_key_map_of)

lemma dict_get_Inr [simp]: "dict_get d k = Inr v \<longleftrightarrow> map_of d k = Some v"
  by (simp add: dict_get_def split: option.splits)

lemma dict_get_Inl [simp]: "dict_get d k = Inl e \<longleftrightarrow> e = KeyError \<and> map_of d k = None"
  by (auto simp: dict_get_def split: option.splits)

lemma dict_get_Some [simp]: "map_of d k = Some v \<Longrightarrow> dict_get d k = Inr v"
  by simp

lemma dict_get_None [simp]: "map_of d k = None \<Longrightarrow> dict_get d k = Inl KeyError"
  by simp

lemma dict_list_update [simp, dict_simps]:
  "dict_list (AList.update k v d) k' = (if k' = k then v else dict_list d k')"
  by (simp add: dict_list_def)

lemma dict_append_list [simp, dict_simps]:
  "dict_list (dict_append k v d) k' = dict_list d k' @ (if k' = k then [v] else [])"
  by (simp add: dict_append_def)

lemma dict_keys_update:
  "dict_keys (AList.update k v d) = (if k \<in> set (dict_keys d) then dict_keys d else dict_keys d @ [k])"
  by (induction d) auto

lemma keys_update_set [simp, dict_simps]:
  "fst ` set (AList.update k v d) = insert k (fst ` set d)"
  using arg_cong[OF dict_keys_update[of k v d], of set] by auto

lemma keys_append_set [simp, dict_simps]:
  "fst ` set (dict_append k v d) = insert k (fst ` set d)"
  by (simp add: dict_append_def)

lemma wf_dict_append [simp, dict_simps]: "wf_dict d \<Longrightarrow> wf_dict (dict_append k v d)"
  by (simp add: dict_append_def)

section \<open>Sets as lists without duplicates\<close>

definition set_diff :: "'a list \<Rightarrow> 'a list \<Rightarrow> 'a list" where
  "set_diff xs ys = filter (\<lambda>x. x \<notin> set ys) xs"

definition set_inter :: "'a list \<Rightarrow> 'a list \<Rightarrow> 'a list" where
  "set_inter xs ys = filter (\<lambda>x. x \<in> set ys) xs"

definition set_add :: "'a \<Rightarrow> 'a list \<Rightarrow> 'a list" where
  "set_add x xs = (if x \<in> set xs then xs else xs @ [x])"

definition set_union :: "'a list \<Rightarrow> 'a list \<Rightarrow> 'a list" where
  "set_union xs ys = fold set_add ys xs"

lemma set_set_diff [simp]: "set (set_diff xs ys) = set xs - set ys"
  by (auto simp: set_diff_def)

lemma set_set_inter [simp]: "set (set_inter xs ys) = set xs \<inter> set ys"
  by (auto simp: set_inter_def)

lemma set_set_add [simp]: "set (set_add x xs) = insert x (set xs)"
  by (auto simp: set_add_def)

lemma distinct_set_add [simp]: "distinct xs \<Longrightarrow> distinct (set_add x xs)"
  by (simp add: set_add_def)

lemma set_set_union [simp]: "set (set_union xs ys) = set xs \<union> set ys"
  unfolding set_union_def by (induction ys arbitrary: xs) auto

lemma distinct_set_union [simp]: "distinct xs \<Longrightarrow> distinct (set_union xs ys)"
  unfolding set_union_def by (induction ys arbitrary: xs) auto

lemma distinct_set_diff [simp]: "distinct xs \<Longrightarrow> distinct (set_diff xs ys)"
  by (simp add: set_diff_def)

lemma distinct_set_inter [simp]: "distinct xs \<Longrightarrow> distinct (set_inter xs ys)"
  by (simp add: set_inter_def)

end
