(* ===== verification/Version_Compare.thy ===== *)
theory Version_Compare
  imports Py_Prelude "HOL-Library.Product_Lexorder"
begin

text \<open>
  Version strings of \<open>poky/bitbake/lib/bb/utils.py\<close>: \<open>explode_version\<close>,
  \<open>split_version\<close>, \<open>vercmp_part\<close>, \<open>vercmp\<close>, \<open>vercmp_string\<close> and
  \<open>vercmp_string_op\<close>.

  A component of an exploded version is a pair (order code, value) in the code: digits have
  code 0, letters 1, any other character 2 and a tilde -1. The datatype \<open>vpart\<close> has one
  constructor per code, and \<open>VEnd\<close> for the filler \<open>(0, None)\<close> the comparison loop
  reads past the end of a list. The type is a linear order, and the loop is shown to be the
  lexicographic order of the exploded lists closed by \<open>VEnd\<close>; so the comparison is a total
  preorder, whatever the strings are, which the locale \<open>three_way\<close> states for its clients.
\<close>

section \<open>Components of a version\<close>

datatype vpart = VTilde | VEnd | VNum nat | VAlpha string | VOther char

text \<open>The order code, first entry of the pair\<close>

fun order_code :: "vpart \<Rightarrow> int" where
  "order_code VTilde = -1"
| "order_code VEnd = 0"
| "order_code (VNum n) = 0"
| "order_code (VAlpha s) = 1"
| "order_code (VOther c) = 2"

text \<open>\<open>ca < cb\<close> on two values of the same code\<close>

fun value_less :: "vpart \<Rightarrow> vpart \<Rightarrow> bool" where
  "value_less (VNum m) (VNum n) = (m < n)"
| "value_less (VAlpha s) (VAlpha t) = (s < t)"
| "value_less (VOther c) (VOther d) = (c < d)"
| "value_less _ _ = False"

fun part_key :: "vpart \<Rightarrow> int \<times> nat \<times> string" where
  "part_key VTilde = (-1, 0, [])"
| "part_key VEnd = (0, 0, [])"
| "part_key (VNum n) = (0, Suc n, [])"
| "part_key (VAlpha s) = (1, 0, s)"
| "part_key (VOther c) = (2, 0, [c])"

lemma part_key_inj: "part_key x = part_key y \<longleftrightarrow> x = y"
  by (cases x; cases y) auto

instantiation vpart :: linorder
begin

definition less_eq_vpart :: "vpart \<Rightarrow> vpart \<Rightarrow> bool" where
  "x \<le> y \<longleftrightarrow> part_key x \<le> part_key y"

definition less_vpart :: "vpart \<Rightarrow> vpart \<Rightarrow> bool" where
  "x < y \<longleftrightarrow> part_key x < part_key y"

instance
  by standard (auto simp: less_eq_vpart_def less_vpart_def part_key_inj dest: order_antisym)

end

section \<open>explode\_version\<close>

text \<open>
  The match of \<open>(.*)$\<close>: the dot stops at a line feed, and the dollar accepts one final
  line feed. Where it fails, \<open>m.group\<close> is applied to None.
\<close>

definition line_rest :: "string \<Rightarrow> string option" where
  "line_rest s =
     (let p = takeWhile (\<lambda>c. c \<noteq> CHR 0x0A) s; q = dropWhile (\<lambda>c. c \<noteq> CHR 0x0A) s
      in if q = [] \<or> q = [CHR 0x0A] then Some p else None)"

lemma line_rest_length: "line_rest s = Some r \<Longrightarrow> length r \<le> length s"
proof -
  assume "line_rest s = Some r"
  then have "r = takeWhile (\<lambda>c. c \<noteq> CHR 0x0A) s"
    by (simp add: line_rest_def Let_def split: if_split_asm)
  then show ?thesis by (simp add: length_takeWhile_le)
qed

lemma line_rest_no_newline: "CHR 0x0A \<notin> set s \<Longrightarrow> line_rest s = Some s"
proof -
  assume "CHR 0x0A \<notin> set s"
  then have "takeWhile (\<lambda>c. c \<noteq> CHR 0x0A) s = s" and "dropWhile (\<lambda>c. c \<noteq> CHR 0x0A) s = []"
    by (auto simp: takeWhile_eq_all_conv dropWhile_eq_Nil_conv)
  then show ?thesis by (simp add: line_rest_def)
qed

function explode_version :: "string \<Rightarrow> vpart list res" where
  "explode_version [] = Inr []"
| "explode_version (c # cs) =
     (if is_digit c then
        (case line_rest (dropWhile is_digit cs) of
           None \<Rightarrow> Inl AttributeError
         | Some s \<Rightarrow> res_bind (explode_version s)
             (\<lambda>r. Inr (VNum (nat_of_digits (c # takeWhile is_digit cs)) # r)))
      else if is_alpha c then
        (case line_rest (dropWhile is_alpha cs) of
           None \<Rightarrow> Inl AttributeError
         | Some s \<Rightarrow> res_bind (explode_version s) (\<lambda>r. Inr (VAlpha (c # takeWhile is_alpha cs) # r)))
      else if c = CHR ''~'' then res_bind (explode_version cs) (\<lambda>r. Inr (VTilde # r))
      else res_bind (explode_version cs) (\<lambda>r. Inr (VOther c # r)))"
  by pat_completeness auto
termination
proof (relation "measure length", goal_cases)
  case (2 c cs s)
  then show ?case
    using line_rest_length[of "dropWhile is_digit cs" s] length_dropWhile_le[of is_digit cs] by simp
next
  case (3 c cs s)
  then show ?case
    using line_rest_length[of "dropWhile is_alpha cs" s] length_dropWhile_le[of is_alpha cs] by simp
qed auto

lemma explode_version_no_end: "explode_version s = Inr vs \<Longrightarrow> VEnd \<notin> set vs"
  by (induction s arbitrary: vs rule: explode_version.induct)
    (auto simp: res_bind_Inr_iff split: if_splits option.splits)

text \<open>Without a line feed no match fails: the parts are computed for every such string.\<close>

lemma explode_version_total: "CHR 0x0A \<notin> set s \<Longrightarrow> \<exists>vs. explode_version s = Inr vs"
proof (induction s rule: explode_version.induct)
  case (2 c cs)
  have nl: "CHR 0x0A \<notin> set (dropWhile p cs)" for p
    using "2.prems" by (auto dest: set_dropWhileD)
  note rest = line_rest_no_newline[OF nl]
  show ?case
  proof (cases "is_digit c")
    case True
    from 2(1)[OF True rest nl] obtain vs where "explode_version (dropWhile is_digit cs) = Inr vs" ..
    with True show ?thesis by (simp add: rest)
  next
    case dig: False
    show ?thesis
    proof (cases "is_alpha c")
      case True
      from 2(2)[OF dig True rest nl] obtain vs where "explode_version (dropWhile is_alpha cs) = Inr vs" ..
      with dig True show ?thesis by (simp add: rest)
    next
      case False
      from "2.prems" have "CHR 0x0A \<notin> set cs" by simp
      with 2(3,4) dig False obtain vs where "explode_version cs = Inr vs"
        by (cases "c = CHR ''~''") auto
      with dig False show ?thesis by simp
    qed
  qed
qed simp

section \<open>vercmp\_part\<close>

text \<open>\<open>va.pop(0)\<close>, or the filler when the list is used up\<close>

fun pop_part :: "vpart list \<Rightarrow> vpart" where
  "pop_part [] = VEnd"
| "pop_part (v # vs) = v"

function vercmp_lists :: "vpart list \<Rightarrow> vpart list \<Rightarrow> int" where
  "vercmp_lists va vb =
     (let a = pop_part va; b = pop_part vb
      in if a = VEnd \<and> b = VEnd then 0
         else if order_code a < order_code b then -1
         else if order_code a > order_code b then 1
         else if a = VEnd then -1
         else if b = VEnd then 1
         else if value_less a b then -1
         else if value_less b a then 1
         else vercmp_lists (tl va) (tl vb))"
  by pat_completeness auto
termination
proof (relation "measure (\<lambda>(va, vb). length va + length vb)", goal_cases)
  case (2 va vb a b)
  then show ?case by (cases va; cases vb) auto
qed simp

declare vercmp_lists.simps [simp del]

definition vercmp_part :: "string \<Rightarrow> string \<Rightarrow> int res" where
  "vercmp_part a b =
     res_bind (explode_version a) (\<lambda>va.
     res_bind (explode_version b) (\<lambda>vb. Inr (vercmp_lists va vb)))"

definition order_sign :: "'a::linorder \<Rightarrow> 'a \<Rightarrow> int" where
  "order_sign x y = (if x < y then -1 else if y < x then 1 else 0)"

lemma order_sign_simps:
  "order_sign x y < 0 \<longleftrightarrow> x < y"
  "order_sign x y \<le> 0 \<longleftrightarrow> x \<le> y"
  "order_sign x y = 0 \<longleftrightarrow> x = y"
  "0 < order_sign x y \<longleftrightarrow> y < x"
  "0 \<le> order_sign x y \<longleftrightarrow> y \<le> x"
  by (auto simp: order_sign_def)

lemma order_sign_Cons:
  "order_sign (x # xs) (y # ys) =
     (if x < y then -1 else if y < x then 1 else order_sign xs ys)"
  by (auto simp: order_sign_def)

lemma part_less_iff:
  "x < y \<longleftrightarrow> order_code x < order_code y \<or>
     order_code x = order_code y \<and> (x = VEnd \<and> y \<noteq> VEnd \<or> x \<noteq> VEnd \<and> y \<noteq> VEnd \<and> value_less x y)"
  by (cases x; cases y) (auto simp: less_vpart_def less_prod_def')

text \<open>The loop is the lexicographic order of the lists closed by the filler.\<close>

lemma vercmp_lists_lex:
  "VEnd \<notin> set va \<Longrightarrow> VEnd \<notin> set vb \<Longrightarrow>
   vercmp_lists va vb = order_sign (va @ [VEnd]) (vb @ [VEnd])"
proof (induction va vb rule: vercmp_lists.induct)
  case (1 va vb)
  show ?case
  proof (cases va)
    case va: Nil
    show ?thesis
    proof (cases vb)
      case Nil
      with va show ?thesis by (simp add: vercmp_lists.simps[of "[]" "[]"] order_sign_def)
    next
      case (Cons b bs)
      with va 1(3) show ?thesis
        by (auto simp: vercmp_lists.simps[of "[]" "b # bs"] order_sign_Cons part_less_iff Let_def)
    qed
  next
    case va: (Cons a as)
    show ?thesis
    proof (cases vb)
      case Nil
      with va 1(2) show ?thesis
        by (auto simp: vercmp_lists.simps[of "a # as" "[]"] order_sign_Cons part_less_iff Let_def)
    next
      case (Cons b bs)
      with va 1(2,3) have ne: "a \<noteq> VEnd" "b \<noteq> VEnd" "VEnd \<notin> set as" "VEnd \<notin> set bs" by auto
      show ?thesis
      proof (cases "a < b \<or> b < a")
        case True
        with va Cons ne show ?thesis
          by (auto simp: vercmp_lists.simps[of "a # as" "b # bs"] order_sign_Cons part_less_iff Let_def)
      next
        case False
        with ne have "vercmp_lists va vb = vercmp_lists as bs"
          by (auto simp: va Cons vercmp_lists.simps[of "a # as" "b # bs"] part_less_iff Let_def)
        moreover from False ne 1(1)[OF refl refl] have "vercmp_lists as bs = order_sign (as @ [VEnd]) (bs @ [VEnd])"
          by (auto simp: va Cons part_less_iff)
        ultimately show ?thesis using False by (simp add: va Cons order_sign_Cons)
      qed
    qed
  qed
qed

section \<open>The contract of a comparison\<close>

text \<open>
  What a client of a three-way comparison relies on: exchanging the arguments negates the
  result, and the order it defines is transitive, strictly so where one of the two steps is
  strict. The comparison may raise; the laws speak of the calls that return, and promise that
  the comparison of the outer pair returns as well.
\<close>

locale three_way =
  fixes cmp :: "'a \<Rightarrow> 'a \<Rightarrow> int res"
  assumes cmp_swap: "cmp a b = Inr r \<Longrightarrow> cmp b a = Inr (- r)"
    and cmp_trans: "cmp a b = Inr r \<Longrightarrow> r \<le> 0 \<Longrightarrow> cmp b c = Inr s \<Longrightarrow> s \<le> 0 \<Longrightarrow>
      \<exists>t. cmp a c = Inr t \<and> t \<le> 0 \<and> (t = 0 \<longleftrightarrow> r = 0 \<and> s = 0)"
begin

lemma cmp_self: "cmp a a = Inr r \<Longrightarrow> r = 0"
  using cmp_swap[of a a r] by simp

lemma cmp_trans_ge:
  assumes "cmp a b = Inr r" and "0 \<le> r" and "cmp b c = Inr s" and "0 \<le> s"
  shows "\<exists>t. cmp a c = Inr t \<and> 0 \<le> t \<and> (t = 0 \<longleftrightarrow> r = 0 \<and> s = 0)"
proof -
  have "cmp c b = Inr (- s)" "cmp b a = Inr (- r)"
    using assms(1,3) by (auto intro: cmp_swap)
  from cmp_trans[OF this(1) _ this(2)] assms(2,4)
  obtain t where t: "cmp c a = Inr t" "t \<le> 0" "t = 0 \<longleftrightarrow> s = 0 \<and> r = 0" by auto
  from cmp_swap[OF t(1)] t(2,3) show ?thesis by auto
qed

end

text \<open>A comparison by two keys, the second consulted where the first ties\<close>

definition then_cmp :: "('a \<Rightarrow> 'a \<Rightarrow> int res) \<Rightarrow> ('a \<Rightarrow> 'a \<Rightarrow> int res) \<Rightarrow> 'a \<Rightarrow> 'a \<Rightarrow> int res" where
  "then_cmp c1 c2 a b = res_bind (c1 a b) (\<lambda>r. if r = 0 then c2 a b else Inr r)"

lemma then_cmp_three_way:
  assumes "three_way c1" and "three_way c2"
  shows "three_way (then_cmp c1 c2)"
proof
  fix a b r
  assume "then_cmp c1 c2 a b = Inr r"
  then obtain x where x: "c1 a b = Inr x" "(if x = 0 then c2 a b else Inr x) = Inr r"
    unfolding then_cmp_def by (rule res_bind_Inr_E)
  with three_way.cmp_swap[OF assms(1) x(1)] three_way.cmp_swap[OF assms(2)]
  show "then_cmp c1 c2 b a = Inr (- r)"
    by (auto simp: then_cmp_def split: if_splits)
next
  fix a b c r s
  assume "then_cmp c1 c2 a b = Inr r" and r: "r \<le> 0" and "then_cmp c1 c2 b c = Inr s" and s: "s \<le> 0"
  then obtain x y where x: "c1 a b = Inr x" "(if x = 0 then c2 a b else Inr x) = Inr r"
    and y: "c1 b c = Inr y" "(if y = 0 then c2 b c else Inr y) = Inr s"
    unfolding then_cmp_def by (auto elim!: res_bind_Inr_E)
  have le: "x \<le> 0" "y \<le> 0" using x(2) y(2) r s by (auto split: if_splits)
  with three_way.cmp_trans[OF assms(1) x(1) _ y(1)]
  obtain z where z: "c1 a c = Inr z" "z \<le> 0" "z = 0 \<longleftrightarrow> x = 0 \<and> y = 0" by auto
  show "\<exists>t. then_cmp c1 c2 a c = Inr t \<and> t \<le> 0 \<and> (t = 0 \<longleftrightarrow> r = 0 \<and> s = 0)"
  proof (cases "z = 0")
    case True
    with z(3) x(2) y(2) have "c2 a b = Inr r" "c2 b c = Inr s" by auto
    from three_way.cmp_trans[OF assms(2) this(1) r this(2) s] z(1) True
    show ?thesis by (auto simp: then_cmp_def)
  next
    case False
    with z x(2) y(2) le show ?thesis by (auto simp: then_cmp_def split: if_splits)
  qed
qed

lemma key_cmp_three_way:
  assumes "\<And>a b. cmp a b = res_bind (f a) (\<lambda>x. res_bind (f b) (\<lambda>y. Inr (g x y)))"
    and swap: "\<And>a b x y. f a = Inr x \<Longrightarrow> f b = Inr y \<Longrightarrow> g y x = - g x y"
    and trans: "\<And>a b c x y z. f a = Inr x \<Longrightarrow> f b = Inr y \<Longrightarrow> f c = Inr z \<Longrightarrow>
      g x y \<le> 0 \<Longrightarrow> g y z \<le> 0 \<Longrightarrow> g x z \<le> 0 \<and> (g x z = 0 \<longleftrightarrow> g x y = 0 \<and> g y z = 0)"
  shows "three_way cmp"
proof
  show "cmp b a = Inr (- r)" if ab: "cmp a b = Inr r" for a b r
  proof -
    from ab obtain x y where f: "f a = Inr x" "f b = Inr y" and r: "r = g x y"
      by (auto simp: assms(1) res_bind_Inr_iff)
    have "cmp b a = Inr (g y x)" by (simp add: assms(1) f)
    then show ?thesis using swap[OF f] r by simp
  qed
  show "\<exists>t. cmp a c = Inr t \<and> t \<le> 0 \<and> (t = 0 \<longleftrightarrow> r = 0 \<and> s = 0)"
    if ab: "cmp a b = Inr r" "r \<le> 0" and bc: "cmp b c = Inr s" "s \<le> 0" for a b c r s
  proof -
    from ab bc obtain x y z where f: "f a = Inr x" "f b = Inr y" "f c = Inr z"
      and g: "r = g x y" "s = g y z"
      by (auto simp: assms(1) res_bind_Inr_iff)
    from trans[OF f] ab(2) bc(2) have "g x z \<le> 0 \<and> (g x z = 0 \<longleftrightarrow> r = 0 \<and> s = 0)"
      by (simp add: g)
    moreover have "cmp a c = Inr (g x z)" by (simp add: assms(1) f)
    ultimately show ?thesis by blast
  qed
qed

interpretation part_order: three_way vercmp_part
proof (rule key_cmp_three_way[where f = explode_version and g = vercmp_lists])
  show "vercmp_part a b = res_bind (explode_version a)
      (\<lambda>x. res_bind (explode_version b) (\<lambda>y. Inr (vercmp_lists x y)))" for a b
    by (rule vercmp_part_def)
next
  fix a b x y
  assume "explode_version a = Inr x" "explode_version b = Inr y"
  then show "vercmp_lists y x = - vercmp_lists x y"
    by (auto simp: vercmp_lists_lex explode_version_no_end order_sign_def)
next
  fix a b c x y z
  assume ex: "explode_version a = Inr x" "explode_version b = Inr y" "explode_version c = Inr z"
  note lex = vercmp_lists_lex[OF explode_version_no_end explode_version_no_end]
  assume "vercmp_lists x y \<le> 0" "vercmp_lists y z \<le> 0"
  then show "vercmp_lists x z \<le> 0 \<and>
      (vercmp_lists x z = 0 \<longleftrightarrow> vercmp_lists x y = 0 \<and> vercmp_lists y z = 0)"
    unfolding lex[OF ex(1,2)] lex[OF ex(2,3)] lex[OF ex(1,3)] order_sign_simps
    by auto
qed

section \<open>Whole versions\<close>

text \<open>
  A version is (PE, PV, PR). The epoch reaches \<open>vercmp\<close> as a string from the recipe cache,
  as an int from \<open>split_version\<close>, or as None.
\<close>

datatype epoch = NoEpoch | IntEpoch int | StrEpoch string

type_synonym ver = "epoch \<times> string \<times> string"

text \<open>\<open>int(e or 0)\<close>\<close>

fun epoch_int :: "epoch \<Rightarrow> int res" where
  "epoch_int NoEpoch = Inr 0"
| "epoch_int (IntEpoch i) = Inr i"
| "epoch_int (StrEpoch s) = (if s = [] then Inr 0 else py_int s)"

fun vercmp :: "ver \<Rightarrow> ver \<Rightarrow> int res" where
  "vercmp (ea, va, ra) (eb, vb, rb) =
     res_bind (epoch_int ea) (\<lambda>i.
     res_bind (epoch_int eb) (\<lambda>j.
     res_bind (if i - j = 0 then vercmp_part va vb else Inr (i - j)) (\<lambda>r.
     if r = 0 then vercmp_part ra rb else Inr r)))"

definition split_version :: "string \<Rightarrow> ver res" where
  "split_version s0 =
     (let s = strip_chars (\<lambda>c. c \<in> set '' <>='') s0
      in res_bind
           (if CHR '':'' \<in> set s
            then res_bind (py_int (split_on CHR '':'' s ! 0))
                   (\<lambda>e. Inr (e, split_on CHR '':'' s ! 1))
            else Inr (0, s))
           (\<lambda>(e, s).
              if CHR ''-'' \<in> set s
              then Inr (IntEpoch e, rsplit1 CHR ''-'' s ! 0, rsplit1 CHR ''-'' s ! 1)
              else Inr (IntEpoch e, s, [])))"

definition vercmp_string :: "string \<Rightarrow> string \<Rightarrow> int res" where
  "vercmp_string a b =
     res_bind (split_version a) (\<lambda>ta. res_bind (split_version b) (\<lambda>tb. vercmp ta tb))"

definition vercmp_string_op :: "string \<Rightarrow> string \<Rightarrow> string \<Rightarrow> bool res" where
  "vercmp_string_op a b op =
     res_bind (vercmp_string a b) (\<lambda>r.
       if op \<in> set [''='', ''==''] then Inr (r = 0)
       else if op = ''<='' then Inr (r \<le> 0)
       else if op = ''>='' then Inr (r \<ge> 0)
       else if op \<in> set [''>'', ''>>''] then Inr (r > 0)
       else if op \<in> set [''<'', ''<<''] then Inr (r < 0)
       else if op = ''!='' then Inr (r \<noteq> 0)
       else Inl (VersionStringException (''Unsupported comparison operator \"'' @ op @ ''\"'')))"

text \<open>The comparison of versions is the epoch, then PV, then PR.\<close>

definition epoch_cmp :: "ver \<Rightarrow> ver \<Rightarrow> int res" where
  "epoch_cmp a b = res_bind (epoch_int (fst a)) (\<lambda>i. res_bind (epoch_int (fst b)) (\<lambda>j. Inr (i - j)))"

lemma vercmp_keys:
  "vercmp a b =
     then_cmp epoch_cmp
       (then_cmp (\<lambda>a b. vercmp_part (fst (snd a)) (fst (snd b)))
          (\<lambda>a b. vercmp_part (snd (snd a)) (snd (snd b)))) a b"
  by (cases a; cases b)
    (auto simp: then_cmp_def epoch_cmp_def res_bind_def split: sum.splits)

lemma part_three_way: "three_way (\<lambda>a b. vercmp_part (f a) (f b))"
  using part_order.cmp_swap part_order.cmp_trans by unfold_locales blast+

interpretation ver_order: three_way vercmp
proof -
  have "three_way epoch_cmp"
    by (rule key_cmp_three_way[where f = "\<lambda>a. epoch_int (fst a)" and g = "\<lambda>i j. i - j"])
      (auto simp: epoch_cmp_def)
  then have "three_way (then_cmp epoch_cmp
       (then_cmp (\<lambda>a b. vercmp_part (fst (snd a)) (fst (snd b)))
          (\<lambda>a b. vercmp_part (snd (snd a)) (snd (snd b)))))"
    by (intro then_cmp_three_way part_three_way)
  then show "three_way vercmp"
    by (simp add: vercmp_keys[abs_def])
qed

section \<open>Facts about the strings\<close>

lemma takeWhile_dropWhile_stop:
  "\<not> p c \<Longrightarrow>
   takeWhile p (v @ c # s) = takeWhile p v \<and> dropWhile p (v @ c # s) = dropWhile p v @ c # s"
  by (induction v) (auto split: if_splits)

lemma explode_version_tilde:
  "CHR 0x0A \<notin> set v \<Longrightarrow> explode_version v = Inr va \<Longrightarrow> explode_version (CHR ''~'' # s) = Inr vs \<Longrightarrow>
   CHR 0x0A \<notin> set s \<Longrightarrow> explode_version (v @ CHR ''~'' # s) = Inr (va @ vs)"
proof (induction v arbitrary: va rule: explode_version.induct)
  case (2 c cs)
  have nd: "\<not> is_digit CHR ''~''" "\<not> is_alpha CHR ''~''"
    by (simp_all add: is_digit_def is_alpha_def)
  note stop = takeWhile_dropWhile_stop[of _ "CHR ''~''" cs s]
  have nl: "CHR 0x0A \<notin> set (dropWhile p cs)" "CHR 0x0A \<notin> set (dropWhile p cs @ CHR ''~'' # s)" for p
    using "2.prems" by (auto dest: set_dropWhileD)
  note rest = line_rest_no_newline[OF nl(1)] line_rest_no_newline[OF nl(2)]
  show ?case
  proof (cases "is_digit c")
    case True
    with "2.prems"(2) obtain r where r: "explode_version (dropWhile is_digit cs) = Inr r"
      "va = VNum (nat_of_digits (c # takeWhile is_digit cs)) # r"
      by (auto simp: rest res_bind_Inr_iff)
    from 2(1)[OF True rest(1) nl(1) r(1) "2.prems"(3,4)] True r(2) stop nd show ?thesis
      by (simp add: rest)
  next
    case dig: False
    show ?thesis
    proof (cases "is_alpha c")
      case True
      with dig "2.prems"(2) obtain r where r: "explode_version (dropWhile is_alpha cs) = Inr r"
        "va = VAlpha (c # takeWhile is_alpha cs) # r"
        by (auto simp: rest res_bind_Inr_iff)
      from 2(2)[OF dig True rest(1) nl(1) r(1) "2.prems"(3,4)] True dig r(2) stop nd show ?thesis
        by (simp add: rest)
    next
      case False
      from "2.prems"(1) have "CHR 0x0A \<notin> set cs" by simp
      with 2(3,4) dig False "2.prems"(2,3,4) show ?thesis
        by (cases "c = CHR ''~''") (auto simp: res_bind_Inr_iff)
    qed
  qed
qed simp

lemma digits_underscores_digits:
  "ds \<noteq> [] \<Longrightarrow> list_all is_digit ds \<Longrightarrow> digits_underscores ds = Some ds"
proof (induction ds rule: digits_underscores.induct)
  case (3 c d cs)
  then have "d \<noteq> CHR ''_''" by (auto simp: is_digit_def)
  with 3 show ?case by simp
qed auto

lemma digit_not_space: "is_digit c \<Longrightarrow> \<not> py_space c"
  by (auto simp: is_digit_def py_space_def Let_def)

lemma strip_chars_id:
  "s \<noteq> [] \<Longrightarrow> \<not> p (hd s) \<Longrightarrow> \<not> p (last s) \<Longrightarrow> strip_chars p s = s"
proof -
  assume a: "s \<noteq> []" "\<not> p (hd s)" "\<not> p (last s)"
  then have "dropWhile p s = s" by (cases s) auto
  moreover from a have "dropWhile p (rev s) = rev s"
    by (cases "rev s") (auto simp: hd_rev[symmetric])
  ultimately show ?thesis by (simp add: strip_chars_def lstrip_chars_def rstrip_chars_def)
qed

lemma py_int_digits:
  assumes "ds \<noteq> []" and "list_all is_digit ds"
  shows "py_int ds = Inr (int (nat_of_digits ds))"
proof -
  have "hd ds \<in> set ds" "last ds \<in> set ds" using assms(1) by auto
  with assms have hl: "is_digit (hd ds)" "is_digit (last ds)" by (auto simp: list_all_iff)
  then have "strip_chars py_space ds = ds"
    using assms(1) by (intro strip_chars_id) (auto dest: digit_not_space)
  moreover from hl(1) have "hd ds \<noteq> CHR ''-''" "hd ds \<noteq> CHR ''+''"
    by (auto simp: is_digit_def)
  moreover obtain c cs where "ds = c # cs" using assms(1) by (cases ds) auto
  ultimately show ?thesis
    using digits_underscores_digits[OF assms] by (auto simp: py_int_def Let_def)
qed

section \<open>Properties\<close>

text \<open>C38: the comparison of versions is a total preorder on the versions it can read:
  swapping the arguments negates the result, and two steps in the same direction compose,
  strictly as soon as one of them is strict.\<close>

theorem vercmp_preorder:
  "(vercmp a b = Inr r \<longrightarrow> vercmp b a = Inr (- r)) \<and>
   (vercmp a b = Inr r \<and> r \<le> 0 \<and> vercmp b c = Inr s \<and> s \<le> 0 \<longrightarrow>
      (\<exists>t. vercmp a c = Inr t \<and> t \<le> 0 \<and> (t = 0 \<longleftrightarrow> r = 0 \<and> s = 0)))"
  using ver_order.cmp_swap ver_order.cmp_trans by blast

theorem vercmp_preorder_witness:
  "vercmp (StrEpoch ''1'', ''0.9'', ''r0'') (NoEpoch, ''1.10'', ''r1'') = Inr 1 \<and>
   vercmp (NoEpoch, ''1.2'', ''r0'') (NoEpoch, ''1.10'', ''r0'') = Inr (-1) \<and>
   vercmp (NoEpoch, ''1.10'', ''r0'') (NoEpoch, ''1.10a'', ''r0'') = Inr (-1) \<and>
   (\<exists>t \<le> 0. vercmp (NoEpoch, ''1.2'', ''r0'') (NoEpoch, ''1.10a'', ''r0'') = Inr t)"
proof -
  have 1: "vercmp (NoEpoch, ''1.2'', ''r0'') (NoEpoch, ''1.10'', ''r0'') = Inr (-1)"
    and 2: "vercmp (NoEpoch, ''1.10'', ''r0'') (NoEpoch, ''1.10a'', ''r0'') = Inr (-1)"
    and 3: "vercmp (StrEpoch ''1'', ''0.9'', ''r0'') (NoEpoch, ''1.10'', ''r1'') = Inr 1"
    by code_simp+
  show ?thesis
    using vercmp_preorder[of "(NoEpoch, ''1.2'', ''r0'')" "(NoEpoch, ''1.10'', ''r0'')" "-1"
        "(NoEpoch, ''1.10a'', ''r0'')" "-1"] 1 2 3
    by auto
qed

text \<open>on strings without a line feed \<open>vercmp_part\<close> never raises and is the
  lexicographic order of the exploded parts, each list closed by the filler of code 0: numbers
  by value, letters after numbers, other characters last, a tilde before the end.\<close>

theorem vercmp_part_lexicographic:
  assumes "CHR 0x0A \<notin> set a" and "CHR 0x0A \<notin> set b"
  shows "\<exists>va vb. explode_version a = Inr va \<and> explode_version b = Inr vb \<and>
    vercmp_part a b = Inr (order_sign (va @ [VEnd]) (vb @ [VEnd]))"
proof -
  obtain va vb where ex: "explode_version a = Inr va" "explode_version b = Inr vb"
    using explode_version_total assms by blast
  then show ?thesis
    by (simp add: vercmp_part_def vercmp_lists_lex explode_version_no_end)
qed

theorem vercmp_part_lexicographic_witness:
  "\<exists>va vb. explode_version ''2.10'' = Inr va \<and> explode_version ''2.9'' = Inr vb \<and>
    vercmp_part ''2.10'' ''2.9'' = Inr (order_sign (va @ [VEnd]) (vb @ [VEnd]))"
  by (rule vercmp_part_lexicographic) simp_all

text \<open>a pre-release marked with a tilde sorts before the release it leads to.\<close>

theorem tilde_sorts_before:
  assumes "CHR 0x0A \<notin> set v" and "CHR 0x0A \<notin> set s"
  shows "vercmp_part (v @ CHR ''~'' # s) v = Inr (-1) \<and> vercmp_part v (v @ CHR ''~'' # s) = Inr 1"
proof -
  obtain va where va: "explode_version v = Inr va"
    using explode_version_total[OF assms(1)] ..
  obtain vs where vs: "explode_version s = Inr vs"
    using explode_version_total[OF assms(2)] ..
  have "explode_version (CHR ''~'' # s) = Inr (VTilde # vs)"
    using vs by (simp add: is_digit_def is_alpha_def)
  from explode_version_tilde[OF assms(1) va this assms(2)]
  have tl: "explode_version (v @ CHR ''~'' # s) = Inr (va @ VTilde # vs)" .
  have less: "(va @ VTilde # vs) @ [VEnd] < va @ [VEnd]"
    by (induction va) (auto simp: less_vpart_def)
  have "vercmp_lists (va @ VTilde # vs) va = -1"
    using less by (subst vercmp_lists_lex[OF explode_version_no_end[OF tl] explode_version_no_end[OF va]])
      (simp add: order_sign_def)
  then have "vercmp_part (v @ CHR ''~'' # s) v = Inr (-1)"
    by (simp add: vercmp_part_def tl va)
  with part_order.cmp_swap[OF this] show ?thesis by simp
qed

theorem tilde_sorts_before_witness:
  "vercmp_part ''1.0~rc1'' ''1.0'' = Inr (-1) \<and> vercmp_part ''1.0'' ''1.0~rc1'' = Inr 1"
  using tilde_sorts_before[of "''1.0''" "''rc1''"] by simp

text \<open>\<open>split_version\<close> takes apart a string \<open>PE:PV-PR\<close> into the three fields it was
  built from, the last hyphen separating the revision.\<close>

theorem split_version_roundtrip:
  assumes "ds \<noteq> []" and "list_all is_digit ds" and "CHR '':'' \<notin> set v" and "CHR '':'' \<notin> set r"
    and "CHR ''-'' \<notin> set r" and "list_all (\<lambda>c. c \<notin> set '' <>='') r"
  shows "split_version (ds @ CHR '':'' # v @ CHR ''-'' # r) =
    Inr (IntEpoch (int (nat_of_digits ds)), v, r)"
proof -
  let ?s = "ds @ CHR '':'' # v @ CHR ''-'' # r"
  have "hd ds \<in> set ds" using assms(1) by auto
  with assms(2) have "is_digit (hd ds)" by (auto simp: list_all_iff)
  then have "hd ds \<notin> set '' <>=''" by (auto simp: is_digit_def)
  moreover have "last ?s \<notin> set '' <>=''"
    using assms(6) by (cases "r = []") (auto simp: list_all_iff)
  ultimately have strip: "strip_chars (\<lambda>c. c \<in> set '' <>='') ?s = ?s"
    using assms(1) by (intro strip_chars_id) auto
  have "CHR '':'' \<notin> set ds" using assms(2) by (auto simp: list_all_iff is_digit_def)
  then have split: "split_on CHR '':'' ?s = [ds, v @ CHR ''-'' # r]"
    using assms(3,4) by (simp add: split_on_append)
  show ?thesis
    unfolding split_version_def strip Let_def split
    using assms(5) by (simp add: py_int_digits[OF assms(1,2)])
qed

theorem split_version_roundtrip_witness:
  "split_version ''2:1.4-rc1-r3'' = Inr (IntEpoch 2, ''1.4-rc1'', ''r3'')"
  using split_version_roundtrip[of "''2''" "''1.4-rc1''" "''r3''"]
  by (simp add: is_digit_def nat_of_digits_def digit_val_def)

text \<open>\<open>vercmp_string_op\<close> decides each documented operator by the sign of
  \<open>vercmp_string\<close> and raises VersionStringException, with the operator in its message, on
  every other one.\<close>

theorem vercmp_string_op_decides:
  assumes "vercmp_string a b = Inr r"
  shows "vercmp_string_op a b op =
    (if op = ''='' \<or> op = ''=='' then Inr (r = 0)
     else if op = ''!='' then Inr (r \<noteq> 0)
     else if op = ''<'' \<or> op = ''<<'' then Inr (r < 0)
     else if op = ''<='' then Inr (\<not> r > 0)
     else if op = ''>'' \<or> op = ''>>'' then Inr (r > 0)
     else if op = ''>='' then Inr (\<not> r < 0)
     else Inl (VersionStringException (''Unsupported comparison operator \"'' @ op @ ''\"'')))"
  using assms by (auto simp: vercmp_string_op_def)

theorem vercmp_string_op_decides_witness:
  "vercmp_string_op ''1.0-r0'' ''1.0-r1'' ''<<'' = Inr True \<and>
   vercmp_string_op ''1.0-r0'' ''1.0-r1'' ''~'' =
     Inl (VersionStringException ''Unsupported comparison operator \"~\"'')"
proof -
  have r: "vercmp_string ''1.0-r0'' ''1.0-r1'' = Inr (-1)" by code_simp
  show ?thesis
    using vercmp_string_op_decides[OF r, of "''<<''"] vercmp_string_op_decides[OF r, of "''~''"] by simp
qed

end
