(* ===== verification/Py_Action.thy ===== *)
theory Py_Action
  imports Py_Prelude
begin

text \<open>
  Actions: code that reads and writes the state of an object and may raise. An exception keeps
  the state reached so far, since the callers of this development catch exceptions and go on
  with the partly updated object. \<open>act_for\<close> is a for loop over a list computed before the
  loop starts, \<open>act_catch\<close> is \<open>try ... except\<close>.

  \<open>triple P m Q E\<close>: from a state in \<open>P\<close>, a normal return satisfies \<open>Q\<close> and an exception
  satisfies \<open>E\<close>. \<open>keeps I m\<close> is the special case of an invariant that holds either way;
  the rules in \<open>triple_intros\<close> follow the structure of an action.
\<close>

type_synonym ('s, 'a) act = "'s \<Rightarrow> 'a res \<times> 's"

definition act_return :: "'a \<Rightarrow> ('s, 'a) act" where
  "act_return x = (\<lambda>s. (Inr x, s))"

definition act_raise :: "exn \<Rightarrow> ('s, 'a) act" where
  "act_raise e = (\<lambda>s. (Inl e, s))"

definition act_bind :: "('s, 'a) act \<Rightarrow> ('a \<Rightarrow> ('s, 'b) act) \<Rightarrow> ('s, 'b) act" where
  "act_bind m f = (\<lambda>s. case m s of (r, t) \<Rightarrow> (case r of Inl e \<Rightarrow> (Inl e, t) | Inr x \<Rightarrow> f x t))"

definition act_then :: "('s, 'a) act \<Rightarrow> ('s, 'b) act \<Rightarrow> ('s, 'b) act" where
  "act_then m n = act_bind m (\<lambda>_. n)"

definition act_gets :: "('s \<Rightarrow> 'a) \<Rightarrow> ('s, 'a) act" where
  "act_gets f = (\<lambda>s. (Inr (f s), s))"

definition act_read :: "('s \<Rightarrow> 'a res) \<Rightarrow> ('s, 'a) act" where
  "act_read f = (\<lambda>s. (f s, s))"

definition act_modify :: "('s \<Rightarrow> 's) \<Rightarrow> ('s, unit) act" where
  "act_modify f = (\<lambda>s. (Inr (), f s))"

definition act_when :: "bool \<Rightarrow> ('s, unit) act \<Rightarrow> ('s, unit) act" where
  "act_when b m = (if b then m else act_return ())"

definition act_lift :: "'a res \<Rightarrow> ('s, 'a) act" where
  "act_lift r = (\<lambda>s. (r, s))"

definition act_catch :: "('s, 'a) act \<Rightarrow> (exn \<Rightarrow> ('s, 'a) act) \<Rightarrow> ('s, 'a) act" where
  "act_catch m h = (\<lambda>s. case m s of (r, t) \<Rightarrow> (case r of Inl e \<Rightarrow> h e t | Inr x \<Rightarrow> (Inr x, t)))"

text \<open>An action on a part of the state\<close>

definition act_zoom :: "('s \<Rightarrow> 't) \<Rightarrow> ('t \<Rightarrow> 's \<Rightarrow> 's) \<Rightarrow> ('t, 'a) act \<Rightarrow> ('s, 'a) act" where
  "act_zoom part put m = (\<lambda>s. case m (part s) of (r, t) \<Rightarrow> (r, put t s))"

fun act_for :: "'x list \<Rightarrow> ('x \<Rightarrow> ('s, unit) act) \<Rightarrow> ('s, unit) act" where
  "act_for [] f = act_return ()"
| "act_for (x # xs) f = act_then (f x) (act_for xs f)"

text \<open>A loop whose body may leave the function: \<open>Some r\<close> is \<open>return r\<close>.\<close>

fun act_search :: "'x list \<Rightarrow> ('x \<Rightarrow> ('s, 'r option) act) \<Rightarrow> ('s, 'r option) act" where
  "act_search [] f = act_return None"
| "act_search (x # xs) f =
     act_bind (f x) (\<lambda>r. case r of None \<Rightarrow> act_search xs f | Some y \<Rightarrow> act_return (Some y))"

text \<open>A comprehension whose body acts, and the sum of what a loop's rounds count.\<close>

fun act_map :: "('x \<Rightarrow> ('s, 'a) act) \<Rightarrow> 'x list \<Rightarrow> ('s, 'a list) act" where
  "act_map f [] = act_return []"
| "act_map f (x # xs) =
     act_bind (f x) (\<lambda>y. act_bind (act_map f xs) (\<lambda>ys. act_return (y # ys)))"

fun act_sum :: "('x \<Rightarrow> ('s, nat) act) \<Rightarrow> 'x list \<Rightarrow> ('s, nat) act" where
  "act_sum f [] = act_return 0"
| "act_sum f (x # xs) =
     act_bind (f x) (\<lambda>n. act_bind (act_sum f xs) (\<lambda>m. act_return (n + m)))"

lemma act_run_simps [act_simps]:
  "act_return x s = (Inr x, s)"
  "act_raise e s = (Inl e, s)"
  "act_gets g s = (Inr (g s), s)"
  "act_modify h s = (Inr (), h s)"
  "act_lift r s = (r, s)"
  "act_read q s = (q s, s)"
  "act_bind m f s = (case m s of (r, t) \<Rightarrow> (case r of Inl e \<Rightarrow> (Inl e, t) | Inr x \<Rightarrow> f x t))"
  "act_then m n s = (case m s of (r, t) \<Rightarrow> (case r of Inl e \<Rightarrow> (Inl e, t) | Inr x \<Rightarrow> n t))"
  "act_when b w s = (if b then w s else (Inr (), s))"
  "act_catch m k s = (case m s of (r, t) \<Rightarrow> (case r of Inl e \<Rightarrow> k e t | Inr x \<Rightarrow> (Inr x, t)))"
  by (simp_all add: act_return_def act_raise_def act_gets_def act_modify_def act_lift_def act_read_def
      act_bind_def act_then_def act_when_def act_catch_def)

section \<open>Triples\<close>

definition triple ::
  "('s \<Rightarrow> bool) \<Rightarrow> ('s, 'a) act \<Rightarrow> ('a \<Rightarrow> 's \<Rightarrow> bool) \<Rightarrow> (exn \<Rightarrow> 's \<Rightarrow> bool) \<Rightarrow> bool" where
  "triple P m Q E \<longleftrightarrow>
     (\<forall>s. P s \<longrightarrow> (case m s of (r, t) \<Rightarrow> (case r of Inl e \<Rightarrow> E e t | Inr x \<Rightarrow> Q x t)))"

definition keeps :: "('s \<Rightarrow> bool) \<Rightarrow> ('s, 'a) act \<Rightarrow> bool" where
  "keeps I m \<longleftrightarrow> triple I m (\<lambda>_. I) (\<lambda>_. I)"

lemma triple_returnI [triple_intros]: "(\<And>s. P s \<Longrightarrow> Q x s) \<Longrightarrow> triple P (act_return x) Q E"
  by (simp add: triple_def act_simps)

lemma triple_raiseI [triple_intros]: "(\<And>s. P s \<Longrightarrow> E e s) \<Longrightarrow> triple P (act_raise e) Q E"
  by (simp add: triple_def act_simps)

lemma triple_liftI [triple_intros]:
  "(\<And>s x. P s \<Longrightarrow> r = Inr x \<Longrightarrow> Q x s) \<Longrightarrow> (\<And>s e. P s \<Longrightarrow> r = Inl e \<Longrightarrow> E e s) \<Longrightarrow>
   triple P (act_lift r) Q E"
  by (auto simp: triple_def act_simps split: sum.splits)

lemma triple_getsI [triple_intros]: "(\<And>s. P s \<Longrightarrow> Q (f s) s) \<Longrightarrow> triple P (act_gets f) Q E"
  by (simp add: triple_def act_simps)

lemma triple_readI [triple_intros]:
  "(\<And>s x. P s \<Longrightarrow> f s = Inr x \<Longrightarrow> Q x s) \<Longrightarrow> (\<And>s e. P s \<Longrightarrow> f s = Inl e \<Longrightarrow> E e s) \<Longrightarrow>
   triple P (act_read f) Q E"
  by (auto simp: triple_def act_simps split: sum.splits)

lemma triple_modifyI [triple_intros]: "(\<And>s. P s \<Longrightarrow> Q () (f s)) \<Longrightarrow> triple P (act_modify f) Q E"
  by (simp add: triple_def act_simps)

lemma triple_bindI:
  "triple P m R E \<Longrightarrow> (\<And>x. triple (R x) (f x) Q E) \<Longrightarrow> triple P (act_bind m f) Q E"
  unfolding triple_def by (fastforce simp: act_simps split: prod.splits sum.splits)

lemma triple_thenI:
  "triple P m (\<lambda>_. R) E \<Longrightarrow> triple R n Q E \<Longrightarrow> triple P (act_then m n) Q E"
  unfolding act_then_def by (rule triple_bindI)

lemma triple_bind_getsI [triple_intros]:
  "(\<And>x. triple (\<lambda>s. P s \<and> x = g s) (f x) Q E) \<Longrightarrow> triple P (act_bind (act_gets g) f) Q E"
  by (simp add: triple_def act_simps)

lemma triple_bind_liftI [triple_intros]:
  "(\<And>x. r = Inr x \<Longrightarrow> triple P (f x) Q E) \<Longrightarrow> (\<And>e s. r = Inl e \<Longrightarrow> P s \<Longrightarrow> E e s) \<Longrightarrow>
   triple P (act_bind (act_lift r) f) Q E"
  by (auto simp: triple_def act_simps split: sum.splits)

lemma triple_whenI [triple_intros]:
  "(b \<Longrightarrow> triple P m (\<lambda>_. Q ()) E) \<Longrightarrow> (\<And>s. \<not> b \<Longrightarrow> P s \<Longrightarrow> Q () s) \<Longrightarrow> triple P (act_when b m) Q E"
  by (auto simp: triple_def act_simps)

lemma triple_if:
  "triple P m Q E \<Longrightarrow> triple P n Q E \<Longrightarrow> triple P (if b then m else n) Q E"
  by simp

lemma triple_catchI:
  "triple P m Q E' \<Longrightarrow> (\<And>e. triple (E' e) (h e) Q E) \<Longrightarrow> triple P (act_catch m h) Q E"
  unfolding triple_def by (fastforce simp: act_simps split: prod.splits sum.splits)

lemma triple_forI:
  "(\<And>x. x \<in> set xs \<Longrightarrow> triple I (f x) (\<lambda>_. I) E) \<Longrightarrow> triple I (act_for xs f) (\<lambda>_. I) E"
  by (induction xs) (auto intro: triple_thenI triple_returnI)

lemma triple_searchI:
  "(\<And>x. x \<in> set xs \<Longrightarrow> triple I (f x) (\<lambda>r. if r = None then I else Q r) E) \<Longrightarrow>
   (\<And>s. I s \<Longrightarrow> Q None s) \<Longrightarrow>
   triple I (act_search xs f) Q E"
proof (induction xs)
  case (Cons x xs)
  have "triple (if r = None then I else Q r)
      (case r of None \<Rightarrow> act_search xs f | Some y \<Rightarrow> act_return (Some y)) Q E" for r
    using Cons by (cases r) (auto intro: triple_returnI)
  with Cons.prems(1) show ?case by (auto intro: triple_bindI)
qed (auto intro: triple_returnI)

lemma triple_weaken:
  "triple P' m Q' E' \<Longrightarrow> (\<And>s. P s \<Longrightarrow> P' s) \<Longrightarrow> (\<And>x s. Q' x s \<Longrightarrow> Q x s) \<Longrightarrow>
   (\<And>e s. E' e s \<Longrightarrow> E e s) \<Longrightarrow> triple P m Q E"
  unfolding triple_def by (fastforce split: prod.splits sum.splits)

lemma triple_conj:
  "triple P m Q E \<Longrightarrow> triple P' m Q' E' \<Longrightarrow>
   triple (\<lambda>s. P s \<and> P' s) m (\<lambda>x s. Q x s \<and> Q' x s) (\<lambda>e s. E e s \<and> E' e s)"
  unfolding triple_def by (fastforce split: prod.splits sum.splits)

lemma triple_pre_const: "(A \<Longrightarrow> triple P m Q E) \<Longrightarrow> triple (\<lambda>s. P s \<and> A) m Q E"
  by (auto simp: triple_def)

lemma triple_run:
  assumes "triple P m Q E" and "P s"
  shows "(m s = (Inr x, t) \<longrightarrow> Q x t) \<and> (m s = (Inl e, t) \<longrightarrow> E e t)"
  using assms unfolding triple_def by fastforce

lemma triple_runE:
  assumes "triple P m Q E" and "P s"
  obtains x t where "m s = (Inr x, t)" "Q x t" | e t where "m s = (Inl e, t)" "E e t"
proof (cases "m s")
  case (Pair r t)
  show ?thesis
  proof (cases r)
    case (Inl e)
    with Pair assms that(2) show ?thesis unfolding triple_def by fastforce
  next
    case (Inr x)
    with Pair assms that(1) show ?thesis unfolding triple_def by fastforce
  qed
qed

section \<open>Invariants\<close>

lemma keepsI: "(\<And>s. I s \<Longrightarrow> I (snd (m s))) \<Longrightarrow> keeps I m"
  unfolding keeps_def triple_def by (fastforce split: prod.splits sum.splits)

lemma keepsD: "keeps I m \<Longrightarrow> I s \<Longrightarrow> I (snd (m s))"
  unfolding keeps_def triple_def by (cases "m s"; cases "fst (m s)") fastforce+

lemma keeps_run: "keeps I m \<Longrightarrow> I s \<Longrightarrow> m s = (r, t) \<Longrightarrow> I t"
  using keepsD[of I m s] by simp

lemma keeps_return [triple_intros]: "keeps I (act_return x)"
  by (rule keepsI) (simp add: act_simps)

lemma keeps_raise [triple_intros]: "keeps I (act_raise e)"
  by (rule keepsI) (simp add: act_simps)

lemma keeps_lift [triple_intros]: "keeps I (act_lift r)"
  by (rule keepsI) (simp add: act_simps)

lemma keeps_read [triple_intros]: "keeps I (act_read f)"
  by (rule keepsI) (simp add: act_simps)

lemma keeps_zoom: "(\<And>s t. I s \<Longrightarrow> I (put t s)) \<Longrightarrow> keeps I (act_zoom part put m)"
  by (rule keepsI) (simp add: act_zoom_def split: prod.split)

lemma keeps_gets [triple_intros]: "keeps I (act_gets f)"
  by (rule keepsI) (simp add: act_simps)

lemma keeps_modify [triple_intros]: "(\<And>s. I s \<Longrightarrow> I (f s)) \<Longrightarrow> keeps I (act_modify f)"
  by (rule keepsI) (simp add: act_simps)

lemma keeps_bind [triple_intros]: "keeps I m \<Longrightarrow> (\<And>x. keeps I (f x)) \<Longrightarrow> keeps I (act_bind m f)"
  unfolding keeps_def by (rule triple_bindI)

lemma keeps_then [triple_intros]: "keeps I m \<Longrightarrow> keeps I n \<Longrightarrow> keeps I (act_then m n)"
  unfolding keeps_def by (rule triple_thenI)

lemma keeps_when [triple_intros]: "(b \<Longrightarrow> keeps I m) \<Longrightarrow> keeps I (act_when b m)"
  unfolding keeps_def by (rule triple_whenI) auto

lemma keeps_catch [triple_intros]: "keeps I m \<Longrightarrow> (\<And>e. keeps I (h e)) \<Longrightarrow> keeps I (act_catch m h)"
  unfolding keeps_def by (rule triple_catchI)

lemma keeps_for [triple_intros]: "(\<And>x. x \<in> set xs \<Longrightarrow> keeps I (f x)) \<Longrightarrow> keeps I (act_for xs f)"
  unfolding keeps_def by (rule triple_forI)

lemma keeps_search [triple_intros]: "(\<And>x. keeps I (f x)) \<Longrightarrow> keeps I (act_search xs f)"
proof (induction xs)
  case Nil
  show ?case by (simp add: keeps_return)
next
  case (Cons x xs)
  then show ?case
    by (auto intro!: keeps_bind keeps_return split: option.split)
qed

lemma keeps_map [triple_intros]: "(\<And>x. keeps I (f x)) \<Longrightarrow> keeps I (act_map f xs)"
  by (induction xs) (auto intro!: keeps_bind keeps_return)

lemma keeps_sum [triple_intros]: "(\<And>x. keeps I (f x)) \<Longrightarrow> keeps I (act_sum f xs)"
  by (induction xs) (auto intro!: keeps_bind keeps_return)

lemma keeps_if [triple_intros]:
  "(b \<Longrightarrow> keeps I m) \<Longrightarrow> (\<not> b \<Longrightarrow> keeps I n) \<Longrightarrow> keeps I (if b then m else n)"
  by simp

text \<open>An action that only raises exceptions in \<open>X\<close>\<close>

definition raises_only :: "(exn \<Rightarrow> bool) \<Rightarrow> ('s, 'a) act \<Rightarrow> bool" where
  "raises_only X m \<longleftrightarrow> triple (\<lambda>_. True) m (\<lambda>_ _. True) (\<lambda>e _. X e)"

section \<open>Total correctness\<close>

text \<open>\<open>ends m s P\<close>: from \<open>s\<close> the action returns, with a value and a state in \<open>P\<close>. The equations of
  \<open>ends_simps\<close> compute the weakest precondition of a straight line of actions.\<close>

definition ends :: "('s, 'a) act \<Rightarrow> 's \<Rightarrow> ('a \<Rightarrow> 's \<Rightarrow> bool) \<Rightarrow> bool" where
  "ends m s P \<longleftrightarrow> (case m s of (r, t) \<Rightarrow> (case r of Inl e \<Rightarrow> False | Inr x \<Rightarrow> P x t))"

named_theorems ends_simps

lemma ends_steps [ends_simps]:
  "ends (act_return x) s P = P x s"
  "ends (act_gets g) s P = P (g s) s"
  "ends (act_modify h) s Q = Q () (h s)"
  "ends (act_bind m f) s R = ends m s (\<lambda>x t. ends (f x) t R)"
  "ends (act_then m' n) s R = ends m' s (\<lambda>_ t. ends n t R)"
  "ends (act_when b w) s Q = (if b then ends w s Q else Q () s)"
  by (auto simp: ends_def act_simps split: prod.splits sum.splits)

lemma ends_lift [ends_simps]: "r = Inr x \<Longrightarrow> ends (act_lift r) s P = P x s"
  by (simp add: ends_def act_simps)

lemma ends_read [ends_simps]: "q s = Inr x \<Longrightarrow> ends (act_read q) s P = P x s"
  by (simp add: ends_def act_simps)

lemma ends_zoom [ends_simps]: "ends (act_zoom part put m) s P = ends m (part s) (\<lambda>x t. P x (put t s))"
  by (auto simp: ends_def act_zoom_def split: prod.splits sum.splits)

lemma ends_run: "ends m s P \<Longrightarrow> \<exists>x t. m s = (Inr x, t) \<and> P x t"
  unfolding ends_def by (cases "m s"; cases "fst (m s)") auto

lemma endsI: "m s = (Inr x, t) \<Longrightarrow> P x t \<Longrightarrow> ends m s P"
  by (simp add: ends_def)

lemma ends_weaken: "ends m s P \<Longrightarrow> (\<And>x t. P x t \<Longrightarrow> Q x t) \<Longrightarrow> ends m s Q"
  unfolding ends_def by (auto split: prod.splits sum.splits)

lemma ends_bindI: "ends m s Q \<Longrightarrow> (\<And>x t. Q x t \<Longrightarrow> ends (f x) t R) \<Longrightarrow> ends (act_bind m f) s R"
  by (simp add: ends_simps ends_weaken)

lemma ends_bind_read: "q s = Inr x \<Longrightarrow> ends (f x) s R \<Longrightarrow> ends (act_bind (act_read q) f) s R"
  by (simp add: ends_simps)

lemma ends_forI:
  assumes "I [] s"
    and "\<And>ys x zs t. xs = ys @ x # zs \<Longrightarrow> I ys t \<Longrightarrow> ends (f x) t (\<lambda>_. I (ys @ [x]))"
  shows "ends (act_for xs f) s (\<lambda>_. I xs)"
proof -
  have "ends (act_for zs f) t (\<lambda>_. I xs)" if "xs = ys @ zs" "I ys t" for ys zs t
    using that
  proof (induction zs arbitrary: ys t)
    case (Cons z zs)
    have "ends (f z) t (\<lambda>_ t. ends (act_for zs f) t (\<lambda>_. I xs))"
      using assms(2)[OF Cons.prems] Cons.IH[of "ys @ [z]"] Cons.prems(1) by (auto elim: ends_weaken)
    then show ?case by (simp add: ends_simps)
  qed (simp add: ends_simps)
  with assms(1) show ?thesis by (metis append_Nil)
qed

lemma ends_map_all2:
  assumes "\<And>x t. x \<in> set xs \<Longrightarrow> I t \<Longrightarrow> ends (f x) t (\<lambda>y t. I t \<and> Q x y)" and "I s"
  shows "ends (act_map f xs) s (\<lambda>ys t. I t \<and> list_all2 Q xs ys)"
  using assms
proof (induction xs arbitrary: s)
  case (Cons x xs)
  have "ends (act_map f xs) t (\<lambda>ys t. I t \<and> list_all2 Q (x # xs) (y # ys))" if "I t \<and> Q x y" for t y
    using Cons.IH[of t] Cons.prems(1) that by (auto elim!: ends_weaken)
  with Cons.prems(1)[of x s] Cons.prems(2) show ?case by (auto simp: ends_simps elim!: ends_weaken)
qed (simp add: ends_simps)

end
