(* ===== verification/Recipe_Cache.thy ===== *)
theory Recipe_Cache
  imports Py_Action
begin

text \<open>
  The recipe cache, \<open>poky/bitbake/lib/bb/cache.py\<close>: \<open>CacheData\<close>, the indexes BitBake keeps
  for the recipes of one multiconfig, and \<open>CoreRecipeInfo.add_cacheData\<close>, which enters one
  parsed recipe. The keys \<open>fn\<close> are recipe file names, \<open>pn\<close> package names.

  \<open>task_deps\<close> is the dictionary \<open>_task_deps\<close> that \<open>bb.build.add_tasks\<close> fills: the task
  list, the parents of each task and, per flag name, the value of the flag for each task.
  The defaultdicts are plain dictionaries read with \<open>dict_list\<close> and extended with
  \<open>dict_append\<close>.
\<close>

record task_deps =
  td_tasks :: "string list"
  td_parents :: "(string, string list) dict"
  td_flags :: "(string, (string, string) dict) dict"

text \<open>\<open>name in task_deps and task in task_deps[name]\<close>, with the value\<close>

definition task_flag :: "task_deps \<Rightarrow> string \<Rightarrow> string \<Rightarrow> string option" where
  "task_flag td name task =
     (case map_of (td_flags td) name of None \<Rightarrow> None | Some d \<Rightarrow> map_of d task)"

record recipe_info =
  ri_pn :: string
  ri_provides :: "string list"
  ri_rprovides :: "string list"
  ri_packages :: "string list"
  ri_packages_dynamic :: "string list"
  ri_rprovides_pkg :: "(string, string list) dict"
  ri_task_deps :: task_deps
  ri_pe :: string
  ri_pv :: string
  ri_pr :: string
  ri_defaultpref :: int
  ri_not_world :: string
  ri_stamp :: string
  ri_stampclean :: string
  ri_stamp_extrainfo :: "(string, string) dict"
  ri_file_checksums :: "(string, string) dict"
  ri_depends :: "string list"
  ri_rdepends :: "string list"
  ri_rrecommends :: "string list"
  ri_rdepends_pkg :: "(string, string list) dict"
  ri_rrecommends_pkg :: "(string, string list) dict"
  ri_hashfilename :: string
  ri_basetaskhashes :: "(string, string) dict"
  ri_inherits :: string
  ri_fakerootenv :: string
  ri_fakerootnoenv :: string
  ri_fakerootdirs :: string
  ri_fakerootlogs :: string
  ri_extradepsfunc :: string

record cache_data =
  task_deps_of :: "(string, task_deps) dict"
  pkg_fn :: "(string, string) dict"
  pkg_pn :: "(string, string list) dict"
  pkg_pepvpr :: "(string, string \<times> string \<times> string) dict"
  pkg_dp :: "(string, int) dict"
  stamp_of :: "(string, string) dict"
  stampclean_of :: "(string, string) dict"
  stamp_extrainfo :: "(string, (string, string) dict) dict"
  file_checksums :: "(string, (string, string) dict) dict"
  fn_provides :: "(string, string list) dict"
  pn_provides :: "(string, string list) dict"
  all_depends :: "string list"
  cache_deps :: "(string, string list) dict"
  packages :: "(string, string list) dict"
  providers :: "(string, string list) dict"
  rproviders :: "(string, string list) dict"
  packages_dynamic :: "(string, string list) dict"
  rundeps :: "(string, (string, string list) dict) dict"
  runrecs :: "(string, (string, string list) dict) dict"
  possible_world :: "string list"
  universe_target :: "string list"
  hashfn :: "(string, string) dict"
  basetaskhash :: "(string, string) dict"
  inherits_of :: "(string, string) dict"
  fakerootenv :: "(string, string) dict"
  fakerootnoenv :: "(string, string) dict"
  fakerootdirs :: "(string, string) dict"
  fakerootlogs :: "(string, string) dict"
  extradepsfunc :: "(string, string) dict"
  preferred :: "(string, string) dict"
  ignored_dependencies :: "string list"
  world_target :: "string list"
  bbfile_priority :: "(string, int) dict"

text \<open>\<open>init_cacheData\<close> and the direct variables of \<open>CacheData.__init__\<close>\<close>

definition empty_cache :: cache_data where
  "empty_cache = \<lparr> task_deps_of = [], pkg_fn = [], pkg_pn = [], pkg_pepvpr = [], pkg_dp = [],
     stamp_of = [], stampclean_of = [], stamp_extrainfo = [], file_checksums = [], fn_provides = [], pn_provides = [], all_depends = [], cache_deps = [],
     packages = [], providers = [], rproviders = [], packages_dynamic = [], rundeps = [],
     runrecs = [], possible_world = [], universe_target = [], hashfn = [], basetaskhash = [],
     inherits_of = [], fakerootenv = [], fakerootnoenv = [], fakerootdirs = [], fakerootlogs = [],
     extradepsfunc = [], preferred = [], ignored_dependencies = [], world_target = [],
     bbfile_priority = [] \<rparr>"

text \<open>\<open>bb.utils.to_boolean\<close> of a string; \<open>None\<close> is the default it returns for an empty one\<close>

definition to_boolean :: "string \<Rightarrow> bool option \<Rightarrow> bool option res" where
  "to_boolean s dflt =
     (if s = [] then Inr dflt
      else let t = List.map lower_char s in
        if t \<in> set [''y'', ''yes'', ''1'', ''true''] then Inr (Some True)
        else if t \<in> set [''n'', ''no'', ''0'', ''false''] then Inr (Some False)
        else Inl ValueError)"

text \<open>\<open>provides = [self.pn]\<close>, extended by the entries of PROVIDES not yet in it\<close>

definition recipe_provides :: "recipe_info \<Rightarrow> string list" where
  "recipe_provides ri = fold set_add (ri_provides ri) [ri_pn ri]"

definition add_provide :: "string \<Rightarrow> string \<Rightarrow> string \<Rightarrow> cache_data \<Rightarrow> cache_data" where
  "add_provide fn pn provide c =
     c\<lparr>providers := dict_append provide fn (providers c),
       pn_provides := (if provide \<in> set (dict_list (pn_provides c) pn) then pn_provides c
                       else dict_append pn provide (pn_provides c))\<rparr>"

definition add_depend :: "string \<Rightarrow> string \<Rightarrow> cache_data \<Rightarrow> cache_data" where
  "add_depend fn dep c =
     c\<lparr>cache_deps := (if dep \<in> set (dict_list (cache_deps c) fn) then cache_deps c
                      else dict_append fn dep (cache_deps c)),
       all_depends := set_add dep (all_depends c)\<rparr>"

definition add_rprovide :: "string \<Rightarrow> string \<Rightarrow> cache_data \<Rightarrow> cache_data" where
  "add_rprovide fn rprovide c =
     (if fn \<in> set (dict_list (rproviders c) rprovide) then c
      else c\<lparr>rproviders := dict_append rprovide fn (rproviders c)\<rparr>)"

text \<open>The per-package loop over RPROVIDES: it appends to \<open>self.rprovides\<close> itself.\<close>

definition package_rprovides ::
  "string \<Rightarrow> recipe_info \<Rightarrow> cache_data \<Rightarrow> (cache_data \<times> string list) res" where
  "package_rprovides fn ri c =
     res_fold (\<lambda>package (c, rp).
        res_bind (dict_get (ri_rprovides_pkg ri) package)
          (\<lambda>rs. Inr (c\<lparr>packages := dict_append package fn (packages c)\<rparr>, rp @ rs)))
       (ri_packages ri) (c, ri_rprovides ri)"

text \<open>Runtime depends and recommends, per package\<close>

definition dict_inner :: "('k, ('p, 'v) dict) dict \<Rightarrow> 'k \<Rightarrow> ('p, 'v) dict" where
  "dict_inner d k = (case map_of d k of None \<Rightarrow> [] | Some e \<Rightarrow> e)"

definition package_rundeps :: "string \<Rightarrow> recipe_info \<Rightarrow> string \<Rightarrow> cache_data \<Rightarrow> cache_data res" where
  "package_rundeps fn ri package c =
     res_bind (dict_get (ri_rdepends_pkg ri) package) (\<lambda>rd.
     res_bind (dict_get (ri_rrecommends_pkg ri) package) (\<lambda>rr.
     Inr (c\<lparr>rundeps := AList.update fn
              (AList.update package (ri_rdepends ri @ rd) (dict_inner (rundeps c) fn)) (rundeps c),
            runrecs := AList.update fn
              (AList.update package (ri_rrecommends ri @ rr) (dict_inner (runrecs c) fn)) (runrecs c)\<rparr>)))"

text \<open>The tables keyed by the file name alone\<close>

definition enter_recipe :: "string \<Rightarrow> recipe_info \<Rightarrow> cache_data \<Rightarrow> cache_data" where
  "enter_recipe fn ri c =
     c\<lparr>task_deps_of := AList.update fn (ri_task_deps ri) (task_deps_of c),
       pkg_fn := AList.update fn (ri_pn ri) (pkg_fn c),
       pkg_pn := dict_append (ri_pn ri) fn (pkg_pn c),
       pkg_pepvpr := AList.update fn (ri_pe ri, ri_pv ri, ri_pr ri) (pkg_pepvpr c),
       pkg_dp := AList.update fn (ri_defaultpref ri) (pkg_dp c),
       stamp_of := AList.update fn (ri_stamp ri) (stamp_of c),
       stampclean_of := AList.update fn (ri_stampclean ri) (stampclean_of c),
       stamp_extrainfo := AList.update fn (ri_stamp_extrainfo ri) (stamp_extrainfo c),
       file_checksums := AList.update fn (ri_file_checksums ri) (file_checksums c),
       fn_provides := AList.update fn (recipe_provides ri) (fn_provides c)\<rparr>"

text \<open>The tail of the function: the world and universe lists and the remaining tables\<close>

definition finish_recipe :: "string \<Rightarrow> recipe_info \<Rightarrow> bool option \<Rightarrow> cache_data \<Rightarrow> cache_data" where
  "finish_recipe fn ri not_world c =
     c\<lparr>possible_world := (if not_world = Some True then possible_world c else possible_world c @ [fn]),
       universe_target := universe_target c @ [ri_pn ri],
       hashfn := AList.update fn (ri_hashfilename ri) (hashfn c),
       basetaskhash := fold (\<lambda>(task, h). AList.update (fn @ '':'' @ task) h)
         (ri_basetaskhashes ri) (basetaskhash c),
       inherits_of := AList.update fn (ri_inherits ri) (inherits_of c),
       fakerootenv := AList.update fn (ri_fakerootenv ri) (fakerootenv c),
       fakerootnoenv := AList.update fn (ri_fakerootnoenv ri) (fakerootnoenv c),
       fakerootdirs := AList.update fn (ri_fakerootdirs ri) (fakerootdirs c),
       fakerootlogs := AList.update fn (ri_fakerootlogs ri) (fakerootlogs c),
       extradepsfunc := AList.update fn (ri_extradepsfunc ri) (extradepsfunc c)\<rparr>"

definition add_dynamic :: "string \<Rightarrow> string \<Rightarrow> cache_data \<Rightarrow> cache_data" where
  "add_dynamic fn package c = c\<lparr>packages_dynamic := dict_append package fn (packages_dynamic c)\<rparr>"

definition add_cacheData ::
  "cache_data \<Rightarrow> string \<Rightarrow> recipe_info \<Rightarrow> (cache_data \<times> recipe_info) res" where
  "add_cacheData c fn ri =
     (let c1 = enter_recipe fn ri c;
          c2 = fold (add_provide fn (ri_pn ri)) (recipe_provides ri) c1;
          c3 = fold (add_depend fn) (ri_depends ri) c2
      in res_bind (package_rprovides fn ri c3) (\<lambda>(c4, rprovides).
         let c5 = fold (add_rprovide fn) rprovides c4;
             c6 = fold (add_dynamic fn) (ri_packages_dynamic ri) c5
         in res_bind (res_fold (package_rundeps fn ri) (ri_packages ri) c6) (\<lambda>c7.
            res_bind (to_boolean (ri_not_world ri) None) (\<lambda>w.
            Inr (finish_recipe fn ri w c7, ri\<lparr>ri_rprovides := rprovides\<rparr>)))))"

section \<open>The indexes agree\<close>

text \<open>
  \<open>providers\<close> is the inverse of \<open>fn_provides\<close>, \<open>pkg_pn\<close> the inverse of \<open>pkg_fn\<close>, and
  \<open>pn_provides\<close> collects what the files of a package name provide.
\<close>

definition cache_consistent :: "cache_data \<Rightarrow> bool" where
  "cache_consistent c \<longleftrightarrow>
     (\<forall>p f. f \<in> set (dict_list (providers c) p) \<longleftrightarrow> p \<in> set (dict_list (fn_provides c) f)) \<and>
     (\<forall>pn f. f \<in> set (dict_list (pkg_pn c) pn) \<longleftrightarrow> map_of (pkg_fn c) f = Some pn) \<and>
     (\<forall>pn p. p \<in> set (dict_list (pn_provides c) pn) \<longleftrightarrow>
        (\<exists>f. map_of (pkg_fn c) f = Some pn \<and> p \<in> set (dict_list (fn_provides c) f))) \<and>
     (\<forall>f. map_of (pkg_fn c) f = None \<longrightarrow> map_of (fn_provides c) f = None)"

lemma fold_add_provide:
  fixes ps fn pn c
  defines "d \<equiv> fold (add_provide fn pn) ps c"
  shows "f \<in> set (dict_list (providers d) p) \<longleftrightarrow> f \<in> set (dict_list (providers c) p) \<or> p \<in> set ps \<and> f = fn"
    and "q \<in> set (dict_list (pn_provides d) n) \<longleftrightarrow> q \<in> set (dict_list (pn_provides c) n) \<or> q \<in> set ps \<and> n = pn"
    and "pkg_fn d = pkg_fn c" and "pkg_pn d = pkg_pn c" and "fn_provides d = fn_provides c"
  unfolding d_def by (induction ps arbitrary: c) (auto simp: add_provide_def)

text \<open>The steps after the providers leave these indexes alone.\<close>

definition same_indexes :: "cache_data \<Rightarrow> cache_data \<Rightarrow> bool" where
  "same_indexes c d \<longleftrightarrow> providers d = providers c \<and> pn_provides d = pn_provides c \<and>
     pkg_fn d = pkg_fn c \<and> pkg_pn d = pkg_pn c \<and> fn_provides d = fn_provides c"

lemma same_indexes_trans: "same_indexes a b \<Longrightarrow> same_indexes b c \<Longrightarrow> same_indexes a c"
  by (simp add: same_indexes_def)

lemma same_indexes_fold:
  "(\<And>x c. same_indexes c (g x c)) \<Longrightarrow> same_indexes c (fold g xs c)"
  by (induction xs arbitrary: c) (auto simp: same_indexes_def)

lemma package_rprovides_same:
  "package_rprovides fn ri c = Inr (d, rp) \<Longrightarrow> same_indexes c d"
  unfolding package_rprovides_def
  by (drule res_fold_invariant[where I = "\<lambda>(e, _). same_indexes c e"])
    (auto simp: same_indexes_def res_bind_Inr_iff)

lemma package_rundeps_same:
  "res_fold (package_rundeps fn ri) ps c = Inr d \<Longrightarrow> same_indexes c d"
  by (drule res_fold_invariant[where I = "same_indexes c"])
    (auto simp: same_indexes_def package_rundeps_def res_bind_Inr_iff)

lemma add_cacheData_indexes:
  assumes "add_cacheData c fn ri = Inr (c', ri')"
  shows "same_indexes (fold (add_provide fn (ri_pn ri)) (recipe_provides ri) (enter_recipe fn ri c)) c'"
proof -
  define c3 where "c3 = fold (add_depend fn) (ri_depends ri)
    (fold (add_provide fn (ri_pn ri)) (recipe_provides ri) (enter_recipe fn ri c))"
  from assms obtain c4 rp c7 w where
    c4: "package_rprovides fn ri c3 = Inr (c4, rp)"
    and c7: "res_fold (package_rundeps fn ri) (ri_packages ri)
      (fold (add_dynamic fn) (ri_packages_dynamic ri) (fold (add_rprovide fn) rp c4)) = Inr c7"
    and c': "c' = finish_recipe fn ri w c7"
    unfolding add_cacheData_def Let_def c3_def by (auto elim!: res_bind_Inr_E)
  have "same_indexes (fold (add_provide fn (ri_pn ri)) (recipe_provides ri) (enter_recipe fn ri c)) c3"
    unfolding c3_def by (rule same_indexes_fold) (simp add: same_indexes_def add_depend_def)
  moreover have "same_indexes c3 c4" using c4 by (rule package_rprovides_same)
  moreover have "same_indexes c4 (fold (add_rprovide fn) rp c4)"
    by (rule same_indexes_fold) (simp add: same_indexes_def add_rprovide_def)
  moreover have "same_indexes (fold (add_rprovide fn) rp c4)
      (fold (add_dynamic fn) (ri_packages_dynamic ri) (fold (add_rprovide fn) rp c4))"
    by (rule same_indexes_fold) (simp add: same_indexes_def add_dynamic_def)
  moreover have "same_indexes (fold (add_dynamic fn) (ri_packages_dynamic ri) (fold (add_rprovide fn) rp c4)) c7"
    using c7 by (rule package_rundeps_same)
  moreover have "same_indexes c7 c'"
    unfolding c' by (simp add: same_indexes_def finish_recipe_def)
  ultimately show ?thesis by (blast intro: same_indexes_trans)
qed

text \<open>C39: entering a recipe under a new file name keeps the indexes of the cache in
  agreement, and the new file is found under its package name and under everything it
  provides.\<close>

theorem add_cacheData_consistent:
  assumes "cache_consistent c" and "map_of (pkg_fn c) fn = None"
    and "add_cacheData c fn ri = Inr (c', ri')"
  shows "cache_consistent c' \<and> fn \<in> set (dict_list (pkg_pn c') (ri_pn ri)) \<and>
    (\<forall>p \<in> insert (ri_pn ri) (set (ri_provides ri)). fn \<in> set (dict_list (providers c') p))"
proof -
  note same = add_cacheData_indexes[OF assms(3), unfolded same_indexes_def]
  have fresh: "dict_list (fn_provides c) fn = []"
    using assms(1,2) by (auto simp: cache_consistent_def dict_list_def)
  have provides: "set (recipe_provides ri) = insert (ri_pn ri) (set (ri_provides ri))"
    by (auto simp: recipe_provides_def simp flip: set_union_def)
  note eqs = same fold_add_provide enter_recipe_def
  have "cache_consistent c'"
    unfolding cache_consistent_def
  proof (intro conjI allI)
    fix p f
    show "f \<in> set (dict_list (providers c') p) \<longleftrightarrow> p \<in> set (dict_list (fn_provides c') f)"
      using assms(1) fresh by (auto simp: eqs cache_consistent_def)
  next
    fix pn f
    show "f \<in> set (dict_list (pkg_pn c') pn) \<longleftrightarrow> map_of (pkg_fn c') f = Some pn"
      using assms(1,2) by (auto simp: eqs cache_consistent_def)
  next
    fix pn p
    show "p \<in> set (dict_list (pn_provides c') pn) \<longleftrightarrow>
        (\<exists>f. map_of (pkg_fn c') f = Some pn \<and> p \<in> set (dict_list (fn_provides c') f))"
      using assms(1,2) by (simp add: eqs cache_consistent_def) (metis option.distinct(1))
  next
    fix f
    show "map_of (pkg_fn c') f = None \<longrightarrow> map_of (fn_provides c') f = None"
      using assms(1) by (auto simp: eqs cache_consistent_def)
  qed
  then show ?thesis
    using provides by (auto simp: eqs)
qed

definition sample_recipe :: recipe_info where
  "sample_recipe = \<lparr> ri_pn = ''foo'', ri_provides = [''foo'', ''virtual/foo''], ri_rprovides = [],
     ri_packages = [''foo''], ri_packages_dynamic = [], ri_rprovides_pkg = [(''foo'', [])],
     ri_task_deps = \<lparr> td_tasks = [''do_build''], td_parents = [(''do_build'', [])], td_flags = [] \<rparr>,
     ri_pe = [], ri_pv = ''1.0'', ri_pr = ''r0'', ri_defaultpref = 0, ri_not_world = [],
     ri_stamp = ''stamps/foo'', ri_stampclean = ''stamps/foo*'', ri_stamp_extrainfo = [],
     ri_file_checksums = [], ri_depends = [''bar''], ri_rdepends = [], ri_rrecommends = [],
     ri_rdepends_pkg = [(''foo'', [])], ri_rrecommends_pkg = [(''foo'', [])],
     ri_hashfilename = [], ri_basetaskhashes = [], ri_inherits = [], ri_fakerootenv = [],
     ri_fakerootnoenv = [], ri_fakerootdirs = [], ri_fakerootlogs = [], ri_extradepsfunc = [] \<rparr>"

theorem add_cacheData_consistent_witness:
  "\<exists>c' ri'. add_cacheData empty_cache ''foo.bb'' sample_recipe = Inr (c', ri') \<and>
    cache_consistent c' \<and> dict_list (providers c') ''virtual/foo'' = [''foo.bb'']"
proof -
  have ex: "\<exists>c' ri'. add_cacheData empty_cache ''foo.bb'' sample_recipe = Inr (c', ri') \<and>
      dict_list (providers c') ''virtual/foo'' = [''foo.bb'']"
    by (simp add: add_cacheData_def Let_def enter_recipe_def finish_recipe_def add_dynamic_def recipe_provides_def sample_recipe_def empty_cache_def
        package_rprovides_def package_rundeps_def to_boolean_def add_provide_def add_depend_def
        add_rprovide_def set_add_def dict_list_def dict_append_def dict_get_def dict_inner_def)
  have "cache_consistent empty_cache" and "map_of (pkg_fn empty_cache) ''foo.bb'' = None"
    by (simp_all add: cache_consistent_def empty_cache_def dict_list_def)
  with ex show ?thesis using add_cacheData_consistent by blast
qed

end
