(* ===== verification/Providers.thy ===== *)
theory Providers
  imports Version_Compare Recipe_Cache "HOL-Library.Multiset"
begin

text \<open>
  \<open>poky/bitbake/lib/bb/providers.py\<close>: the choice among the recipes that provide an item.
  Configuration is read through \<open>cfg\<close>, the function \<open>cfgData.getVar\<close> of the data store;
  the regular expressions of PACKAGES\_DYNAMIC, which come from the metadata, are matched by the
  parameter \<open>re_match\<close> (\<open>re.compile\<close> may raise, so it returns a result). Log messages and
  the arguments used for them alone are left out.

  The functions keep the shape of the code: \<open>sortPriorities\<close> groups the files by layer
  priority and default preference, \<open>findPreferredProvider\<close> looks for REQUIRED\_VERSION or
  PREFERRED\_VERSION, \<open>findLatestProvider\<close> picks the highest version, \<open>priv_filterProviders\<close>
  (\<open>_filterProviders\<close> in the code) combines them per package name, and \<open>filterProviders\<close> and
  \<open>filterProvidersRunTime\<close> move the preferred provider to the front.
\<close>

type_synonym cfg = "string \<Rightarrow> string option"

type_synonym pv3 = "string \<times> string \<times> string"

text \<open>The truth value of a string or None\<close>

fun truthy :: "string option \<Rightarrow> bool" where
  "truthy None = False"
| "truthy (Some s) = (s \<noteq> [])"

section \<open>sortPriorities\<close>

definition add_priority ::
  "cache_data \<Rightarrow> string \<Rightarrow> (int, (int, string list) dict) dict \<Rightarrow> (int, (int, string list) dict) dict res"
where
  "add_priority dc f priorities =
     res_bind (dict_get (bbfile_priority dc) f) (\<lambda>priority.
     res_bind (dict_get (pkg_dp dc) f) (\<lambda>preference.
     Inr (AList.update priority (dict_append preference f (dict_inner priorities priority)) priorities)))"

definition preference_order :: "(int, string list) dict \<Rightarrow> string list" where
  "preference_order prefs = concat (List.map (dict_list prefs) (sort (dict_keys prefs)))"

definition sortPriorities ::
  "string \<Rightarrow> cache_data \<Rightarrow> (string, string list) dict \<Rightarrow> string list list res" where
  "sortPriorities pn dc pkg_pn_arg =
     res_bind (if pkg_pn_arg = [] then Inr (dict_list (pkg_pn dc) pn) else dict_get pkg_pn_arg pn)
       (\<lambda>files. res_bind (res_fold (add_priority dc) files [])
         (\<lambda>priorities. Inr (foldl (\<lambda>tmp_pn pri. preference_order (dict_inner priorities pri) # tmp_pn) []
            (sort (dict_keys priorities)))))"

section \<open>Preferred versions\<close>

definition versionVariableMatch :: "cfg \<Rightarrow> string \<Rightarrow> string \<Rightarrow> string option" where
  "versionVariableMatch cfg keyword pn =
     (let ver = cfg (keyword @ ''_VERSION:pn-'' @ pn);
          ver = (if truthy ver then ver else cfg (keyword @ ''_VERSION_'' @ pn));
          ver = (if truthy ver then ver else cfg (keyword @ ''_VERSION''))
      in ver)"

definition preferredVersionMatch ::
  "string \<Rightarrow> string \<Rightarrow> string \<Rightarrow> string option \<Rightarrow> string option \<Rightarrow> string option \<Rightarrow> bool" where
  "preferredVersionMatch pe pv pr preferred_e preferred_v preferred_r =
     (if Some pr = preferred_r \<or> preferred_r = None then
        if Some pe = preferred_e \<or> preferred_e = None then
          if preferred_v = Some pv then True
          else (case preferred_v of
                  None \<Rightarrow> False
                | Some v \<Rightarrow> endswith v ''%'' \<and> startswith pv (butlast v))
        else False
      else False)"

text \<open>
  The match of \<open>(\d+:)*(.*)(_.*)*\<close>: the first group repeats greedily and keeps its last
  round, the second takes the rest of the line, so the third never finds anything to match.
  The result is the three groups.
\<close>

function skip_epochs :: "string \<Rightarrow> string option \<Rightarrow> string option \<times> string" where
  "skip_epochs s group1 =
     (let ds = takeWhile is_digit s; rest = dropWhile is_digit s
      in if ds \<noteq> [] \<and> rest \<noteq> [] \<and> hd rest = CHR '':''
         then skip_epochs (tl rest) (Some (ds @ '':'')) else (group1, s))"
  by pat_completeness auto
termination
proof (relation "measure (\<lambda>(s, g). length s)", goal_cases)
  case (2 s g ds rest)
  then show ?case using length_dropWhile_le[of is_digit s] by (cases "dropWhile is_digit s") auto
qed simp

declare skip_epochs.simps [simp del]

definition match_preferred :: "string \<Rightarrow> string option \<times> string \<times> string option" where
  "match_preferred v =
     (case skip_epochs v None of
        (group1, rest) \<Rightarrow> (group1, takeWhile (\<lambda>c. c \<noteq> CHR 0x0A) rest, None))"

fun match_in_set ::
  "cache_data \<Rightarrow> string option \<Rightarrow> string \<Rightarrow> string option \<Rightarrow> string list \<Rightarrow> (string \<times> pv3) option res" where
  "match_in_set dc e v r [] = Inr None"
| "match_in_set dc e v r (f # fs) =
     res_bind (dict_get (pkg_pepvpr dc) f) (\<lambda>(pe, pv, pr).
       if preferredVersionMatch pe pv pr e (Some v) r then Inr (Some (f, pe, pv, pr))
       else match_in_set dc e v r fs)"

fun match_in_sets ::
  "cache_data \<Rightarrow> string option \<Rightarrow> string \<Rightarrow> string option \<Rightarrow> string list list \<Rightarrow> (string \<times> pv3) option \<Rightarrow>
   (string \<times> pv3) option res" where
  "match_in_sets dc e v r [] cur = Inr cur"
| "match_in_sets dc e v r (fs # fss) cur =
     res_bind (match_in_set dc e v r fs) (\<lambda>found.
       let cur = (case found of None \<Rightarrow> cur | Some x \<Rightarrow> Some x)
       in if truthy (map_option fst cur) then Inr cur else match_in_sets dc e v r fss cur)"

definition findPreferredProvider ::
  "string \<Rightarrow> cfg \<Rightarrow> cache_data \<Rightarrow> string list list \<Rightarrow> (pv3 option \<times> string option \<times> bool) res" where
  "findPreferredProvider pn cfg dc file_sets =
     (let required_v = versionVariableMatch cfg ''REQUIRED'' pn;
          preferred_v = versionVariableMatch cfg ''PREFERRED'' pn;
          required = (required_v \<noteq> None);
          preferred_v = (if required then required_v else preferred_v)
      in if \<not> truthy preferred_v then Inr (None, None, required)
         else case match_preferred (the preferred_v) of (group1, group2, group3) \<Rightarrow>
           let preferred_e = (if truthy group1 then map_option butlast group1 else None);
               preferred_r = (if truthy group3 then map_option tl group3 else None)
           in res_bind (match_in_sets dc preferred_e group2 preferred_r file_sets None)
                (\<lambda>found. Inr (map_option snd found, map_option fst found, required)))"

section \<open>Latest and best\<close>

definition latest_step ::
  "(ver \<Rightarrow> ver \<Rightarrow> int res) \<Rightarrow> cache_data \<Rightarrow> string \<Rightarrow> pv3 option \<times> int \<times> string option \<Rightarrow>
   (pv3 option \<times> int \<times> string option) res" where
  "latest_step cmp dc file_name = (\<lambda>(latest, latest_p, latest_f).
     res_bind (dict_get (pkg_pepvpr dc) file_name) (\<lambda>v.
     res_bind (dict_get (pkg_dp dc) file_name) (\<lambda>dp.
     case latest of
       None \<Rightarrow> Inr (Some v, dp, Some file_name)
     | Some l \<Rightarrow>
         res_bind (if latest_p = dp
                   then res_bind (cmp (StrEpoch (fst l), snd l) (StrEpoch (fst v), snd v)) (\<lambda>c. Inr (c < 0))
                   else Inr False)
           (\<lambda>newer. if newer \<or> dp > latest_p then Inr (Some v, dp, Some file_name)
                    else Inr (latest, latest_p, latest_f)))))"

definition findLatestProvider ::
  "string \<Rightarrow> cfg \<Rightarrow> cache_data \<Rightarrow> string list \<Rightarrow> (pv3 option \<times> string option) res" where
  "findLatestProvider pn cfg dc file_set =
     res_bind (res_fold (latest_step vercmp dc) file_set (None, 0, None))
       (\<lambda>(latest, latest_p, latest_f). Inr (latest, latest_f))"

definition list_get :: "'a list \<Rightarrow> nat \<Rightarrow> 'a res" where
  "list_get xs i = (if i < length xs then Inr (xs ! i) else Inl IndexError)"

definition findBestProvider ::
  "string \<Rightarrow> cfg \<Rightarrow> cache_data \<Rightarrow> (string, string list) dict \<Rightarrow>
   (pv3 option \<times> string option \<times> pv3 option \<times> string option \<times> bool) res" where
  "findBestProvider pn cfg dc pkg_pn_arg =
     res_bind (sortPriorities pn dc pkg_pn_arg) (\<lambda>sortpkg_pn.
     res_bind (findPreferredProvider pn cfg dc sortpkg_pn) (\<lambda>(preferred_ver, preferred_file, required).
     res_bind (list_get sortpkg_pn 0) (\<lambda>top_set.
     res_bind (findLatestProvider pn cfg dc top_set) (\<lambda>(latest, latest_f).
     if \<not> required \<and> preferred_file = None
     then Inr (latest, latest_f, latest, latest_f, required)
     else Inr (latest, latest_f, preferred_ver, preferred_file, required)))))"

definition findProviders ::
  "cfg \<Rightarrow> cache_data \<Rightarrow> (string, string list) dict \<Rightarrow>
   ((string, pv3 option \<times> string option) dict \<times> (string, pv3 option \<times> string option) dict \<times>
    (string, bool) dict) res" where
  "findProviders cfg dc pkg_pn_arg =
     (let pns = (if pkg_pn_arg = [] then pkg_pn dc else pkg_pn_arg)
      in res_fold (\<lambda>pn (latest_versions, preferred_versions, required).
           res_bind (findBestProvider pn cfg dc pns) (\<lambda>(last_ver, last_file, pref_ver, pref_file, req).
           Inr (AList.update pn (last_ver, last_file) latest_versions,
                AList.update pn (pref_ver, pref_file) preferred_versions,
                AList.update pn req required)))
         (dict_keys pns) ([], [], []))"

definition allProviders :: "cache_data \<Rightarrow> (string, (pv3 \<times> string) list) dict res" where
  "allProviders dc =
     res_fold (\<lambda>(fn, pn) all_providers.
         res_bind (dict_get (pkg_pepvpr dc) fn) (\<lambda>ver. Inr (dict_append pn (ver, fn) all_providers)))
       (pkg_fn dc) []"

section \<open>Filtering\<close>

text \<open>\<open>preferred_versions[pn]\<close> and the per-name file sets\<close>

type_synonym choices = "(string, pv3 option \<times> string option) dict"

definition collate :: "cache_data \<Rightarrow> string list \<Rightarrow> (string, string list) dict res" where
  "collate dc ps =
     res_fold (\<lambda>p d. res_bind (dict_get (pkg_fn dc) p) (\<lambda>pn. Inr (dict_append pn p d))) ps []"

text \<open>First loop: required and preferred versions; the flag tells that it returned early.\<close>

fun preferred_loop ::
  "cfg \<Rightarrow> cache_data \<Rightarrow> (string, string list) dict \<Rightarrow> string list \<Rightarrow>
   (string, string list list) dict \<times> choices \<times> string list \<Rightarrow>
   (bool \<times> (string, string list list) dict \<times> choices \<times> string list) res" where
  "preferred_loop cfg dc coll [] st = Inr (False, st)"
| "preferred_loop cfg dc coll (pn # pns) (sortpkg_pn, chosen, eligible) =
     res_bind (sortPriorities pn dc coll) (\<lambda>sets.
     res_bind (findPreferredProvider pn cfg dc sets) (\<lambda>(ver, file, required).
       let sortpkg_pn = AList.update pn sets sortpkg_pn
       in if required \<and> file = None then Inr (True, sortpkg_pn, chosen, eligible)
          else preferred_loop cfg dc coll pns
                 (sortpkg_pn, AList.update pn (ver, file) chosen,
                  if truthy file then eligible @ [the file] else eligible)))"

text \<open>Second loop: the latest version for the names without a preferred file\<close>

fun latest_loop ::
  "cfg \<Rightarrow> cache_data \<Rightarrow> (string, string list list) dict \<Rightarrow> string list \<Rightarrow> choices \<times> string list \<Rightarrow>
   (choices \<times> string list) res" where
  "latest_loop cfg dc sortpkg_pn [] st = Inr st"
| "latest_loop cfg dc sortpkg_pn (pn # pns) (chosen, eligible) =
     (if truthy (Option.bind (map_of chosen pn) snd)
      then latest_loop cfg dc sortpkg_pn pns (chosen, eligible)
      else
        res_bind (dict_get sortpkg_pn pn) (\<lambda>sets.
        res_bind (list_get sets 0) (\<lambda>top_set.
        res_bind (findLatestProvider pn cfg dc top_set) (\<lambda>(latest, latest_f).
        latest_loop cfg dc sortpkg_pn pns
          (AList.update pn (latest, latest_f) chosen,
           eligible @ (case latest_f of None \<Rightarrow> [] | Some f \<Rightarrow> [f]))))))"

text \<open>Third loop: a recipe named like the item moves to the front.\<close>

fun own_name_loop ::
  "cache_data \<Rightarrow> string \<Rightarrow> choices \<Rightarrow> string list \<Rightarrow> string list \<Rightarrow> string list res" where
  "own_name_loop dc item chosen [] eligible = Inr eligible"
| "own_name_loop dc item chosen (p # ps) eligible =
     res_bind (dict_get (pkg_fn dc) p) (\<lambda>pn.
       if pn \<noteq> item then own_name_loop dc item chosen ps eligible
       else res_bind (dict_get chosen pn) (\<lambda>(newvers, fn).
         case fn of
           None \<Rightarrow> own_name_loop dc item chosen ps eligible
         | Some f \<Rightarrow>
             if f \<notin> set eligible then own_name_loop dc item chosen ps eligible
             else own_name_loop dc item chosen ps (f # remove1 f eligible)))"

definition priv_filterProviders ::
  "string list \<Rightarrow> string \<Rightarrow> cfg \<Rightarrow> cache_data \<Rightarrow> string list res" where
  "priv_filterProviders ps0 item cfg dc =
     (let ps = sort ps0
      in res_bind (collate dc ps) (\<lambda>coll.
         res_bind (preferred_loop cfg dc coll (sort (dict_keys coll)) ([], [], []))
           (\<lambda>(returned, sortpkg_pn, chosen, eligible).
              if returned then Inr eligible
              else res_bind (latest_loop cfg dc sortpkg_pn (sort (dict_keys sortpkg_pn)) (chosen, eligible))
                (\<lambda>(chosen, eligible).
                   if eligible = [] then Inr eligible
                   else own_name_loop dc item chosen ps eligible))))"

text \<open>The first eligible file of package name \<open>want\<close>\<close>

fun first_of_name :: "cache_data \<Rightarrow> string \<Rightarrow> string list \<Rightarrow> string option res" where
  "first_of_name dc want [] = Inr None"
| "first_of_name dc want (p # ps) =
     res_bind (dict_get (pkg_fn dc) p) (\<lambda>pn. if want = pn then Inr (Some p) else first_of_name dc want ps)"

definition filterProviders ::
  "string list \<Rightarrow> string \<Rightarrow> cfg \<Rightarrow> cache_data \<Rightarrow> (string list \<times> bool \<times> cache_data) res" where
  "filterProviders ps item cfg dc =
     res_bind (priv_filterProviders ps item cfg dc) (\<lambda>eligible.
       let prefervar = cfg (''PREFERRED_PROVIDER_'' @ item);
           dc = (if truthy prefervar then dc\<lparr>preferred := AList.update item (the prefervar) (preferred dc)\<rparr>
                 else dc)
       in case map_of (preferred dc) item of
            None \<Rightarrow> Inr (eligible, False, dc)
          | Some want \<Rightarrow> res_bind (first_of_name dc want eligible) (\<lambda>found.
              case found of
                None \<Rightarrow> Inr (eligible, False, dc)
              | Some p \<Rightarrow> Inr (p # remove1 p eligible, True, dc)))"

text \<open>
  The loop that infers a runtime provider from the PREFERRED\_PROVIDER entries. It runs over
  the list object \<open>L\<close> by index, and \<open>eligible.remove\<close> shortens that same object as long as
  \<open>eligible\<close> has not been rebound (\<open>aliased\<close>): the first removal shifts \<open>L\<close> under the loop.
\<close>

function runtime_loop ::
  "cfg \<Rightarrow> cache_data \<Rightarrow> (string, string) dict \<Rightarrow> nat \<Rightarrow> string list \<Rightarrow> bool \<Rightarrow> string list \<Rightarrow> string list \<Rightarrow>
   (string list \<times> string list) res" where
  "runtime_loop cfg dc pns i L aliased eligible preferred_fns =
     (if i < length L then
        (case map_of (pkg_fn dc) (L ! i) of
           None \<Rightarrow> Inl KeyError
         | Some pn \<Rightarrow>
             (case List.find (\<lambda>provide.
                  case Option.bind (cfg (''PREFERRED_PROVIDER_'' @ provide)) (map_of pns) of
                    None \<Rightarrow> False | Some pref \<Rightarrow> pref \<notin> set preferred_fns)
                  (dict_list (pn_provides dc) pn) of
                None \<Rightarrow> runtime_loop cfg dc pns (Suc i) L aliased eligible preferred_fns
              | Some provide \<Rightarrow>
                  let pref = the (Option.bind (cfg (''PREFERRED_PROVIDER_'' @ provide)) (map_of pns));
                      L' = (if aliased then remove1 pref L else L);
                      eligible' = pref # remove1 pref eligible
                  in runtime_loop cfg dc pns (Suc i) L' False eligible' (preferred_fns @ [pref])))
      else Inr (eligible, preferred_fns))"
  by pat_completeness auto
termination
proof (relation "measure (\<lambda>(cfg, dc, pns, i, L, a, e, p). length L - i)", goal_cases)
  case (3 cfg dc pns i L a e p pn provide pref L' e')
  then show ?case by (auto simp: length_remove1)
qed auto

declare runtime_loop.simps [simp del]

definition filterProvidersRunTime ::
  "string list \<Rightarrow> string \<Rightarrow> cfg \<Rightarrow> cache_data \<Rightarrow> (string list \<times> nat) res" where
  "filterProvidersRunTime ps item cfg dc =
     res_bind (priv_filterProviders ps item cfg dc) (\<lambda>eligible.
     let prefervar = cfg (''PREFERRED_RPROVIDER_'' @ item)
     in res_bind (if truthy prefervar then first_of_name dc (the prefervar) eligible else Inr None)
       (\<lambda>found. case found of
          Some p \<Rightarrow> Inr (p # remove1 p eligible, 1)
        | None \<Rightarrow>
            res_bind (res_fold (\<lambda>p d. res_bind (dict_get (pkg_fn dc) p) (\<lambda>pn. Inr (AList.update pn p d)))
                eligible [])
              (\<lambda>pns. res_bind (runtime_loop cfg dc pns 0 eligible True eligible [])
                (\<lambda>(eligible, preferred_fns). Inr (eligible, length preferred_fns)))))"

section \<open>Runtime and world\<close>

definition escape_plus :: "string \<Rightarrow> string" where
  "escape_plus s = concat (List.map (\<lambda>c. if c = CHR ''+'' then [CHR 0x5C, CHR ''+''] else [c]) s)"

definition getRuntimeProviders ::
  "(string \<Rightarrow> string \<Rightarrow> bool res) \<Rightarrow> cache_data \<Rightarrow> string \<Rightarrow> string list res" where
  "getRuntimeProviders re_match dc rdepend =
     (let found = dict_list (rproviders dc) rdepend @ dict_list (packages dc) rdepend
      in if found \<noteq> [] then Inr found
         else res_fold (\<lambda>(pat_key, fns) acc.
                res_bind (re_match (escape_plus pat_key) rdepend) (\<lambda>b. Inr (if b then acc @ fns else acc)))
              (packages_dynamic dc) [])"

fun foreign_provider :: "cache_data \<Rightarrow> string \<Rightarrow> string list \<Rightarrow> bool res" where
  "foreign_provider dc pn [] = Inr False"
| "foreign_provider dc pn (pf # pfs) =
     res_bind (dict_get (pkg_fn dc) pf) (\<lambda>n. if n \<noteq> pn then Inr True else foreign_provider dc pn pfs)"

fun world_terminal :: "cache_data \<Rightarrow> string \<Rightarrow> string list \<Rightarrow> bool \<Rightarrow> bool res" where
  "world_terminal dc pn [] terminal = Inr terminal"
| "world_terminal dc pn (p # ps) terminal =
     (if startswith p ''virtual/'' then Inr False
      else res_bind (foreign_provider dc pn (dict_list (providers dc) p))
        (\<lambda>foreign. world_terminal dc pn ps (terminal \<and> \<not> foreign)))"

definition buildWorldTargetList :: "cache_data \<Rightarrow> string option \<Rightarrow> cache_data res" where
  "buildWorldTargetList dc task =
     (if world_target dc \<noteq> [] then Inr dc
      else res_fold (\<lambda>f dc.
        res_bind (dict_get (pkg_fn dc) f) (\<lambda>pn.
        res_bind (if truthy task
                  then res_bind (dict_get (task_deps_of dc) f) (\<lambda>td. Inr (the task \<in> set (td_tasks td)))
                  else Inr True) (\<lambda>has_task.
        res_bind (world_terminal dc pn (dict_list (pn_provides dc) pn) has_task) (\<lambda>terminal.
        Inr (if terminal then dc\<lparr>world_target := set_add pn (world_target dc)\<rparr> else dc)))))
        (possible_world dc) dc)"

section \<open>Facts about sortPriorities\<close>

lemma mset_concat_groups:
  "distinct ks \<Longrightarrow> mset (concat (List.map (\<lambda>k. filter (\<lambda>x. key x = k) xs) ks)) =
   filter_mset (\<lambda>x. key x \<in> set ks) (mset xs)"
proof (induction ks)
  case (Cons k ks)
  have "filter_mset (\<lambda>x. key x = k) (mset xs) + filter_mset (\<lambda>x. key x \<in> set ks) (mset xs) =
      filter_mset (\<lambda>x. key x = k \<or> key x \<in> set ks) (mset xs)"
    using Cons.prems by (intro multiset_eqI) auto
  with Cons show ?case by simp
qed simp

abbreviation prio_of :: "cache_data \<Rightarrow> string \<Rightarrow> int" where
  "prio_of dc f \<equiv> the (map_of (bbfile_priority dc) f)"

abbreviation pref_of :: "cache_data \<Rightarrow> string \<Rightarrow> int" where
  "pref_of dc f \<equiv> the (map_of (pkg_dp dc) f)"

text \<open>What the nested dictionary holds once the files \<open>fs\<close> are entered\<close>

definition grouped :: "cache_data \<Rightarrow> string list \<Rightarrow> (int, (int, string list) dict) dict \<Rightarrow> bool" where
  "grouped dc fs P \<longleftrightarrow> wf_dict P \<and> set (dict_keys P) = prio_of dc ` set fs \<and>
     (\<forall>k. wf_dict (dict_inner P k) \<and>
        set (dict_keys (dict_inner P k)) = pref_of dc ` {f \<in> set fs. prio_of dc f = k} \<and>
        (\<forall>j. dict_list (dict_inner P k) j = filter (\<lambda>f. prio_of dc f = k \<and> pref_of dc f = j) fs))"

lemma dict_inner_update [simp]:
  "dict_inner (AList.update k v d) k' = (if k' = k then v else dict_inner d k')"
  by (simp add: dict_inner_def)

lemma add_priority_grouped:
  assumes "grouped dc fs P" and "add_priority dc f P = Inr P'"
  shows "grouped dc (fs @ [f]) P'"
proof -
  from assms(2) have P': "P' = AList.update (prio_of dc f)
      (dict_append (pref_of dc f) f (dict_inner P (prio_of dc f))) P"
    by (auto simp: add_priority_def res_bind_Inr_iff)
  show ?thesis
    using assms(1) unfolding grouped_def P' by auto
qed

lemma res_fold_grouped:
  "grouped dc fs P \<Longrightarrow> res_fold (add_priority dc) gs P = Inr P' \<Longrightarrow> grouped dc (fs @ gs) P'"
proof (induction gs arbitrary: fs P)
  case (Cons g gs)
  from Cons.prems(2) obtain P1 where "add_priority dc g P = Inr P1"
    "res_fold (add_priority dc) gs P1 = Inr P'" by (auto elim: res_bind_Inr_E)
  with Cons.IH[of "fs @ [g]" P1] add_priority_grouped[OF Cons.prems(1)] show ?case by simp
qed simp

lemma foldl_cons_rev: "foldl (\<lambda>acc k. f k # acc) xs ks = List.map f (rev ks) @ xs"
  by (induction ks arbitrary: xs) auto

text \<open>The file sets of a list of files, highest priority first\<close>

definition priority_sets :: "cache_data \<Rightarrow> string list \<Rightarrow> string list list \<Rightarrow> bool" where
  "priority_sets dc files sets \<longleftrightarrow>
     mset (concat sets) = mset files \<and>
     sorted_wrt (\<lambda>A B. \<forall>f \<in> set A. \<forall>g \<in> set B. prio_of dc f > prio_of dc g) sets \<and>
     (\<forall>S \<in> set sets. S \<noteq> [] \<and> (\<forall>f \<in> set S. \<forall>g \<in> set S. prio_of dc f = prio_of dc g) \<and>
        sorted_wrt (\<lambda>f g. pref_of dc f \<le> pref_of dc g) S)"

lemma preference_order_filter:
  assumes "grouped dc fs P"
  shows "mset (preference_order (dict_inner P k)) = mset (filter (\<lambda>f. prio_of dc f = k) fs)"
    and "sorted_wrt (\<lambda>f g. pref_of dc f \<le> pref_of dc g) (preference_order (dict_inner P k))"
proof -
  let ?d = "dict_inner P k"
  let ?ks = "sort (dict_keys ?d)"
  have eq: "dict_list ?d j = filter (\<lambda>f. pref_of dc f = j) (filter (\<lambda>f. prio_of dc f = k) fs)" for j
    using assms by (auto simp: grouped_def intro: filter_cong)
  have "distinct ?ks" using assms by (simp add: grouped_def)
  from mset_concat_groups[OF this, of "pref_of dc" "filter (\<lambda>f. prio_of dc f = k) fs"]
  have "mset (preference_order ?d) =
      filter_mset (\<lambda>f. pref_of dc f \<in> set ?ks) (mset (filter (\<lambda>f. prio_of dc f = k) fs))"
    by (simp only: preference_order_def eq[abs_def])
  also have "\<dots> = mset (filter (\<lambda>f. pref_of dc f \<in> set ?ks) (filter (\<lambda>f. prio_of dc f = k) fs))"
    by (simp only: mset_filter)
  also have "filter (\<lambda>f. pref_of dc f \<in> set ?ks) (filter (\<lambda>f. prio_of dc f = k) fs) =
      filter (\<lambda>f. prio_of dc f = k) fs"
    using assms by (intro filter_True) (auto simp: grouped_def)
  finally show "mset (preference_order ?d) = mset (filter (\<lambda>f. prio_of dc f = k) fs)" .
  have "sorted_wrt (\<lambda>f g. pref_of dc f \<le> pref_of dc g) (concat (List.map (dict_list ?d) ks))"
    if "sorted ks" for ks
    using that
  proof (induction ks)
    case (Cons j ks)
    have "sorted_wrt (\<lambda>f g. pref_of dc f \<le> pref_of dc g) (filter (\<lambda>f. pref_of dc f = j) gs)" for gs
      by (induction gs) auto
    then have "sorted_wrt (\<lambda>f g. pref_of dc f \<le> pref_of dc g) (dict_list ?d j)"
      unfolding eq .
    then show ?case using Cons by (auto simp: sorted_wrt_append eq)
  qed simp
  then show "sorted_wrt (\<lambda>f g. pref_of dc f \<le> pref_of dc g) (preference_order ?d)"
    by (simp add: preference_order_def)
qed


lemma sortPriorities_sets:
  assumes "sortPriorities pn dc arg = Inr sets"
  shows "priority_sets dc (if arg = [] then dict_list (pkg_pn dc) pn else dict_list arg pn) sets"
    (is "priority_sets dc ?files sets")
proof -
  from assms obtain P where P: "res_fold (add_priority dc) ?files [] = Inr P"
    and sets: "sets = List.map (\<lambda>k. preference_order (dict_inner P k)) (rev (sort (dict_keys P)))"
    unfolding sortPriorities_def
    by (auto elim!: res_bind_Inr_E simp: foldl_cons_rev dict_list_def split: if_splits)
  have "grouped dc [] []" by (simp add: grouped_def dict_inner_def dict_list_def)
  from res_fold_grouped[OF this P] have g: "grouped dc ?files P" by simp
  note order = preference_order_filter[OF g]
  let ?ks = "rev (sort (dict_keys P))"
  have ks: "distinct ?ks" "set ?ks = prio_of dc ` set ?files"
    using g by (auto simp: grouped_def)
  have "mset (concat (List.map (\<lambda>k. preference_order (dict_inner P k)) ks)) =
      mset (concat (List.map (\<lambda>k. filter (\<lambda>f. prio_of dc f = k) ?files) ks))" for ks
    by (induction ks) (simp_all add: order(1))
  then have "mset (concat sets) = filter_mset (\<lambda>f. prio_of dc f \<in> set ?ks) (mset ?files)"
    unfolding sets by (simp only: mset_concat_groups[OF ks(1)])
  also have "\<dots> = mset ?files"
    unfolding ks(2) by (subst mset_filter[symmetric], subst filter_True) auto
  finally have m: "mset (concat sets) = mset ?files" .
  have elem: "set (preference_order (dict_inner P k)) = {f \<in> set ?files. prio_of dc f = k}" for k
    using arg_cong[OF order(1), of set_mset] by (simp only: set_mset_mset set_filter)
  have desc: "sorted_wrt (\<lambda>x y. x > y) ?ks"
  proof -
    have "sorted_wrt (<) (sort (dict_keys P))"
      using g by (simp add: grouped_def strict_sorted_iff)
    then show ?thesis by (simp add: sorted_wrt_rev)
  qed
  have "sorted_wrt (\<lambda>A B. \<forall>f \<in> set A. \<forall>g \<in> set B. prio_of dc f > prio_of dc g) sets"
    unfolding sets sorted_wrt_map
    by (rule sorted_wrt_mono_rel[OF _ desc]) (simp only: elem, auto)
  moreover have "S \<noteq> [] \<and> (\<forall>f \<in> set S. \<forall>g \<in> set S. prio_of dc f = prio_of dc g) \<and>
      sorted_wrt (\<lambda>f g. pref_of dc f \<le> pref_of dc g) S" if "S \<in> set sets" for S
  proof -
    from that obtain k where k: "k \<in> set ?ks" "S = preference_order (dict_inner P k)"
      unfolding sets by auto
    with ks(2) have "set S \<noteq> {}" unfolding k(2) elem by auto
    with elem[of k] order(2)[of k] show ?thesis unfolding k(2) by auto
  qed
  ultimately show ?thesis using m by (simp only: priority_sets_def simp_thms Ball_def) blast
qed

section \<open>Facts about findLatestProvider\<close>

abbreviation ver_of :: "cache_data \<Rightarrow> string \<Rightarrow> ver" where
  "ver_of dc f \<equiv> (case the (map_of (pkg_pepvpr dc) f) of (pe, pv, pr) \<Rightarrow> (StrEpoch pe, pv, pr))"

text \<open>\<open>f\<close> beats \<open>g\<close>: a higher default preference, or the same and a version not older\<close>

definition beats :: "(ver \<Rightarrow> ver \<Rightarrow> int res) \<Rightarrow> cache_data \<Rightarrow> string \<Rightarrow> string \<Rightarrow> bool" where
  "beats cmp dc f g \<longleftrightarrow> pref_of dc g < pref_of dc f \<or>
     (pref_of dc g = pref_of dc f \<and> (\<exists>c \<ge> 0. cmp (ver_of dc f) (ver_of dc g) = Inr c))"

definition best_so_far ::
  "(ver \<Rightarrow> ver \<Rightarrow> int res) \<Rightarrow> cache_data \<Rightarrow> string list \<Rightarrow> pv3 option \<times> int \<times> string option \<Rightarrow> bool"
where
  "best_so_far cmp dc fs = (\<lambda>(l, p, lf).
     if fs = [] then l = None
     else (\<exists>f v. f \<in> set fs \<and> lf = Some f \<and> l = Some v \<and> map_of (pkg_pepvpr dc) f = Some v \<and>
        p = pref_of dc f \<and> (\<forall>g \<in> set fs. g = f \<or> beats cmp dc f g)))"

text \<open>The choice rests on the laws of the comparison alone.\<close>

locale version_chooser = three_way cmp for cmp :: "ver \<Rightarrow> ver \<Rightarrow> int res"
begin

lemma beats_trans:
  assumes "beats cmp dc f g" and "beats cmp dc g h"
  shows "beats cmp dc f h"
  using assms cmp_trans_ge[of "ver_of dc f" "ver_of dc g" _ "ver_of dc h"]
  unfolding beats_def by (smt (verit, ccfv_threshold))

lemma latest_step_best:
  assumes best: "best_so_far cmp dc fs st" and "latest_step cmp dc g st = Inr st'"
  shows "best_so_far cmp dc (fs @ [g]) st'"
proof -
  obtain l p lf where st: "st = (l, p, lf)" by (cases st)
  from assms(2) obtain v dp where v: "map_of (pkg_pepvpr dc) g = Some v" "map_of (pkg_dp dc) g = Some dp"
    by (auto simp: latest_step_def st elim!: res_bind_Inr_E)
  show ?thesis
  proof (cases "fs = []")
    case True
    with best assms(2) v show ?thesis
      by (cases v) (auto simp: best_so_far_def latest_step_def st)
  next
    case False
    with best obtain f lv where f: "f \<in> set fs" "lf = Some f" "l = Some lv" "map_of (pkg_pepvpr dc) f = Some lv"
      "p = pref_of dc f" "\<And>h. h \<in> set fs \<Longrightarrow> h = f \<or> beats cmp dc f h"
      by (auto simp: best_so_far_def st)
    have vf: "ver_of dc f = (StrEpoch (fst lv), snd lv)" and vg: "ver_of dc g = (StrEpoch (fst v), snd v)"
      using f(4) v(1) by (auto split: prod.splits)
    from assms(2) consider
        (new) "st' = (Some v, dp, Some g)" "beats cmp dc g f"
      | (old) "st' = st" "beats cmp dc f g"
    proof (cases "p = dp")
      case True
      with assms(2) f(3) v obtain c where c: "cmp (ver_of dc f) (ver_of dc g) = Inr c"
        "st' = (if c < 0 then (Some v, dp, Some g) else st)"
        unfolding vf vg by (auto simp: latest_step_def st elim!: res_bind_Inr_E split: if_splits)
      from cmp_swap[OF c(1)] c True f(5) v(2) that show ?thesis
        by (cases "c < 0") (auto simp: beats_def)
    next
      case False
      with assms(2) f(3,5) v that show ?thesis
        by (auto simp: latest_step_def st beats_def split: if_splits)
    qed
    then show ?thesis
    proof cases
      case new
      then have "h = g \<or> beats cmp dc g h" if "h \<in> set (fs @ [g])" for h
        using that f(6) beats_trans[OF new(2)] by auto
      with new(1) v show ?thesis by (cases v) (auto simp: best_so_far_def)
    next
      case old
      with f st show ?thesis by (cases lv) (auto simp: best_so_far_def)
    qed
  qed
qed

lemma latest_fold_best:
  "best_so_far cmp dc fs st \<Longrightarrow> res_fold (latest_step cmp dc) gs st = Inr st' \<Longrightarrow>
   best_so_far cmp dc (fs @ gs) st'"
proof (induction gs arbitrary: fs st)
  case (Cons g gs)
  from Cons.prems(2) obtain st1 where "latest_step cmp dc g st = Inr st1"
    "res_fold (latest_step cmp dc) gs st1 = Inr st'" by (auto elim: res_bind_Inr_E)
  with Cons.IH[of "fs @ [g]" st1] latest_step_best[OF Cons.prems(1)] show ?case by simp
qed simp

end

interpretation chooser: version_chooser vercmp
  by unfold_locales


lemma findLatestProvider_best:
  assumes "findLatestProvider pn cfg dc fs = Inr (l, lf)" and "fs \<noteq> []"
  obtains f v where "f \<in> set fs" "lf = Some f" "l = Some v" "map_of (pkg_pepvpr dc) f = Some v"
    "\<And>g. g \<in> set fs \<Longrightarrow> g = f \<or> beats vercmp dc f g"
proof -
  from assms(1) obtain p where p: "res_fold (latest_step vercmp dc) fs (None, 0, None) = Inr (l, p, lf)"
    by (auto simp: findLatestProvider_def elim!: res_bind_Inr_E)
  have "best_so_far vercmp dc [] (None, 0, None)" by (simp add: best_so_far_def)
  from chooser.latest_fold_best[OF this p] assms(2) that show ?thesis
    by (auto simp: best_so_far_def)
qed

section \<open>Facts about the filters\<close>

lemma collate_lists:
  assumes "collate dc ps = Inr d"
  shows "dict_list d pn = filter (\<lambda>p. map_of (pkg_fn dc) p = Some pn) ps"
    and "fst ` set d = {pn. \<exists>p \<in> set ps. map_of (pkg_fn dc) p = Some pn}"
    and "p \<in> set ps \<Longrightarrow> \<exists>pn. map_of (pkg_fn dc) p = Some pn"
    and "wf_dict d"
proof -
  let ?f = "\<lambda>p d. res_bind (dict_get (pkg_fn dc) p) (\<lambda>pn. Inr (dict_append pn p d))"
  have "res_fold ?f qs e = Inr d \<Longrightarrow>
      dict_list d pn = dict_list e pn @ filter (\<lambda>p. map_of (pkg_fn dc) p = Some pn) qs \<and>
      fst ` set d = fst ` set e \<union> {pn. \<exists>p \<in> set qs. map_of (pkg_fn dc) p = Some pn} \<and>
      (\<forall>p \<in> set qs. \<exists>pn. map_of (pkg_fn dc) p = Some pn) \<and> (wf_dict e \<longrightarrow> wf_dict d)" for pn qs e
  proof (induction qs arbitrary: e)
    case (Cons q qs)
    from Cons.prems obtain n where n: "map_of (pkg_fn dc) q = Some n"
      and d: "res_fold ?f qs (dict_append n q e) = Inr d"
      by (auto elim!: res_bind_Inr_E)
    note IH = Cons.IH[OF d]
    have "fst ` set d = fst ` set e \<union> {pn. \<exists>p \<in> set (q # qs). map_of (pkg_fn dc) p = Some pn}"
      using IH n by (simp only: keys_append_set) auto
    with IH n show ?case by auto
  qed simp
  from this[of ps "[]"] assms show
    "dict_list d pn = filter (\<lambda>p. map_of (pkg_fn dc) p = Some pn) ps"
    "fst ` set d = {pn. \<exists>p \<in> set ps. map_of (pkg_fn dc) p = Some pn}"
    "p \<in> set ps \<Longrightarrow> \<exists>pn. map_of (pkg_fn dc) p = Some pn"
    "wf_dict d"
    by (auto simp: collate_def dict_list_def)
qed

lemma match_in_set_member:
  "match_in_set dc e v r fs = Inr (Some x) \<Longrightarrow> fst x \<in> set fs"
  by (induction fs) (auto simp: res_bind_Inr_iff split: if_splits)

lemma match_in_sets_member:
  "match_in_sets dc e v r fss cur = Inr (Some x) \<Longrightarrow> cur = Some x \<or> fst x \<in> set (concat fss)"
proof (induction fss arbitrary: cur)
  case (Cons fs fss)
  then obtain found where found: "match_in_set dc e v r fs = Inr found"
    and rest: "(let cur = (case found of None \<Rightarrow> cur | Some x \<Rightarrow> Some x)
       in if truthy (map_option fst cur) then Inr cur else match_in_sets dc e v r fss cur) = Inr (Some x)"
    by (auto elim: res_bind_Inr_E)
  show ?case
  proof (cases found)
    case None
    with rest Cons.IH show ?thesis by (auto simp: Let_def split: if_splits)
  next
    case (Some y)
    with found have "fst y \<in> set fs" by (auto dest: match_in_set_member)
    with rest Some Cons.IH[of "Some y"] show ?thesis by (auto simp: Let_def split: if_splits)
  qed
qed simp

lemma findPreferredProvider_member:
  assumes "findPreferredProvider pn cfg dc sets = Inr (ver, Some f, required)"
  shows "f \<in> set (concat sets)"
  using assms match_in_sets_member[of dc _ _ _ sets None]
  unfolding findPreferredProvider_def
  by (fastforce simp: Let_def res_bind_Inr_iff split: if_splits prod.splits)

text \<open>What the choice per package name and the eligible list agree on\<close>

definition chosen_ok :: "cache_data \<Rightarrow> string list \<Rightarrow> choices \<Rightarrow> string list \<Rightarrow> bool" where
  "chosen_ok dc ps chosen eligible \<longleftrightarrow>
     (\<forall>pn ver f. map_of chosen pn = Some (ver, Some f) \<longrightarrow> f \<in> set ps \<and> map_of (pkg_fn dc) f = Some pn) \<and>
     distinct eligible \<and>
     (\<forall>f. f \<in> set eligible \<longleftrightarrow> (\<exists>pn ver. map_of chosen pn = Some (ver, Some f)))"

definition sets_ok :: "cache_data \<Rightarrow> string list \<Rightarrow> (string, string list list) dict \<Rightarrow> bool" where
  "sets_ok dc ps sp \<longleftrightarrow> wf_dict sp \<and> (\<forall>pn sets. map_of sp pn = Some sets \<longrightarrow>
     priority_sets dc (filter (\<lambda>p. map_of (pkg_fn dc) p = Some pn) ps) sets)"

lemma chosen_ok_add:
  assumes "chosen_ok dc ps chosen eligible" and "f \<in> set ps" and "map_of (pkg_fn dc) f = Some pn"
    and "\<forall>ver g. map_of chosen pn \<noteq> Some (ver, Some g)"
  shows "chosen_ok dc ps (AList.update pn (ver, Some f) chosen) (eligible @ [f])"
proof -
  have "f \<notin> set eligible"
    using assms unfolding chosen_ok_def by (metis option.inject)
  with assms show ?thesis unfolding chosen_ok_def by (auto 0 3)
qed

lemma chosen_ok_none:
  assumes "chosen_ok dc ps chosen eligible" and "\<forall>ver g. map_of chosen pn \<noteq> Some (ver, Some g)"
  shows "chosen_ok dc ps (AList.update pn (ver, None) chosen) eligible"
  using assms unfolding chosen_ok_def by (auto 0 3)

lemma own_name_loop_perm:
  "own_name_loop dc item chosen ps eligible = Inr e \<Longrightarrow> mset e = mset eligible"
proof (induction ps arbitrary: eligible)
  case (Cons p ps)
  then show ?case
    by (auto elim!: res_bind_Inr_E split: if_splits option.splits)
qed simp

lemma priority_sets_members: "priority_sets dc files sets \<Longrightarrow> set (concat sets) = set files"
  unfolding priority_sets_def by (metis set_mset_mset)

lemma findPreferredProvider_required:
  "findPreferredProvider pn cfg dc sets = Inr (ver, f, required) \<Longrightarrow>
   required = (versionVariableMatch cfg ''REQUIRED'' pn \<noteq> None)"
  unfolding findPreferredProvider_def
  by (auto simp: Let_def res_bind_Inr_iff split: if_splits prod.splits)

lemma preferred_loop_ok:
  assumes coll: "collate dc ps = Inr coll" and nonempty_names: "[] \<notin> set ps"
  shows "preferred_loop cfg dc coll pns (sp, chosen, eligible) = Inr (ret, sp', chosen', eligible') \<Longrightarrow>
   sets_ok dc ps sp \<Longrightarrow> chosen_ok dc ps chosen eligible \<Longrightarrow> distinct pns \<Longrightarrow>
   set pns \<inter> fst ` set chosen = {} \<Longrightarrow> set pns \<subseteq> fst ` set coll \<Longrightarrow>
   sets_ok dc ps sp' \<and> chosen_ok dc ps chosen' eligible' \<and>
   (\<not> ret \<longrightarrow> fst ` set sp' = fst ` set sp \<union> set pns) \<and>
   (ret \<longrightarrow> (\<exists>pn \<in> set pns. versionVariableMatch cfg ''REQUIRED'' pn \<noteq> None))"
proof (induction pns arbitrary: sp chosen eligible)
  case (Cons pn pns)
  from Cons.prems(1) obtain sets ver chosen_file required where
    sets: "sortPriorities pn dc coll = Inr sets"
    and chosen: "findPreferredProvider pn cfg dc sets = Inr (ver, chosen_file, required)"
    and rest: "(if required \<and> chosen_file = None then Inr (True, AList.update pn sets sp, chosen, eligible)
      else preferred_loop cfg dc coll pns (AList.update pn sets sp, AList.update pn (ver, chosen_file) chosen,
        if truthy chosen_file then eligible @ [the chosen_file] else eligible)) = Inr (ret, sp', chosen', eligible')"
    by (auto elim!: res_bind_Inr_E simp: Let_def)
  from Cons.prems(6) have "coll \<noteq> []" by auto
  with sortPriorities_sets[OF sets] have ps: "priority_sets dc (filter (\<lambda>p. map_of (pkg_fn dc) p = Some pn) ps) sets"
    by (simp add: collate_lists(1)[OF coll])
  with Cons.prems(2) have sp: "sets_ok dc ps (AList.update pn sets sp)"
    by (auto simp: sets_ok_def)
  show ?case
  proof (cases "required \<and> chosen_file = None")
    case True
    with rest sp Cons.prems(3) findPreferredProvider_required[OF chosen] show ?thesis by auto
  next
    case False
    have fresh: "\<forall>ver g. map_of chosen pn \<noteq> Some (ver, Some g)"
    proof -
      have "map_of chosen pn = None" using Cons.prems(5) by (simp add: map_of_eq_None_iff)
      then show ?thesis by simp
    qed
    have "chosen_ok dc ps (AList.update pn (ver, chosen_file) chosen) (if truthy chosen_file then eligible @ [the chosen_file] else eligible)"
    proof (cases chosen_file)
      case None
      then show ?thesis using chosen_ok_none[OF Cons.prems(3) fresh] by simp
    next
      case (Some f)
      with chosen have "f \<in> set (concat sets)" by (auto dest: findPreferredProvider_member)
      with priority_sets_members[OF ps] have f: "f \<in> set ps" "map_of (pkg_fn dc) f = Some pn" by auto
      moreover from f(1) nonempty_names have "truthy chosen_file" using Some by auto
      ultimately show ?thesis using chosen_ok_add[OF Cons.prems(3) f fresh] Some by simp
    qed
    note ok = this
    have "preferred_loop cfg dc coll pns (AList.update pn sets sp, AList.update pn (ver, chosen_file) chosen,
        if truthy chosen_file then eligible @ [the chosen_file] else eligible) = Inr (ret, sp', chosen', eligible')"
      using rest False by (simp only: if_False)
    from Cons.IH[OF this sp ok] Cons.prems(4-6) show ?thesis by simp
  qed
qed auto


abbreviation has_file :: "choices \<Rightarrow> string \<Rightarrow> bool" where
  "has_file chosen pn \<equiv> \<exists>ver f. map_of chosen pn = Some (ver, Some f)"

lemma latest_loop_ok:
  assumes nonempty_names: "[] \<notin> set ps"
  shows "latest_loop cfg dc sp pns (chosen, eligible) = Inr (chosen', eligible') \<Longrightarrow>
    sets_ok dc ps sp \<Longrightarrow> chosen_ok dc ps chosen eligible \<Longrightarrow>
    chosen_ok dc ps chosen' eligible' \<and> (\<forall>pn. has_file chosen pn \<or> pn \<in> set pns \<longrightarrow> has_file chosen' pn)"
proof (induction pns arbitrary: chosen eligible)
  case (Cons pn pns)
  show ?case
  proof (cases "truthy (Option.bind (map_of chosen pn) snd)")
    case True
    then have "has_file chosen pn"
      by (cases "map_of chosen pn") (auto elim: truthy.elims)
    with True Cons.IH Cons.prems show ?thesis by auto
  next
    case False
    with Cons.prems(1) obtain sets where sets: "map_of sp pn = Some sets"
      by (auto elim!: res_bind_Inr_E)
    have none: "\<forall>ver g. map_of chosen pn \<noteq> Some (ver, Some g)"
    proof (intro allI notI)
      fix ver g
      assume g: "map_of chosen pn = Some (ver, Some g)"
      with Cons.prems(3) have "g \<in> set ps" by (auto simp: chosen_ok_def)
      with g False nonempty_names show False by auto
    qed
    from Cons.prems(2) sets have p: "priority_sets dc (filter (\<lambda>p. map_of (pkg_fn dc) p = Some pn) ps) sets"
      by (simp add: sets_ok_def)
    from False Cons.prems(1) sets obtain latest latest_f where
      len: "0 < length sets" and latest: "findLatestProvider pn cfg dc (sets ! 0) = Inr (latest, latest_f)"
      and rest: "latest_loop cfg dc sp pns (AList.update pn (latest, latest_f) chosen,
        eligible @ (case latest_f of None \<Rightarrow> [] | Some f \<Rightarrow> [f])) = Inr (chosen', eligible')"
      by (auto elim!: res_bind_Inr_E simp: list_get_def split: if_splits)
    have top: "sets ! 0 \<in> set sets" using len by simp
    with p have "sets ! 0 \<noteq> []" by (auto simp: priority_sets_def)
    with findLatestProvider_best[OF latest] obtain f where f: "f \<in> set (sets ! 0)" "latest_f = Some f"
      by metis
    with top priority_sets_members[OF p] have "f \<in> set ps" "map_of (pkg_fn dc) f = Some pn" by auto
    from chosen_ok_add[OF Cons.prems(3) this none] f(2)
    have "chosen_ok dc ps (AList.update pn (latest, latest_f) chosen)
        (eligible @ (case latest_f of None \<Rightarrow> [] | Some f \<Rightarrow> [f]))" by simp
    from Cons.IH[OF rest Cons.prems(2) this] f(2) show ?thesis by auto
  qed
qed simp

text \<open>
  Facts about the list \<open>_filterProviders\<close> returns; it is complete unless the first loop
  returned early.
\<close>

definition one_per_name :: "cache_data \<Rightarrow> string list \<Rightarrow> string list \<Rightarrow> bool" where
  "one_per_name dc ps eligible \<longleftrightarrow>
     set eligible \<subseteq> set ps \<and> distinct (List.map (\<lambda>f. map_of (pkg_fn dc) f) eligible)"

lemma chosen_ok_one_per_name: "chosen_ok dc ps chosen eligible \<Longrightarrow> one_per_name dc ps eligible"
  unfolding chosen_ok_def one_per_name_def distinct_map inj_on_def
  by (metis (no_types, lifting) option.inject prod.inject subsetI)

lemma one_per_name_perm:
  assumes "mset e = mset eligible" and "one_per_name dc ps eligible"
  shows "one_per_name dc ps e"
proof -
  have "set e = set eligible" using assms(1) by (metis set_mset_mset)
  moreover have "mset (List.map (\<lambda>f. map_of (pkg_fn dc) f) e) = mset (List.map (\<lambda>f. map_of (pkg_fn dc) f) eligible)"
    using assms(1) by simp
  then have "distinct (List.map (\<lambda>f. map_of (pkg_fn dc) f) e)"
    using assms(2) unfolding one_per_name_def by (metis mset_eq_imp_distinct_iff)
  ultimately show ?thesis using assms(2) by (simp add: one_per_name_def)
qed

lemma priv_filterProviders_result:
  assumes "priv_filterProviders ps item cfg dc = Inr eligible" and "[] \<notin> set ps"
  shows "one_per_name dc ps eligible \<and>
    ((\<forall>pn. versionVariableMatch cfg ''REQUIRED'' pn = None) \<longrightarrow>
      (\<forall>p \<in> set ps. \<exists>e \<in> set eligible. map_of (pkg_fn dc) e = map_of (pkg_fn dc) p))"
proof -
  from assms(1) obtain coll ret sp chosen el where
    coll: "collate dc (sort ps) = Inr coll"
    and pref: "preferred_loop cfg dc coll (sort (dict_keys coll)) ([], [], []) = Inr (ret, sp, chosen, el)"
    and rest: "(if ret then Inr el
      else res_bind (latest_loop cfg dc sp (sort (dict_keys sp)) (chosen, el)) (\<lambda>(chosen, eligible).
        if eligible = [] then Inr eligible else own_name_loop dc item chosen (sort ps) eligible)) = Inr eligible"
    unfolding priv_filterProviders_def Let_def by (auto elim!: res_bind_Inr_E)
  have ne: "[] \<notin> set (sort ps)" using assms(2) by simp
  have "sets_ok dc (sort ps) [] \<and> chosen_ok dc (sort ps) [] []"
    by (simp add: sets_ok_def chosen_ok_def)
  with preferred_loop_ok[OF coll ne pref] collate_lists(4)[OF coll]
  have ok: "sets_ok dc (sort ps) sp" "chosen_ok dc (sort ps) chosen el"
    "\<not> ret \<Longrightarrow> fst ` set sp = fst ` set coll"
    "ret \<Longrightarrow> \<exists>pn. versionVariableMatch cfg ''REQUIRED'' pn \<noteq> None" by auto
  show ?thesis
  proof (cases ret)
    case True
    with rest ok chosen_ok_one_per_name[OF ok(2)] show ?thesis by (auto simp: one_per_name_def)
  next
    case False
    with rest obtain chosen' el' where
      latest: "latest_loop cfg dc sp (sort (dict_keys sp)) (chosen, el) = Inr (chosen', el')"
      and own: "(if el' = [] then Inr el' else own_name_loop dc item chosen' (sort ps) el') = Inr eligible"
      by (auto elim!: res_bind_Inr_E)
    from latest_loop_ok[OF ne latest ok(1,2)]
    have ok': "chosen_ok dc (sort ps) chosen' el'" "\<forall>pn \<in> fst ` set sp. has_file chosen' pn" by auto
    have perm: "mset eligible = mset el'"
      using own by (auto dest: own_name_loop_perm split: if_splits)
    then have eq: "set eligible = set el'" by (metis set_mset_mset)
    have "one_per_name dc (sort ps) eligible"
      using perm chosen_ok_one_per_name[OF ok'(1)] by (rule one_per_name_perm)
    moreover have "\<exists>e \<in> set eligible. map_of (pkg_fn dc) e = map_of (pkg_fn dc) p" if p: "p \<in> set ps" for p
    proof -
      obtain pn where pn: "map_of (pkg_fn dc) p = Some pn"
        using collate_lists(3)[OF coll, of p] p by auto
      with p collate_lists(2)[OF coll] ok(3)[OF False] ok'(2) obtain ver f where
        "map_of chosen' pn = Some (ver, Some f)" by auto
      with ok'(1) pn eq show ?thesis unfolding chosen_ok_def by metis
    qed
    ultimately show ?thesis by (simp add: one_per_name_def)
  qed
qed


section \<open>Properties\<close>

text \<open>A cache of two layers: two versions of foo in a layer of priority 5, a newer one in a
  layer of priority 6, and bar, which provides virtual/foo as foo does.\<close>

definition sample_cache :: cache_data where
  "sample_cache = empty_cache
     \<lparr>pkg_fn := [(''foo_1.2.bb'', ''foo''), (''foo_1.10.bb'', ''foo''), (''foo_1.3.bb'', ''foo''), (''bar.bb'', ''bar'')],
      pkg_pn := [(''foo'', [''foo_1.2.bb'', ''foo_1.10.bb'', ''foo_1.3.bb'']), (''bar'', [''bar.bb''])],
      pkg_pepvpr := [(''foo_1.2.bb'', [], ''1.2'', ''r0''), (''foo_1.10.bb'', [], ''1.10'', ''r0''),
        (''foo_1.3.bb'', [], ''1.3'', ''r0''), (''bar.bb'', [], ''1.0'', ''r0'')],
      pkg_dp := [(''foo_1.2.bb'', 0), (''foo_1.10.bb'', 0), (''foo_1.3.bb'', 0), (''bar.bb'', 0)],
      bbfile_priority := [(''foo_1.2.bb'', 5), (''foo_1.10.bb'', 5), (''foo_1.3.bb'', 6), (''bar.bb'', 5)],
      pn_provides := [(''foo'', [''foo'', ''virtual/foo'']), (''bar'', [''bar'', ''virtual/foo''])],
      providers := [(''foo'', [''foo_1.2.bb'', ''foo_1.10.bb'', ''foo_1.3.bb'']), (''bar'', [''bar.bb'']),
        (''virtual/foo'', [''foo_1.2.bb'', ''foo_1.10.bb'', ''foo_1.3.bb'', ''bar.bb''])]\<rparr>"

definition sample_cfg :: cfg where
  "sample_cfg v = (if v = ''PREFERRED_PROVIDER_virtual/foo'' then Some ''bar'' else None)"

text \<open>\<open>sortPriorities\<close> loses and invents no file: the sets it returns together hold
  the files of the package name, each set has one layer priority, the priorities strictly fall
  from set to set, and inside a set the default preference never falls.\<close>

theorem sortPriorities_partitions:
  assumes "sortPriorities pn dc arg = Inr sets"
  shows "mset (concat sets) = mset (if arg = [] then dict_list (pkg_pn dc) pn else dict_list arg pn) \<and>
    sorted_wrt (\<lambda>A B. \<forall>f \<in> set A. \<forall>g \<in> set B. prio_of dc f > prio_of dc g) sets \<and>
    (\<forall>S \<in> set sets. S \<noteq> [] \<and> (\<forall>f \<in> set S. \<forall>g \<in> set S. prio_of dc f = prio_of dc g) \<and>
       sorted_wrt (\<lambda>f g. pref_of dc f \<le> pref_of dc g) S)"
  using sortPriorities_sets[OF assms] unfolding priority_sets_def .

theorem sortPriorities_partitions_witness:
  "sortPriorities ''foo'' sample_cache [] = Inr [[''foo_1.3.bb''], [''foo_1.2.bb'', ''foo_1.10.bb'']] \<and>
   mset (concat [[''foo_1.3.bb''], [''foo_1.2.bb'', ''foo_1.10.bb'']]) =
     mset (dict_list (pkg_pn sample_cache) ''foo'')"
proof -
  have s: "sortPriorities ''foo'' sample_cache [] = Inr [[''foo_1.3.bb''], [''foo_1.2.bb'', ''foo_1.10.bb'']]"
    by code_simp
  from s sortPriorities_partitions[OF s] show ?thesis by simp
qed

text \<open>C37: \<open>findLatestProvider\<close> on a non-empty file set returns a file of the set with its
  version, and no other file has a higher default preference or, at the same preference, a
  newer version.\<close>

theorem findLatestProvider_maximal:
  assumes "findLatestProvider pn cfg dc fs = Inr (latest, latest_f)" and "fs \<noteq> []"
  shows "\<exists>f \<in> set fs. latest_f = Some f \<and> latest = map_of (pkg_pepvpr dc) f \<and>
    (\<forall>g \<in> set fs. g = f \<or> pref_of dc g < pref_of dc f \<or>
       (pref_of dc g = pref_of dc f \<and> (\<exists>c \<ge> 0. vercmp (ver_of dc f) (ver_of dc g) = Inr c)))"
proof -
  obtain f v where "f \<in> set fs" "latest_f = Some f" "latest = Some v" "map_of (pkg_pepvpr dc) f = Some v"
    "\<And>g. g \<in> set fs \<Longrightarrow> g = f \<or> beats vercmp dc f g"
    using findLatestProvider_best[OF assms] by metis
  then show ?thesis unfolding beats_def by metis
qed

theorem findLatestProvider_maximal_witness:
  "findLatestProvider ''foo'' sample_cfg sample_cache [''foo_1.2.bb'', ''foo_1.10.bb''] =
     Inr (Some ([], ''1.10'', ''r0''), Some ''foo_1.10.bb'') \<and>
   (\<exists>c \<ge> 0. vercmp (ver_of sample_cache ''foo_1.10.bb'') (ver_of sample_cache ''foo_1.2.bb'') = Inr c)"
proof -
  have r: "findLatestProvider ''foo'' sample_cfg sample_cache [''foo_1.2.bb'', ''foo_1.10.bb''] =
     Inr (Some ([], ''1.10'', ''r0''), Some ''foo_1.10.bb'')" by code_simp
  from r findLatestProvider_maximal[OF r] show ?thesis
    by (auto simp: sample_cache_def)
qed

text \<open>without REQUIRED\_VERSION and PREFERRED\_VERSION the best provider is the latest
  one of the layer of highest priority.\<close>

theorem findBestProvider_default:
  assumes "findBestProvider pn cfg dc arg = Inr (latest, latest_f, ver, chosen_f, required)"
    and "versionVariableMatch cfg ''REQUIRED'' pn = None"
    and "\<not> truthy (versionVariableMatch cfg ''PREFERRED'' pn)"
  shows "\<not> required \<and> chosen_f = latest_f \<and> ver = latest \<and>
    (\<exists>top rest. sortPriorities pn dc arg = Inr (top # rest) \<and> top \<noteq> [] \<and>
       findLatestProvider pn cfg dc top = Inr (latest, latest_f) \<and>
       (\<forall>f \<in> set top. \<forall>g \<in> set (concat rest). prio_of dc g < prio_of dc f))"
proof -
  have pref: "findPreferredProvider pn cfg dc sets = Inr (None, None, False)" for sets
    using assms(2,3) by (simp add: findPreferredProvider_def Let_def)
  obtain sets where s: "sortPriorities pn dc arg = Inr sets"
    using assms(1) unfolding findBestProvider_def by (auto elim!: res_bind_Inr_E)
  have ne: "0 < length sets"
    using assms(1) by (cases sets) (simp_all add: findBestProvider_def s pref list_get_def)
  obtain l lf where l: "findLatestProvider pn cfg dc (sets ! 0) = Inr (l, lf)"
    using assms(1) ne unfolding findBestProvider_def s
    by (auto elim!: res_bind_Inr_E simp: pref list_get_def)
  have eqs: "l = latest \<and> lf = latest_f \<and> l = ver \<and> lf = chosen_f \<and> \<not> required"
    using assms(1) ne by (simp add: findBestProvider_def s pref list_get_def l, blast)
  have sets: "sortPriorities pn dc arg = Inr sets" "0 < length sets"
    "findLatestProvider pn cfg dc (sets ! 0) = Inr (latest, latest_f)"
    "chosen_f = latest_f" "ver = latest" "\<not> required"
    subgoal by (rule s)
    subgoal by (rule ne)
    subgoal using l eqs by metis
    subgoal using eqs by metis
    subgoal using eqs by metis
    subgoal using eqs by metis
    done
  obtain top rest where tr: "sets = top # rest" using ne by (cases sets) auto
  have sw: "sorted_wrt (\<lambda>A B. \<forall>f \<in> set A. \<forall>g \<in> set B. prio_of dc f > prio_of dc g) (top # rest)"
    and "\<forall>S \<in> set (top # rest). S \<noteq> []"
    using sortPriorities_sets[OF sets(1)] unfolding tr priority_sets_def by blast+
  then have "top \<noteq> []" "\<forall>f \<in> set top. \<forall>g \<in> set (concat rest). prio_of dc g < prio_of dc f"
    by auto
  moreover have "sortPriorities pn dc arg = Inr (top # rest)" using s tr by simp
  moreover have "findLatestProvider pn cfg dc top = Inr (latest, latest_f)" using sets(3) tr by simp
  ultimately show ?thesis using sets(4-6) by blast
qed

theorem findBestProvider_default_witness:
  "findBestProvider ''foo'' sample_cfg sample_cache [] =
    Inr (Some ([], ''1.3'', ''r0''), Some ''foo_1.3.bb'', Some ([], ''1.3'', ''r0''), Some ''foo_1.3.bb'', False) \<and>
   (\<exists>top rest. sortPriorities ''foo'' sample_cache [] = Inr (top # rest) \<and>
     findLatestProvider ''foo'' sample_cfg sample_cache top = Inr (Some ([], ''1.3'', ''r0''), Some ''foo_1.3.bb''))"
proof -
  have r: "findBestProvider ''foo'' sample_cfg sample_cache [] =
    Inr (Some ([], ''1.3'', ''r0''), Some ''foo_1.3.bb'', Some ([], ''1.3'', ''r0''), Some ''foo_1.3.bb'', False)"
    by code_simp
  have "versionVariableMatch sample_cfg ''REQUIRED'' ''foo'' = None"
    "\<not> truthy (versionVariableMatch sample_cfg ''PREFERRED'' ''foo'')"
    by (simp_all add: versionVariableMatch_def sample_cfg_def)
  from findBestProvider_default[OF r this] r show ?thesis by blast
qed

text \<open>\<open>filterProviders\<close> keeps at most one of the given files per package name; with
  no REQUIRED\_VERSION set it keeps exactly one for each; and when it reports a unique choice the
  first file has the package name the preferred provider names.\<close>

theorem filterProviders_one_per_name:
  assumes "filterProviders ps item cfg dc = Inr (eligible, foundUnique, dc')" and "[] \<notin> set ps"
  shows "set eligible \<subseteq> set ps \<and> distinct (List.map (map_of (pkg_fn dc)) eligible) \<and>
    ((\<forall>pn. versionVariableMatch cfg ''REQUIRED'' pn = None) \<longrightarrow>
      (\<forall>p \<in> set ps. \<exists>e \<in> set eligible. map_of (pkg_fn dc) e = map_of (pkg_fn dc) p)) \<and>
    (foundUnique \<longrightarrow> eligible \<noteq> [] \<and> map_of (preferred dc') item = map_of (pkg_fn dc) (hd eligible))"
proof -
  have first: "first_of_name d want qs = Inr (Some p) \<Longrightarrow> p \<in> set qs \<and> map_of (pkg_fn d) p = Some want"
    for d want qs p
    by (induction qs) (auto simp: res_bind_Inr_iff split: if_splits)
  from assms(1) obtain e0 where e0: "priv_filterProviders ps item cfg dc = Inr e0"
    and cases: "eligible = e0 \<and> \<not> foundUnique \<or> (\<exists>p want. eligible = p # remove1 p e0 \<and> foundUnique \<and>
      map_of (preferred dc') item = Some want \<and> first_of_name dc' want e0 = Inr (Some p) \<and> pkg_fn dc' = pkg_fn dc)"
    unfolding filterProviders_def Let_def
    by (fastforce elim!: res_bind_Inr_E split: option.splits if_splits)
  have perm: "mset eligible = mset e0" and
    hd: "foundUnique \<longrightarrow> eligible \<noteq> [] \<and> map_of (preferred dc') item = map_of (pkg_fn dc) (hd eligible)"
    using cases first by fastforce+
  from perm have eq: "set eligible = set e0" by (metis set_mset_mset)
  note r = priv_filterProviders_result[OF e0 assms(2)]
  from r one_per_name_perm[OF perm] have "one_per_name dc ps eligible" by blast
  with r eq hd show ?thesis by (simp add: one_per_name_def)
qed

theorem filterProviders_one_per_name_witness:
  "\<exists>dc'. filterProviders (dict_list (providers sample_cache) ''virtual/foo'') ''virtual/foo'' sample_cfg sample_cache =
     Inr ([''bar.bb'', ''foo_1.3.bb''], True, dc') \<and>
     map_of (preferred dc') ''virtual/foo'' = map_of (pkg_fn sample_cache) ''bar.bb''"
proof -
  obtain dc' where r: "filterProviders (dict_list (providers sample_cache) ''virtual/foo'') ''virtual/foo''
      sample_cfg sample_cache = Inr ([''bar.bb'', ''foo_1.3.bb''], True, dc')"
  proof -
    have "res_bind (filterProviders (dict_list (providers sample_cache) ''virtual/foo'') ''virtual/foo''
      sample_cfg sample_cache) (\<lambda>(e, u, d). Inr (e, u)) = Inr ([''bar.bb'', ''foo_1.3.bb''], True)"
      by code_simp
    then show ?thesis using that by (auto elim!: res_bind_Inr_E)
  qed
  have "[] \<notin> set (dict_list (providers sample_cache) ''virtual/foo'')" by code_simp
  from filterProviders_one_per_name[OF r this] r show ?thesis by auto
qed

text \<open>the revision of a preferred version is never taken apart: whatever follows the
  epochs, underscore included, is compared with PV alone, so \<open>1.2_r1\<close> does not select version
  1.2 with revision r1.\<close>

theorem preferred_revision_ignored:
  "snd (snd (match_preferred v)) = None \<and>
   (pv \<noteq> v \<and> CHR 0x0A \<notin> set v \<and> fst (match_preferred v) = None \<and> \<not> endswith v ''%'' \<longrightarrow>
     \<not> preferredVersionMatch pe pv pr None (Some (fst (snd (match_preferred v)))) None)"
proof -
  have "snd (skip_epochs s g) = s" if "fst (skip_epochs s g) = None" for s g
  proof -
    have nn: "g \<noteq> None \<Longrightarrow> fst (skip_epochs s g) \<noteq> None" for s g
    proof (induction s g rule: skip_epochs.induct)
      case (1 s g)
      then show ?case by (simp add: skip_epochs.simps[of s g] Let_def)
    qed
    show ?thesis
    proof (cases "takeWhile is_digit s \<noteq> [] \<and> dropWhile is_digit s \<noteq> [] \<and> hd (dropWhile is_digit s) = CHR '':''")
      case True
      then have "skip_epochs s g = skip_epochs (tl (dropWhile is_digit s)) (Some (takeWhile is_digit s @ '':''))"
        by (simp add: skip_epochs.simps[of s g] Let_def)
      with nn[of "Some (takeWhile is_digit s @ '':'')" "tl (dropWhile is_digit s)"] that show ?thesis
        by simp
    next
      case False
      then show ?thesis by (auto simp: skip_epochs.simps[of s g] Let_def)
    qed
  qed
  from this[of v None] have "fst (match_preferred v) = None \<and> CHR 0x0A \<notin> set v \<Longrightarrow>
      fst (snd (match_preferred v)) = v"
    by (cases "skip_epochs v None") (auto simp: match_preferred_def takeWhile_eq_all_conv)
  then show ?thesis
    by (auto simp: match_preferred_def preferredVersionMatch_def split: prod.splits)
qed

theorem preferred_revision_ignored_witness:
  "match_preferred ''1.2_r1'' = (None, ''1.2_r1'', None) \<and>
   \<not> preferredVersionMatch [] ''1.2'' ''r1'' None (Some ''1.2_r1'') None"
proof -
  have m: "match_preferred ''1.2_r1'' = (None, ''1.2_r1'', None)" by code_simp
  from preferred_revision_ignored[of "''1.2_r1''" "''1.2''" "[]" "''r1''"] m show ?thesis
    by (simp add: endswith_def)
qed

lemma runtime_loop_perm:
  "runtime_loop cfg dc pns i L aliased eligible pf = Inr (e, pf') \<Longrightarrow>
   snd ` set pns \<subseteq> set eligible \<Longrightarrow> mset e = mset eligible"
proof (induction cfg dc pns i L aliased eligible pf rule: runtime_loop.induct)
  case (1 cfg dc pns i L aliased eligible pf)
  show ?case
  proof (cases "i < length L")
    case False
    with 1(3) show ?thesis by (simp add: runtime_loop.simps[of _ _ _ i])
  next
    case True
    then obtain pn where pn: "map_of (pkg_fn dc) (L ! i) = Some pn"
      using 1(3) by (auto simp: runtime_loop.simps[of _ _ _ i] split: option.splits)
    let ?P = "\<lambda>provide. case Option.bind (cfg (''PREFERRED_PROVIDER_'' @ provide)) (map_of pns) of
        None \<Rightarrow> False | Some pref \<Rightarrow> pref \<notin> set pf"
    show ?thesis
    proof (cases "List.find ?P (dict_list (pn_provides dc) pn)")
      case None
      with True pn 1(1)[OF True pn None] 1(3,4) show ?thesis
        by (simp add: runtime_loop.simps[of _ _ _ i])
    next
      case (Some provide)
      then have "?P provide" by (auto simp: find_Some_iff)
      then obtain pref where pref: "Option.bind (cfg (''PREFERRED_PROVIDER_'' @ provide)) (map_of pns) = Some pref"
        by (auto split: option.splits)
      then have "pref \<in> snd ` set pns" by (auto simp: bind_eq_Some_conv dest!: map_of_SomeD intro: rev_image_eqI)
      with 1(4) have mem: "pref \<in> set eligible" by auto
      then have eqs: "mset (pref # remove1 pref eligible) = mset eligible" by simp
      then have seteq: "set (pref # remove1 pref eligible) = set eligible" by (metis set_mset_mset)
      from True pn Some pref 1(3) have
        "runtime_loop cfg dc pns (Suc i) (if aliased then remove1 pref L else L) False
          (pref # remove1 pref eligible) (pf @ [pref]) = Inr (e, pf')"
        by (simp add: runtime_loop.simps[of _ _ _ i] Let_def)
      from 1(2)[OF True pn Some refl refl refl, unfolded pref option.sel, OF this] 1(4) seteq eqs
      show ?thesis by simp
    qed
  qed
qed

lemma runtime_loop_two:
  assumes "runtime_loop cfg dc pns i L True L pf = Inr (e, pf')" and "length L \<le> 2"
    and "snd ` set pns \<subseteq> set L"
  shows "length pf' \<le> Suc (length pf)"
  using assms
proof (induction "2 - i" arbitrary: i)
  case 0
  then have "\<not> i < length L" by simp
  with 0(2) show ?case by (simp add: runtime_loop.simps[of _ _ _ i])
next
  case (Suc n)
  show ?case
  proof (cases "i < length L")
    case False
    with Suc(3) show ?thesis by (simp add: runtime_loop.simps[of _ _ _ i])
  next
    case True
    then obtain pn where pn: "map_of (pkg_fn dc) (L ! i) = Some pn"
      using Suc(3) by (auto simp: runtime_loop.simps[of _ _ _ i] split: option.splits)
    let ?P = "\<lambda>provide. case Option.bind (cfg (''PREFERRED_PROVIDER_'' @ provide)) (map_of pns) of
        None \<Rightarrow> False | Some pref \<Rightarrow> pref \<notin> set pf"
    show ?thesis
    proof (cases "List.find ?P (dict_list (pn_provides dc) pn)")
      case None
      with True pn Suc(1)[of "Suc i"] Suc(2-) show ?thesis
        by (simp add: runtime_loop.simps[of _ _ _ i])
    next
      case (Some provide)
      then have "?P provide" by (auto simp: find_Some_iff)
      then obtain pref where pref: "Option.bind (cfg (''PREFERRED_PROVIDER_'' @ provide)) (map_of pns) = Some pref"
        by (auto split: option.splits)
      then have "pref \<in> snd ` set pns" by (auto simp: bind_eq_Some_conv dest!: map_of_SomeD intro: rev_image_eqI)
      with Suc(5) have "pref \<in> set L" by auto
      then have short: "\<not> Suc i < length (remove1 pref L)" using Suc(4) by (simp add: length_remove1)
      from True pn Some pref Suc(3) have
        "runtime_loop cfg dc pns (Suc i) (remove1 pref L) False (pref # remove1 pref L) (pf @ [pref]) = Inr (e, pf')"
        by (simp add: runtime_loop.simps[of _ _ _ i] Let_def)
      with short show ?thesis by (auto simp: runtime_loop.simps[of _ _ _ "Suc i"])
    qed
  qed
qed

lemma name_table_values:
  "res_fold (\<lambda>p d. res_bind (dict_get (pkg_fn dc) p) (\<lambda>pn. Inr (AList.update pn p d))) es d = Inr pns \<Longrightarrow>
   snd ` set pns \<subseteq> snd ` set d \<union> set es"
proof (induction es arbitrary: d)
  case (Cons p es)
  from Cons.prems obtain pn where
    "res_fold (\<lambda>p d. res_bind (dict_get (pkg_fn dc) p) (\<lambda>pn. Inr (AList.update pn p d))) es
      (AList.update pn p d) = Inr pns" by (auto elim!: res_bind_Inr_E)
  from Cons.IH[OF this] have "snd ` set pns \<subseteq> snd ` set (AList.update pn p d) \<union> set es" .
  moreover have "snd ` set (AList.update pn p d) \<subseteq> insert p (snd ` set d)"
    by (induction d) auto
  ultimately show ?case by auto
qed simp

text \<open>with at most two eligible runtime providers the number of preferred ones that
  \<open>filterProvidersRunTime\<close> reports never exceeds one, whatever the PREFERRED\_PROVIDER entries
  say: the loop removes the preferred file from the very list it iterates over and never reaches the
  second candidate, so a conflict between two candidates stays unnoticed. The list itself is only
  reordered.\<close>

theorem runtime_conflict_of_two_unnoticed:
  assumes "filterProvidersRunTime ps item cfg dc = Inr (eligible, numberPreferred)" and "length eligible \<le> 2"
  shows "numberPreferred \<le> 1 \<and>
    (\<exists>e0. priv_filterProviders ps item cfg dc = Inr e0 \<and> mset eligible = mset e0)"
proof -
  have first: "first_of_name dc want qs = Inr (Some p) \<Longrightarrow> p \<in> set qs" for want qs p
    by (induction qs) (auto simp: res_bind_Inr_iff split: if_splits)
  from assms(1) obtain e0 found where e0: "priv_filterProviders ps item cfg dc = Inr e0"
    and found: "(if truthy (cfg (''PREFERRED_RPROVIDER_'' @ item))
      then first_of_name dc (the (cfg (''PREFERRED_RPROVIDER_'' @ item))) e0 else Inr None) = Inr found"
    and rest: "(case found of Some p \<Rightarrow> Inr (p # remove1 p e0, 1)
        | None \<Rightarrow> res_bind (res_fold (\<lambda>p d. res_bind (dict_get (pkg_fn dc) p) (\<lambda>pn. Inr (AList.update pn p d))) e0 [])
           (\<lambda>pns. res_bind (runtime_loop cfg dc pns 0 e0 True e0 [])
             (\<lambda>(eligible, pf). Inr (eligible, length pf)))) = Inr (eligible, numberPreferred)"
    unfolding filterProvidersRunTime_def Let_def by (elim res_bind_Inr_E) (rule that)
  show ?thesis
  proof (cases found)
    case (Some p)
    with found have "p \<in> set e0" by (auto split: if_splits dest: first)
    with Some rest e0 show ?thesis by auto
  next
    case None
    with rest obtain pns pf where pns: "res_fold (\<lambda>p d. res_bind (dict_get (pkg_fn dc) p)
        (\<lambda>pn. Inr (AList.update pn p d))) e0 [] = Inr pns"
      and loop: "runtime_loop cfg dc pns 0 e0 True e0 [] = Inr (eligible, pf)" "numberPreferred = length pf"
      by (auto elim!: res_bind_Inr_E)
    have sub: "snd ` set pns \<subseteq> set e0" using name_table_values[OF pns] by simp
    from runtime_loop_perm[OF loop(1) sub] have perm: "mset eligible = mset e0" .
    then have "length e0 \<le> 2" using assms(2) by (metis size_mset)
    from runtime_loop_two[OF loop(1) this sub] loop(2) perm e0 show ?thesis by simp
  qed
qed

text \<open>Both names are preferred, for one item each, and one preference is reported.\<close>

theorem runtime_conflict_of_two_unnoticed_witness:
  "let cfg = (\<lambda>v. if v = ''PREFERRED_PROVIDER_foo'' then Some ''foo''
                  else if v = ''PREFERRED_PROVIDER_bar'' then Some ''bar'' else None)
   in filterProvidersRunTime [''foo_1.2.bb'', ''bar.bb''] ''rt'' cfg sample_cache =
        Inr ([''bar.bb'', ''foo_1.2.bb''], 1) \<and> (1::nat) \<le> 1"
proof -
  let ?cfg = "\<lambda>v. if v = ''PREFERRED_PROVIDER_foo'' then Some ''foo''
                  else if v = ''PREFERRED_PROVIDER_bar'' then Some ''bar'' else None"
  have r: "filterProvidersRunTime [''foo_1.2.bb'', ''bar.bb''] ''rt'' ?cfg sample_cache =
        Inr ([''bar.bb'', ''foo_1.2.bb''], 1)" by code_simp
  from runtime_conflict_of_two_unnoticed[OF r] r show ?thesis by simp
qed

end
