(* ===== verification/Task_Data.thy ===== *)
theory Task_Data
  imports Providers
begin

text \<open>
  \<open>poky/bitbake/lib/bb/taskdata.py\<close>: \<open>TaskData\<close>, which turns the targets asked for into the
  set of recipe files to build. It follows build and runtime dependencies, records the tasks
  of every file it meets and, when something cannot be provided, fails every file that needs
  it.

  \<^item> \<open>taskdata\<close> holds the fields of the class; \<open>td_state\<close> adds the cache the methods read and
    update and the events they fire.
  \<^item> Parameters (\<open>td_env\<close>): the variable lookup of the datastore, \<open>re.match\<close> on patterns that
    come from the configuration, \<open>difflib.get_close_matches\<close>, whose result only goes
    into an event, and the execution of a recipe's \<open>calculate_extra_depends\<close>, which gets the
    dependency list, the world targets, \<open>pkg_pn\<close> and its own name and returns the new list.
  \<^item> \<open>bb.msg.fatal\<close> is \<open>SystemExit\<close>. The \<open>missing_list\<close> arguments of the failure functions only
    feed log messages and are left out, as the logging is.
  \<^item> \<open>fail_fn\<close> recurses through \<open>remove_buildtarget\<close> and \<open>remove_runtarget\<close>; its fuel is spent
    only when it marks a file as failed, and \<open>fail_fuel\<close> bounds the files there are.
\<close>

record task_entry =
  te_tdepends :: "string list"
  te_idepends :: "(string \<times> string) list"
  te_irdepends :: "(string \<times> string) list"

record skip_item =
  skip_pn :: string
  skip_reason :: string
  skip_rprovides :: "string list"
  skip_provides :: "string list"

datatype td_event =
    NoProviderEvent string bool "string list" "string list" "string list"
  | MultipleProvidersEvent string "string list" bool

record taskdata =
  build_targets :: "(string, string list) dict"
  run_targets :: "(string, string list) dict"
  external_targets :: "string list"
  seenfns :: "string list"
  taskentries :: "(string, task_entry) dict"
  depids :: "(string, string list) dict"
  rdepids :: "(string, string list) dict"
  consider_msgs_cache :: "string list"
  failed_deps :: "string list"
  failed_rdeps :: "string list"
  failed_fns :: "string list"
  halt :: bool
  allowincomplete :: bool
  skiplist :: "(string, skip_item) dict"
  mcdepends :: "string list"

record td_state = taskdata +
  dcache :: cache_data
  fired :: "td_event list"

record td_env =
  env_cfg :: cfg
  env_re :: "string \<Rightarrow> string \<Rightarrow> bool res"
  env_close :: "string \<Rightarrow> string list \<Rightarrow> string list"
  env_exec :: "string \<Rightarrow> string list \<Rightarrow> string list \<Rightarrow> (string, string list) dict \<Rightarrow> string \<Rightarrow> string list res"

definition new_taskdata :: "bool \<Rightarrow> (string, skip_item) dict \<Rightarrow> bool \<Rightarrow> cache_data \<Rightarrow> td_state" where
  "new_taskdata h sl ai dc =
     \<lparr> build_targets = [], run_targets = [], external_targets = [], seenfns = [], taskentries = [],
       depids = [], rdepids = [], consider_msgs_cache = [], failed_deps = [], failed_rdeps = [],
       failed_fns = [], halt = h, allowincomplete = ai, skiplist = sl, mcdepends = [],
       dcache = dc, fired = [] \<rparr>"

text \<open>\<open>re_match_strings\<close>\<close>

fun re_match_strings :: "(string \<Rightarrow> string \<Rightarrow> bool res) \<Rightarrow> string \<Rightarrow> string list \<Rightarrow> bool res" where
  "re_match_strings re target [] = Inr False"
| "re_match_strings re target (name # names) =
     (if startswith name ''^'' \<or> endswith name ''$''
      then res_bind (re name target) (\<lambda>b. if b then Inr True else re_match_strings re target names)
      else if name = target then Inr True
      else re_match_strings re target names)"

section \<open>Lookups\<close>

definition have_build_target :: "('a taskdata_scheme) \<Rightarrow> string \<Rightarrow> bool" where
  "have_build_target s target \<longleftrightarrow> dict_list (build_targets s) target \<noteq> []"

definition have_runtime_target :: "('a taskdata_scheme) \<Rightarrow> string \<Rightarrow> bool" where
  "have_runtime_target s target \<longleftrightarrow> dict_list (run_targets s) target \<noteq> []"

definition get_dependees :: "('a taskdata_scheme) \<Rightarrow> string \<Rightarrow> string list" where
  "get_dependees s item = List.map fst (filter (\<lambda>(fn, deps). item \<in> set deps) (depids s))"

definition get_rdependees :: "('a taskdata_scheme) \<Rightarrow> string \<Rightarrow> string list" where
  "get_rdependees s item = List.map fst (filter (\<lambda>(fn, deps). item \<in> set deps) (rdepids s))"

definition get_reasons :: "('a taskdata_scheme) \<Rightarrow> string \<Rightarrow> bool \<Rightarrow> string list" where
  "get_reasons s item runtime =
     concat (List.map (\<lambda>(fn, sk).
       if skip_pn sk = item then [skip_pn sk @ '' was skipped: '' @ skip_reason sk]
       else if runtime \<and> item \<in> set (skip_rprovides sk)
       then [skip_pn sk @ '' RPROVIDES '' @ item @ '' but was skipped: '' @ skip_reason sk]
       else if \<not> runtime \<and> item \<in> set (skip_provides sk)
       then [skip_pn sk @ '' PROVIDES '' @ item @ '' but was skipped: '' @ skip_reason sk]
       else []) (skiplist s))"

definition get_close_matches :: "td_env \<Rightarrow> ('a taskdata_scheme) \<Rightarrow> string \<Rightarrow> string list \<Rightarrow> string list" where
  "get_close_matches env s item provider_list =
     env_close env item (provider_list @ List.map (\<lambda>(fn, sk). skip_pn sk) (skiplist s))"

definition get_provider :: "('a taskdata_scheme) \<Rightarrow> string \<Rightarrow> string list res" where
  "get_provider s item = dict_get (build_targets s) item"

definition get_providermap :: "('a taskdata_scheme) \<Rightarrow> string option \<Rightarrow> (string, string) dict" where
  "get_providermap s prefix =
     concat (List.map (\<lambda>(name, fns).
       if truthy prefix \<and> \<not> startswith name (the prefix) then []
       else case fns of [] \<Rightarrow> [] | fn # _ \<Rightarrow> [(name, fn)]) (build_targets s))"

definition unresolved_in ::
  "td_env \<Rightarrow> string list \<Rightarrow> string list \<Rightarrow> (string, string list) dict \<Rightarrow> string list res" where
  "unresolved_in env ignored failed targets =
     res_fold (\<lambda>(target, fns) acc.
       res_bind (re_match_strings (env_re env) target ignored) (\<lambda>ig.
         Inr (if ig then acc else if target \<in> set failed then acc
              else if fns = [] then acc @ [target] else acc)))
       targets []"

definition get_unresolved_build_targets :: "td_env \<Rightarrow> (td_state, string list) act" where
  "get_unresolved_build_targets env = act_bind (act_gets (\<lambda>s.
     unresolved_in env (ignored_dependencies (dcache s)) (failed_deps s) (build_targets s))) act_lift"

definition get_unresolved_run_targets :: "td_env \<Rightarrow> (td_state, string list) act" where
  "get_unresolved_run_targets env = act_bind (act_gets (\<lambda>s.
     unresolved_in env (ignored_dependencies (dcache s)) (failed_rdeps s) (run_targets s))) act_lift"

section \<open>Targets\<close>

definition seen_build_target :: "string \<Rightarrow> (td_state, unit) act" where
  "seen_build_target name = act_modify (\<lambda>s.
     if has_key (build_targets s) name then s
     else s\<lparr>build_targets := AList.update name [] (build_targets s)\<rparr>)"

definition seen_run_target :: "string \<Rightarrow> (td_state, unit) act" where
  "seen_run_target name = act_modify (\<lambda>s.
     if has_key (run_targets s) name then s
     else s\<lparr>run_targets := AList.update name [] (run_targets s)\<rparr>)"

text \<open>\<open>add_build_target\<close> and \<open>add_runtime_target\<close>: an absent item gets the list \<open>[fn]\<close>, which is
  what appending to an empty one gives.\<close>

definition add_build_target :: "string \<Rightarrow> string \<Rightarrow> (td_state, unit) act" where
  "add_build_target fn item = act_modify (\<lambda>s.
     if has_key (build_targets s) item
     then (if fn \<in> set (dict_list (build_targets s) item) then s
           else s\<lparr>build_targets := dict_append item fn (build_targets s)\<rparr>)
     else s\<lparr>build_targets := AList.update item [fn] (build_targets s)\<rparr>)"

definition add_runtime_target :: "string \<Rightarrow> string \<Rightarrow> (td_state, unit) act" where
  "add_runtime_target fn item = act_modify (\<lambda>s.
     if has_key (run_targets s) item
     then (if fn \<in> set (dict_list (run_targets s) item) then s
           else s\<lparr>run_targets := dict_append item fn (run_targets s)\<rparr>)
     else s\<lparr>run_targets := AList.update item [fn] (run_targets s)\<rparr>)"

definition mark_external_target :: "string \<Rightarrow> (td_state, unit) act" where
  "mark_external_target target = act_modify (\<lambda>s.
     s\<lparr>external_targets := set_add target (external_targets s)\<rparr>)"

definition fire :: "td_event \<Rightarrow> (td_state, unit) act" where
  "fire e = act_modify (\<lambda>s. s\<lparr>fired := fired s @ [e]\<rparr>)"

section \<open>Failure\<close>

text \<open>The file a task belongs to: \<open>tid.rsplit(":", 1)[0]\<close>\<close>

definition tid_file :: "string \<Rightarrow> string" where
  "tid_file tid = hd (rsplit1 CHR '':'' tid)"

text \<open>
  The bodies of \<open>remove_buildtarget\<close> and \<open>remove_runtarget\<close> over the failing function they
  call back.
\<close>

definition remove_buildtarget_with ::
  "(string \<Rightarrow> (td_state, unit) act) \<Rightarrow> string \<Rightarrow> (td_state, unit) act" where
  "remove_buildtarget_with fail target =
     act_then (act_modify (\<lambda>s. s\<lparr>failed_deps := failed_deps s @ [target]\<rparr>))
    (act_bind (act_gets (\<lambda>s. get_dependees s target)) (\<lambda>dependees.
     act_then (act_for dependees fail)
    (act_bind (act_gets taskentries) (\<lambda>entries.
     act_then (act_for entries (\<lambda>(tid, te). act_for (te_idepends te) (\<lambda>(idepend, idependtask).
       act_when (idepend = target) (fail (tid_file tid)))))
    (act_bind (act_gets (\<lambda>s. halt s \<and> target \<in> set (external_targets s))) (\<lambda>required.
     act_when required (act_raise (NoProvider target))))))))"

definition remove_runtarget_with ::
  "(string \<Rightarrow> (td_state, unit) act) \<Rightarrow> string \<Rightarrow> (td_state, unit) act" where
  "remove_runtarget_with fail target =
     act_then (act_modify (\<lambda>s. s\<lparr>failed_rdeps := failed_rdeps s @ [target]\<rparr>))
    (act_bind (act_gets (\<lambda>s. get_rdependees s target)) (\<lambda>dependees.
     act_then (act_for dependees fail)
    (act_bind (act_gets taskentries) (\<lambda>entries.
     act_for entries (\<lambda>(tid, te). act_for (te_irdepends te) (\<lambda>(idepend, idependtask).
       act_when (idepend = target) (fail (tid_file tid))))))))"

text \<open>One round of the two loops of \<open>fail_fn\<close>\<close>

definition drop_provider ::
  "(string \<Rightarrow> (td_state, unit) act) \<Rightarrow> string \<Rightarrow> string \<Rightarrow> (td_state, unit) act" where
  "drop_provider fail fn target =
     act_bind (act_gets (\<lambda>s. dict_list (build_targets s) target)) (\<lambda>fns.
     act_when (fn \<in> set fns)
       (act_then (act_modify (\<lambda>s. s\<lparr>build_targets := AList.update target (remove1 fn fns) (build_targets s)\<rparr>))
         (act_when (remove1 fn fns = []) (remove_buildtarget_with fail target))))"

definition drop_rprovider ::
  "(string \<Rightarrow> (td_state, unit) act) \<Rightarrow> string \<Rightarrow> string \<Rightarrow> (td_state, unit) act" where
  "drop_rprovider fail fn target =
     act_bind (act_gets (\<lambda>s. dict_list (run_targets s) target)) (\<lambda>fns.
     act_when (fn \<in> set fns)
       (act_then (act_modify (\<lambda>s. s\<lparr>run_targets := AList.update target (remove1 fn fns) (run_targets s)\<rparr>))
         (act_when (remove1 fn fns = []) (remove_runtarget_with fail target))))"

fun fail_fn :: "nat \<Rightarrow> string \<Rightarrow> (td_state, unit) act" where
  "fail_fn n fn =
     act_bind (act_gets failed_fns) (\<lambda>failed.
     if fn \<in> set failed then act_return ()
     else case n of 0 \<Rightarrow> act_raise OutOfFuel | Suc m \<Rightarrow>
       act_then (act_modify (\<lambda>s. s\<lparr>failed_fns := failed_fns s @ [fn]\<rparr>))
      (act_bind (act_gets (dict_keys \<circ> build_targets)) (\<lambda>targets.
       act_then (act_for targets (drop_provider (fail_fn m) fn))
      (act_bind (act_gets (dict_keys \<circ> run_targets)) (\<lambda>rtargets.
       act_for rtargets (drop_rprovider (fail_fn m) fn))))))"

declare fail_fn.simps [simp del]

definition fail_fuel :: "td_state \<Rightarrow> nat" where
  "fail_fuel s = Suc (length (depids s) + length (rdepids s) + length (taskentries s))"

definition fail_file :: "string \<Rightarrow> (td_state, unit) act" where
  "fail_file fn = act_bind (act_gets fail_fuel) (\<lambda>n. fail_fn n fn)"

definition remove_buildtarget :: "string \<Rightarrow> (td_state, unit) act" where
  "remove_buildtarget target = remove_buildtarget_with fail_file target"

definition remove_runtarget :: "string \<Rightarrow> (td_state, unit) act" where
  "remove_runtarget target = remove_runtarget_with fail_file target"

section \<open>Tasks\<close>

text \<open>\<open>add_extra_deps\<close>: the recipe's function is wrapped in a \<open>def\<close> and called.\<close>

definition extra_deps_source :: "string \<Rightarrow> string \<Rightarrow> string" where
  "extra_deps_source pn body =
     (let funcname = ''_'' @ List.map (\<lambda>c. if c = CHR ''-'' then CHR ''_'' else c) pn @ ''_calculate_extra_depends'';
          paramlist = ''deps,world_target,pkg_pn,self_pn'';
          nl = [CHR 0x0A]
      in ''def '' @ funcname @ ''('' @ paramlist @ ''):'' @ nl @ body @ nl @ nl @
         funcname @ ''('' @ paramlist @ '')'')"

definition add_extra_deps :: "td_env \<Rightarrow> string \<Rightarrow> (td_state, unit) act" where
  "add_extra_deps env fn =
     act_bind (act_gets (\<lambda>s. map_of (extradepsfunc (dcache s)) fn)) (\<lambda>func.
     if \<not> truthy func then act_return ()
     else
       act_bind (act_gets (\<lambda>s. buildWorldTargetList (dcache s) None)) (\<lambda>r.
       act_bind (act_lift r) (\<lambda>dc.
       act_then (act_modify (\<lambda>s. s\<lparr>dcache := dc\<rparr>))
      (act_bind (act_lift (dict_get (pkg_fn dc) fn)) (\<lambda>pn.
       act_bind (act_lift (env_exec env (extra_deps_source pn (the func))
           (dict_list (cache_deps dc) fn) (world_target dc) (pkg_pn dc) pn)) (\<lambda>deps.
       act_modify (\<lambda>s. s\<lparr>dcache := dc\<lparr>cache_deps := AList.update fn deps (cache_deps dc)\<rparr>\<rparr>)))))))"

text \<open>\<open>handle_deps\<close>: the pairs to add, every name passed to \<open>seen\<close> on the way\<close>

definition handle_deps ::
  "task_deps \<Rightarrow> string \<Rightarrow> string \<Rightarrow> (string \<Rightarrow> (td_state, unit) act) \<Rightarrow>
   (td_state, (string \<times> string) list) act" where
  "handle_deps td task dep_name seen =
     (case task_flag td dep_name task of
        None \<Rightarrow> act_return []
      | Some v \<Rightarrow> act_map (\<lambda>dep.
          case split_on CHR '':'' dep of
            [a, b] \<Rightarrow> act_then (seen a) (act_return (a, b))
          | _ \<Rightarrow> act_raise SystemExit) (split_ws v))"

definition add_mcdepends :: "task_deps \<Rightarrow> string \<Rightarrow> (td_state, unit) act" where
  "add_mcdepends td task =
     (case task_flag td ''mcdepends'' task of
        None \<Rightarrow> act_return ()
      | Some v \<Rightarrow> act_for (split_ws v) (\<lambda>dep.
          if length (split_on CHR '':'' dep) \<noteq> 5 then act_raise SystemExit
          else act_modify (\<lambda>s. s\<lparr>mcdepends := set_add dep (mcdepends s)\<rparr>)))"

definition mk_tid :: "string \<Rightarrow> string \<Rightarrow> string" where
  "mk_tid fn task = fn @ CHR '':'' # task"

definition set_entry :: "string \<Rightarrow> task_entry \<Rightarrow> (td_state, unit) act" where
  "set_entry tid te = act_modify (\<lambda>s. s\<lparr>taskentries := AList.update tid te (taskentries s)\<rparr>)"

text \<open>The loop body over the tasks of a file. The entry is filled step by step, so that a fatal
  error leaves it as the code does.\<close>

definition add_task_entry :: "string \<Rightarrow> task_deps \<Rightarrow> string \<Rightarrow> (td_state, unit) act" where
  "add_task_entry fn td task =
     (let tid = mk_tid fn task; te0 = \<lparr> te_tdepends = [], te_idepends = [], te_irdepends = [] \<rparr>
      in act_then (set_entry tid te0)
        (act_bind (act_lift (dict_get (td_parents td) task)) (\<lambda>parents.
         let te1 = te0\<lparr>te_tdepends := List.map (mk_tid fn) (filter (\<lambda>dep. dep \<in> set (td_tasks td)) parents)\<rparr>
         in act_then (set_entry tid te1)
           (act_bind (handle_deps td task ''depends'' seen_build_target) (\<lambda>ids.
            let te2 = te1\<lparr>te_idepends := ids\<rparr>
            in act_then (set_entry tid te2)
              (act_bind (handle_deps td task ''rdepends'' seen_run_target) (\<lambda>rids.
               act_then (set_entry tid (te2\<lparr>te_irdepends := rids\<rparr>))
                 (add_mcdepends td task))))))))"

text \<open>The sets of dependencies of a file, in the order they are first met\<close>

definition add_depids :: "string \<Rightarrow> (td_state, unit) act" where
  "add_depids fn = act_modify (\<lambda>s.
     if has_key (depids s) fn then s
     else s\<lparr>depids := AList.update fn (set_union [] (dict_list (cache_deps (dcache s)) fn)) (depids s)\<rparr>)"

definition add_rdepids :: "string \<Rightarrow> (td_state, unit) act" where
  "add_rdepids fn = act_modify (\<lambda>s.
     if has_key (rdepids s) fn then s
     else s\<lparr>rdepids := AList.update fn
         (set_union (set_union [] (concat (List.map snd (dict_inner (rundeps (dcache s)) fn))))
           (concat (List.map snd (dict_inner (runrecs (dcache s)) fn)))) (rdepids s)\<rparr>)"

text \<open>The last two loops: the first dependency that has already failed fails the file.\<close>

definition check_dep :: "string \<Rightarrow> string \<Rightarrow> (td_state, unit option) act" where
  "check_dep fn dep =
     act_then (seen_build_target dep)
    (act_bind (act_gets failed_deps) (\<lambda>failed.
     if dep \<in> set failed then act_then (fail_file fn) (act_return (Some ())) else act_return None))"

definition check_rdep :: "string \<Rightarrow> string \<Rightarrow> (td_state, unit option) act" where
  "check_rdep fn dep =
     act_then (seen_run_target dep)
    (act_bind (act_gets failed_rdeps) (\<lambda>failed.
     if dep \<in> set failed then act_then (fail_file fn) (act_return (Some ())) else act_return None))"

definition check_failed :: "string \<Rightarrow> (td_state, unit) act" where
  "check_failed fn =
     act_bind (act_gets (\<lambda>s. dict_list (depids s) fn)) (\<lambda>deps.
     act_bind (act_search deps (check_dep fn)) (\<lambda>r.
     case r of Some _ \<Rightarrow> act_return ()
     | None \<Rightarrow>
         act_bind (act_gets (\<lambda>s. dict_list (rdepids s) fn)) (\<lambda>rdeps.
         act_bind (act_search rdeps (check_rdep fn)) (\<lambda>_. act_return ()))))"

definition add_tasks :: "td_env \<Rightarrow> string \<Rightarrow> (td_state, unit) act" where
  "add_tasks env fn =
     act_bind (act_gets (\<lambda>s. dict_get (task_deps_of (dcache s)) fn)) (\<lambda>r.
     act_bind (act_lift r) (\<lambda>td.
     act_bind (act_gets failed_fns) (\<lambda>failed.
     if fn \<in> set failed then act_raise SystemExit
     else act_bind (act_gets seenfns) (\<lambda>seen.
       if fn \<in> set seen then act_return ()
       else
         act_then (act_modify (\<lambda>s. s\<lparr>seenfns := seenfns s @ [fn]\<rparr>))
        (act_then (add_extra_deps env fn)
        (act_then (act_for (td_tasks td) (add_task_entry fn td))
        (act_then (add_depids fn)
        (act_then (add_rdepids fn)
         (check_failed fn)))))))))"

section \<open>Providers of targets\<close>

definition quoted :: "string \<Rightarrow> string" where
  "quoted s = CHR 0x27 # s @ [CHR 0x27]"

definition ignored_target :: "td_env \<Rightarrow> string \<Rightarrow> (td_state, bool) act" where
  "ignored_target env item =
     act_bind (act_gets (\<lambda>s. re_match_strings (env_re env) item (ignored_dependencies (dcache s)))) act_lift"

text \<open>The names of the recipes that provide an unknown target at run time, as hints\<close>

definition rprovides_hints :: "cache_data \<Rightarrow> string \<Rightarrow> string list \<Rightarrow> string list \<Rightarrow> string list res" where
  "rprovides_hints dc item fns close =
     res_fold (\<lambda>fn acc. res_bind (dict_get (pkg_fn dc) fn) (\<lambda>pn.
       Inr (set_add (pn @ '' RPROVIDES '' @ item) acc))) fns close"

definition no_provider :: "td_env \<Rightarrow> string \<Rightarrow> (td_state, unit) act" where
  "no_provider env item =
     act_bind (act_gets (\<lambda>s. res_bind (getRuntimeProviders (env_re env) (dcache s) item)
       (\<lambda>fns. rprovides_hints (dcache s) item fns
          (get_close_matches env s item (dict_keys (providers (dcache s))))))) (\<lambda>r.
     act_bind (act_lift r) (\<lambda>close.
     act_bind (act_gets (\<lambda>s. NoProviderEvent item False (get_dependees s item) (get_reasons s item False) close)) (\<lambda>e.
     act_then (fire e) (act_raise (NoProvider item)))))"

text \<open>The MultipleProviders event, fired once per item\<close>

definition report_multiple :: "string \<Rightarrow> string list \<Rightarrow> bool \<Rightarrow> (td_state, unit) act" where
  "report_multiple item eligible runtime =
     act_bind (act_gets (\<lambda>s. item \<in> set (consider_msgs_cache s))) (\<lambda>told.
     act_then (act_when (\<not> told)
        (act_bind (act_gets (\<lambda>s. res_map (dict_get (pkg_fn (dcache s))) eligible)) (\<lambda>r.
         act_bind (act_lift r) (\<lambda>names. fire (MultipleProvidersEvent item names runtime)))))
      (act_modify (\<lambda>s. s\<lparr>consider_msgs_cache := consider_msgs_cache s @ [item]\<rparr>)))"

definition use_provider :: "td_env \<Rightarrow> string \<Rightarrow> string \<Rightarrow> (td_state, unit) act" where
  "use_provider env item fn =
     act_bind (act_gets failed_fns) (\<lambda>failed.
     act_when (fn \<notin> set failed) (act_then (add_build_target fn item) (add_tasks env fn)))"

definition use_rprovider :: "td_env \<Rightarrow> string \<Rightarrow> string \<Rightarrow> (td_state, unit) act" where
  "use_rprovider env item fn =
     act_bind (act_gets failed_fns) (\<lambda>failed.
     act_when (fn \<notin> set failed) (act_then (add_runtime_target fn item) (add_tasks env fn)))"

text \<open>
  The eligible providers of an item that have not failed. \<open>filterProviders\<close> sorts the list of
  the cache in place and enters the preference it finds there.
\<close>

definition eligible_providers :: "td_env \<Rightarrow> string \<Rightarrow> (td_state, string list \<times> bool) act" where
  "eligible_providers env item =
     act_bind (act_gets (\<lambda>s. dict_list (providers (dcache s)) item)) (\<lambda>all_p.
     act_then (act_modify (\<lambda>s. s\<lparr>dcache := (dcache s)
         \<lparr>providers := AList.update item (sort all_p) (providers (dcache s))\<rparr>\<rparr>))
    (act_bind (act_gets (\<lambda>s. filterProviders all_p item (env_cfg env) (dcache s))) (\<lambda>r.
     act_bind (act_lift r) (\<lambda>(eligible, foundUnique, dc).
     act_then (act_modify (\<lambda>s. s\<lparr>dcache := dc\<rparr>))
    (act_bind (act_gets failed_fns) (\<lambda>failed.
     act_return (filter (\<lambda>p. p \<notin> set failed) eligible, foundUnique)))))))"

definition add_provider_internal :: "td_env \<Rightarrow> string \<Rightarrow> (td_state, unit) act" where
  "add_provider_internal env item =
     act_bind (ignored_target env item) (\<lambda>ignored.
     if ignored then act_return ()
     else act_bind (act_gets (\<lambda>s. has_key (providers (dcache s)) item)) (\<lambda>known.
     if \<not> known then no_provider env item
     else act_bind (act_gets (\<lambda>s. have_build_target s item)) (\<lambda>have.
     if have then act_return ()
     else act_bind (eligible_providers env item) (\<lambda>(eligible, foundUnique).
     if eligible = [] then
       act_bind (act_gets (\<lambda>s. NoProviderEvent item False (get_dependees s item)
           [''No eligible PROVIDERs exist for '' @ quoted item] [])) (\<lambda>e.
       act_then (fire e) (act_raise (NoProvider item)))
     else
       act_then (act_when (length eligible > 1 \<and> \<not> foundUnique) (report_multiple item eligible False))
         (act_for eligible (use_provider env item))))))"

definition add_rprovider :: "td_env \<Rightarrow> string \<Rightarrow> (td_state, unit) act" where
  "add_rprovider env item =
     act_bind (ignored_target env item) (\<lambda>ignored.
     if ignored then act_return ()
     else act_bind (act_gets (\<lambda>s. have_runtime_target s item)) (\<lambda>have.
     if have then act_return ()
     else act_bind (act_gets (\<lambda>s. getRuntimeProviders (env_re env) (dcache s) item)) (\<lambda>r.
     act_bind (act_lift r) (\<lambda>all_p.
     if all_p = [] then
       act_bind (act_gets (\<lambda>s. NoProviderEvent item True (get_rdependees s item) (get_reasons s item True) [])) (\<lambda>e.
       act_then (fire e) (act_raise (NoRProvider item)))
     else
       act_bind (act_gets (\<lambda>s. filterProvidersRunTime all_p item (env_cfg env) (dcache s))) (\<lambda>r.
       act_bind (act_lift r) (\<lambda>(eligible0, numberPreferred).
       act_bind (act_gets failed_fns) (\<lambda>failed.
       let eligible = filter (\<lambda>p. p \<notin> set failed) eligible0 in
       if eligible = [] then
         act_bind (act_gets (\<lambda>s. NoProviderEvent item True (get_rdependees s item)
             [''No eligible RPROVIDERs exist for '' @ quoted item] [])) (\<lambda>e.
         act_then (fire e) (act_raise (NoRProvider item)))
       else
         act_then (act_when (length eligible > 1 \<and> numberPreferred = 0) (report_multiple item eligible True))
        (act_then (act_when (numberPreferred > 1)
            (act_then (report_multiple item eligible True) (act_raise (MultipleRProvider item))))
          (act_for eligible (use_rprovider env item))))))))))"

definition add_provider :: "td_env \<Rightarrow> string \<Rightarrow> (td_state, unit) act" where
  "add_provider env item =
     act_then (act_catch (add_provider_internal env item) (\<lambda>e.
       case e of
         NoProvider _ \<Rightarrow> act_bind (act_gets halt) (\<lambda>h. if h then act_raise e else remove_buildtarget item)
       | _ \<Rightarrow> act_raise e))
     (mark_external_target item)"

section \<open>Resolution\<close>

definition resolve_build :: "td_env \<Rightarrow> string \<Rightarrow> (td_state, nat) act" where
  "resolve_build env target =
     act_catch (act_then (add_provider_internal env target) (act_return 1)) (\<lambda>e.
       case e of
         NoProvider _ \<Rightarrow>
           act_bind (act_gets (\<lambda>s. halt s \<and> target \<in> set (external_targets s))) (\<lambda>required.
           act_bind (act_gets allowincomplete) (\<lambda>incomplete.
           if required \<and> \<not> incomplete then act_raise e
           else act_then (act_when (\<not> incomplete) (remove_buildtarget target)) (act_return 0)))
       | _ \<Rightarrow> act_raise e)"

definition resolve_run :: "td_env \<Rightarrow> string \<Rightarrow> (td_state, nat) act" where
  "resolve_run env target =
     act_catch (act_then (add_rprovider env target) (act_return 1)) (\<lambda>e.
       case e of
         NoRProvider _ \<Rightarrow> act_then (remove_runtarget target) (act_return 0)
       | MultipleRProvider _ \<Rightarrow> act_then (remove_runtarget target) (act_return 0)
       | _ \<Rightarrow> act_raise e)"

text \<open>One pass of the \<open>while\<close> loop, with the number of targets it resolved\<close>

definition resolve_pass :: "td_env \<Rightarrow> (td_state, nat) act" where
  "resolve_pass env =
     act_bind (get_unresolved_build_targets env) (\<lambda>targets.
     act_bind (act_sum (resolve_build env) targets) (\<lambda>added.
     act_bind (get_unresolved_run_targets env) (\<lambda>rtargets.
     act_bind (act_sum (resolve_run env) rtargets) (\<lambda>radded.
     act_return (added + radded)))))"

fun resolve_loop :: "nat \<Rightarrow> td_env \<Rightarrow> (td_state, unit) act" where
  "resolve_loop 0 env = act_raise OutOfFuel"
| "resolve_loop (Suc n) env =
     act_bind (resolve_pass env) (\<lambda>added. if added = 0 then act_return () else resolve_loop n env)"

definition add_unresolved :: "td_env \<Rightarrow> (td_state, unit) act" where
  "add_unresolved env =
     act_bind (act_gets (\<lambda>s. length (task_deps_of (dcache s)))) (\<lambda>n. resolve_loop (n + 2) env)"

section \<open>Failures are closed under dependence\<close>

text \<open>\<open>needs s t f\<close>: file \<open>f\<close> or one of its tasks depends on build target \<open>t\<close>.\<close>

definition needs :: "('a taskdata_scheme) \<Rightarrow> string \<Rightarrow> string \<Rightarrow> bool" where
  "needs s t f \<longleftrightarrow>
     (\<exists>deps. (f, deps) \<in> set (depids s) \<and> t \<in> set deps) \<or>
     (\<exists>tid te task. (tid, te) \<in> set (taskentries s) \<and> (t, task) \<in> set (te_idepends te) \<and> tid_file tid = f)"

definition rneeds :: "('a taskdata_scheme) \<Rightarrow> string \<Rightarrow> string \<Rightarrow> bool" where
  "rneeds s t f \<longleftrightarrow>
     (\<exists>deps. (f, deps) \<in> set (rdepids s) \<and> t \<in> set deps) \<or>
     (\<exists>tid te task. (tid, te) \<in> set (taskentries s) \<and> (t, task) \<in> set (te_irdepends te) \<and> tid_file tid = f)"

text \<open>\<open>clean f s\<close>: no target lists \<open>f\<close> as a provider.\<close>

definition clean :: "string \<Rightarrow> ('a taskdata_scheme) \<Rightarrow> bool" where
  "clean f s \<longleftrightarrow> (\<forall>t. f \<notin> set (dict_list (build_targets s) t) \<and> f \<notin> set (dict_list (run_targets s) t))"

text \<open>
  The invariant of the failure functions, but for the files \<open>W\<close> and the targets \<open>V\<close> and \<open>R\<close>
  whose failure is still being worked on.
\<close>

definition failing_inv :: "string set \<Rightarrow> string set \<Rightarrow> string set \<Rightarrow> ('a taskdata_scheme) \<Rightarrow> bool" where
  "failing_inv W V R s \<longleftrightarrow>
     (\<forall>t. distinct (dict_list (build_targets s) t) \<and> distinct (dict_list (run_targets s) t)) \<and>
     (\<forall>f \<in> set (failed_fns s) - W. clean f s) \<and>
     (\<forall>t \<in> set (failed_deps s) - V. \<forall>f. needs s t f \<longrightarrow> f \<in> set (failed_fns s)) \<and>
     (\<forall>t \<in> set (failed_rdeps s) - R. \<forall>f. rneeds s t f \<longrightarrow> f \<in> set (failed_fns s))"

definition failures_closed :: "('a taskdata_scheme) \<Rightarrow> bool" where
  "failures_closed s \<longleftrightarrow> failing_inv {} {} {} s"

text \<open>What a failure may change: providers go away, and a target that loses its last one
  fails.\<close>

definition settled :: "string \<Rightarrow> ('a taskdata_scheme) \<Rightarrow> bool" where
  "settled t s \<longleftrightarrow> have_build_target s t \<or> t \<in> set (failed_deps s)"

definition rsettled :: "string \<Rightarrow> ('a taskdata_scheme) \<Rightarrow> bool" where
  "rsettled t s \<longleftrightarrow> have_runtime_target s t \<or> t \<in> set (failed_rdeps s)"

definition shrinks :: "td_state \<Rightarrow> td_state \<Rightarrow> bool" where
  "shrinks s s' \<longleftrightarrow>
     depids s' = depids s \<and> rdepids s' = rdepids s \<and> taskentries s' = taskentries s \<and>
     seenfns s' = seenfns s \<and> halt s' = halt s \<and> allowincomplete s' = allowincomplete s \<and>
     external_targets s' = external_targets s \<and> dcache s' = dcache s \<and>
     dict_keys (build_targets s') = dict_keys (build_targets s) \<and>
     dict_keys (run_targets s') = dict_keys (run_targets s) \<and>
     set (failed_fns s) \<subseteq> set (failed_fns s') \<and>
     (\<forall>t. set (dict_list (build_targets s') t) \<subseteq> set (dict_list (build_targets s) t)) \<and>
     (\<forall>t. set (dict_list (run_targets s') t) \<subseteq> set (dict_list (run_targets s) t)) \<and>
     (\<forall>t. settled t s \<longrightarrow> settled t s') \<and> (\<forall>t. rsettled t s \<longrightarrow> rsettled t s') \<and>
     set (failed_deps s) \<subseteq> set (failed_deps s') \<and> set (failed_rdeps s) \<subseteq> set (failed_rdeps s')"

lemma shrinks_refl [simp]: "shrinks s s"
  by (simp add: shrinks_def)

lemma shrinks_trans: "shrinks a b \<Longrightarrow> shrinks b c \<Longrightarrow> shrinks a c"
  unfolding shrinks_def by (elim conjE, intro conjI) (simp_all, blast+)

lemma shrinks_frame:
  assumes "shrinks s s'"
  shows "needs s' = needs s" and "rneeds s' = rneeds s"
    and "get_dependees s' = get_dependees s" and "get_rdependees s' = get_rdependees s"
    and "fail_fuel s' = fail_fuel s"
  using assms
  by (auto simp: shrinks_def needs_def rneeds_def get_dependees_def get_rdependees_def fail_fuel_def fun_eq_iff)

text \<open>An action that only shrinks, from any state, keeps every property that shrinking keeps.\<close>

lemma keeps_shrinks:
  assumes "\<And>s0. keeps (shrinks s0) m" and "\<And>s s'. shrinks s s' \<Longrightarrow> P s \<Longrightarrow> P s'"
  shows "keeps P m"
  by (rule keepsI) (meson assms keepsD shrinks_refl)

lemma has_key_keys: "dict_keys d = dict_keys d' \<Longrightarrow> has_key d k = has_key d' k"
  by (simp add: has_key_def)

lemma dict_list_no_key: "k \<notin> set (dict_keys d) \<Longrightarrow> dict_list d k = []"
  by (simp add: dict_list_def map_of_eq_None_iff[THEN iffD2])

section \<open>The contract of a failing function\<close>

abbreviation any_error :: "exn \<Rightarrow> 's \<Rightarrow> bool" where
  "any_error \<equiv> \<lambda>_ _. True"

locale failing =
  fixes fail :: "string \<Rightarrow> (td_state, unit) act"
  assumes fail_closes: "\<And>fn W V R. triple (failing_inv W V R) (fail fn)
      (\<lambda>_ s. failing_inv W V R s \<and> fn \<in> set (failed_fns s)) any_error"
    and fail_shrinks: "\<And>fn s0. keeps (shrinks s0) (fail fn)"

lemma triple_keeps:
  "triple P m Q E \<Longrightarrow> keeps I m \<Longrightarrow> triple (\<lambda>s. P s \<and> I s) m (\<lambda>x s. Q x s \<and> I s) E"
  unfolding keeps_def by (rule triple_weaken[OF triple_conj]) auto

lemma triple_for_all:
  assumes "\<And>x. x \<in> set xs \<Longrightarrow> triple I (f x) (\<lambda>_ s. I s \<and> G x s) any_error"
    and "\<And>x y. x \<in> set xs \<Longrightarrow> keeps (G y) (f x)"
  shows "triple I (act_for xs f) (\<lambda>_ s. I s \<and> (\<forall>x \<in> set xs. G x s)) any_error"
  using assms
proof (induction xs)
  case Nil
  show ?case by (auto intro: triple_returnI)
next
  case (Cons x xs)
  have "triple (\<lambda>s. I s \<and> G x s) (act_for xs f) (\<lambda>_ s. (I s \<and> (\<forall>y \<in> set xs. G y s)) \<and> G x s) any_error"
    using Cons by (intro triple_keeps keeps_for) auto
  then have "triple (\<lambda>s. I s \<and> G x s) (act_for xs f) (\<lambda>_ s. I s \<and> (\<forall>y \<in> set (x # xs). G y s)) any_error"
    by (rule triple_weaken) auto
  with Cons.prems(1)[of x] show ?case
    by (simp only: act_for.simps) (rule triple_thenI, auto)
qed

lemma triple_bind_gets:
  "(\<And>s0. P s0 \<Longrightarrow> triple (\<lambda>s. s = s0) (f (g s0)) Q E) \<Longrightarrow> triple P (act_bind (act_gets g) f) Q E"
  by (auto simp: triple_def act_simps)

text \<open>A read at the start of an action, with the start state remembered up to shrinking\<close>

lemma triple_read:
  assumes "\<And>s0. P s0 \<Longrightarrow> triple (\<lambda>s. P s \<and> shrinks s0 s) (f (g s0)) Q E"
  shows "triple P (act_bind (act_gets g) f) Q E"
  by (rule triple_bind_gets) (rule triple_weaken[OF assms], auto)

text \<open>A fact that shrinking keeps survives an action that shrinks.\<close>

lemma triple_stable:
  assumes "triple P m Q E" and "\<And>s0. keeps (shrinks s0) m"
    and "\<And>s s'. shrinks s s' \<Longrightarrow> K s \<Longrightarrow> K s'"
  shows "triple (\<lambda>s. P s \<and> K s) m (\<lambda>x s. Q x s \<and> K s) E"
  by (rule triple_keeps[OF assms(1) keeps_shrinks[OF assms(2,3)]])

lemma failing_inv_mono:
  "failing_inv W V R s \<Longrightarrow> W \<subseteq> W' \<Longrightarrow> V \<subseteq> V' \<Longrightarrow> R \<subseteq> R' \<Longrightarrow> failing_inv W' V' R' s"
  unfolding failing_inv_def by blast

lemma failing_inv_V:
  "failing_inv W (insert t V) R s \<Longrightarrow> (\<And>f. needs s t f \<Longrightarrow> f \<in> set (failed_fns s)) \<Longrightarrow> failing_inv W V R s"
  unfolding failing_inv_def by blast

lemma failing_inv_R:
  "failing_inv W V (insert t R) s \<Longrightarrow> (\<And>f. rneeds s t f \<Longrightarrow> f \<in> set (failed_fns s)) \<Longrightarrow> failing_inv W V R s"
  unfolding failing_inv_def by blast

lemma failing_inv_W:
  "failing_inv (insert f W) V R s \<Longrightarrow> clean f s \<Longrightarrow> failing_inv W V R s"
  unfolding failing_inv_def by blast

lemma failing_inv_cong:
  assumes "depids s' = depids s" "rdepids s' = rdepids s" "taskentries s' = taskentries s"
    "build_targets s' = build_targets s" "run_targets s' = run_targets s"
    "set (failed_fns s') = set (failed_fns s)"
    "set (failed_deps s') \<subseteq> T \<union> set (failed_deps s)" "set (failed_rdeps s') \<subseteq> U \<union> set (failed_rdeps s)"
    and inv: "failing_inv W V R s"
  shows "failing_inv W (T \<union> V) (U \<union> R) s'"
proof -
  have "needs s' = needs s" "rneeds s' = rneeds s" "\<And>f. clean f s' = clean f s"
    using assms by (auto simp: needs_def rneeds_def clean_def fun_eq_iff)
  with assms show ?thesis unfolding failing_inv_def by (simp, blast)
qed

lemma failing_inv_add_dep:
  "failing_inv W V R s \<Longrightarrow> failing_inv W (insert t V) R (s\<lparr>failed_deps := failed_deps s @ [t]\<rparr>)"
  using failing_inv_cong[of "s\<lparr>failed_deps := failed_deps s @ [t]\<rparr>" s "{t}" "{}" W V R] by simp

lemma failing_inv_add_rdep:
  "failing_inv W V R s \<Longrightarrow> failing_inv W V (insert t R) (s\<lparr>failed_rdeps := failed_rdeps s @ [t]\<rparr>)"
  using failing_inv_cong[of "s\<lparr>failed_rdeps := failed_rdeps s @ [t]\<rparr>" s "{}" "{t}" W V R] by simp

context failing
begin

lemma fail_mono: "keeps (\<lambda>s. f \<in> set (failed_fns s)) (fail fn)"
  by (rule keeps_shrinks[OF fail_shrinks]) (auto simp: shrinks_def)

lemma fail_all:
  "triple (failing_inv W V R) (act_for fns fail)
     (\<lambda>_ s. failing_inv W V R s \<and> (\<forall>f \<in> set fns. f \<in> set (failed_fns s))) any_error"
  by (rule triple_for_all[OF fail_closes fail_mono])

lemma for_shrinks: "keeps (shrinks s0) (act_for fns fail)"
  by (intro keeps_for fail_shrinks)

lemma entries_shrinks:
  fixes g :: "task_entry \<Rightarrow> (string \<times> string) list"
  shows "keeps (shrinks s0) (act_for entries (\<lambda>(tid, te). act_for (g te) (\<lambda>(d, task).
     act_when (d = target) (fail (tid_file tid)))))"
  by (auto intro!: keeps_for keeps_when fail_shrinks split: prod.split)

lemma entries_fail:
  fixes g :: "task_entry \<Rightarrow> (string \<times> string) list"
  shows "triple (failing_inv W V R)
     (act_for entries (\<lambda>(tid, te). act_for (g te) (\<lambda>(d, task). act_when (d = target) (fail (tid_file tid)))))
     (\<lambda>_ s. failing_inv W V R s \<and> (\<forall>x \<in> set entries. \<forall>y \<in> set (g (snd x)).
        fst y = target \<longrightarrow> tid_file (fst x) \<in> set (failed_fns s))) any_error"
proof (rule triple_for_all)
  fix x :: "string \<times> task_entry"
  obtain tid te where x: "x = (tid, te)" by fastforce
  have "triple (failing_inv W V R) (act_for (g te) (\<lambda>(d, task). act_when (d = target) (fail (tid_file tid))))
    (\<lambda>_ s. failing_inv W V R s \<and> (\<forall>y \<in> set (g te). fst y = target \<longrightarrow> tid_file tid \<in> set (failed_fns s))) any_error"
  proof (rule triple_for_all)
    fix y :: "string \<times> string"
    show "triple (failing_inv W V R) (case y of (d, task) \<Rightarrow> act_when (d = target) (fail (tid_file tid)))
      (\<lambda>_ s. failing_inv W V R s \<and> (fst y = target \<longrightarrow> tid_file tid \<in> set (failed_fns s))) any_error"
      by (cases y) (auto intro!: triple_whenI triple_weaken[OF fail_closes])
  next
    fix x y :: "string \<times> string"
    show "keeps (\<lambda>s. fst y = target \<longrightarrow> tid_file tid \<in> set (failed_fns s))
       (case x of (d, task) \<Rightarrow> act_when (d = target) (fail (tid_file tid)))"
      by (cases x) (auto intro!: keeps_when keeps_shrinks[OF fail_shrinks] simp: shrinks_def)
  qed
  then show "triple (failing_inv W V R)
      (case x of (tid, te) \<Rightarrow> act_for (g te) (\<lambda>(d, task). act_when (d = target) (fail (tid_file tid))))
      (\<lambda>_ s. failing_inv W V R s \<and> (\<forall>y \<in> set (g (snd x)).
        fst y = target \<longrightarrow> tid_file (fst x) \<in> set (failed_fns s))) any_error"
    by (simp add: x)
next
  fix x y :: "string \<times> task_entry"
  show "keeps (\<lambda>s. \<forall>z \<in> set (g (snd y)). fst z = target \<longrightarrow> tid_file (fst y) \<in> set (failed_fns s))
     (case x of (tid, te) \<Rightarrow> act_for (g te) (\<lambda>(d, task). act_when (d = target) (fail (tid_file tid))))"
    by (cases x) (auto intro!: keeps_for keeps_when keeps_shrinks[OF fail_shrinks] simp: shrinks_def)
qed

lemma remove_bt_shrinks: "keeps (shrinks s0) (remove_buildtarget_with fail target)"
  unfolding remove_buildtarget_with_def
  by (intro keeps_then keeps_bind keeps_gets keeps_when keeps_raise for_shrinks entries_shrinks keeps_modify)
    (erule shrinks_trans, auto simp: shrinks_def settled_def rsettled_def have_build_target_def have_runtime_target_def)

lemma remove_rt_shrinks: "keeps (shrinks s0) (remove_runtarget_with fail target)"
  unfolding remove_runtarget_with_def
  by (intro keeps_then keeps_bind keeps_gets for_shrinks entries_shrinks keeps_modify)
    (erule shrinks_trans, auto simp: shrinks_def settled_def rsettled_def have_build_target_def have_runtime_target_def)

lemma remove_bt_closes:
  "triple (failing_inv W V R) (remove_buildtarget_with fail t)
     (\<lambda>_ s. failing_inv W V R s \<and> t \<in> set (failed_deps s)) any_error"
  unfolding remove_buildtarget_with_def
proof (rule triple_thenI)
  let ?P = "\<lambda>s. failing_inv W (insert t V) R s \<and> t \<in> set (failed_deps s)"
  show "triple (failing_inv W V R) (act_modify (\<lambda>s. s\<lparr>failed_deps := failed_deps s @ [t]\<rparr>)) (\<lambda>_. ?P) any_error"
    by (rule triple_modifyI) (auto intro: failing_inv_add_dep)
  let ?last = "act_bind (act_gets (\<lambda>s. halt s \<and> t \<in> set (external_targets s)))
      (\<lambda>required. act_when required (act_raise (NoProvider t)))"
  show "triple ?P (act_bind (act_gets (\<lambda>s. get_dependees s t)) (\<lambda>dependees. act_then (act_for dependees fail)
      (act_bind (act_gets taskentries) (\<lambda>entries. act_then (act_for entries (\<lambda>(tid, te).
         act_for (te_idepends te) (\<lambda>(d, task). act_when (d = t) (fail (tid_file tid))))) ?last))))
      (\<lambda>_ s. failing_inv W V R s \<and> t \<in> set (failed_deps s)) any_error"
  proof (rule triple_read, rule triple_thenI)
    fix s0 :: td_state assume "?P s0"
    let ?ds = "get_dependees s0 t"
    let ?K = "\<lambda>s. t \<in> set (failed_deps s) \<and> shrinks s0 s"
    have K: "shrinks s s' \<Longrightarrow> ?K s \<Longrightarrow> ?K s'" for s s'
      by (meson shrinks_trans shrinks_def subset_eq)
    let ?Q = "\<lambda>s. (failing_inv W (insert t V) R s \<and> (\<forall>f \<in> set ?ds. f \<in> set (failed_fns s))) \<and> ?K s"
    show "triple (\<lambda>s. ?P s \<and> shrinks s0 s) (act_for ?ds fail) (\<lambda>_. ?Q) any_error"
      by (rule triple_weaken[OF triple_stable[OF fail_all for_shrinks K]]) auto
    show "triple ?Q (act_bind (act_gets taskentries) (\<lambda>entries. act_then (act_for entries (\<lambda>(tid, te).
         act_for (te_idepends te) (\<lambda>(d, task). act_when (d = t) (fail (tid_file tid))))) ?last))
      (\<lambda>_ s. failing_inv W V R s \<and> t \<in> set (failed_deps s)) any_error"
    proof (rule triple_bind_gets, rule triple_thenI)
      fix s1 assume s1: "?Q s1"
      let ?L = "\<lambda>s. (\<forall>f \<in> set ?ds. f \<in> set (failed_fns s)) \<and> ?K s"
      have L: "shrinks s s' \<Longrightarrow> ?L s \<Longrightarrow> ?L s'" for s s'
        using K[of s s'] by (auto simp: shrinks_def)
      let ?S = "\<lambda>s. failing_inv W V R s \<and> t \<in> set (failed_deps s)"
      show "triple (\<lambda>s. s = s1) (act_for (taskentries s1) (\<lambda>(tid, te).
         act_for (te_idepends te) (\<lambda>(d, task). act_when (d = t) (fail (tid_file tid))))) (\<lambda>_. ?S) any_error"
      proof (rule triple_weaken[OF triple_stable[OF entries_fail entries_shrinks L]])
        fix s
        assume s: "(failing_inv W (insert t V) R s \<and> (\<forall>x \<in> set (taskentries s1). \<forall>y \<in> set (te_idepends (snd x)).
          fst y = t \<longrightarrow> tid_file (fst x) \<in> set (failed_fns s))) \<and> ?L s"
        have entries: "taskentries s1 = taskentries s0" using s1 by (simp add: shrinks_def)
        have "f \<in> set (failed_fns s)" if "needs s t f" for f
        proof -
          from that s have "needs s0 t f" by (metis shrinks_frame(1))
          then show ?thesis using s entries unfolding needs_def get_dependees_def by fastforce
        qed
        with s show "?S s" by (auto intro: failing_inv_V)
      qed (use s1 in auto)
      show "triple ?S ?last (\<lambda>_ s. failing_inv W V R s \<and> t \<in> set (failed_deps s)) any_error"
        by (intro triple_bind_getsI triple_whenI triple_raiseI) auto
    qed
  qed
qed

lemma remove_rt_closes:
  "triple (failing_inv W V R) (remove_runtarget_with fail t)
     (\<lambda>_ s. failing_inv W V R s \<and> t \<in> set (failed_rdeps s)) any_error"
  unfolding remove_runtarget_with_def
proof (rule triple_thenI)
  let ?P = "\<lambda>s. failing_inv W V (insert t R) s \<and> t \<in> set (failed_rdeps s)"
  show "triple (failing_inv W V R) (act_modify (\<lambda>s. s\<lparr>failed_rdeps := failed_rdeps s @ [t]\<rparr>)) (\<lambda>_. ?P) any_error"
    by (rule triple_modifyI) (auto intro: failing_inv_add_rdep)
  show "triple ?P (act_bind (act_gets (\<lambda>s. get_rdependees s t)) (\<lambda>dependees. act_then (act_for dependees fail)
      (act_bind (act_gets taskentries) (\<lambda>entries. act_for entries (\<lambda>(tid, te).
         act_for (te_irdepends te) (\<lambda>(d, task). act_when (d = t) (fail (tid_file tid))))))))
      (\<lambda>_ s. failing_inv W V R s \<and> t \<in> set (failed_rdeps s)) any_error"
  proof (rule triple_read, rule triple_thenI)
    fix s0 :: td_state assume "?P s0"
    let ?ds = "get_rdependees s0 t"
    let ?K = "\<lambda>s. t \<in> set (failed_rdeps s) \<and> shrinks s0 s"
    have K: "shrinks s s' \<Longrightarrow> ?K s \<Longrightarrow> ?K s'" for s s'
      by (meson shrinks_trans shrinks_def subset_eq)
    let ?Q = "\<lambda>s. (failing_inv W V (insert t R) s \<and> (\<forall>f \<in> set ?ds. f \<in> set (failed_fns s))) \<and> ?K s"
    show "triple (\<lambda>s. ?P s \<and> shrinks s0 s) (act_for ?ds fail) (\<lambda>_. ?Q) any_error"
      by (rule triple_weaken[OF triple_stable[OF fail_all for_shrinks K]]) auto
    show "triple ?Q (act_bind (act_gets taskentries) (\<lambda>entries. act_for entries (\<lambda>(tid, te).
         act_for (te_irdepends te) (\<lambda>(d, task). act_when (d = t) (fail (tid_file tid))))))
      (\<lambda>_ s. failing_inv W V R s \<and> t \<in> set (failed_rdeps s)) any_error"
    proof (rule triple_bind_gets)
      fix s1 assume s1: "?Q s1"
      let ?L = "\<lambda>s. (\<forall>f \<in> set ?ds. f \<in> set (failed_fns s)) \<and> ?K s"
      have L: "shrinks s s' \<Longrightarrow> ?L s \<Longrightarrow> ?L s'" for s s'
        using K[of s s'] by (auto simp: shrinks_def)
      show "triple (\<lambda>s. s = s1) (act_for (taskentries s1) (\<lambda>(tid, te).
         act_for (te_irdepends te) (\<lambda>(d, task). act_when (d = t) (fail (tid_file tid)))))
         (\<lambda>_ s. failing_inv W V R s \<and> t \<in> set (failed_rdeps s)) any_error"
      proof (rule triple_weaken[OF triple_stable[OF entries_fail entries_shrinks L]])
        fix s
        assume s: "(failing_inv W V (insert t R) s \<and> (\<forall>x \<in> set (taskentries s1). \<forall>y \<in> set (te_irdepends (snd x)).
          fst y = t \<longrightarrow> tid_file (fst x) \<in> set (failed_fns s))) \<and> ?L s"
        have entries: "taskentries s1 = taskentries s0" using s1 by (simp add: shrinks_def)
        have "f \<in> set (failed_fns s)" if "rneeds s t f" for f
        proof -
          from that s have "rneeds s0 t f" by (metis shrinks_frame(2))
          then show ?thesis using s entries unfolding rneeds_def get_rdependees_def by fastforce
        qed
        with s show "failing_inv W V R s \<and> t \<in> set (failed_rdeps s)" by (auto intro: failing_inv_R)
      qed (use s1 in auto)
    qed
  qed
qed

end

lemma shrinks_no_provider:
  "shrinks s s' \<Longrightarrow> f \<notin> set (dict_list (build_targets s) t) \<Longrightarrow> f \<notin> set (dict_list (build_targets s') t)"
  "shrinks s s' \<Longrightarrow> f \<notin> set (dict_list (run_targets s) t) \<Longrightarrow> f \<notin> set (dict_list (run_targets s') t)"
  by (auto simp: shrinks_def)

lemma act_modify_fuse:
  "act_then (act_modify f) (act_then (act_modify g) m) = act_then (act_modify (\<lambda>s. g (f s))) m"
  by (auto simp: fun_eq_iff act_simps)

lemma failing_inv_fewer:
  assumes "failing_inv W V R s"
    and "needs s' = needs s" "rneeds s' = rneeds s" "failed_fns s' = failed_fns s"
    and "failed_deps s' = failed_deps s" "failed_rdeps s' = failed_rdeps s"
    and fewer: "\<And>t. distinct (dict_list (build_targets s') t) \<and> distinct (dict_list (run_targets s') t)"
      "\<And>t. set (dict_list (build_targets s') t) \<subseteq> set (dict_list (build_targets s) t)"
      "\<And>t. set (dict_list (run_targets s') t) \<subseteq> set (dict_list (run_targets s) t)"
  shows "failing_inv W V R s'"
proof -
  have "clean f s \<Longrightarrow> clean f s'" for f using fewer(2,3) unfolding clean_def by blast
  with assms show ?thesis unfolding failing_inv_def by auto
qed

lemma failing_inv_drop:
  assumes "failing_inv W V R s"
  shows "failing_inv W V R (s\<lparr>build_targets := AList.update t (remove1 fn (dict_list (build_targets s) t)) (build_targets s)\<rparr>)"
    and "failing_inv W V R (s\<lparr>run_targets := AList.update t (remove1 fn (dict_list (run_targets s) t)) (run_targets s)\<rparr>)"
proof -
  have d: "distinct (dict_list (build_targets s) t)" "distinct (dict_list (run_targets s) t)" for t
    using assms by (simp_all add: failing_inv_def)
  note sub = set_remove1_subset[of fn "dict_list (build_targets s) t"]
    set_remove1_subset[of fn "dict_list (run_targets s) t"]
  show "failing_inv W V R (s\<lparr>build_targets := AList.update t (remove1 fn (dict_list (build_targets s) t)) (build_targets s)\<rparr>)"
    by (rule failing_inv_fewer[OF assms]) (use d sub in \<open>auto simp: needs_def rneeds_def fun_eq_iff\<close>)
  show "failing_inv W V R (s\<lparr>run_targets := AList.update t (remove1 fn (dict_list (run_targets s) t)) (run_targets s)\<rparr>)"
    by (rule failing_inv_fewer[OF assms]) (use d sub in \<open>auto simp: needs_def rneeds_def fun_eq_iff\<close>)
qed

lemma shrinks_drop:
  fixes s :: td_state
  defines "fns \<equiv> \<lambda>t. dict_list (build_targets s) t"
  assumes "fn \<in> set (fns t)"
  shows "remove1 fn (fns t) \<noteq> [] \<Longrightarrow>
      shrinks s (s\<lparr>build_targets := AList.update t (remove1 fn (fns t)) (build_targets s)\<rparr>)"
    and "shrinks s (s\<lparr>build_targets := AList.update t (remove1 fn (fns t)) (build_targets s),
      failed_deps := failed_deps s @ [t]\<rparr>)"
proof -
  have "t \<in> set (dict_keys (build_targets s))"
    using assms dict_list_no_key[of t "build_targets s"] by force
  then have keys: "t \<in> fst ` set (build_targets s)" by simp
  note facts = shrinks_def settled_def rsettled_def have_build_target_def have_runtime_target_def
    dict_keys_update fns_def keys
  show "remove1 fn (fns t) \<noteq> [] \<Longrightarrow>
      shrinks s (s\<lparr>build_targets := AList.update t (remove1 fn (fns t)) (build_targets s)\<rparr>)"
    using set_remove1_subset[of fn "fns t"] by (auto simp: facts)
  show "shrinks s (s\<lparr>build_targets := AList.update t (remove1 fn (fns t)) (build_targets s),
      failed_deps := failed_deps s @ [t]\<rparr>)"
    using set_remove1_subset[of fn "fns t"] by (auto simp: facts)
qed

lemma shrinks_rdrop:
  fixes s :: td_state
  defines "fns \<equiv> \<lambda>t. dict_list (run_targets s) t"
  assumes "fn \<in> set (fns t)"
  shows "remove1 fn (fns t) \<noteq> [] \<Longrightarrow>
      shrinks s (s\<lparr>run_targets := AList.update t (remove1 fn (fns t)) (run_targets s)\<rparr>)"
    and "shrinks s (s\<lparr>run_targets := AList.update t (remove1 fn (fns t)) (run_targets s),
      failed_rdeps := failed_rdeps s @ [t]\<rparr>)"
proof -
  have "t \<in> set (dict_keys (run_targets s))"
    using assms dict_list_no_key[of t "run_targets s"] by force
  then have keys: "t \<in> fst ` set (run_targets s)" by simp
  note facts = shrinks_def settled_def rsettled_def have_build_target_def have_runtime_target_def
    dict_keys_update fns_def keys
  show "remove1 fn (fns t) \<noteq> [] \<Longrightarrow>
      shrinks s (s\<lparr>run_targets := AList.update t (remove1 fn (fns t)) (run_targets s)\<rparr>)"
    using set_remove1_subset[of fn "fns t"] by (auto simp: facts)
  show "shrinks s (s\<lparr>run_targets := AList.update t (remove1 fn (fns t)) (run_targets s),
      failed_rdeps := failed_rdeps s @ [t]\<rparr>)"
    using set_remove1_subset[of fn "fns t"] by (auto simp: facts)
qed

context failing
begin

lemma remove_bt_split:
  obtains rest where "\<And>s0. keeps (shrinks s0) rest"
    and "remove_buildtarget_with fail t =
      act_then (act_modify (\<lambda>s. s\<lparr>failed_deps := failed_deps s @ [t]\<rparr>)) rest"
proof -
  show thesis
    by (rule that[OF _ remove_buildtarget_with_def])
      (intro keeps_then keeps_bind keeps_gets keeps_when keeps_raise for_shrinks entries_shrinks)
qed

lemma remove_rt_split:
  obtains rest where "\<And>s0. keeps (shrinks s0) rest"
    and "remove_runtarget_with fail t =
      act_then (act_modify (\<lambda>s. s\<lparr>failed_rdeps := failed_rdeps s @ [t]\<rparr>)) rest"
proof -
  show thesis
    by (rule that[OF _ remove_runtarget_with_def])
      (intro keeps_then keeps_bind keeps_gets for_shrinks entries_shrinks)
qed

lemma drop_shrinks: "keeps (shrinks s0) (drop_provider fail fn t)"
  unfolding keeps_def drop_provider_def
proof (rule triple_bind_gets, rule triple_whenI)
  fix s assume s: "shrinks s0 s" and fn: "fn \<in> set (dict_list (build_targets s) t)"
  obtain rest where rest: "\<And>s0. keeps (shrinks s0) rest"
    and split: "remove_buildtarget_with fail t =
      act_then (act_modify (\<lambda>s. s\<lparr>failed_deps := failed_deps s @ [t]\<rparr>)) rest"
    using remove_bt_split[of t] by blast
  note drop = shrinks_drop[OF fn, THEN shrinks_trans[OF s]]
  show "triple (\<lambda>x. x = s) (act_then (act_modify (\<lambda>x. x\<lparr>build_targets :=
        AList.update t (remove1 fn (dict_list (build_targets s) t)) (build_targets x)\<rparr>))
      (act_when (remove1 fn (dict_list (build_targets s) t) = []) (remove_buildtarget_with fail t)))
      (\<lambda>_. shrinks s0) (\<lambda>_. shrinks s0)"
  proof (cases "remove1 fn (dict_list (build_targets s) t) = []")
    case True
    then show ?thesis
      using rest[of s0, unfolded keeps_def] drop(2)
      by (simp add: act_when_def split act_modify_fuse) (rule triple_thenI[OF triple_modifyI], auto)
  next
    case False
    then show ?thesis using drop(1)
      by (auto simp: act_when_def intro!: triple_thenI[where R = "shrinks s0", OF triple_modifyI] triple_returnI)
  qed
qed auto

lemma rdrop_shrinks: "keeps (shrinks s0) (drop_rprovider fail fn t)"
  unfolding keeps_def drop_rprovider_def
proof (rule triple_bind_gets, rule triple_whenI)
  fix s assume s: "shrinks s0 s" and fn: "fn \<in> set (dict_list (run_targets s) t)"
  obtain rest where rest: "\<And>s0. keeps (shrinks s0) rest"
    and split: "remove_runtarget_with fail t =
      act_then (act_modify (\<lambda>s. s\<lparr>failed_rdeps := failed_rdeps s @ [t]\<rparr>)) rest"
    using remove_rt_split[of t] by blast
  note drop = shrinks_rdrop[OF fn, THEN shrinks_trans[OF s]]
  show "triple (\<lambda>x. x = s) (act_then (act_modify (\<lambda>x. x\<lparr>run_targets :=
        AList.update t (remove1 fn (dict_list (run_targets s) t)) (run_targets x)\<rparr>))
      (act_when (remove1 fn (dict_list (run_targets s) t) = []) (remove_runtarget_with fail t)))
      (\<lambda>_. shrinks s0) (\<lambda>_. shrinks s0)"
  proof (cases "remove1 fn (dict_list (run_targets s) t) = []")
    case True
    then show ?thesis
      using rest[of s0, unfolded keeps_def] drop(2)
      by (simp add: act_when_def split act_modify_fuse) (rule triple_thenI[OF triple_modifyI], auto)
  next
    case False
    then show ?thesis using drop(1)
      by (auto simp: act_when_def intro!: triple_thenI[where R = "shrinks s0", OF triple_modifyI] triple_returnI)
  qed
qed auto

lemma drop_closes:
  "triple (failing_inv W V R) (drop_provider fail fn t)
    (\<lambda>_ s. failing_inv W V R s \<and> fn \<notin> set (dict_list (build_targets s) t)) any_error"
  unfolding drop_provider_def
proof (rule triple_bind_gets, rule triple_whenI, rule triple_thenI[OF triple_modifyI])
  fix s s1 assume s: "failing_inv W V R s" and s1: "s1 = s"
  have "distinct (dict_list (build_targets s) t)" using s by (simp add: failing_inv_def)
  then show "failing_inv W V R (s1\<lparr>build_targets := AList.update t (remove1 fn (dict_list (build_targets s) t)) (build_targets s1)\<rparr>)
      \<and> fn \<notin> set (dict_list (build_targets (s1\<lparr>build_targets := AList.update t (remove1 fn (dict_list (build_targets s) t)) (build_targets s1)\<rparr>)) t)"
    using s s1 by (auto intro: failing_inv_drop)
next
  fix s
  show "triple (\<lambda>s. failing_inv W V R s \<and> fn \<notin> set (dict_list (build_targets s) t))
      (act_when (remove1 fn (dict_list (build_targets s) t) = []) (remove_buildtarget_with fail t))
      (\<lambda>_ s. failing_inv W V R s \<and> fn \<notin> set (dict_list (build_targets s) t)) any_error"
    by (intro triple_whenI triple_weaken[OF triple_stable[OF remove_bt_closes remove_bt_shrinks shrinks_no_provider(1)]]) auto
qed auto

lemma rdrop_closes:
  "triple (failing_inv W V R) (drop_rprovider fail fn t)
    (\<lambda>_ s. failing_inv W V R s \<and> fn \<notin> set (dict_list (run_targets s) t)) any_error"
  unfolding drop_rprovider_def
proof (rule triple_bind_gets, rule triple_whenI, rule triple_thenI[OF triple_modifyI])
  fix s s1 assume s: "failing_inv W V R s" and s1: "s1 = s"
  have "distinct (dict_list (run_targets s) t)" using s by (simp add: failing_inv_def)
  then show "failing_inv W V R (s1\<lparr>run_targets := AList.update t (remove1 fn (dict_list (run_targets s) t)) (run_targets s1)\<rparr>)
      \<and> fn \<notin> set (dict_list (run_targets (s1\<lparr>run_targets := AList.update t (remove1 fn (dict_list (run_targets s) t)) (run_targets s1)\<rparr>)) t)"
    using s s1 by (auto intro: failing_inv_drop)
next
  fix s
  show "triple (\<lambda>s. failing_inv W V R s \<and> fn \<notin> set (dict_list (run_targets s) t))
      (act_when (remove1 fn (dict_list (run_targets s) t) = []) (remove_runtarget_with fail t))
      (\<lambda>_ s. failing_inv W V R s \<and> fn \<notin> set (dict_list (run_targets s) t)) any_error"
    by (intro triple_whenI triple_weaken[OF triple_stable[OF remove_rt_closes remove_rt_shrinks shrinks_no_provider(2)]]) auto
qed auto

text \<open>Both loops of \<open>fail_fn\<close>\<close>

lemma drop_all:
  "triple (failing_inv W V R)
     (act_bind (act_gets (dict_keys \<circ> build_targets)) (\<lambda>targets. act_for targets (drop_provider fail fn)))
     (\<lambda>_ s. failing_inv W V R s \<and> (\<forall>t. fn \<notin> set (dict_list (build_targets s) t))) any_error"
proof (rule triple_read)
  fix s0 :: td_state assume "failing_inv W V R s0"
  let ?ks = "(dict_keys \<circ> build_targets) s0"
  have "triple (failing_inv W V R) (act_for ?ks (drop_provider fail fn))
      (\<lambda>_ s. failing_inv W V R s \<and> (\<forall>t \<in> set ?ks. fn \<notin> set (dict_list (build_targets s) t))) any_error"
    by (rule triple_for_all[OF drop_closes keeps_shrinks[OF drop_shrinks shrinks_no_provider(1)]])
  from triple_stable[OF this keeps_for[OF drop_shrinks] shrinks_trans]
  have "triple (\<lambda>s. failing_inv W V R s \<and> shrinks s0 s) (act_for ?ks (drop_provider fail fn))
       (\<lambda>_ s. (failing_inv W V R s \<and> (\<forall>t \<in> set ?ks. fn \<notin> set (dict_list (build_targets s) t))) \<and> shrinks s0 s)
       any_error" .
  then show "triple (\<lambda>s. failing_inv W V R s \<and> shrinks s0 s) (act_for ?ks (drop_provider fail fn))
       (\<lambda>_ s. failing_inv W V R s \<and> (\<forall>t. fn \<notin> set (dict_list (build_targets s) t))) any_error"
  proof (rule triple_weaken)
    fix s
    assume s: "(failing_inv W V R s \<and> (\<forall>t \<in> set ?ks. fn \<notin> set (dict_list (build_targets s) t))) \<and> shrinks s0 s"
    then have "dict_keys (build_targets s) = ?ks" by (simp add: shrinks_def)
    then have "fn \<notin> set (dict_list (build_targets s) t)" for t
      using s dict_list_no_key[of t "build_targets s"] by (cases "t \<in> set ?ks") auto
    with s show "failing_inv W V R s \<and> (\<forall>t. fn \<notin> set (dict_list (build_targets s) t))" by blast
  qed auto
qed

lemma rdrop_all:
  "triple (failing_inv W V R)
     (act_bind (act_gets (dict_keys \<circ> run_targets)) (\<lambda>targets. act_for targets (drop_rprovider fail fn)))
     (\<lambda>_ s. failing_inv W V R s \<and> (\<forall>t. fn \<notin> set (dict_list (run_targets s) t))) any_error"
proof (rule triple_read)
  fix s0 :: td_state assume "failing_inv W V R s0"
  let ?ks = "(dict_keys \<circ> run_targets) s0"
  have "triple (failing_inv W V R) (act_for ?ks (drop_rprovider fail fn))
      (\<lambda>_ s. failing_inv W V R s \<and> (\<forall>t \<in> set ?ks. fn \<notin> set (dict_list (run_targets s) t))) any_error"
    by (rule triple_for_all[OF rdrop_closes keeps_shrinks[OF rdrop_shrinks shrinks_no_provider(2)]])
  from triple_stable[OF this keeps_for[OF rdrop_shrinks] shrinks_trans]
  have "triple (\<lambda>s. failing_inv W V R s \<and> shrinks s0 s) (act_for ?ks (drop_rprovider fail fn))
       (\<lambda>_ s. (failing_inv W V R s \<and> (\<forall>t \<in> set ?ks. fn \<notin> set (dict_list (run_targets s) t))) \<and> shrinks s0 s)
       any_error" .
  then show "triple (\<lambda>s. failing_inv W V R s \<and> shrinks s0 s) (act_for ?ks (drop_rprovider fail fn))
       (\<lambda>_ s. failing_inv W V R s \<and> (\<forall>t. fn \<notin> set (dict_list (run_targets s) t))) any_error"
  proof (rule triple_weaken)
    fix s
    assume s: "(failing_inv W V R s \<and> (\<forall>t \<in> set ?ks. fn \<notin> set (dict_list (run_targets s) t))) \<and> shrinks s0 s"
    then have "dict_keys (run_targets s) = ?ks" by (simp add: shrinks_def)
    then have "fn \<notin> set (dict_list (run_targets s) t)" for t
      using s dict_list_no_key[of t "run_targets s"] by (cases "t \<in> set ?ks") auto
    with s show "failing_inv W V R s \<and> (\<forall>t. fn \<notin> set (dict_list (run_targets s) t))" by blast
  qed auto
qed

text \<open>What \<open>fail_fn\<close> does to a file that has not failed yet, calling \<open>fail\<close> for the others\<close>

lemma mark_and_drop_closes:
  "triple (failing_inv W V R)
    (act_then (act_modify (\<lambda>s. s\<lparr>failed_fns := failed_fns s @ [fn]\<rparr>))
      (act_bind (act_gets (dict_keys \<circ> build_targets)) (\<lambda>targets.
       act_then (act_for targets (drop_provider fail fn))
      (act_bind (act_gets (dict_keys \<circ> run_targets)) (\<lambda>rtargets.
       act_for rtargets (drop_rprovider fail fn))))))
    (\<lambda>_ s. failing_inv W V R s \<and> fn \<in> set (failed_fns s)) any_error"
proof -
  let ?P = "failing_inv (insert fn W) V R"
  let ?F = "\<lambda>s. fn \<in> set (failed_fns s)"
  let ?B = "\<lambda>s. \<forall>t. fn \<notin> set (dict_list (build_targets s) t)"
  let ?R = "\<lambda>s. \<forall>t. fn \<notin> set (dict_list (run_targets s) t)"
  let ?b = "act_bind (act_gets (dict_keys \<circ> build_targets)) (\<lambda>targets. act_for targets (drop_provider fail fn))"
  let ?r = "act_bind (act_gets (dict_keys \<circ> run_targets)) (\<lambda>rtargets. act_for rtargets (drop_rprovider fail fn))"
  have assoc: "act_bind (act_gets g) (\<lambda>x. act_then (h x) m) = act_then (act_bind (act_gets g) h) m"
    for g :: "td_state \<Rightarrow> 'x" and h and m :: "(td_state, unit) act"
    by (auto simp: fun_eq_iff act_simps)
  have b: "keeps (shrinks s0) ?b" and r: "keeps (shrinks s0) ?r" for s0
    by (intro keeps_bind keeps_gets keeps_for drop_shrinks rdrop_shrinks)+
  have m: "triple (failing_inv W V R) (act_modify (\<lambda>s. s\<lparr>failed_fns := failed_fns s @ [fn]\<rparr>)) (\<lambda>_ s. ?P s \<and> ?F s) any_error"
    by (rule triple_modifyI) (auto simp: failing_inv_def needs_def rneeds_def clean_def)
  have mb: "triple (\<lambda>s. ?P s \<and> ?F s) ?b (\<lambda>_ s. ?P s \<and> ?B s \<and> ?F s) any_error"
    by (rule triple_weaken[OF triple_stable[OF drop_all b, where K = ?F]]) (auto simp: shrinks_def)
  have "shrinks s s' \<Longrightarrow> ?B s \<and> ?F s \<Longrightarrow> ?B s' \<and> ?F s'" for s s'
    using shrinks_no_provider(1) by (auto simp: shrinks_def)
  then have mr: "triple (\<lambda>s. ?P s \<and> ?B s \<and> ?F s) ?r (\<lambda>_ s. failing_inv W V R s \<and> ?F s) any_error"
    by (rule triple_weaken[OF triple_stable[OF rdrop_all r, where K = "\<lambda>s. ?B s \<and> ?F s"]])
      (auto intro: failing_inv_W simp: clean_def)
  show ?thesis
    unfolding assoc by (rule triple_thenI[OF m triple_thenI[OF mb mr]])
qed

lemma mark_and_drop_shrinks:
  "keeps (shrinks s0) (act_then (act_modify (\<lambda>s. s\<lparr>failed_fns := failed_fns s @ [fn]\<rparr>))
      (act_bind (act_gets (dict_keys \<circ> build_targets)) (\<lambda>targets.
       act_then (act_for targets (drop_provider fail fn))
      (act_bind (act_gets (dict_keys \<circ> run_targets)) (\<lambda>rtargets.
       act_for rtargets (drop_rprovider fail fn))))))"
  by (intro keeps_then keeps_bind keeps_gets keeps_for drop_shrinks rdrop_shrinks keeps_modify)
    (erule shrinks_trans, auto simp: shrinks_def settled_def rsettled_def have_build_target_def have_runtime_target_def)

end

lemma failing_fail_fn: "failing (fail_fn n)"
proof (induction n)
  case 0
  show ?case
    by unfold_locales
      (subst fail_fn.simps, auto intro!: triple_bind_getsI triple_returnI triple_raiseI keeps_bind keeps_gets keeps_return keeps_raise)+
next
  case (Suc n)
  show ?case
  proof
    fix fn W V R s0
    show "triple (failing_inv W V R) (fail_fn (Suc n) fn) (\<lambda>_ s. failing_inv W V R s \<and> fn \<in> set (failed_fns s)) any_error"
      by (subst fail_fn.simps)
        (auto intro!: triple_bind_getsI triple_returnI triple_weaken[OF failing.mark_and_drop_closes[OF Suc.IH]])
    show "keeps (shrinks s0) (fail_fn (Suc n) fn)"
      by (subst fail_fn.simps) (auto intro!: keeps_bind keeps_gets keeps_return failing.mark_and_drop_shrinks[OF Suc.IH])
  qed
qed

section \<open>The fuel of \<open>fail_fn\<close> is enough\<close>

definition files :: "td_state \<Rightarrow> string set" where
  "files s = fst ` set (depids s) \<union> fst ` set (rdepids s) \<union> tid_file ` fst ` set (taskentries s)"

definition ready :: "nat \<Rightarrow> td_state \<Rightarrow> bool" where
  "ready m s \<longleftrightarrow> card (files s - set (failed_fns s)) \<le> m"

text \<open>The one exception of the failure functions: a required target has lost its providers.\<close>

definition required_lost :: "exn \<Rightarrow> td_state \<Rightarrow> bool" where
  "required_lost e s \<longleftrightarrow>
     (\<exists>t. e = NoProvider t \<and> halt s \<and> t \<in> set (external_targets s) \<and> t \<in> set (failed_deps s))"

lemma finite_files [simp]: "finite (files s)"
  by (simp add: files_def)

lemma shrinks_files: "shrinks s s' \<Longrightarrow> files s' = files s"
  by (simp add: shrinks_def files_def)

lemma shrinks_ready: "shrinks s s' \<Longrightarrow> ready m s \<Longrightarrow> ready m s'"
  unfolding ready_def
  by (rule order_trans[OF card_mono]) (auto simp: shrinks_files shrinks_def files_def)

lemma dependees_files: "set (get_dependees s t) \<subseteq> files s" "set (get_rdependees s t) \<subseteq> files s"
  by (auto simp: get_dependees_def get_rdependees_def files_def)

locale failing_enough = failing fail for fail :: "string \<Rightarrow> (td_state, unit) act" +
  fixes m :: nat
  assumes enough: "\<And>fn. triple (\<lambda>s. fn \<in> files s \<and> ready m s) (fail fn) (\<lambda>_ _. True) required_lost"
begin

lemma enough_stable:
  "triple (\<lambda>s. ready m s \<and> shrinks s0 s \<and> fn \<in> files s0) (fail fn) (\<lambda>_ s. ready m s \<and> shrinks s0 s) required_lost"
  by (rule triple_weaken[OF triple_stable[OF enough fail_shrinks, where K = "\<lambda>s. ready m s \<and> shrinks s0 s"]])
    (auto simp: shrinks_files intro: shrinks_ready shrinks_trans)

lemma enough_for:
  "set fns \<subseteq> files s0 \<Longrightarrow>
   triple (\<lambda>s. ready m s \<and> shrinks s0 s) (act_for fns fail) (\<lambda>_ s. ready m s \<and> shrinks s0 s) required_lost"
  by (rule triple_forI) (rule triple_weaken[OF enough_stable], auto)

lemma enough_entries:
  fixes g :: "task_entry \<Rightarrow> (string \<times> string) list"
  assumes "set entries \<subseteq> set (taskentries s0)"
  shows "triple (\<lambda>s. ready m s \<and> shrinks s0 s)
     (act_for entries (\<lambda>(tid, te). act_for (g te) (\<lambda>(d, task). act_when (d = t) (fail (tid_file tid)))))
     (\<lambda>_ s. ready m s \<and> shrinks s0 s) required_lost"
proof (rule triple_forI)
  fix x assume "x \<in> set entries"
  then have "x \<in> set (taskentries s0)" using assms by blast
  then have "tid_file (fst x) \<in> files s0" by (simp add: files_def)
  then obtain tid te where x: "x = (tid, te)" "tid_file tid \<in> files s0"
    by (cases x) simp
  show "triple (\<lambda>s. ready m s \<and> shrinks s0 s)
      (case x of (tid, te) \<Rightarrow> act_for (g te) (\<lambda>(d, task). act_when (d = t) (fail (tid_file tid))))
      (\<lambda>_ s. ready m s \<and> shrinks s0 s) required_lost"
    unfolding x(1) prod.case
  proof (rule triple_forI)
    fix y :: "string \<times> string"
    show "triple (\<lambda>s. ready m s \<and> shrinks s0 s) (case y of (d, task) \<Rightarrow> act_when (d = t) (fail (tid_file tid)))
       (\<lambda>_ s. ready m s \<and> shrinks s0 s) required_lost"
      using x(2) by (cases y) (auto intro!: triple_whenI triple_weaken[OF enough_stable])
  qed
qed

lemma enough_remove:
  "triple (ready m) (remove_buildtarget_with fail t) (\<lambda>_. ready m) required_lost"
  unfolding remove_buildtarget_with_def
proof (rule triple_thenI)
  let ?I = "\<lambda>s. ready m s \<and> t \<in> set (failed_deps s)"
  show "triple (ready m) (act_modify (\<lambda>s. s\<lparr>failed_deps := failed_deps s @ [t]\<rparr>)) (\<lambda>_. ?I) required_lost"
    by (rule triple_modifyI) (auto simp: ready_def files_def)
  let ?last = "act_bind (act_gets (\<lambda>s. halt s \<and> t \<in> set (external_targets s)))
      (\<lambda>required. act_when required (act_raise (NoProvider t)))"
  show "triple ?I (act_bind (act_gets (\<lambda>s. get_dependees s t)) (\<lambda>dependees. act_then (act_for dependees fail)
      (act_bind (act_gets taskentries) (\<lambda>entries. act_then (act_for entries (\<lambda>(tid, te).
         act_for (te_idepends te) (\<lambda>(d, task). act_when (d = t) (fail (tid_file tid))))) ?last))))
      (\<lambda>_. ready m) required_lost"
  proof (rule triple_read, rule triple_thenI)
    fix s0 :: td_state assume s0: "?I s0"
    let ?K = "\<lambda>s. ready m s \<and> shrinks s0 s"
    show "triple (\<lambda>s. ?I s \<and> shrinks s0 s) (act_for (get_dependees s0 t) fail) (\<lambda>_. ?K) required_lost"
      by (rule triple_weaken[OF enough_for]) (auto simp: dependees_files)
    show "triple ?K (act_bind (act_gets taskentries) (\<lambda>entries. act_then (act_for entries (\<lambda>(tid, te).
         act_for (te_idepends te) (\<lambda>(d, task). act_when (d = t) (fail (tid_file tid))))) ?last))
      (\<lambda>_. ready m) required_lost"
    proof (rule triple_bind_gets, rule triple_thenI)
      fix s1 assume s1: "?K s1"
      then have e: "set (taskentries s1) \<subseteq> set (taskentries s0)" by (simp add: shrinks_def)
      show "triple (\<lambda>s. s = s1) (act_for (taskentries s1) (\<lambda>(tid, te).
         act_for (te_idepends te) (\<lambda>(d, task). act_when (d = t) (fail (tid_file tid))))) (\<lambda>_. ?K) required_lost"
        by (rule triple_weaken[OF enough_entries[OF e]]) (use s1 in auto)
      show "triple ?K ?last (\<lambda>_. ready m) required_lost"
        using s0 by (intro triple_bind_getsI triple_whenI triple_raiseI)
          (auto simp: required_lost_def shrinks_def)
    qed
  qed
qed

lemma enough_rremove:
  "triple (ready m) (remove_runtarget_with fail t) (\<lambda>_. ready m) required_lost"
  unfolding remove_runtarget_with_def
proof (rule triple_thenI)
  show "triple (ready m) (act_modify (\<lambda>s. s\<lparr>failed_rdeps := failed_rdeps s @ [t]\<rparr>)) (\<lambda>_. ready m) required_lost"
    by (rule triple_modifyI) (auto simp: ready_def files_def)
  show "triple (ready m) (act_bind (act_gets (\<lambda>s. get_rdependees s t)) (\<lambda>dependees. act_then (act_for dependees fail)
      (act_bind (act_gets taskentries) (\<lambda>entries. act_for entries (\<lambda>(tid, te).
         act_for (te_irdepends te) (\<lambda>(d, task). act_when (d = t) (fail (tid_file tid))))))))
      (\<lambda>_. ready m) required_lost"
  proof (rule triple_read, rule triple_thenI)
    fix s0 :: td_state assume s0: "ready m s0"
    let ?K = "\<lambda>s. ready m s \<and> shrinks s0 s"
    show "triple ?K (act_for (get_rdependees s0 t) fail) (\<lambda>_. ?K) required_lost"
      by (rule enough_for) (simp add: dependees_files)
    show "triple ?K (act_bind (act_gets taskentries) (\<lambda>entries. act_for entries (\<lambda>(tid, te).
         act_for (te_irdepends te) (\<lambda>(d, task). act_when (d = t) (fail (tid_file tid))))))
      (\<lambda>_. ready m) required_lost"
    proof (rule triple_bind_gets)
      fix s1 assume s1: "?K s1"
      then have e: "set (taskentries s1) \<subseteq> set (taskentries s0)" by (simp add: shrinks_def)
      show "triple (\<lambda>s. s = s1) (act_for (taskentries s1) (\<lambda>(tid, te).
         act_for (te_irdepends te) (\<lambda>(d, task). act_when (d = t) (fail (tid_file tid))))) (\<lambda>_. ready m) required_lost"
        by (rule triple_weaken[OF enough_entries[OF e]]) (use s1 in auto)
    qed
  qed
qed

lemma enough_drop: "triple (ready m) (drop_provider fail fn t) (\<lambda>_. ready m) required_lost"
  unfolding drop_provider_def
  by (intro triple_bind_gets triple_whenI triple_thenI[where R = "ready m"]
      triple_weaken[OF enough_remove] triple_modifyI) (auto simp: ready_def files_def)

lemma enough_rdrop: "triple (ready m) (drop_rprovider fail fn t) (\<lambda>_. ready m) required_lost"
  unfolding drop_rprovider_def
  by (intro triple_bind_gets triple_whenI triple_thenI[where R = "ready m"]
      triple_weaken[OF enough_rremove] triple_modifyI) (auto simp: ready_def files_def)

end

lemma fail_fn_enough:
  "triple (\<lambda>s. card (insert fn (files s) - set (failed_fns s)) \<le> n) (fail_fn n fn) (\<lambda>_ _. True) required_lost"
proof (induction n arbitrary: fn)
  case 0
  show ?case
    by (subst fail_fn.simps) (auto intro!: triple_bind_getsI triple_returnI triple_raiseI)
next
  case (Suc n)
  have "failing_enough (fail_fn n) n"
  proof (intro failing_enough.intro failing_enough_axioms.intro failing_fail_fn)
    fix fn
    show "triple (\<lambda>s. fn \<in> files s \<and> ready n s) (fail_fn n fn) (\<lambda>_ _. True) required_lost"
      by (rule triple_weaken[OF Suc.IH]) (auto simp: ready_def insert_absorb)
  qed
  note drop = failing_enough.enough_drop[OF this] failing_enough.enough_rdrop[OF this]
  have mark: "card (insert fn (files s) - set (failed_fns s)) \<le> Suc n \<Longrightarrow> fn \<notin> set (failed_fns s) \<Longrightarrow>
      card (files s - insert fn (set (failed_fns s))) \<le> n" for s
  proof -
    assume a: "card (insert fn (files s) - set (failed_fns s)) \<le> Suc n" "fn \<notin> set (failed_fns s)"
    have "files s - insert fn (set (failed_fns s)) = (insert fn (files s) - set (failed_fns s)) - {fn}" by blast
    with a show ?thesis by simp
  qed
  have "triple (\<lambda>s. card (insert fn (files s) - set (failed_fns s)) \<le> Suc n \<and> fn \<notin> set (failed_fns s))
     (act_then (act_modify (\<lambda>s. s\<lparr>failed_fns := failed_fns s @ [fn]\<rparr>))
      (act_bind (act_gets (dict_keys \<circ> build_targets)) (\<lambda>targets.
       act_then (act_for targets (drop_provider (fail_fn n) fn))
      (act_bind (act_gets (dict_keys \<circ> run_targets)) (\<lambda>rtargets.
       act_for rtargets (drop_rprovider (fail_fn n) fn)))))) (\<lambda>_. ready n) required_lost"
  proof (rule triple_thenI)
    show "triple (\<lambda>s. card (insert fn (files s) - set (failed_fns s)) \<le> Suc n \<and> fn \<notin> set (failed_fns s))
       (act_modify (\<lambda>s. s\<lparr>failed_fns := failed_fns s @ [fn]\<rparr>)) (\<lambda>_. ready n) required_lost"
      using mark by (intro triple_modifyI) (simp add: ready_def files_def)
    show "triple (ready n) (act_bind (act_gets (dict_keys \<circ> build_targets)) (\<lambda>targets.
       act_then (act_for targets (drop_provider (fail_fn n) fn))
      (act_bind (act_gets (dict_keys \<circ> run_targets)) (\<lambda>rtargets.
       act_for rtargets (drop_rprovider (fail_fn n) fn))))) (\<lambda>_. ready n) required_lost"
    proof (rule triple_bind_gets, rule triple_thenI)
      fix s assume "ready n s"
      then show "triple (\<lambda>x. x = s) (act_for ((dict_keys \<circ> build_targets) s) (drop_provider (fail_fn n) fn))
          (\<lambda>_. ready n) required_lost"
        by (intro triple_weaken[OF triple_forI[OF drop(1)]]) auto
      show "triple (ready n) (act_bind (act_gets (dict_keys \<circ> run_targets)) (\<lambda>rtargets.
          act_for rtargets (drop_rprovider (fail_fn n) fn))) (\<lambda>_. ready n) required_lost"
        by (rule triple_bind_gets) (intro triple_weaken[OF triple_forI[OF drop(2)]], auto)
    qed
  qed
  then show ?case
    by (subst fail_fn.simps)
      (auto intro!: triple_bind_getsI triple_returnI elim: triple_weaken)
qed

section \<open>The failure functions as they are called\<close>

interpretation fail_file: failing fail_file
proof
  fix fn W V R s0
  show "triple (failing_inv W V R) (fail_file fn) (\<lambda>_ s. failing_inv W V R s \<and> fn \<in> set (failed_fns s)) any_error"
    unfolding fail_file_def
    by (intro triple_bind_gets triple_weaken[OF failing.fail_closes[OF failing_fail_fn]]) auto
  show "keeps (shrinks s0) (fail_file fn)"
    unfolding fail_file_def by (intro keeps_bind keeps_gets failing.fail_shrinks[OF failing_fail_fn])
qed

lemma card_files: "card (insert fn (files s) - F) \<le> fail_fuel s"
proof -
  have "card (fst ` set xs) \<le> length xs" for xs :: "(string \<times> 'x) list"
    by (metis card_image_le card_length finite_set le_trans)
  note l = this
  have "card (tid_file ` fst ` set (taskentries s)) \<le> length (taskentries s)"
    by (metis l card_image_le finite_imageI finite_set le_trans)
  then have "card (files s) \<le> length (depids s) + length (rdepids s) + length (taskentries s)"
    unfolding files_def
    by (meson add_mono card_Un_le l le_trans)
  moreover have "card (insert fn (files s) - F) \<le> card (insert fn (files s))"
    by (rule card_mono) auto
  moreover have "card (insert fn (files s)) \<le> Suc (card (files s))"
    by (simp add: card_insert_if)
  ultimately show ?thesis by (simp add: fail_fuel_def)
qed

lemma fail_file_enough: "triple (\<lambda>_. True) (fail_file fn) (\<lambda>_ _. True) required_lost"
  unfolding fail_file_def
  by (intro triple_bind_gets triple_weaken[OF fail_fn_enough]) (auto intro: card_files)

interpretation fail_file_enough: failing_enough fail_file m for m
  by unfold_locales (rule triple_weaken[OF fail_file_enough], auto)

lemma fail_file_frame: "snd (fail_file fn s) = s' \<Longrightarrow> shrinks s s'"
  using keepsD[OF fail_file.fail_shrinks shrinks_refl] by blast

lemma triple_any_ready:
  assumes "\<And>m. triple (ready m) M (\<lambda>_. ready m) E"
  shows "triple (\<lambda>_. True) M (\<lambda>_ _. True) E"
  unfolding triple_def
proof (intro allI impI)
  fix s
  have "ready (card (files s - set (failed_fns s))) s" by (simp add: ready_def)
  with assms show "case M s of (r, t) \<Rightarrow> (case r of Inl e \<Rightarrow> E e t | Inr x \<Rightarrow> True)"
    unfolding triple_def by (fastforce split: prod.splits sum.splits)
qed

text \<open>Removing a target, as the resolution calls it\<close>

lemma remove_buildtarget_closes:
  "triple (failing_inv W V R) (remove_buildtarget t)
     (\<lambda>_ s. failing_inv W V R s \<and> t \<in> set (failed_deps s)) any_error"
  unfolding remove_buildtarget_def by (rule fail_file.remove_bt_closes)

lemma remove_buildtarget_shrinks: "keeps (shrinks s0) (remove_buildtarget t)"
  unfolding remove_buildtarget_def by (rule fail_file.remove_bt_shrinks)

lemma remove_runtarget_shrinks: "keeps (shrinks s0) (remove_runtarget t)"
  unfolding remove_runtarget_def by (rule fail_file.remove_rt_shrinks)

lemma remove_buildtarget_raises: "triple (\<lambda>_. True) (remove_buildtarget t) (\<lambda>_ _. True) required_lost"
  unfolding remove_buildtarget_def by (rule triple_any_ready[OF fail_file_enough.enough_remove])

lemma remove_runtarget_raises: "triple (\<lambda>_. True) (remove_runtarget t) (\<lambda>_ _. True) required_lost"
  unfolding remove_runtarget_def by (rule triple_any_ready[OF fail_file_enough.enough_rremove])

text \<open>
  C19: failing a file always comes to an end, and closes the state again: on return
  the file is failed, no failed file is listed as a provider, every file that depends on a
  failed target has failed, and a target that lost its last provider is failed itself. The
  only exception is NoProvider for an externally requested target, and only when the first
  failure is to halt the build.
\<close>

theorem fail_file_closed:
  assumes "failures_closed s"
  shows "(\<exists>s'. fail_file fn s = (Inr (), s') \<and> failures_closed s' \<and> fn \<in> set (failed_fns s') \<and>
      (\<forall>t. have_build_target s t \<longrightarrow> have_build_target s' t \<or> t \<in> set (failed_deps s')) \<and>
      (\<forall>t. have_runtime_target s t \<longrightarrow> have_runtime_target s' t \<or> t \<in> set (failed_rdeps s'))) \<or>
    (\<exists>t s'. fail_file fn s = (Inl (NoProvider t), s') \<and> halt s \<and> t \<in> set (external_targets s) \<and>
      t \<in> set (failed_deps s'))"
proof -
  obtain r s' where run: "fail_file fn s = (r, s')" by fastforce
  then have sh: "shrinks s s'" using fail_file_frame by (metis snd_conv)
  show ?thesis
  proof (cases r)
    case (Inl e)
    then have "required_lost e s'" using run triple_run[OF fail_file_enough] by blast
    with Inl run sh show ?thesis by (auto simp: required_lost_def shrinks_def)
  next
    case (Inr u)
    have "failing_inv {} {} {} s' \<and> fn \<in> set (failed_fns s')"
      using triple_run[OF fail_file.fail_closes, of "{}" "{}" "{}" s fn] assms run Inr
      unfolding failures_closed_def by blast
    moreover have "settled t s \<longrightarrow> settled t s'" "rsettled t s \<longrightarrow> rsettled t s'" for t
      using sh by (auto simp: shrinks_def)
    ultimately show ?thesis
      using Inr run by (auto simp: failures_closed_def settled_def rsettled_def)
  qed
qed

section \<open>Exceptions of the lookups\<close>

text \<open>
  \<open>plain e\<close>: \<open>e\<close> is none of the exceptions the resolution catches, and not the mark of spent
  fuel. The lookups in the cache raise only such exceptions.
\<close>

definition plain :: "exn \<Rightarrow> bool" where
  "plain e \<longleftrightarrow> e \<noteq> OutOfFuel \<and>
     (\<forall>t. e \<noteq> NoProvider t \<and> e \<noteq> NoRProvider t \<and> e \<noteq> MultipleRProvider t)"

definition plain_res :: "'a res \<Rightarrow> bool" where
  "plain_res r \<longleftrightarrow> (\<forall>e. r = Inl e \<longrightarrow> plain e)"

named_theorems plain_intros "results without special exceptions"

lemma plain_exns [simp]:
  "plain KeyError" "plain IndexError" "plain ValueError" "plain AttributeError" "plain SystemExit"
  "plain TypeError" "plain (ExternalExn x)"
  "\<not> plain OutOfFuel" "\<not> plain (NoProvider t)" "\<not> plain (NoRProvider t)" "\<not> plain (MultipleRProvider t)"
  by (simp_all add: plain_def)

lemma plain_resD: "plain_res r \<Longrightarrow> r = Inl e \<Longrightarrow> plain e"
  by (simp add: plain_res_def)

lemma plain_Inr [plain_intros]: "plain_res (Inr x)"
  by (simp add: plain_res_def)

lemma plain_Inl [plain_intros]: "plain e \<Longrightarrow> plain_res (Inl e)"
  by (simp add: plain_res_def)

lemma plain_bind [plain_intros]:
  "plain_res r \<Longrightarrow> (\<And>x. r = Inr x \<Longrightarrow> plain_res (f x)) \<Longrightarrow> plain_res (res_bind r f)"
  by (cases r) (auto simp: plain_res_def)

lemma plain_fold [plain_intros]:
  "(\<And>x a. plain_res (f x a)) \<Longrightarrow> plain_res (res_fold f xs a)"
  by (induction xs arbitrary: a) (auto intro: plain_intros)

lemma plain_map [plain_intros]: "(\<And>x. plain_res (f x)) \<Longrightarrow> plain_res (res_map f xs)"
  by (induction xs) (auto intro!: plain_intros)

lemma plain_dict_get [plain_intros]: "plain_res (dict_get d k)"
  by (auto simp: plain_res_def)

lemma plain_list_get [plain_intros]: "plain_res (list_get xs i)"
  by (auto simp: plain_res_def list_get_def split: if_splits)

lemma plain_explode: "plain_res (explode_version s)"
proof (induction s rule: explode_version.induct)
  case (2 c cs)
  then show ?case
    by (auto intro!: plain_intros simp: plain_res_def[of "Inl AttributeError"] split: option.split)
qed (simp add: plain_res_def)

lemma plain_vercmp [plain_intros]: "plain_res (vercmp a b)"
proof -
  have "plain_res (py_int s)" for s
    unfolding py_int_def by (auto intro!: plain_intros simp: Let_def split: prod.split option.split)
  then have e: "plain_res (epoch_int i)" for i by (cases i) (auto intro: plain_intros)
  have "plain_res (vercmp_part a b)" for a b
    unfolding vercmp_part_def by (intro plain_intros plain_explode)
  with e show ?thesis
    by (cases "(a, b)" rule: vercmp.cases) (auto intro!: plain_intros)
qed

lemma plain_sortPriorities [plain_intros]: "plain_res (sortPriorities pn dc arg)"
  unfolding sortPriorities_def add_priority_def by (auto intro!: plain_intros)

lemma plain_match_in_set [plain_intros]: "plain_res (match_in_set dc e v r fs)"
  by (induction fs) (auto intro!: plain_intros split: prod.split)

lemma plain_match_in_sets [plain_intros]: "plain_res (match_in_sets dc e v r fss cur)"
  by (induction fss arbitrary: cur) (auto intro!: plain_intros simp: Let_def)

lemma plain_findPreferred [plain_intros]: "plain_res (findPreferredProvider pn cfg dc sets)"
  unfolding findPreferredProvider_def
  by (auto intro!: plain_intros simp: Let_def split: prod.split)

lemma plain_latest_step [plain_intros]: "plain_res (latest_step vercmp dc f st)"
  unfolding latest_step_def
  by (cases st) (auto intro!: plain_intros simp del: vercmp.simps split: option.split)

lemma plain_findLatest [plain_intros]: "plain_res (findLatestProvider pn cfg dc fs)"
  unfolding findLatestProvider_def by (auto intro!: plain_intros)

lemma plain_preferred_loop [plain_intros]: "plain_res (preferred_loop cfg dc coll pns st)"
  by (induction cfg dc coll pns st rule: preferred_loop.induct)
    (auto intro!: plain_intros simp: Let_def split: prod.split)

lemma plain_latest_loop [plain_intros]: "plain_res (latest_loop cfg dc sets pns st)"
  by (induction cfg dc sets pns st rule: latest_loop.induct)
    (auto intro!: plain_intros split: prod.split)

lemma plain_own_name_loop [plain_intros]: "plain_res (own_name_loop dc item chosen ps el)"
  by (induction ps arbitrary: el) (auto intro!: plain_intros split: prod.split option.split)

lemma plain_first_of_name [plain_intros]: "plain_res (first_of_name dc want ps)"
  by (induction ps) (auto intro!: plain_intros)

lemma plain_priv_filter [plain_intros]: "plain_res (priv_filterProviders ps item cfg dc)"
  unfolding priv_filterProviders_def collate_def
  by (auto intro!: plain_intros simp: Let_def split: prod.split)

lemma plain_filterProviders [plain_intros]: "plain_res (filterProviders ps item cfg dc)"
  unfolding filterProviders_def
  by (auto intro!: plain_intros simp: Let_def split: option.split)

lemma plain_runtime_loop [plain_intros]: "plain_res (runtime_loop cfg dc pns i L al el pf)"
proof (induction cfg dc pns i L al el pf rule: runtime_loop.induct)
  case (1 cfg dc pns i L al el pf)
  then show ?case
    by (subst runtime_loop.simps) (auto intro!: plain_intros simp: Let_def split: option.split)
qed

lemma plain_filterRunTime [plain_intros]: "plain_res (filterProvidersRunTime ps item cfg dc)"
  unfolding filterProvidersRunTime_def
  by (auto intro!: plain_intros simp: Let_def split: option.split prod.split)

lemma plain_world [plain_intros]: "plain_res (buildWorldTargetList dc task)"
proof -
  have f: "plain_res (foreign_provider dc pn pfs)" for dc pn pfs
    by (induction pfs) (auto intro!: plain_intros)
  have "plain_res (world_terminal dc pn ps t)" for dc pn ps t
    by (induction ps arbitrary: t) (auto intro!: plain_intros f)
  then show ?thesis
    unfolding buildWorldTargetList_def by (auto intro!: plain_intros)
qed

text \<open>The parameters raise exceptions of their own: \<open>re.error\<close>, or whatever a recipe's code
  raises.\<close>

definition env_ok :: "td_env \<Rightarrow> bool" where
  "env_ok env \<longleftrightarrow>
     (\<forall>p s e. env_re env p s = Inl e \<longrightarrow> (\<exists>x. e = ExternalExn x)) \<and>
     (\<forall>src deps world pns pn e. env_exec env src deps world pns pn = Inl e \<longrightarrow> (\<exists>x. e = ExternalExn x))"

lemma plain_env:
  assumes "env_ok env"
  shows "plain_res (env_re env p s)" and "plain_res (env_exec env src deps world pns pn)"
  using assms unfolding env_ok_def plain_res_def by (metis plain_exns(7))+

lemma plain_re_match:
  assumes "env_ok env"
  shows "plain_res (re_match_strings (env_re env) target names)"
proof (induction names)
  case (Cons n ns)
  then show ?case using plain_env(1)[OF assms] by (auto intro!: plain_intros)
qed (auto intro: plain_intros)

lemma plain_unresolved: "env_ok env \<Longrightarrow> plain_res (unresolved_in env ig failed targets)"
  unfolding unresolved_in_def by (auto intro!: plain_intros plain_re_match)

lemma plain_getRuntimeProviders:
  "env_ok env \<Longrightarrow> plain_res (getRuntimeProviders (env_re env) dc item)"
  unfolding getRuntimeProviders_def
  by (auto intro!: plain_intros plain_env simp: Let_def)

section \<open>Resolution comes to an end\<close>

definition same_catalogue :: "cache_data \<Rightarrow> cache_data \<Rightarrow> bool" where
  "same_catalogue dc dc' \<longleftrightarrow>
     task_deps_of dc' = task_deps_of dc \<and> ignored_dependencies dc' = ignored_dependencies dc"

definition wf_state :: "td_state \<Rightarrow> bool" where
  "wf_state s \<longleftrightarrow> wf_dict (build_targets s) \<and> wf_dict (run_targets s) \<and> distinct (seenfns s) \<and>
     set (seenfns s) \<subseteq> set (dict_keys (task_deps_of (dcache s)))"

definition same_targets :: "td_state \<Rightarrow> td_state \<Rightarrow> bool" where
  "same_targets s s' \<longleftrightarrow> set (dict_keys (build_targets s')) = set (dict_keys (build_targets s)) \<and>
     set (dict_keys (run_targets s')) = set (dict_keys (run_targets s))"

text \<open>What every step of the resolution keeps: settled targets stay settled, and a target is
  only added when a file is seen for the first time.\<close>

definition advances :: "td_state \<Rightarrow> td_state \<Rightarrow> bool" where
  "advances s s' \<longleftrightarrow>
     halt s' = halt s \<and> allowincomplete s' = allowincomplete s \<and>
     same_catalogue (dcache s) (dcache s') \<and>
     (\<forall>t. settled t s \<longrightarrow> settled t s') \<and> (\<forall>t. rsettled t s \<longrightarrow> rsettled t s') \<and>
     (wf_state s \<longrightarrow> wf_state s') \<and>
     set (dict_keys (build_targets s)) \<subseteq> set (dict_keys (build_targets s')) \<and>
     set (dict_keys (run_targets s)) \<subseteq> set (dict_keys (run_targets s')) \<and>
     (seenfns s' = seenfns s \<and> same_targets s s' \<or> length (seenfns s) < length (seenfns s'))"

lemma advances_refl [simp]: "advances s s"
  by (simp add: advances_def same_catalogue_def same_targets_def)

lemma advances_trans: "advances a b \<Longrightarrow> advances b c \<Longrightarrow> advances a c"
proof -
  assume ab: "advances a b" and bc: "advances b c"
  have "seenfns c = seenfns a \<and> same_targets a c \<or> length (seenfns a) < length (seenfns c)"
    using ab bc unfolding advances_def same_targets_def by (elim conjE disjE) simp_all
  moreover have "same_catalogue (dcache a) (dcache c)"
    using ab bc unfolding advances_def same_catalogue_def by simp
  moreover have "set (dict_keys (build_targets a)) \<subseteq> set (dict_keys (build_targets c))"
    "set (dict_keys (run_targets a)) \<subseteq> set (dict_keys (run_targets c))"
    using ab bc unfolding advances_def by blast+
  moreover have "settled t a \<longrightarrow> settled t c" "rsettled t a \<longrightarrow> rsettled t c" for t
    using ab bc unfolding advances_def by blast+
  ultimately show ?thesis using ab bc unfolding advances_def by simp
qed

lemma shrinks_advances: "shrinks s s' \<Longrightarrow> advances s s'"
  unfolding shrinks_def advances_def same_catalogue_def same_targets_def wf_state_def
  by (elim conjE, intro conjI) simp_all

lemma keeps_advances:
  "(\<And>s0. keeps (shrinks s0) m) \<Longrightarrow> keeps (advances s0) m"
  by (rule keepsI) (meson advances_trans keepsD shrinks_advances shrinks_refl)

definition grown :: "td_state \<Rightarrow> td_state \<Rightarrow> bool" where
  "grown s s' \<longleftrightarrow> advances s s' \<and> length (seenfns s) < length (seenfns s')"

lemma grown_advances: "grown s0 s \<Longrightarrow> advances s s' \<Longrightarrow> grown s0 s'"
  unfolding grown_def by (metis advances_def advances_trans less_trans)

text \<open>Steps once a file is seen\<close>

lemma grown_step:
  assumes "grown s0 s" and "halt s' = halt s" "allowincomplete s' = allowincomplete s"
    "same_catalogue (dcache s) (dcache s')" "seenfns s' = seenfns s"
    "wf_dict (build_targets s) \<Longrightarrow> wf_dict (build_targets s')"
    "wf_dict (run_targets s) \<Longrightarrow> wf_dict (run_targets s')"
    "set (dict_keys (build_targets s)) \<subseteq> set (dict_keys (build_targets s'))"
    "set (dict_keys (run_targets s)) \<subseteq> set (dict_keys (run_targets s'))"
    "\<And>t. settled t s \<Longrightarrow> settled t s'" "\<And>t. rsettled t s \<Longrightarrow> rsettled t s'"
  shows "grown s0 s'"
proof -
  have "wf_state s \<longrightarrow> wf_state s'"
    using assms(4-7) unfolding wf_state_def same_catalogue_def by simp
  moreover have "length (seenfns s0) < length (seenfns s')" "advances s0 s"
    using assms(1,5) by (simp_all add: grown_def)
  ultimately show ?thesis
    using assms unfolding grown_def advances_def same_catalogue_def
    by (intro conjI) (simp_all, (meson subset_trans)+)
qed

lemma settled_seen:
  "settled t s \<Longrightarrow> \<not> has_key (build_targets s) n \<Longrightarrow>
   settled t (s\<lparr>build_targets := AList.update n [] (build_targets s)\<rparr>)"
  "rsettled t s \<Longrightarrow> \<not> has_key (run_targets s) n \<Longrightarrow>
   rsettled t (s\<lparr>run_targets := AList.update n [] (run_targets s)\<rparr>)"
  using dict_list_no_key[of n "build_targets s"] dict_list_no_key[of n "run_targets s"]
  by (auto simp: settled_def rsettled_def have_build_target_def have_runtime_target_def has_key_def)

lemma seen_build_grown: "keeps (grown s0) (seen_build_target n)"
  unfolding seen_build_target_def
  by (rule keeps_modify) (auto elim!: grown_step simp: same_catalogue_def intro: settled_seen
      simp: rsettled_def have_runtime_target_def)

lemma seen_run_grown: "keeps (grown s0) (seen_run_target n)"
  unfolding seen_run_target_def
  by (rule keeps_modify) (auto elim!: grown_step simp: same_catalogue_def intro: settled_seen
      simp: settled_def have_build_target_def)

lemma modify_grown:
  assumes "\<And>s. build_targets (f s) = build_targets s" "\<And>s. run_targets (f s) = run_targets s"
    "\<And>s. failed_deps (f s) = failed_deps s" "\<And>s. failed_rdeps (f s) = failed_rdeps s"
    "\<And>s. halt (f s) = halt s" "\<And>s. allowincomplete (f s) = allowincomplete s"
    "\<And>s. seenfns (f s) = seenfns s" "\<And>s. same_catalogue (dcache s) (dcache (f s))"
  shows "keeps (grown s0) (act_modify f)" and "keeps (advances s0) (act_modify f)"
    and "keeps (\<lambda>s. advances s0 s \<and> seenfns s = seenfns s0) (act_modify f)"
proof -
  have "advances s (f s)" for s
    using assms unfolding advances_def same_targets_def wf_state_def settled_def rsettled_def
      have_build_target_def have_runtime_target_def by (simp add: same_catalogue_def)
  then show "keeps (grown s0) (act_modify f)" and "keeps (advances s0) (act_modify f)"
    and "keeps (\<lambda>s. advances s0 s \<and> seenfns s = seenfns s0) (act_modify f)"
    by (auto intro!: keeps_modify intro: grown_advances advances_trans simp: assms(7))
qed

lemma world_catalogue:
  "buildWorldTargetList dc task = Inr dc' \<Longrightarrow> same_catalogue dc dc'"
  unfolding buildWorldTargetList_def
  apply (simp split: if_split_asm)
   apply (simp add: same_catalogue_def)
  apply (erule res_fold_invariant[where I = "same_catalogue dc"])
   apply (auto simp: res_bind_Inr_iff same_catalogue_def split: if_splits)
  done

lemma filterProviders_catalogue:
  "filterProviders ps item cfg dc = Inr (el, u, dc') \<Longrightarrow> same_catalogue dc dc'"
  unfolding filterProviders_def
  by (auto simp: res_bind_Inr_iff same_catalogue_def Let_def split: option.splits if_splits)

lemma keeps_grownI:
  "(\<And>s0. keeps (advances s0) m) \<Longrightarrow> keeps (grown s0) m"
  by (rule keepsI) (meson advances_refl grown_advances keepsD)

lemma advances_dcache:
  "same_catalogue (dcache s) dc \<Longrightarrow> advances s (s\<lparr>dcache := dc\<rparr>)"
  by (simp add: advances_def same_catalogue_def wf_state_def settled_def rsettled_def
      have_build_target_def have_runtime_target_def same_targets_def)

lemma keeps_bind_gets:
  "(\<And>s. I s \<Longrightarrow> triple (\<lambda>x. x = s) (f (g s)) (\<lambda>_. I) (\<lambda>_. I)) \<Longrightarrow> keeps I (act_bind (act_gets g) f)"
  unfolding keeps_def by (rule triple_bind_gets)

lemma keeps_from: "keeps I m \<Longrightarrow> I s \<Longrightarrow> triple (\<lambda>x. x = s) m (\<lambda>_. I) (\<lambda>_. I)"
  unfolding keeps_def by (erule triple_weaken) simp_all

lemma add_extra_deps_advances: "keeps (advances s0) (add_extra_deps env fn)"
proof -
  have set_dc: "triple (advances s0) (act_modify (\<lambda>s. s\<lparr>dcache := dc\<rparr>)) (\<lambda>_. advances s0) (\<lambda>_. advances s0)"
    if "same_catalogue (dcache s0) dc" for dc
  proof (rule triple_modifyI)
    fix s assume s: "advances s0 s"
    with that have "same_catalogue (dcache s) dc" by (simp add: advances_def same_catalogue_def)
    then show "advances s0 (s\<lparr>dcache := dc\<rparr>)" by (rule advances_trans[OF s advances_dcache])
  qed
  show ?thesis
    unfolding add_extra_deps_def
  proof (rule keeps_bind, rule keeps_gets, rule keeps_if, rule keeps_return, rule keeps_bind_gets)
    fix func s assume s: "advances s0 s"
    have cat: "same_catalogue (dcache s0) dc" if "buildWorldTargetList (dcache s) None = Inr dc" for dc
      using s world_catalogue[OF that] by (simp add: advances_def same_catalogue_def)
    then have cat': "same_catalogue (dcache s0) (dc\<lparr>cache_deps := x\<rparr>)"
      if "buildWorldTargetList (dcache s) None = Inr dc" for dc x
      using that by (simp add: same_catalogue_def)
    show "triple (\<lambda>x. x = s) (act_bind (act_lift (buildWorldTargetList (dcache s) None)) (\<lambda>dc.
       act_then (act_modify (\<lambda>s. s\<lparr>dcache := dc\<rparr>))
      (act_bind (act_lift (dict_get (pkg_fn dc) fn)) (\<lambda>pn.
       act_bind (act_lift (env_exec env (extra_deps_source pn (the func))
           (dict_list (cache_deps dc) fn) (world_target dc) (pkg_pn dc) pn)) (\<lambda>deps.
       act_modify (\<lambda>s. s\<lparr>dcache := dc\<lparr>cache_deps := AList.update fn deps (cache_deps dc)\<rparr>\<rparr>))))))
      (\<lambda>_. advances s0) (\<lambda>_. advances s0)"
      by (intro triple_bind_liftI triple_thenI[where R = "advances s0"] set_dc cat'
          triple_weaken[OF set_dc[OF cat]]) (use s in auto)
  qed
qed

lemma set_entry_grown: "keeps (grown s0) (set_entry tid te)"
  unfolding set_entry_def by (rule modify_grown) (simp_all add: same_catalogue_def)

lemma handle_deps_grown:
  "(\<And>n. keeps (grown s0) (seen n)) \<Longrightarrow> keeps (grown s0) (handle_deps td task name seen)"
  unfolding handle_deps_def
  by (auto intro!: keeps_map keeps_return keeps_then keeps_raise split: option.split list.split)

lemma add_mcdepends_grown: "keeps (grown s0) (add_mcdepends td task)"
  unfolding add_mcdepends_def
  by (auto intro!: keeps_return keeps_for keeps_if keeps_raise modify_grown(1) split: option.split
      simp: same_catalogue_def)

lemma add_task_entry_grown: "keeps (grown s0) (add_task_entry fn td task)"
  unfolding add_task_entry_def Let_def
  by (intro keeps_then keeps_bind keeps_lift set_entry_grown handle_deps_grown seen_build_grown
      seen_run_grown add_mcdepends_grown)

lemma fail_file_grown: "keeps (grown s0) (fail_file fn)"
  by (intro keeps_grownI keeps_advances fail_file.fail_shrinks)

lemma check_failed_grown: "keeps (grown s0) (check_failed fn)"
  unfolding check_failed_def check_dep_def check_rdep_def
  by (auto intro!: keeps_bind keeps_gets keeps_search keeps_then keeps_if keeps_return
      seen_build_grown seen_run_grown fail_file_grown split: option.split)

lemma add_tasks_advances: "keeps (advances s0) (add_tasks env fn)"
  unfolding add_tasks_def
proof (rule keeps_bind_gets)
  fix s assume s: "advances s0 s"
  let ?body = "\<lambda>td. act_then (add_extra_deps env fn) (act_then (act_for (td_tasks td) (add_task_entry fn td))
        (act_then (add_depids fn) (act_then (add_rdepids fn) (check_failed fn))))"
  have "keeps (grown s0) (?body td)" for td
    unfolding add_depids_def add_rdepids_def
    by (intro keeps_then keeps_for add_task_entry_grown check_failed_grown keeps_grownI[OF add_extra_deps_advances])
      (rule modify_grown(1); simp add: same_catalogue_def)+
  then have body: "triple (grown s0) (?body td) (\<lambda>_. advances s0) (\<lambda>_. advances s0)" for td
    unfolding keeps_def by (rule triple_weaken) (auto simp: grown_def)
  have mark: "grown s0 (s\<lparr>seenfns := seenfns s @ [fn]\<rparr>)"
    if "map_of (task_deps_of (dcache s)) fn = Some td" "fn \<notin> set (seenfns s)" for td
  proof -
    have "fn \<in> set (dict_keys (task_deps_of (dcache s)))" using that(1) by (metis has_key_Some has_key_def)
    then have "advances s (s\<lparr>seenfns := seenfns s @ [fn]\<rparr>)"
      using that(2) by (simp add: advances_def same_catalogue_def wf_state_def settled_def rsettled_def
          have_build_target_def have_runtime_target_def)
    with s have "advances s0 (s\<lparr>seenfns := seenfns s @ [fn]\<rparr>)" by (rule advances_trans)
    with s show ?thesis by (auto simp: grown_def advances_def)
  qed
  show "triple (\<lambda>x. x = s) (act_bind (act_lift (dict_get (task_deps_of (dcache s)) fn)) (\<lambda>td.
     act_bind (act_gets failed_fns) (\<lambda>failed.
     if fn \<in> set failed then act_raise SystemExit
     else act_bind (act_gets seenfns) (\<lambda>seen.
       if fn \<in> set seen then act_return ()
       else act_then (act_modify (\<lambda>s. s\<lparr>seenfns := seenfns s @ [fn]\<rparr>)) (?body td)))))
     (\<lambda>_. advances s0) (\<lambda>_. advances s0)"
  proof (rule triple_bind_liftI)
    fix td assume "dict_get (task_deps_of (dcache s)) fn = Inr td"
    then have td: "map_of (task_deps_of (dcache s)) fn = Some td" by simp
    have "triple (\<lambda>x. x = s \<and> fn \<notin> set (seenfns s)) (act_then (act_modify (\<lambda>s. s\<lparr>seenfns := seenfns s @ [fn]\<rparr>)) (?body td))
       (\<lambda>_. advances s0) (\<lambda>_. advances s0)"
      by (rule triple_thenI[OF triple_modifyI body]) (auto intro: mark[OF td])
    then show "triple (\<lambda>x. x = s) (act_bind (act_gets failed_fns) (\<lambda>failed.
       if fn \<in> set failed then act_raise SystemExit
       else act_bind (act_gets seenfns) (\<lambda>seen.
       if fn \<in> set seen then act_return ()
       else act_then (act_modify (\<lambda>s. s\<lparr>seenfns := seenfns s @ [fn]\<rparr>)) (?body td))))
       (\<lambda>_. advances s0) (\<lambda>_. advances s0)"
      using s by (auto intro!: triple_bind_getsI triple_raiseI triple_returnI) (erule triple_weaken; auto)
  qed (use s in auto)
qed

text \<open>When the first failure does not halt the build, entering a file raises no NoProvider.\<close>

abbreviation plain_error :: "exn \<Rightarrow> td_state \<Rightarrow> bool" where
  "plain_error \<equiv> \<lambda>e s. plain e"

definition calm :: "(td_state, 'a) act \<Rightarrow> bool" where
  "calm m \<longleftrightarrow> triple (\<lambda>s. \<not> halt s) m (\<lambda>_ s. \<not> halt s) plain_error"

named_theorems calm_intros "actions that raise plain exceptions only"

lemma calm_return [calm_intros]: "calm (act_return x)"
  unfolding calm_def by (rule triple_returnI)

lemma calm_raise [calm_intros]: "plain e \<Longrightarrow> calm (act_raise e)"
  unfolding calm_def by (rule triple_raiseI)

lemma calm_gets [calm_intros]: "calm (act_gets f)"
  unfolding calm_def by (rule triple_getsI)

lemma calm_lift [calm_intros]: "plain_res r \<Longrightarrow> calm (act_lift r)"
  unfolding calm_def by (rule triple_liftI) (auto dest: plain_resD)

lemma calm_modify [calm_intros]: "(\<And>s. halt (f s) = halt s) \<Longrightarrow> calm (act_modify f)"
  unfolding calm_def by (rule triple_modifyI) simp

lemma calm_bind [calm_intros]: "calm m \<Longrightarrow> (\<And>x. calm (f x)) \<Longrightarrow> calm (act_bind m f)"
  unfolding calm_def by (rule triple_bindI)

lemma calm_then [calm_intros]: "calm m \<Longrightarrow> calm n \<Longrightarrow> calm (act_then m n)"
  unfolding calm_def by (rule triple_thenI)

lemma calm_when [calm_intros]: "(b \<Longrightarrow> calm m) \<Longrightarrow> calm (act_when b m)"
  unfolding calm_def by (rule triple_whenI)

lemma calm_if [calm_intros]: "(b \<Longrightarrow> calm m) \<Longrightarrow> (\<not> b \<Longrightarrow> calm n) \<Longrightarrow> calm (if b then m else n)"
  by simp

lemma calm_for [calm_intros]: "(\<And>x. calm (f x)) \<Longrightarrow> calm (act_for xs f)"
  unfolding calm_def by (rule triple_forI)

lemma calm_map [calm_intros]: "(\<And>x. calm (f x)) \<Longrightarrow> calm (act_map f xs)"
  by (induction xs) (auto intro!: calm_intros)

lemma calm_search [calm_intros]: "(\<And>x. calm (f x)) \<Longrightarrow> calm (act_search xs f)"
proof (induction xs)
  case (Cons x xs)
  then show ?case by (auto intro!: calm_intros split: option.split)
qed (auto intro: calm_intros)

lemma calm_bind_gets_res [calm_intros]:
  "(\<And>s. plain_res (g s)) \<Longrightarrow> (\<And>x. calm (f x)) \<Longrightarrow>
   calm (act_bind (act_gets g) (\<lambda>r. act_bind (act_lift r) f))"
  unfolding calm_def triple_def
  by (fastforce simp: act_simps plain_res_def split: prod.splits sum.splits)

lemma calm_fails:
  assumes "triple (\<lambda>_. True) m (\<lambda>_ _. True) required_lost" and "\<And>s0. keeps (shrinks s0) m"
  shows "calm m"
proof -
  have "keeps (\<lambda>s. \<not> halt s) m" by (rule keeps_shrinks[OF assms(2)]) (simp add: shrinks_def)
  from triple_conj[OF assms(1) this[unfolded keeps_def]] show ?thesis
    unfolding calm_def by (rule triple_weaken) (auto simp: required_lost_def)
qed

lemma calm_fail_file [calm_intros]: "calm (fail_file fn)"
  by (rule calm_fails[OF fail_file_enough fail_file.fail_shrinks])

lemma calm_remove_buildtarget [calm_intros]: "calm (remove_buildtarget t)"
  by (rule calm_fails[OF remove_buildtarget_raises remove_buildtarget_shrinks])

lemma calm_remove_runtarget [calm_intros]: "calm (remove_runtarget t)"
  by (rule calm_fails[OF remove_runtarget_raises remove_runtarget_shrinks])

lemma calm_handle_deps [calm_intros]:
  "(\<And>n. calm (seen n)) \<Longrightarrow> calm (handle_deps td task name seen)"
  unfolding handle_deps_def
  by (auto intro!: calm_intros split: option.split list.split)

lemma calm_targets [calm_intros]:
  "calm (seen_build_target n)" "calm (seen_run_target n)" "calm (add_build_target fn n)"
  "calm (add_runtime_target fn n)" "calm (set_entry tid te)" "calm (fire ev)"
  unfolding seen_build_target_def seen_run_target_def add_build_target_def add_runtime_target_def
    set_entry_def fire_def by (rule calm_modify; simp)+

lemma calm_depids [calm_intros]: "calm (add_depids fn)" "calm (add_rdepids fn)"
  unfolding add_depids_def add_rdepids_def by (rule calm_modify; simp)+

lemma calm_add_extra_deps:
  assumes "env_ok env"
  shows "calm (add_extra_deps env fn)"
  unfolding add_extra_deps_def
  by (intro calm_intros plain_intros plain_env[OF assms]) simp_all

lemma calm_add_task_entry [calm_intros]: "calm (add_task_entry fn td task)"
  unfolding add_task_entry_def Let_def add_mcdepends_def
  by (auto intro!: calm_intros plain_intros split: option.split)

lemma calm_add_tasks:
  assumes "env_ok env"
  shows "calm (add_tasks env fn)"
  unfolding add_tasks_def check_failed_def check_dep_def check_rdep_def
  by (auto intro!: calm_intros plain_intros calm_add_extra_deps[OF assms] split: option.split)

definition ignored_in :: "td_env \<Rightarrow> string \<Rightarrow> td_state \<Rightarrow> bool" where
  "ignored_in env t s \<longleftrightarrow> re_match_strings (env_re env) t (ignored_dependencies (dcache s)) = Inr True"

lemma advances_ignored: "advances s s' \<Longrightarrow> ignored_in env t s' = ignored_in env t s"
  by (simp add: advances_def same_catalogue_def ignored_in_def)

text \<open>Actions before any file is entered: nothing is seen, and only plain exceptions leave
  them.\<close>

definition quiet :: "string list \<Rightarrow> td_state \<Rightarrow> bool" where
  "quiet S s \<longleftrightarrow> \<not> halt s \<and> seenfns s = S"

definition refused :: "(exn \<Rightarrow> bool) \<Rightarrow> string list \<Rightarrow> exn \<Rightarrow> td_state \<Rightarrow> bool" where
  "refused X S e s \<longleftrightarrow> plain e \<or> X e \<and> seenfns s = S"

lemma quiet_act:
  assumes "calm m" and "keeps (\<lambda>s. seenfns s = S) m"
  shows "triple (quiet S) m (\<lambda>_. quiet S) (refused X S)"
  by (rule triple_weaken[OF triple_keeps[OF assms(1)[unfolded calm_def] assms(2)]])
    (auto simp: quiet_def refused_def)

lemma quiet_bind:
  "calm m \<Longrightarrow> keeps (\<lambda>s. seenfns s = S) m \<Longrightarrow> (\<And>x. triple (quiet S) (f x) Q (refused X S)) \<Longrightarrow>
   triple (quiet S) (act_bind m f) Q (refused X S)"
  by (rule triple_bindI[OF quiet_act])

lemma quiet_then:
  "calm m \<Longrightarrow> keeps (\<lambda>s. seenfns s = S) m \<Longrightarrow> triple (quiet S) n Q (refused X S) \<Longrightarrow>
   triple (quiet S) (act_then m n) Q (refused X S)"
  by (rule triple_thenI[OF quiet_act])

lemma quiet_bind_res:
  "(\<And>s. plain_res (g s)) \<Longrightarrow> (\<And>x. triple (quiet S) (f x) Q (refused X S)) \<Longrightarrow>
   triple (quiet S) (act_bind (act_gets g) (\<lambda>r. act_bind (act_lift r) f)) Q (refused X S)"
  unfolding triple_def
  by (fastforce simp: act_simps plain_res_def refused_def split: prod.splits sum.splits)

lemma quiet_raise: "X e \<Longrightarrow> triple (quiet S) (act_raise e) Q (refused X S)"
  by (rule triple_raiseI) (simp add: refused_def quiet_def)

lemma quiet_calm: "calm m \<Longrightarrow> triple (quiet S) m (\<lambda>_ _. True) (refused X S)"
  unfolding calm_def quiet_def refused_def by (erule triple_weaken) auto

lemma calm_ignored_target [calm_intros]: "env_ok env \<Longrightarrow> calm (ignored_target env item)"
  unfolding ignored_target_def calm_def triple_def
  using plain_re_match by (fastforce simp: act_simps plain_res_def split: sum.splits)

lemma calm_report [calm_intros]: "calm (report_multiple item el rt)"
  unfolding report_multiple_def by (auto intro!: calm_intros plain_intros)

lemma calm_eligible [calm_intros]: "calm (eligible_providers env item)"
  unfolding eligible_providers_def
  by (auto intro!: calm_intros plain_intros split: prod.split)

lemma seen_eligible: "keeps (\<lambda>s. seenfns s = S) (eligible_providers env item)"
  unfolding eligible_providers_def by (auto intro!: triple_intros split: prod.split)

lemma seen_report: "keeps (\<lambda>s. seenfns s = S) (report_multiple item el rt)"
  unfolding report_multiple_def fire_def by (auto intro!: triple_intros)

lemma seen_ignored: "keeps (\<lambda>s. seenfns s = S) (ignored_target env item)"
  unfolding ignored_target_def by (auto intro!: triple_intros)

lemma seen_fire: "keeps (\<lambda>s. seenfns s = S) (fire ev)"
  unfolding fire_def by (auto intro!: triple_intros)

lemma no_provider_refuses:
  assumes "env_ok env"
  shows "triple (quiet S) (no_provider env item) (\<lambda>_ _. True) (refused (\<lambda>e. e = NoProvider item) S)"
proof -
  have "plain_res (res_bind (getRuntimeProviders (env_re env) (dcache s) item)
       (\<lambda>fns. rprovides_hints (dcache s) item fns (get_close_matches env s item (dict_keys (providers (dcache s))))))" for s
    unfolding rprovides_hints_def by (intro plain_intros plain_getRuntimeProviders assms)
  then show ?thesis
    unfolding no_provider_def
    by (fastforce simp: triple_def act_simps quiet_def refused_def fire_def plain_res_def split: sum.splits)
qed

lemma provider_refuses:
  assumes "env_ok env"
  shows "triple (quiet S) (add_provider_internal env item) (\<lambda>_ _. True) (refused (\<lambda>e. e = NoProvider item) S)"
proof -
  have use: "calm (act_for el (use_provider env item))" for el
    unfolding use_provider_def by (intro calm_intros calm_add_tasks assms)
  show ?thesis
    unfolding add_provider_internal_def
    apply (rule quiet_bind[OF calm_ignored_target[OF assms] seen_ignored])
    apply (rule triple_if, rule quiet_calm, rule calm_return)
    apply (rule quiet_bind[OF calm_gets keeps_gets])
    apply (rule triple_if, rule no_provider_refuses[OF assms])
    apply (rule quiet_bind[OF calm_gets keeps_gets])
    apply (rule triple_if, rule quiet_calm, rule calm_return)
    apply (rule quiet_bind[OF calm_eligible seen_eligible], clarsimp simp: split_beta)
    apply (intro conjI impI)
     apply (rule quiet_bind[OF calm_gets keeps_gets], rule quiet_then[OF calm_targets(6) seen_fire], rule quiet_raise, simp)
    apply (rule quiet_then[OF calm_when keeps_when], rule calm_report, rule seen_report, rule quiet_calm, rule use)
    done
qed

lemma rprovider_refuses:
  assumes "env_ok env"
  shows "triple (quiet S) (add_rprovider env item) (\<lambda>_ _. True)
    (refused (\<lambda>e. e = NoRProvider item \<or> e = MultipleRProvider item) S)"
proof -
  have use: "calm (act_for el (use_rprovider env item))" for el
    unfolding use_rprovider_def by (intro calm_intros calm_add_tasks assms)
  have lookups: "plain_res (getRuntimeProviders (env_re env) (dcache s) item)" for s
    by (rule plain_getRuntimeProviders[OF assms])
  show ?thesis
    unfolding add_rprovider_def Let_def
    apply (rule quiet_bind[OF calm_ignored_target[OF assms] seen_ignored])
    apply (rule triple_if, rule quiet_calm, rule calm_return)
    apply (rule quiet_bind[OF calm_gets keeps_gets])
    apply (rule triple_if, rule quiet_calm, rule calm_return)
    apply (rule quiet_bind_res, rule lookups)
    apply (rule triple_if)
     apply (rule quiet_bind[OF calm_gets keeps_gets], rule quiet_then[OF calm_targets(6) seen_fire], rule quiet_raise, simp)
    apply (rule quiet_bind_res, rule plain_filterRunTime, clarsimp simp: split_beta)
    apply (rule quiet_bind[OF calm_gets keeps_gets])
    apply (intro triple_if)
     apply (rule quiet_bind[OF calm_gets keeps_gets], rule quiet_then[OF calm_targets(6) seen_fire], rule quiet_raise, simp)
    apply (rule quiet_then[OF calm_when keeps_when], rule calm_report, rule seen_report)
    apply (rule triple_thenI[where R = "quiet S"])
     apply (rule triple_whenI, rule quiet_then, rule calm_report, rule seen_report, rule quiet_raise, simp, assumption)
    apply (rule quiet_calm, rule use)
    done
qed

section \<open>Targets are settled\<close>

lemma advances_eligible: "keeps (advances s0) (eligible_providers env item)"
  unfolding eligible_providers_def
proof (rule keeps_bind, rule keeps_gets, rule keeps_then)
  show "keeps (advances s0) (act_modify (\<lambda>s. s\<lparr>dcache := (dcache s)
         \<lparr>providers := AList.update item (sort all_p) (providers (dcache s))\<rparr>\<rparr>))" for all_p
    by (rule modify_grown(2)) (simp_all add: same_catalogue_def)
  show "keeps (advances s0) (act_bind (act_gets (\<lambda>s. filterProviders all_p item (env_cfg env) (dcache s))) (\<lambda>r.
     act_bind (act_lift r) (\<lambda>(eligible, foundUnique, dc).
     act_then (act_modify (\<lambda>s. s\<lparr>dcache := dc\<rparr>))
    (act_bind (act_gets failed_fns) (\<lambda>failed.
     act_return (filter (\<lambda>p. p \<notin> set failed) eligible, foundUnique))))))" for all_p
    by (auto intro!: keeps_bind_gets triple_bind_liftI triple_thenI[where R = "advances s0"] triple_modifyI
        triple_bind_getsI triple_returnI elim: advances_trans[OF _ advances_dcache]
        dest: filterProviders_catalogue)
qed

lemma advances_quiet: "keeps (advances s0) (fire ev)" "keeps (advances s0) (report_multiple item el rt)"
  unfolding report_multiple_def fire_def
  by (intro keeps_then keeps_when keeps_bind keeps_gets keeps_lift modify_grown(2); simp add: same_catalogue_def)+

definition knows :: "string \<Rightarrow> td_state \<Rightarrow> td_state \<Rightarrow> bool" where
  "knows item s0 s \<longleftrightarrow> advances s0 s \<and> item \<in> set (dict_keys (build_targets s0))"

definition rknows :: "string \<Rightarrow> td_state \<Rightarrow> td_state \<Rightarrow> bool" where
  "rknows item s0 s \<longleftrightarrow> advances s0 s \<and> item \<in> set (dict_keys (run_targets s0))"

lemma keeps_knows:
  "keeps (advances s0) m \<Longrightarrow> keeps (knows item s0) m"
  "keeps (advances s0) m \<Longrightarrow> keeps (rknows item s0) m"
  by (auto intro!: keepsI simp: knows_def rknows_def dest: keepsD)

lemma settled_add:
  "settled t s \<Longrightarrow> settled t (s\<lparr>build_targets := AList.update item (fns @ [fn]) (build_targets s)\<rparr>)"
  "rsettled t s \<Longrightarrow> rsettled t (s\<lparr>run_targets := AList.update item (fns @ [fn]) (run_targets s)\<rparr>)"
  by (auto simp: settled_def rsettled_def have_build_target_def have_runtime_target_def)

lemma advances_add_build:
  assumes "knows item s0 s"
  shows "knows item s0 (snd (add_build_target fn item s)) \<and> settled item (snd (add_build_target fn item s))"
proof -
  have k: "item \<in> set (dict_keys (build_targets s))" using assms by (auto simp: knows_def advances_def)
  have "advances s (s\<lparr>build_targets := dict_append item fn (build_targets s)\<rparr>)"
    using k by (auto simp: advances_def same_catalogue_def same_targets_def wf_state_def dict_append_def
        settled_add rsettled_def have_runtime_target_def)
  with assms k show ?thesis
    by (auto simp: add_build_target_def act_simps has_key_def knows_def settled_def have_build_target_def
        intro: advances_trans)
qed

lemma advances_add_runtime:
  assumes "rknows item s0 s"
  shows "rknows item s0 (snd (add_runtime_target fn item s)) \<and> rsettled item (snd (add_runtime_target fn item s))"
proof -
  have k: "item \<in> set (dict_keys (run_targets s))" using assms by (auto simp: rknows_def advances_def)
  have "advances s (s\<lparr>run_targets := dict_append item fn (run_targets s)\<rparr>)"
    using k by (auto simp: advances_def same_catalogue_def same_targets_def wf_state_def dict_append_def
        settled_add settled_def have_build_target_def)
  with assms k show ?thesis
    by (auto simp: add_runtime_target_def act_simps has_key_def rknows_def rsettled_def have_runtime_target_def
        intro: advances_trans)
qed

lemma keeps_stepI: "(\<And>s. I s \<Longrightarrow> I (snd (m s))) \<Longrightarrow> keeps I m"
  by (rule keepsI)

lemma use_provider_knows: "keeps (knows item s0) (use_provider env item fn)"
  unfolding use_provider_def
  by (intro keeps_bind keeps_gets keeps_when keeps_then)
    (rule keeps_stepI, simp add: advances_add_build, rule keeps_knows(1)[OF add_tasks_advances])

lemma use_rprovider_knows: "keeps (rknows item s0) (use_rprovider env item fn)"
  unfolding use_rprovider_def
  by (intro keeps_bind keeps_gets keeps_when keeps_then)
    (rule keeps_stepI, simp add: advances_add_runtime, rule keeps_knows(2)[OF add_tasks_advances])

lemma no_provider_advances: "keeps (advances s0) (no_provider env item)"
  unfolding no_provider_def by (intro keeps_bind keeps_gets keeps_lift keeps_then keeps_raise advances_quiet)

lemma provider_knows: "keeps (knows item s0) (add_provider_internal env item)"
  unfolding add_provider_internal_def ignored_target_def
  by (auto intro!: keeps_bind keeps_gets keeps_lift keeps_if keeps_return keeps_then keeps_when keeps_for
      keeps_raise use_provider_knows
      intro: keeps_knows(1)[OF no_provider_advances] keeps_knows(1)[OF advances_eligible]
        keeps_knows(1)[OF advances_quiet(1)] keeps_knows(1)[OF advances_quiet(2)] split: prod.split)

lemma rprovider_knows: "keeps (rknows item s0) (add_rprovider env item)"
  unfolding add_rprovider_def ignored_target_def Let_def
  by (auto intro!: keeps_bind keeps_gets keeps_lift keeps_if keeps_return keeps_then keeps_when keeps_for
      keeps_raise use_rprovider_knows
      intro: keeps_knows(2)[OF advances_quiet(1)] keeps_knows(2)[OF advances_quiet(2)] split: prod.split)

text \<open>The first provider that has not failed settles the target.\<close>

lemma keeps_settled:
  "(\<And>s0. keeps (advances s0) m) \<Longrightarrow> keeps (settled t) m"
  "(\<And>s0. keeps (advances s0) m) \<Longrightarrow> keeps (rsettled t) m"
  by (rule keepsI, meson advances_def advances_refl keepsD)+

lemma knows_settled:
  "(\<And>s0. keeps (knows item s0) m) \<Longrightarrow>
   keeps (\<lambda>s. item \<in> set (dict_keys (build_targets s)) \<and> settled item s) m"
  by (rule keepsI)
    (metis (no_types, lifting) advances_def advances_refl keepsD knows_def subset_iff)

lemma rknows_settled:
  "(\<And>s0. keeps (rknows item s0) m) \<Longrightarrow>
   keeps (\<lambda>s. item \<in> set (dict_keys (run_targets s)) \<and> rsettled item s) m"
  by (rule keepsI)
    (metis (no_types, lifting) advances_def advances_refl keepsD rknows_def subset_iff)

lemma use_provider_settles:
  "triple (\<lambda>s. item \<in> set (dict_keys (build_targets s)) \<and> fn \<notin> set (failed_fns s)) (use_provider env item fn)
     (\<lambda>_ s. item \<in> set (dict_keys (build_targets s)) \<and> settled item s) any_error"
  unfolding use_provider_def
proof (rule triple_bind_gets, simp add: act_when_def, rule triple_thenI)
  let ?S = "\<lambda>s. item \<in> set (dict_keys (build_targets s)) \<and> settled item s"
  fix s0 :: td_state
  assume a: "item \<in> fst ` set (build_targets s0) \<and> fn \<notin> set (failed_fns s0)"
  then have "knows item s0 s0" by (simp add: knows_def)
  from advances_add_build[OF this, of fn] a
  have "?S (snd (add_build_target fn item s0))"
    by (auto simp: knows_def advances_def)
  then show "triple (\<lambda>s. s = s0) (add_build_target fn item) (\<lambda>_. ?S) any_error"
    by (simp add: triple_def add_build_target_def act_simps)
  show "triple ?S (add_tasks env fn) (\<lambda>_ s. item \<in> fst ` set (build_targets s) \<and> settled item s) any_error"
    using knows_settled[OF keeps_knows(1)[OF add_tasks_advances], of item env fn]
    unfolding keeps_def by (rule triple_weaken) auto
qed

lemma use_rprovider_settles:
  "triple (\<lambda>s. item \<in> set (dict_keys (run_targets s)) \<and> fn \<notin> set (failed_fns s)) (use_rprovider env item fn)
     (\<lambda>_ s. item \<in> set (dict_keys (run_targets s)) \<and> rsettled item s) any_error"
  unfolding use_rprovider_def
proof (rule triple_bind_gets, simp add: act_when_def, rule triple_thenI)
  let ?S = "\<lambda>s. item \<in> set (dict_keys (run_targets s)) \<and> rsettled item s"
  fix s0 :: td_state
  assume a: "item \<in> fst ` set (run_targets s0) \<and> fn \<notin> set (failed_fns s0)"
  then have "rknows item s0 s0" by (simp add: rknows_def)
  from advances_add_runtime[OF this, of fn] a
  have "?S (snd (add_runtime_target fn item s0))"
    by (auto simp: rknows_def advances_def)
  then show "triple (\<lambda>s. s = s0) (add_runtime_target fn item) (\<lambda>_. ?S) any_error"
    by (simp add: triple_def add_runtime_target_def act_simps)
  show "triple ?S (add_tasks env fn) (\<lambda>_ s. item \<in> fst ` set (run_targets s) \<and> rsettled item s) any_error"
    using rknows_settled[OF keeps_knows(2)[OF add_tasks_advances], of item env fn]
    unfolding keeps_def by (rule triple_weaken) auto
qed

lemma use_all_settles:
  assumes "el \<noteq> []"
  shows "triple (\<lambda>s. item \<in> set (dict_keys (build_targets s)) \<and> (\<forall>p \<in> set el. p \<notin> set (failed_fns s)))
    (act_for el (use_provider env item)) (\<lambda>_. settled item) any_error"
proof -
  obtain p ps where el: "el = p # ps" using assms by (cases el) auto
  let ?S = "\<lambda>s. item \<in> set (dict_keys (build_targets s)) \<and> settled item s"
  have "triple ?S (act_for ps (use_provider env item)) (\<lambda>_. settled item) any_error"
    using keeps_for[OF knows_settled[OF use_provider_knows]] unfolding keeps_def by (rule triple_weaken) auto
  with use_provider_settles[of item p env] show ?thesis
    unfolding el act_for.simps by (rule triple_weaken[OF triple_thenI]) auto
qed

lemma use_rall_settles:
  assumes "el \<noteq> []"
  shows "triple (\<lambda>s. item \<in> set (dict_keys (run_targets s)) \<and> (\<forall>p \<in> set el. p \<notin> set (failed_fns s)))
    (act_for el (use_rprovider env item)) (\<lambda>_. rsettled item) any_error"
proof -
  obtain p ps where el: "el = p # ps" using assms by (cases el) auto
  let ?S = "\<lambda>s. item \<in> set (dict_keys (run_targets s)) \<and> rsettled item s"
  have "triple ?S (act_for ps (use_rprovider env item)) (\<lambda>_. rsettled item) any_error"
    using keeps_for[OF rknows_settled[OF use_rprovider_knows]] unfolding keeps_def by (rule triple_weaken) auto
  with use_rprovider_settles[of item p env] show ?thesis
    unfolding el act_for.simps by (rule triple_weaken[OF triple_thenI]) auto
qed

lemma ignored_target_triple:
  "triple P (ignored_target env item) (\<lambda>b s. P s \<and> (b \<longrightarrow> ignored_in env item s)) any_error"
  unfolding ignored_target_def ignored_in_def
  by (auto simp: triple_def act_simps split: sum.splits)

lemma eligible_triple:
  "triple (\<lambda>s. item \<in> set (dict_keys (build_targets s))) (eligible_providers env item)
    (\<lambda>x s. item \<in> set (dict_keys (build_targets s)) \<and> (\<forall>p \<in> set (fst x). p \<notin> set (failed_fns s))) any_error"
  unfolding eligible_providers_def triple_def
  by (auto simp: act_simps split: sum.splits prod.splits)

lemma triple_from: "(\<And>s0. P s0 \<Longrightarrow> triple (\<lambda>s. s = s0) m Q E) \<Longrightarrow> triple P m Q E"
  by (auto simp: triple_def)

lemma triple_eq_at: "m s1 = m' s1 \<Longrightarrow> triple (\<lambda>s. s = s1) m' Q E \<Longrightarrow> triple (\<lambda>s. s = s1) m Q E"
  by (simp add: triple_def)

lemma keeps_triple: "keeps I m \<Longrightarrow> triple I m (\<lambda>_. I) any_error"
  unfolding keeps_def by (erule triple_weaken) auto

lemma triple_if_b:
  "(b \<Longrightarrow> triple P m Q E) \<Longrightarrow> (\<not> b \<Longrightarrow> triple P n Q E) \<Longrightarrow> triple P (if b then m else n) Q E"
  by simp

lemma no_provider_raises: "triple P (no_provider env item) Q any_error"
  by (auto simp: no_provider_def triple_def act_simps fire_def split: sum.splits)

lemma triple_raise_any: "triple P (act_raise e) Q any_error"
  by (rule triple_raiseI) simp

lemma provider_last:
  assumes "el \<noteq> []"
  shows "triple (\<lambda>s. item \<in> set (dict_keys (build_targets s)) \<and> (\<forall>p \<in> set el. p \<notin> set (failed_fns s)))
     (act_then (act_when b (report_multiple item el False)) (act_for el (use_provider env item)))
     (\<lambda>_ s. ignored_in env item s \<or> settled item s) any_error"
proof -
  let ?P = "\<lambda>s. item \<in> set (dict_keys (build_targets s)) \<and> (\<forall>p \<in> set el. p \<notin> set (failed_fns s))"
  have 1: "triple ?P (act_when b (report_multiple item el False)) (\<lambda>_. ?P) any_error"
    unfolding report_multiple_def fire_def by (rule keeps_triple) (auto intro!: triple_intros)
  have 2: "triple ?P (act_for el (use_provider env item)) (\<lambda>_ s. ignored_in env item s \<or> settled item s) any_error"
    by (rule triple_weaken[OF use_all_settles[OF assms]]) auto
  show ?thesis by (rule triple_thenI[OF 1 2])
qed

lemma provider_settles:
  "triple (\<lambda>s. item \<in> set (dict_keys (build_targets s))) (add_provider_internal env item)
     (\<lambda>_ s. ignored_in env item s \<or> settled item s) any_error"
  unfolding add_provider_internal_def
  apply (rule triple_bindI[OF ignored_target_triple], rule triple_if_b, rule triple_returnI, simp)
  apply (rule triple_bind_getsI, rule triple_if_b, rule no_provider_raises)
  apply (rule triple_bind_getsI, rule triple_if_b, rule triple_returnI, simp add: settled_def)
  apply (rule triple_bindI[where R = "\<lambda>x s. item \<in> set (dict_keys (build_targets s)) \<and>
      (\<forall>p \<in> set (fst x). p \<notin> set (failed_fns s))"])
   apply (rule triple_weaken[OF eligible_triple]; simp)
  apply (simp only: split_beta, rule triple_if_b)
   apply (simp add: triple_def act_simps fire_def)
  apply (rule triple_weaken[OF provider_last], assumption, auto)
  done

lemma rprovider_last:
  assumes "el \<noteq> []"
  shows "triple (\<lambda>s. item \<in> set (dict_keys (run_targets s)) \<and> (\<forall>p \<in> set el. p \<notin> set (failed_fns s)))
     (act_then (act_when b (report_multiple item el True))
       (act_then (act_when c (act_then (report_multiple item el True) (act_raise (MultipleRProvider item))))
         (act_for el (use_rprovider env item))))
     (\<lambda>_ s. ignored_in env item s \<or> rsettled item s) any_error"
proof -
  let ?P = "\<lambda>s. item \<in> set (dict_keys (run_targets s)) \<and> (\<forall>p \<in> set el. p \<notin> set (failed_fns s))"
  have 1: "triple ?P (act_when b (report_multiple item el True)) (\<lambda>_. ?P) any_error"
    unfolding report_multiple_def fire_def by (rule keeps_triple) (auto intro!: triple_intros)
  have 2: "triple ?P (act_when c (act_then (report_multiple item el True) (act_raise (MultipleRProvider item))))
      (\<lambda>_. ?P) any_error"
    unfolding report_multiple_def fire_def by (rule keeps_triple) (auto intro!: triple_intros)
  have 3: "triple ?P (act_for el (use_rprovider env item)) (\<lambda>_ s. ignored_in env item s \<or> rsettled item s) any_error"
    by (rule triple_weaken[OF use_rall_settles[OF assms]]) auto
  show ?thesis by (rule triple_thenI[OF 1 triple_thenI[OF 2 3]])
qed

lemma rprovider_settles:
  "triple (\<lambda>s. item \<in> set (dict_keys (run_targets s))) (add_rprovider env item)
     (\<lambda>_ s. ignored_in env item s \<or> rsettled item s) any_error"
  unfolding add_rprovider_def Let_def
  apply (rule triple_bindI[OF ignored_target_triple], rule triple_if_b, rule triple_returnI, simp)
  apply (rule triple_bind_getsI, rule triple_if_b, rule triple_returnI, simp add: rsettled_def)
  apply (rule triple_bind_getsI, rule triple_bind_liftI, rule triple_if_b)
    apply (simp add: triple_def act_simps fire_def)
   apply (rule triple_bind_getsI, rule triple_bind_liftI, simp only: split_beta)
    apply (rule triple_bind_getsI, rule triple_if_b)
     apply (simp add: triple_def act_simps fire_def)
    apply (rule triple_weaken[OF rprovider_last], assumption, auto)
  done

section \<open>The loop\<close>

definition done_build :: "td_env \<Rightarrow> string \<Rightarrow> td_state \<Rightarrow> bool" where
  "done_build env t s \<longleftrightarrow> ignored_in env t s \<or> settled t s"

definition done_run :: "td_env \<Rightarrow> string \<Rightarrow> td_state \<Rightarrow> bool" where
  "done_run env t s \<longleftrightarrow> ignored_in env t s \<or> rsettled t s"

definition all_done :: "td_env \<Rightarrow> td_state \<Rightarrow> bool" where
  "all_done env s \<longleftrightarrow> (\<forall>t \<in> set (dict_keys (build_targets s)). done_build env t s) \<and>
     (\<forall>t \<in> set (dict_keys (run_targets s)). done_run env t s)"

lemma advances_done:
  assumes "advances s s'"
  shows "done_build env t s \<Longrightarrow> done_build env t s'" and "done_run env t s \<Longrightarrow> done_run env t s'"
proof -
  have "settled t s \<longrightarrow> settled t s'" "rsettled t s \<longrightarrow> rsettled t s'"
    using assms by (simp_all add: advances_def)
  then show "done_build env t s \<Longrightarrow> done_build env t s'" and "done_run env t s \<Longrightarrow> done_run env t s'"
    unfolding done_build_def done_run_def advances_ignored[OF assms] by blast+
qed

text \<open>The resolution that keeps going: the first failure does not halt it, and what fails is
  removed.\<close>

definition going :: "td_state \<Rightarrow> td_state \<Rightarrow> bool" where
  "going s0 s \<longleftrightarrow> advances s0 s \<and> \<not> halt s0 \<and> \<not> allowincomplete s0"

lemma going_same: "going s0 s \<Longrightarrow> \<not> halt s \<and> \<not> allowincomplete s"
  by (simp add: going_def advances_def)

lemma keeps_going: "keeps (advances s0) m \<Longrightarrow> keeps (going s0) m"
  by (auto intro!: keepsI simp: going_def dest: keepsD)

lemma remove_buildtarget_fails:
  "triple P (remove_buildtarget t) (\<lambda>_ s. settled t s) any_error"
proof -
  obtain rest where rest: "\<And>s0. keeps (shrinks s0) rest" "remove_buildtarget t =
      act_then (act_modify (\<lambda>s. s\<lparr>failed_deps := failed_deps s @ [t]\<rparr>)) rest"
    unfolding remove_buildtarget_def using fail_file.remove_bt_split[of t] by blast
  have k: "keeps (settled t) rest" by (rule keeps_shrinks[OF rest(1)]) (simp add: shrinks_def)
  show ?thesis
    unfolding rest(2) by (rule triple_thenI[OF triple_modifyI keeps_triple[OF k]]) (simp add: settled_def)
qed

lemma remove_runtarget_fails:
  "triple P (remove_runtarget t) (\<lambda>_ s. rsettled t s) any_error"
proof -
  obtain rest where rest: "\<And>s0. keeps (shrinks s0) rest" "remove_runtarget t =
      act_then (act_modify (\<lambda>s. s\<lparr>failed_rdeps := failed_rdeps s @ [t]\<rparr>)) rest"
    unfolding remove_runtarget_def using fail_file.remove_rt_split[of t] by blast
  have k: "keeps (rsettled t) rest" by (rule keeps_shrinks[OF rest(1)]) (simp add: shrinks_def)
  show ?thesis
    unfolding rest(2) by (rule triple_thenI[OF triple_modifyI keeps_triple[OF k]]) (simp add: rsettled_def)
qed

text \<open>The state of one attempt: what was seen when it started\<close>

definition attempt :: "string list \<Rightarrow> td_state \<Rightarrow> td_state \<Rightarrow> bool" where
  "attempt S s0 s \<longleftrightarrow> going s0 s \<and> seenfns s = S"

lemma attempt_quiet: "attempt S s0 s \<Longrightarrow> quiet S s"
  using going_same[of s0 s] by (auto simp: attempt_def quiet_def)

lemma provider_attempt:
  assumes "env_ok env"
  shows "triple (\<lambda>s. attempt S s0 s \<and> t \<in> set (dict_keys (build_targets s))) (add_provider_internal env t)
    (\<lambda>_ s. going s0 s \<and> done_build env t s)
    (\<lambda>e s. going s0 s \<and> refused (\<lambda>e. e = NoProvider t) S e s)"
proof -
  have k: "keeps (\<lambda>s. going s0 s \<and> t \<in> set (dict_keys (build_targets s))) (add_provider_internal env t)"
  proof (rule keepsI)
    fix s assume s: "going s0 s \<and> t \<in> set (dict_keys (build_targets s))"
    have "knows t s (snd (add_provider_internal env t s))"
      by (rule keepsD[OF provider_knows]) (use s in \<open>simp add: knows_def\<close>)
    then have a: "advances s (snd (add_provider_internal env t s))" by (simp add: knows_def)
    then have "set (dict_keys (build_targets s)) \<subseteq> set (dict_keys (build_targets (snd (add_provider_internal env t s))))"
      by (simp add: advances_def)
    with a s show "going s0 (snd (add_provider_internal env t s)) \<and>
        t \<in> set (dict_keys (build_targets (snd (add_provider_internal env t s))))"
      unfolding going_def by (meson advances_trans subset_eq)
  qed
  from triple_conj[OF triple_conj[OF provider_refuses[OF assms] provider_settles] k[unfolded keeps_def]]
  show ?thesis
    by (rule triple_weaken) (auto simp: done_build_def dest: attempt_quiet, auto simp: attempt_def)
qed

lemma rprovider_attempt:
  assumes "env_ok env"
  shows "triple (\<lambda>s. attempt S s0 s \<and> t \<in> set (dict_keys (run_targets s))) (add_rprovider env t)
    (\<lambda>_ s. going s0 s \<and> done_run env t s)
    (\<lambda>e s. going s0 s \<and> refused (\<lambda>e. e = NoRProvider t \<or> e = MultipleRProvider t) S e s)"
proof -
  have k: "keeps (\<lambda>s. going s0 s \<and> t \<in> set (dict_keys (run_targets s))) (add_rprovider env t)"
  proof (rule keepsI)
    fix s assume s: "going s0 s \<and> t \<in> set (dict_keys (run_targets s))"
    have "rknows t s (snd (add_rprovider env t s))"
      by (rule keepsD[OF rprovider_knows]) (use s in \<open>simp add: rknows_def\<close>)
    then have a: "advances s (snd (add_rprovider env t s))" by (simp add: rknows_def)
    then have "set (dict_keys (run_targets s)) \<subseteq> set (dict_keys (run_targets (snd (add_rprovider env t s))))"
      by (simp add: advances_def)
    with a s show "going s0 (snd (add_rprovider env t s)) \<and>
        t \<in> set (dict_keys (run_targets (snd (add_rprovider env t s))))"
      unfolding going_def by (meson advances_trans subset_eq)
  qed
  from triple_conj[OF triple_conj[OF rprovider_refuses[OF assms] rprovider_settles] k[unfolded keeps_def]]
  show ?thesis
    by (rule triple_weaken) (auto simp: done_run_def dest: attempt_quiet, auto simp: attempt_def)
qed

lemma calm_triple:
  assumes "calm m" and "\<And>s0. keeps (shrinks s0) m" and "triple P m Q any_error"
  shows "triple (\<lambda>s. P s \<and> attempt S s0 s) m (\<lambda>x s. Q x s \<and> attempt S s0 s) (\<lambda>e s. plain e)"
proof -
  have k: "keeps (attempt S s0) m"
  proof (rule keeps_shrinks[OF assms(2)])
    fix s s' assume "shrinks s s'" and "attempt S s0 s"
    moreover from this have "seenfns s' = seenfns s" by (simp add: shrinks_def)
    ultimately show "attempt S s0 s'"
      unfolding attempt_def going_def by (metis advances_trans shrinks_advances)
  qed
  from triple_conj[OF triple_conj[OF assms(1)[unfolded calm_def] k[unfolded keeps_def]] assms(3)]
  show ?thesis by (rule triple_weaken) (auto dest: attempt_quiet simp: quiet_def)
qed

lemma resolve_build_attempt:
  assumes "env_ok env"
  shows "triple (\<lambda>s. attempt S s0 s \<and> t \<in> set (dict_keys (build_targets s))) (resolve_build env t)
     (\<lambda>n s. going s0 s \<and> done_build env t s \<and> (n = 0 \<longrightarrow> seenfns s = S)) (\<lambda>e s. plain e)"
  unfolding resolve_build_def
proof (rule triple_catchI)
  show "triple (\<lambda>s. attempt S s0 s \<and> t \<in> set (dict_keys (build_targets s)))
      (act_then (add_provider_internal env t) (act_return (1::nat)))
      (\<lambda>n s. going s0 s \<and> done_build env t s \<and> (n = 0 \<longrightarrow> seenfns s = S))
      (\<lambda>e s. going s0 s \<and> refused (\<lambda>e. e = NoProvider t) S e s)"
    by (rule triple_thenI[OF provider_attempt[OF assms] triple_returnI]) simp
next
  fix e
  let ?h = "act_bind (act_gets (\<lambda>s. halt s \<and> t \<in> set (external_targets s))) (\<lambda>required.
           act_bind (act_gets allowincomplete) (\<lambda>incomplete.
           if required \<and> \<not> incomplete then act_raise e
           else act_then (act_when (\<not> incomplete) (remove_buildtarget t)) (act_return 0)))"
  let ?Q = "\<lambda>(n::nat) s. going s0 s \<and> done_build env t s \<and> (n = 0 \<longrightarrow> seenfns s = S)"
  have "triple (attempt S s0) (remove_buildtarget t) (\<lambda>_. ?Q 0) (\<lambda>e s. plain e)"
    by (rule triple_weaken[OF calm_triple[OF calm_remove_buildtarget remove_buildtarget_shrinks
          remove_buildtarget_fails, of "\<lambda>_. True"]]) (auto simp: attempt_def done_build_def)
  then have r: "triple (attempt S s0) (act_then (remove_buildtarget t) (act_return 0)) ?Q (\<lambda>e s. plain e)"
    by (rule triple_thenI[OF _ triple_returnI])
  have h: "triple (attempt S s0) ?h ?Q (\<lambda>e s. plain e)"
  proof (rule triple_from)
    fix s1 assume a: "attempt S s0 s1"
    then have "\<not> halt s1" "\<not> allowincomplete s1" using going_same[of s0 s1] by (simp_all add: attempt_def)
    then have "?h s1 = act_then (remove_buildtarget t) (act_return 0) s1" by (simp add: act_simps)
    then show "triple (\<lambda>s. s = s1) ?h ?Q (\<lambda>e s. plain e)"
      by (rule triple_eq_at) (rule triple_weaken[OF r], use a in simp_all)
  qed
  show "triple (\<lambda>s. going s0 s \<and> refused (\<lambda>e. e = NoProvider t) S e s)
     (case e of NoProvider _ \<Rightarrow> ?h | _ \<Rightarrow> act_raise e) ?Q (\<lambda>e s. plain e)"
  proof (cases "\<exists>x. e = NoProvider x")
    case True
    then have "triple (\<lambda>s. going s0 s \<and> refused (\<lambda>e. e = NoProvider t) S e s) ?h ?Q (\<lambda>e s. plain e)"
      by (intro triple_weaken[OF h]) (auto simp: refused_def attempt_def)
    with True show ?thesis by auto
  next
    case False
    then have eq: "(case e of NoProvider _ \<Rightarrow> ?h | _ \<Rightarrow> act_raise e) = act_raise e" by (auto split: exn.split)
    from False show ?thesis unfolding eq by (intro triple_raiseI) (auto simp: refused_def)
  qed
qed

lemma resolve_run_attempt:
  assumes "env_ok env"
  shows "triple (\<lambda>s. attempt S s0 s \<and> t \<in> set (dict_keys (run_targets s))) (resolve_run env t)
     (\<lambda>n s. going s0 s \<and> done_run env t s \<and> (n = 0 \<longrightarrow> seenfns s = S)) (\<lambda>e s. plain e)"
  unfolding resolve_run_def
proof (rule triple_catchI)
  show "triple (\<lambda>s. attempt S s0 s \<and> t \<in> set (dict_keys (run_targets s)))
      (act_then (add_rprovider env t) (act_return (1::nat)))
      (\<lambda>n s. going s0 s \<and> done_run env t s \<and> (n = 0 \<longrightarrow> seenfns s = S))
      (\<lambda>e s. going s0 s \<and> refused (\<lambda>e. e = NoRProvider t \<or> e = MultipleRProvider t) S e s)"
    by (rule triple_thenI[OF rprovider_attempt[OF assms] triple_returnI]) simp
next
  fix e
  let ?h = "act_then (remove_runtarget t) (act_return 0)"
  let ?Q = "\<lambda>(n::nat) s. going s0 s \<and> done_run env t s \<and> (n = 0 \<longrightarrow> seenfns s = S)"
  have "triple (attempt S s0) (remove_runtarget t) (\<lambda>_. ?Q 0) (\<lambda>e s. plain e)"
    by (rule triple_weaken[OF calm_triple[OF calm_remove_runtarget remove_runtarget_shrinks
          remove_runtarget_fails, of "\<lambda>_. True"]]) (auto simp: attempt_def done_run_def)
  then have h: "triple (attempt S s0) ?h ?Q (\<lambda>e s. plain e)"
    by (rule triple_thenI[OF _ triple_returnI])
  show "triple (\<lambda>s. going s0 s \<and> refused (\<lambda>e. e = NoRProvider t \<or> e = MultipleRProvider t) S e s)
     (case e of NoRProvider _ \<Rightarrow> ?h | MultipleRProvider _ \<Rightarrow> ?h | _ \<Rightarrow> act_raise e) ?Q (\<lambda>e s. plain e)"
  proof (cases "\<exists>x. e = NoRProvider x \<or> e = MultipleRProvider x")
    case True
    then have "triple (\<lambda>s. going s0 s \<and> refused (\<lambda>e. e = NoRProvider t \<or> e = MultipleRProvider t) S e s) ?h ?Q (\<lambda>e s. plain e)"
      by (intro triple_weaken[OF h]) (auto simp: refused_def attempt_def)
    with True show ?thesis by auto
  next
    case False
    then have eq: "(case e of NoRProvider _ \<Rightarrow> ?h | MultipleRProvider _ \<Rightarrow> ?h | _ \<Rightarrow> act_raise e) = act_raise e"
      by (auto split: exn.split)
    from False show ?thesis unfolding eq by (intro triple_raiseI) (auto simp: refused_def)
  qed
qed

text \<open>
  What the loop needs of the two resolving functions: a known target is done after the
  attempt, and an attempt that does not count has seen no file.
\<close>

locale resolver =
  fixes env :: td_env and resolve :: "string \<Rightarrow> (td_state, nat) act"
    and known :: "string \<Rightarrow> td_state \<Rightarrow> bool" and finished :: "string \<Rightarrow> td_state \<Rightarrow> bool"
  assumes attempts: "\<And>t s0. env_ok env \<Longrightarrow> known t s0 \<Longrightarrow> going s0 s0 \<Longrightarrow>
      triple (\<lambda>s. s = s0) (resolve t)
        (\<lambda>n s. going s0 s \<and> finished t s \<and> (n = 0 \<longrightarrow> seenfns s = seenfns s0)) (\<lambda>e s. plain e)"
    and known_stable: "\<And>t s s'. advances s s' \<Longrightarrow> known t s \<Longrightarrow> known t s'"
    and finished_stable: "\<And>t s s'. advances s s' \<Longrightarrow> finished t s \<Longrightarrow> finished t s'"
begin

lemma sum_attempts:
  "env_ok env \<Longrightarrow> \<forall>t \<in> set ts. known t s0 \<Longrightarrow> going s0 s0 \<Longrightarrow>
   triple (\<lambda>s. s = s0) (act_sum resolve ts)
     (\<lambda>n s. going s0 s \<and> (\<forall>t \<in> set ts. finished t s) \<and> (n = 0 \<longrightarrow> seenfns s = seenfns s0) \<and>
        (ts = [] \<longrightarrow> n = 0 \<and> s = s0)) (\<lambda>e s. plain e)"
proof (induction ts arbitrary: s0)
  case Nil
  then show ?case by (auto intro!: triple_returnI)
next
  case (Cons t ts)
  show ?case
    unfolding act_sum.simps
  proof (rule triple_bindI[OF attempts])
    fix n
    show "triple (\<lambda>s. going s0 s \<and> finished t s \<and> (n = 0 \<longrightarrow> seenfns s = seenfns s0))
      (act_bind (act_sum resolve ts) (\<lambda>m. act_return (n + m)))
      (\<lambda>n s. going s0 s \<and> (\<forall>t \<in> set (t # ts). finished t s) \<and> (n = 0 \<longrightarrow> seenfns s = seenfns s0) \<and>
        (t # ts = [] \<longrightarrow> n = 0 \<and> s = s0)) (\<lambda>e s. plain e)"
    proof (rule triple_from)
      fix s1 assume s1: "going s0 s1 \<and> finished t s1 \<and> (n = 0 \<longrightarrow> seenfns s1 = seenfns s0)"
      then have adv: "advances s0 s1" by (simp add: going_def)
      have "going s1 s1" using going_same[of s0 s1] s1 by (simp add: going_def)
      moreover have "\<forall>t \<in> set ts. known t s1" using Cons.prems(2) known_stable[OF adv] by auto
      ultimately have ih: "triple (\<lambda>s. s = s1) (act_sum resolve ts)
        (\<lambda>n s. going s1 s \<and> (\<forall>t \<in> set ts. finished t s) \<and> (n = 0 \<longrightarrow> seenfns s = seenfns s1) \<and>
          (ts = [] \<longrightarrow> n = 0 \<and> s = s1)) (\<lambda>e s. plain e)"
        using Cons.IH Cons.prems(1) by blast
      have join: "going s0 s \<and> finished t s" if "going s1 s" for s
        using that s1 finished_stable advances_trans[OF adv] by (auto simp: going_def)
      show "triple (\<lambda>s. s = s1) (act_bind (act_sum resolve ts) (\<lambda>m. act_return (n + m)))
        (\<lambda>n s. going s0 s \<and> (\<forall>t \<in> set (t # ts). finished t s) \<and> (n = 0 \<longrightarrow> seenfns s = seenfns s0) \<and>
          (t # ts = [] \<longrightarrow> n = 0 \<and> s = s0)) (\<lambda>e s. plain e)"
        by (rule triple_bindI[OF ih triple_returnI]) (use join s1 in auto)
    qed
  qed (use Cons.prems in auto)
qed

end

interpretation builds: resolver env "resolve_build env" "\<lambda>t s. t \<in> set (dict_keys (build_targets s))" "done_build env" for env
proof
  fix t s0
  assume "env_ok env" "t \<in> set (dict_keys (build_targets s0))" "going s0 s0"
  then show "triple (\<lambda>s. s = s0) (resolve_build env t)
      (\<lambda>n s. going s0 s \<and> done_build env t s \<and> (n = 0 \<longrightarrow> seenfns s = seenfns s0)) (\<lambda>e s. plain e)"
    by (intro triple_weaken[OF resolve_build_attempt[of env "seenfns s0" s0]]) (auto simp: attempt_def)
qed (auto simp: advances_def intro: advances_done)

interpretation runs: resolver env "resolve_run env" "\<lambda>t s. t \<in> set (dict_keys (run_targets s))" "done_run env" for env
proof
  fix t s0
  assume "env_ok env" "t \<in> set (dict_keys (run_targets s0))" "going s0 s0"
  then show "triple (\<lambda>s. s = s0) (resolve_run env t)
      (\<lambda>n s. going s0 s \<and> done_run env t s \<and> (n = 0 \<longrightarrow> seenfns s = seenfns s0)) (\<lambda>e s. plain e)"
    by (intro triple_weaken[OF resolve_run_attempt[of env "seenfns s0" s0]]) (auto simp: attempt_def)
qed (auto simp: advances_def intro: advances_done)

lemma unresolved_in_set:
  assumes "unresolved_in env ig failed targets = Inr ts"
  shows "set ts = {t. (t, []) \<in> set targets \<and> t \<notin> set failed \<and> re_match_strings (env_re env) t ig \<noteq> Inr True}"
proof -
  let ?f = "\<lambda>(target, fns) acc.
       res_bind (re_match_strings (env_re env) target ig) (\<lambda>ig.
         Inr (if ig then acc else if target \<in> set failed then acc
              else if fns = [] then acc @ [target] else acc))"
  have "res_fold ?f xs acc = Inr ts \<Longrightarrow> set ts = set acc \<union>
    {t. (t, []) \<in> set xs \<and> t \<notin> set failed \<and> re_match_strings (env_re env) t ig \<noteq> Inr True}"
    for xs :: "(string \<times> string list) list" and acc
  proof (induction xs arbitrary: acc)
    case (Cons x xs)
    obtain t fns where x: "x = (t, fns)" by fastforce
    from Cons.prems obtain b where b: "re_match_strings (env_re env) t ig = Inr b"
      "res_fold ?f xs (if b then acc else if t \<in> set failed then acc else if fns = [] then acc @ [t] else acc) = Inr ts"
      by (auto simp: x elim!: res_bind_Inr_E)
    from Cons.IH[OF b(2)] b(1) show ?case by (cases b) (auto simp: x)
  qed simp
  from this[of targets "[]"] assms show ?thesis by (simp add: unresolved_in_def)
qed

lemma unresolved_build:
  assumes "env_ok env"
  shows "triple (\<lambda>s. s = s0) (get_unresolved_build_targets env)
    (\<lambda>ts s. s = s0 \<and> set ts \<subseteq> set (dict_keys (build_targets s)) \<and>
       (\<forall>t \<in> set (dict_keys (build_targets s)). done_build env t s \<or> t \<in> set ts) \<and>
       (wf_state s \<longrightarrow> (\<forall>t \<in> set ts. \<not> done_build env t s))) (\<lambda>e s. plain e)"
  unfolding get_unresolved_build_targets_def
proof (rule triple_bind_gets, rule triple_liftI)
  fix s1 s and ts assume s: "s1 = s0" "s = s1"
    and ts: "unresolved_in env (ignored_dependencies (dcache s1)) (failed_deps s1) (build_targets s1) = Inr ts"
  note set_ts = unresolved_in_set[OF ts]
  have entry: "(t, []) \<in> set (build_targets s1)"
    if "t \<in> set (dict_keys (build_targets s1))" "\<not> have_build_target s1 t" for t
    using that map_of_SomeD[of "build_targets s1" t]
    by (auto simp: have_build_target_def dict_list_def split: option.splits)
      (metis (no_types, lifting) eq_fst_iff map_of_eq_None_iff image_eqI option.collapse not_None_eq)
  have "done_build env t s1 \<or> t \<in> set ts" if "t \<in> set (dict_keys (build_targets s1))" for t
    using entry[OF that] unfolding set_ts done_build_def settled_def ignored_in_def by auto
  moreover have "\<not> done_build env t s1" if "wf_state s1" "t \<in> set ts" for t
    using that unfolding set_ts done_build_def settled_def ignored_in_def have_build_target_def
    by (auto simp: wf_state_def dict_list_def)
  moreover have "set ts \<subseteq> set (dict_keys (build_targets s1))"
    unfolding set_ts by force
  ultimately show "s = s0 \<and> set ts \<subseteq> set (dict_keys (build_targets s)) \<and>
       (\<forall>t \<in> set (dict_keys (build_targets s)). done_build env t s \<or> t \<in> set ts) \<and>
       (wf_state s \<longrightarrow> (\<forall>t \<in> set ts. \<not> done_build env t s))"
    using s by blast
qed (use plain_resD[OF plain_unresolved[OF assms]] in auto)

lemma unresolved_run:
  assumes "env_ok env"
  shows "triple (\<lambda>s. s = s0) (get_unresolved_run_targets env)
    (\<lambda>ts s. s = s0 \<and> set ts \<subseteq> set (dict_keys (run_targets s)) \<and>
       (\<forall>t \<in> set (dict_keys (run_targets s)). done_run env t s \<or> t \<in> set ts) \<and>
       (wf_state s \<longrightarrow> (\<forall>t \<in> set ts. \<not> done_run env t s))) (\<lambda>e s. plain e)"
  unfolding get_unresolved_run_targets_def
proof (rule triple_bind_gets, rule triple_liftI)
  fix s1 s and ts assume s: "s1 = s0" "s = s1"
    and ts: "unresolved_in env (ignored_dependencies (dcache s1)) (failed_rdeps s1) (run_targets s1) = Inr ts"
  note set_ts = unresolved_in_set[OF ts]
  have entry: "(t, []) \<in> set (run_targets s1)"
    if "t \<in> set (dict_keys (run_targets s1))" "\<not> have_runtime_target s1 t" for t
    using that map_of_SomeD[of "run_targets s1" t]
    by (auto simp: have_runtime_target_def dict_list_def split: option.splits)
      (metis (no_types, lifting) eq_fst_iff map_of_eq_None_iff image_eqI option.collapse not_None_eq)
  have "done_run env t s1 \<or> t \<in> set ts" if "t \<in> set (dict_keys (run_targets s1))" for t
    using entry[OF that] unfolding set_ts done_run_def rsettled_def ignored_in_def by auto
  moreover have "\<not> done_run env t s1" if "wf_state s1" "t \<in> set ts" for t
    using that unfolding set_ts done_run_def rsettled_def ignored_in_def have_runtime_target_def
    by (auto simp: wf_state_def dict_list_def)
  moreover have "set ts \<subseteq> set (dict_keys (run_targets s1))"
    unfolding set_ts by force
  ultimately show "s = s0 \<and> set ts \<subseteq> set (dict_keys (run_targets s)) \<and>
       (\<forall>t \<in> set (dict_keys (run_targets s)). done_run env t s \<or> t \<in> set ts) \<and>
       (wf_state s \<longrightarrow> (\<forall>t \<in> set ts. \<not> done_run env t s))"
    using s by blast
qed (use plain_resD[OF plain_unresolved[OF assms]] in auto)

lemma advances_seen:
  "advances a b \<Longrightarrow> length (seenfns a) \<le> length (seenfns b)"
  "advances a b \<Longrightarrow> length (seenfns a) = length (seenfns b) \<Longrightarrow> same_targets a b"
  unfolding advances_def by auto

text \<open>One pass: either a file was seen for the first time, or everything is done. Once
  everything is done, a pass counts nothing.\<close>

lemma resolve_pass_step:
  assumes "env_ok env" and "going s0 s0" and "wf_state s0"
  shows "triple (\<lambda>s. s = s0) (resolve_pass env)
    (\<lambda>n s. going s0 s \<and> (seenfns s = seenfns s0 \<longrightarrow> all_done env s) \<and>
       (n = 0 \<longrightarrow> seenfns s = seenfns s0) \<and> (all_done env s0 \<longrightarrow> n = 0)) (\<lambda>e s. plain e)"
  unfolding resolve_pass_def
proof (rule triple_bindI[OF unresolved_build[OF assms(1)]], rule triple_from)
  fix ts s1
  assume "s1 = s0 \<and> set ts \<subseteq> set (dict_keys (build_targets s1)) \<and>
       (\<forall>t \<in> set (dict_keys (build_targets s1)). done_build env t s1 \<or> t \<in> set ts) \<and>
       (wf_state s1 \<longrightarrow> (\<forall>t \<in> set ts. \<not> done_build env t s1))"
  with assms(3) have s1: "s1 = s0" and ts: "\<forall>t \<in> set ts. t \<in> set (dict_keys (build_targets s0))"
    and left: "\<And>t. t \<in> set (dict_keys (build_targets s0)) \<Longrightarrow> done_build env t s0 \<or> t \<in> set ts"
    and fresh: "\<And>t. t \<in> set ts \<Longrightarrow> \<not> done_build env t s0" by auto
  have none: "all_done env s0 \<Longrightarrow> ts = []"
    using fresh ts unfolding all_done_def by (cases ts) auto
  let ?Q = "\<lambda>n s. going s0 s \<and> (seenfns s = seenfns s0 \<longrightarrow> all_done env s) \<and>
       (n = 0 \<longrightarrow> seenfns s = seenfns s0) \<and> (all_done env s0 \<longrightarrow> n = 0)"
  show "triple (\<lambda>s. s = s1) (act_bind (act_sum (resolve_build env) ts) (\<lambda>added.
     act_bind (get_unresolved_run_targets env) (\<lambda>rtargets.
     act_bind (act_sum (resolve_run env) rtargets) (\<lambda>radded. act_return (added + radded))))) ?Q (\<lambda>e s. plain e)"
    unfolding s1
  proof (rule triple_bindI[OF builds.sum_attempts[OF assms(1) ts assms(2)]], rule triple_from,
      rule triple_bindI[OF unresolved_run[OF assms(1)]], rule triple_from)
    fix n :: nat and s2 rts s3
    assume s2: "going s0 s2 \<and> (\<forall>t \<in> set ts. done_build env t s2) \<and> (n = 0 \<longrightarrow> seenfns s2 = seenfns s0) \<and>
        (ts = [] \<longrightarrow> n = 0 \<and> s2 = s0)"
      and s3: "s3 = s2 \<and> set rts \<subseteq> set (dict_keys (run_targets s3)) \<and>
       (\<forall>t \<in> set (dict_keys (run_targets s3)). done_run env t s3 \<or> t \<in> set rts) \<and>
       (wf_state s3 \<longrightarrow> (\<forall>t \<in> set rts. \<not> done_run env t s3))"
    have adv: "advances s0 s2" and same: "\<not> halt s2 \<and> \<not> allowincomplete s2"
      using s2 going_same[of s0 s2] unfolding going_def by blast+
    then have g2: "going s2 s2" unfolding going_def by simp
    have wf: "wf_state s2" using adv assms(3) unfolding advances_def by blast
    have rts: "\<forall>t \<in> set rts. t \<in> set (dict_keys (run_targets s2))" using s3 by blast
    show "triple (\<lambda>s. s = s3) (act_bind (act_sum (resolve_run env) rts) (\<lambda>radded. act_return (n + radded)))
      ?Q (\<lambda>e s. plain e)"
      unfolding s3[THEN conjunct1]
    proof (rule triple_bindI[OF runs.sum_attempts[OF assms(1) rts g2]], rule triple_returnI)
      fix m :: nat and s
      assume s: "going s2 s \<and> (\<forall>t \<in> set rts. done_run env t s) \<and> (m = 0 \<longrightarrow> seenfns s = seenfns s2) \<and>
        (rts = [] \<longrightarrow> m = 0 \<and> s = s2)"
      then have adv2: "advances s2 s" by (simp add: going_def)
      have "all_done env s" if "seenfns s = seenfns s0"
      proof -
        have "length (seenfns s0) = length (seenfns s2)" "length (seenfns s2) = length (seenfns s)"
          using advances_seen(1)[OF adv] advances_seen(1)[OF adv2] arg_cong[OF that, of length] by linarith+
        then have same: "same_targets s0 s2" "same_targets s2 s"
          using advances_seen(2)[OF adv] advances_seen(2)[OF adv2] by blast+
        then have keys: "set (dict_keys (build_targets s)) = set (dict_keys (build_targets s0))"
          "set (dict_keys (run_targets s)) = set (dict_keys (run_targets s2))"
          unfolding same_targets_def by blast+
        have "done_build env t s" if "t \<in> set (dict_keys (build_targets s))" for t
          using left[of t] that keys(1) s2 advances_done(1)[OF advances_trans[OF adv adv2]] advances_done(1)[OF adv2]
          by blast
        moreover have "done_run env t s" if "t \<in> set (dict_keys (run_targets s))" for t
          using that keys(2) s3 s advances_done(2)[OF adv2] by blast
        ultimately show ?thesis unfolding all_done_def by blast
      qed
      moreover have "n + m = 0" if "all_done env s0"
      proof -
        have "s2 = s0" "n = 0" using s2 none[OF that] by auto
        moreover have "rts = []" using that s3 wf \<open>s2 = s0\<close> unfolding all_done_def by (cases rts) auto
        ultimately show ?thesis using s by auto
      qed
      moreover have "going s0 s" using s s2 advances_trans[OF adv] by (auto simp: going_def)
      ultimately show "?Q (n + m) s" using s s2 by auto
    qed
  qed
qed

definition unseen :: "td_state \<Rightarrow> nat" where
  "unseen s = length (task_deps_of (dcache s)) - length (seenfns s)"

lemma unseen_less:
  assumes "advances s s'" and "wf_state s" and "length (seenfns s) < length (seenfns s')"
  shows "unseen s' < unseen s"
proof -
  have "wf_state s'" using assms by (simp add: advances_def)
  then have "distinct (seenfns s')" "set (seenfns s') \<subseteq> set (dict_keys (task_deps_of (dcache s')))"
    by (simp_all add: wf_state_def)
  then have "length (seenfns s') \<le> length (task_deps_of (dcache s'))"
    by (metis card_length card_mono distinct_card finite_set le_trans length_map)
  moreover have "task_deps_of (dcache s') = task_deps_of (dcache s)"
    using assms(1) by (simp add: advances_def same_catalogue_def)
  ultimately show ?thesis using assms(3) by (simp add: unseen_def)
qed

lemma resolve_loop_result:
  assumes "env_ok env"
  shows "going s0 s0 \<Longrightarrow> wf_state s0 \<Longrightarrow> unseen s0 + (if all_done env s0 then 1 else 2) \<le> n \<Longrightarrow>
    triple (\<lambda>s. s = s0) (resolve_loop n env) (\<lambda>_ s. all_done env s) (\<lambda>e s. plain e)"
proof (induction n arbitrary: s0)
  case 0
  then show ?case by (auto split: if_splits)
next
  case (Suc n)
  show ?case
    unfolding resolve_loop.simps
  proof (rule triple_bindI[OF resolve_pass_step[OF assms Suc.prems(1,2)]], rule triple_from)
    fix added :: nat and s1
    assume s1: "going s0 s1 \<and> (seenfns s1 = seenfns s0 \<longrightarrow> all_done env s1) \<and>
       (added = 0 \<longrightarrow> seenfns s1 = seenfns s0) \<and> (all_done env s0 \<longrightarrow> added = 0)"
    show "triple (\<lambda>s. s = s1) (if added = 0 then act_return () else resolve_loop n env)
      (\<lambda>_ s. all_done env s) (\<lambda>e s. plain e)"
    proof (cases "added = 0")
      case True
      with s1 show ?thesis by (auto intro: triple_returnI)
    next
      case False
      with s1 have nd: "\<not> all_done env s0" by blast
      have adv: "advances s0 s1" using s1 by (simp add: going_def)
      have "unseen s1 + (if all_done env s1 then 1 else 2) \<le> n"
      proof (cases "seenfns s1 = seenfns s0")
        case True
        then have "unseen s1 = unseen s0"
          using adv by (simp add: unseen_def advances_def same_catalogue_def)
        with True s1 nd Suc.prems(3) show ?thesis by simp
      next
        case False
        then have "length (seenfns s0) < length (seenfns s1)" using adv by (simp add: advances_def)
        from unseen_less[OF adv Suc.prems(2) this] nd Suc.prems(3) show ?thesis by auto
      qed
      moreover have "going s1 s1" "wf_state s1"
        using going_same[of s0 s1] s1 adv Suc.prems(2) by (simp_all add: going_def advances_def)
      ultimately show ?thesis using Suc.IH False by simp
    qed
  qed
qed

text \<open>
  C6: when the build goes on after failures, resolving the targets always comes to
  an end, and on return every target that was asked for or met on the way, at build or at run
  time, has a provider, has failed or is one the configuration ignores. The only
  exceptions are those of the lookups; in particular the rounds of the loop never run out.
\<close>

theorem add_unresolved_resolves:
  assumes "env_ok env" and "wf_state s" and "\<not> halt s" and "\<not> allowincomplete s"
  shows "(\<exists>s'. add_unresolved env s = (Inr (), s') \<and>
      (\<forall>t \<in> set (dict_keys (build_targets s')).
         have_build_target s' t \<or> t \<in> set (failed_deps s') \<or> ignored_in env t s') \<and>
      (\<forall>t \<in> set (dict_keys (run_targets s')).
         have_runtime_target s' t \<or> t \<in> set (failed_rdeps s') \<or> ignored_in env t s')) \<or>
    (\<exists>e s'. add_unresolved env s = (Inl e, s') \<and> plain e)"
proof -
  have "triple (\<lambda>x. x = s) (resolve_loop (length (task_deps_of (dcache s)) + 2) env)
      (\<lambda>_ s. all_done env s) (\<lambda>e s. plain e)"
    by (rule resolve_loop_result[OF assms(1)]) (use assms in \<open>auto simp: going_def unseen_def\<close>)
  then show ?thesis
  proof (rule triple_runE)
    fix u s'
    assume "resolve_loop (length (task_deps_of (dcache s)) + 2) env s = (Inr u, s')" "all_done env s'"
    then show ?thesis
      by (auto simp: add_unresolved_def act_simps all_done_def done_build_def done_run_def settled_def rsettled_def)
  qed (auto simp: add_unresolved_def act_simps)
qed

section \<open>Samples\<close>

definition sample_task_deps :: "(string \<times> (string, string) dict) list \<Rightarrow> task_deps" where
  "sample_task_deps flags =
     \<lparr> td_tasks = [''do_build''], td_parents = [(''do_build'', [])], td_flags = flags \<rparr>"

text \<open>\<open>app.bb\<close> builds on \<open>lib\<close>, which \<open>lib.bb\<close> provides; \<open>tool.bb\<close> has a task that depends on
  \<open>lib\<close>, and needs \<open>gone\<close>, which nothing provides.\<close>

definition sample_catalogue :: cache_data where
  "sample_catalogue = empty_cache\<lparr>
     task_deps_of := [(''app.bb'', sample_task_deps []), (''lib.bb'', sample_task_deps []),
       (''tool.bb'', sample_task_deps [(''depends'', [(''do_build'', ''lib:do_build'')])])],
     pkg_fn := [(''app.bb'', ''app''), (''lib.bb'', ''lib''), (''tool.bb'', ''tool'')],
     pkg_pn := [(''app'', [''app.bb'']), (''lib'', [''lib.bb'']), (''tool'', [''tool.bb''])],
     pkg_pepvpr := [(''app.bb'', ([], ''1'', ''r0'')), (''lib.bb'', ([], ''1'', ''r0'')), (''tool.bb'', ([], ''1'', ''r0''))],
     pkg_dp := [(''app.bb'', 0), (''lib.bb'', 0), (''tool.bb'', 0)],
     bbfile_priority := [(''app.bb'', 5), (''lib.bb'', 5), (''tool.bb'', 5)],
     providers := [(''app'', [''app.bb'']), (''lib'', [''lib.bb'']), (''tool'', [''tool.bb''])],
     cache_deps := [(''app.bb'', [''lib'']), (''tool.bb'', [''gone''])]\<rparr>"

definition sample_env :: td_env where
  "sample_env = \<lparr> env_cfg = (\<lambda>_. None), env_re = (\<lambda>_ _. Inr False), env_close = (\<lambda>_ _. []),
     env_exec = (\<lambda>_ deps _ _ _. Inr deps) \<rparr>"

definition sample_state :: td_state where
  "sample_state = (new_taskdata False [] False sample_catalogue)
     \<lparr>build_targets := [(''app'', [''app.bb'']), (''lib'', [''lib.bb''])],
      depids := [(''app.bb'', [''lib'']), (''lib.bb'', [])], external_targets := [''app'']\<rparr>"

theorem fail_file_closed_witness:
  "failures_closed sample_state \<and>
   ((\<exists>s'. fail_file ''lib.bb'' sample_state = (Inr (), s') \<and> failures_closed s' \<and> ''lib.bb'' \<in> set (failed_fns s') \<and>
      (\<forall>t. have_build_target sample_state t \<longrightarrow> have_build_target s' t \<or> t \<in> set (failed_deps s')) \<and>
      (\<forall>t. have_runtime_target sample_state t \<longrightarrow> have_runtime_target s' t \<or> t \<in> set (failed_rdeps s'))) \<or>
    (\<exists>t s'. fail_file ''lib.bb'' sample_state = (Inl (NoProvider t), s') \<and> halt sample_state \<and>
      t \<in> set (external_targets sample_state) \<and> t \<in> set (failed_deps s')))"
proof -
  have "failures_closed sample_state"
    by (auto simp: failures_closed_def failing_inv_def sample_state_def new_taskdata_def dict_list_def)
  with fail_file_closed[OF this, of "''lib.bb''"] show ?thesis by blast
qed

theorem add_unresolved_resolves_witness:
  "\<exists>s. s = (new_taskdata False [] False sample_catalogue)\<lparr>build_targets := [(''app'', []), (''tool'', [])]\<rparr> \<and>
    ((\<exists>s'. add_unresolved sample_env s = (Inr (), s') \<and>
      (\<forall>t \<in> set (dict_keys (build_targets s')).
         have_build_target s' t \<or> t \<in> set (failed_deps s') \<or> ignored_in sample_env t s') \<and>
      (\<forall>t \<in> set (dict_keys (run_targets s')).
         have_runtime_target s' t \<or> t \<in> set (failed_rdeps s') \<or> ignored_in sample_env t s')) \<or>
    (\<exists>e s'. add_unresolved sample_env s = (Inl e, s') \<and> plain e))"
  by (rule exI, rule conjI[OF refl], rule add_unresolved_resolves)
    (auto simp: env_ok_def sample_env_def wf_state_def new_taskdata_def)

text \<open>What the resolution of the sample comes to: \<open>app\<close> is built from both recipes, \<open>tool\<close>
  fails for the want of \<open>gone\<close>.\<close>

lemma sample_resolution:
  "(let (r, s) = add_unresolved sample_env
       ((new_taskdata False [] False sample_catalogue)\<lparr>build_targets := [(''app'', []), (''tool'', [])]\<rparr>)
    in (r, build_targets s, failed_deps s, failed_fns s)) =
   (Inr (), [(''app'', [''app.bb'']), (''tool'', []), (''lib'', [''lib.bb'']), (''gone'', [])],
    [''gone'', ''tool''], [''tool.bb''])"
  by code_simp

text \<open>
  a file that is entered after a target has failed is not failed with it when only the
  depends flag of one of its tasks names the target: the same recipe is kept or dropped
  depending on which of the two comes first.
\<close>

theorem late_task_dependency_kept:
  "(let s0 = (new_taskdata False [] False (sample_catalogue\<lparr>cache_deps := []\<rparr>))\<lparr>failed_deps := [''lib'']\<rparr>;
        (r1, late) = add_tasks sample_env ''tool.bb'' s0;
        (r2, s1) = add_tasks sample_env ''tool.bb'' (s0\<lparr>failed_deps := []\<rparr>);
        (r3, early) = remove_buildtarget ''lib'' s1
    in r1 = Inr () \<and> failed_fns late = [] \<and> r3 = Inr () \<and> failed_fns early = [''tool.bb''] \<and>
       failed_deps late = failed_deps early)"
  by code_simp

end
