(* ===== verification/Task_Ids.thy ===== *)
theory Task_Ids
  imports Task_Data
begin

text \<open>
  Task identifiers, the helpers at the top of \<open>poky/bitbake/lib/bb/runqueue.py\<close>. A task is
  named \<open>file:task\<close>, or \<open>mc:config:file:task\<close> when it belongs to a multiconfig; \<open>mcfn\<close> is the
  file with its multiconfig prefix, as the caches key it. Taking an element a split did not
  produce is an IndexError.
\<close>

definition fn_from_tid :: "string \<Rightarrow> string" where
  "fn_from_tid tid = hd (rsplit1 CHR '':'' tid)"

definition taskname_from_tid :: "string \<Rightarrow> string res" where
  "taskname_from_tid tid = list_get (rsplit1 CHR '':'' tid) 1"

definition is_mc :: "string \<Rightarrow> bool" where
  "is_mc n \<longleftrightarrow> startswith n ''mc:'' \<and> 2 \<le> count_list n CHR '':''"

definition mc_from_tid :: "string \<Rightarrow> string" where
  "mc_from_tid tid = (if is_mc tid then split_on CHR '':'' tid ! 1 else [])"

definition split_mc :: "string \<Rightarrow> string \<times> string" where
  "split_mc n =
     (if is_mc n then (let ps = split_max 2 CHR '':'' n in (ps ! 1, ps ! 2)) else ([], n))"

definition split_tid_mcfn :: "string \<Rightarrow> (string \<times> string \<times> string \<times> string) res" where
  "split_tid_mcfn tid =
     (if is_mc tid then
        let elems = split_on CHR '':'' tid;
            mc = elems ! 1;
            fn = join '':'' (butlast (drop 2 elems))
        in Inr (mc, fn, last elems, ''mc:'' @ mc @ '':'' @ fn)
      else
        let parts = rsplit1 CHR '':'' tid
        in res_bind (list_get parts 1) (\<lambda>taskname. Inr ([], parts ! 0, taskname, parts ! 0)))"

definition split_tid :: "string \<Rightarrow> (string \<times> string \<times> string) res" where
  "split_tid tid = res_bind (split_tid_mcfn tid) (\<lambda>(mc, fn, taskname, _). Inr (mc, fn, taskname))"

definition build_tid :: "string \<Rightarrow> string \<Rightarrow> string \<Rightarrow> string" where
  "build_tid mc fn taskname =
     (if mc \<noteq> [] then ''mc:'' @ mc @ '':'' @ fn @ '':'' @ taskname else fn @ '':'' @ taskname)"

section \<open>Names and their parts\<close>

lemma count_list_append_sep: "count_list (s @ c # t) c = Suc (count_list s c + count_list t c)"
  by (induction s) auto

lemma is_mc_built: "is_mc (''mc:'' @ mc @ '':'' @ rest)"
  by (simp add: is_mc_def startswith_def)

lemma split_on_snoc:
  "c \<notin> set w \<Longrightarrow> split_on c (s @ c # w) = split_on c s @ [w]"
proof (induction s)
  case (Cons x s)
  then show ?case by (cases "split_on c s") auto
qed simp

lemma split_mc_tid:
  assumes "CHR '':'' \<notin> set mc" and "CHR '':'' \<notin> set taskname"
  shows "split_on CHR '':'' (''mc:'' @ mc @ '':'' @ fn @ '':'' @ taskname) =
    ''mc'' # mc # split_on CHR '':'' fn @ [taskname]"
proof -
  have "split_on CHR '':'' (fn @ CHR '':'' # taskname) = split_on CHR '':'' fn @ [taskname]"
    using assms(2) by (rule split_on_snoc)
  then show ?thesis using split_on_append[OF assms(1), of "fn @ CHR '':'' # taskname"] by simp
qed

text \<open>Building a task id and taking it apart gives the parts back: the multiconfig,
  the file, the task and the file under its multiconfig prefix; the short accessors agree.\<close>

theorem split_build_tid:
  assumes "CHR '':'' \<notin> set mc" and "CHR '':'' \<notin> set taskname"
    and "mc = [] \<Longrightarrow> \<not> is_mc (build_tid mc fn taskname)"
  shows "split_tid_mcfn (build_tid mc fn taskname) =
      Inr (mc, fn, taskname, if mc = [] then fn else ''mc:'' @ mc @ '':'' @ fn) \<and>
    mc_from_tid (build_tid mc fn taskname) = mc \<and>
    taskname_from_tid (build_tid mc fn taskname) = Inr taskname \<and>
    fn_from_tid (build_tid mc fn taskname) = (if mc = [] then fn else ''mc:'' @ mc @ '':'' @ fn)"
proof (cases "mc = []")
  case True
  then show ?thesis
    using assms rsplit1_append[OF assms(2), of fn]
    by (simp add: build_tid_def split_tid_mcfn_def mc_from_tid_def taskname_from_tid_def fn_from_tid_def
        list_get_def Let_def)
next
  case False
  let ?t = "''mc:'' @ mc @ '':'' @ fn @ '':'' @ taskname"
  have mc: "is_mc ?t" by (rule is_mc_built)
  note parts = split_mc_tid[OF assms(1,2), of fn]
  have "rsplit1 CHR '':'' ((''mc:'' @ mc @ '':'' @ fn) @ CHR '':'' # taskname) =
      [''mc:'' @ mc @ '':'' @ fn, taskname]"
    using assms(2) by (rule rsplit1_append)
  then have r: "rsplit1 CHR '':'' ?t = [''mc:'' @ mc @ '':'' @ fn, taskname]" by simp
  show ?thesis
    unfolding build_tid_def split_tid_mcfn_def mc_from_tid_def taskname_from_tid_def fn_from_tid_def
    using False mc r parts join_split_on[of "CHR '':''" fn]
    by (simp only: if_False if_True Let_def not_False_eq_True)
      (simp add: list_get_def butlast_append)
qed

theorem split_build_tid_witness:
  "split_tid_mcfn (build_tid ''qemu'' ''/a:b.bb'' ''do_build'') =
      Inr (''qemu'', ''/a:b.bb'', ''do_build'', ''mc:qemu:/a:b.bb'') \<and>
   split_tid_mcfn (build_tid [] ''/a.bb'' ''do_build'') = Inr ([], ''/a.bb'', ''do_build'', ''/a.bb'')"
proof -
  have n: "\<not> is_mc (build_tid [] ''/a.bb'' ''do_build'')" by code_simp
  show ?thesis
    using split_build_tid[of "''qemu''" "''do_build''" "''/a:b.bb''"]
      split_build_tid[of "[]" "''do_build''" "''/a.bb''"] n by simp
qed

end
