(* ===== verification/RunQueue_Data.thy ===== *)
theory RunQueue_Data
  imports Task_Ids
begin

text \<open>
  \<open>RunQueueData\<close> of \<open>poky/bitbake/lib/bb/runqueue.py\<close>: the graph of the tasks to run.
  \<open>prepare\<close> turns the resolved targets into task entries (step A), closes the recursive
  dependencies (part B), marks what the targets need (step B), prunes the rest (step C),
  and computes reverse dependencies, weights, the setscene tasks and the hashes (step D).

  \<^item> \<open>run_task\<close> is \<open>RunTaskEntry\<close>; a \<open>graph\<close> is \<open>runtaskentries\<close>, its sets are lists without
    duplicates.
  \<^item> \<open>prep_state\<close> holds the variables of \<open>prepare\<close> and the state of the signature generator,
    whose operations \<open>siggen\<close> are parameters over an abstract state \<open>'s\<close>.
  \<^item> \<open>rq_config\<close> holds what is read of the cooker: caches, targets and command line options.
  \<^item> \<open>bb.fatal\<close> is BBHandledException, \<open>bb.msg.fatal\<close> is SystemExit. Messages, progress
    reporting and the checks for interrupts are left out.
  \<^item> The loops whose end depends on the graph take fuel: \<open>mark_active\<close> and the walk over the
    endpoints one unit per task, the recursive dependencies one per edge that can be added.
\<close>

record run_task =
  rt_depends :: "string list"
  rt_revdeps :: "string list"
  rt_hash :: "string option"
  rt_unihash :: "string option"
  rt_weight :: int
  rt_taskhash_deps :: "string list"

type_synonym graph = "(string, run_task) dict"

definition new_run_task :: run_task where
  "new_run_task = \<lparr> rt_depends = [], rt_revdeps = [], rt_hash = None, rt_unihash = None,
     rt_weight = 1, rt_taskhash_deps = [] \<rparr>"

record rq_config =
  cf_caches :: "(string, cache_data) dict"
  cf_targets :: "(string \<times> string \<times> string \<times> string) list"
  cf_runall :: "string list"
  cf_runonly :: "string list"
  cf_force :: bool
  cf_invalidate :: "string option"
  cf_nosetscene :: bool
  cf_multi_allowed :: "string list"

record 's siggen =
  sg_prep :: "string \<Rightarrow> string list \<Rightarrow> ('s, string list) act"
  sg_taskhash :: "string \<Rightarrow> string list \<Rightarrow> ('s, string) act"
  sg_unihashes :: "string list \<Rightarrow> ('s, (string, string) dict) act"
  sg_invalidate :: "string \<Rightarrow> string \<Rightarrow> ('s, unit) act"
  sg_setscene :: "string list \<Rightarrow> 's \<Rightarrow> 's"
  sg_resolved :: "(string, string) dict \<Rightarrow> (string, string) dict \<Rightarrow> 's \<Rightarrow> 's"

record 's prep_state =
  pp_entries :: graph
  pp_taskdata :: "(string, td_state) dict"
  pp_recursive :: "(string, string list) dict"
  pp_itasks :: "(string, string list) dict"
  pp_selfref :: "string list"
  pp_build :: "string list"
  pp_target_tids :: "string list"
  pp_setscene :: "string list"
  pp_siggen :: 's

text \<open>Reading and updating an entry that is there\<close>

definition entry_depends :: "graph \<Rightarrow> string \<Rightarrow> string list" where
  "entry_depends G tid = (case map_of G tid of None \<Rightarrow> [] | Some e \<Rightarrow> rt_depends e)"

definition entry_revdeps :: "graph \<Rightarrow> string \<Rightarrow> string list" where
  "entry_revdeps G tid = (case map_of G tid of None \<Rightarrow> [] | Some e \<Rightarrow> rt_revdeps e)"

definition update_entry :: "string \<Rightarrow> (run_task \<Rightarrow> run_task) \<Rightarrow> graph \<Rightarrow> graph" where
  "update_entry tid f G = (case map_of G tid of None \<Rightarrow> G | Some e \<Rightarrow> AList.update tid (f e) G)"

section \<open>Step A: the dependencies of a task\<close>

text \<open>\<open>add_build_dependencies\<close> and \<open>add_runtime_dependencies\<close>: the given tasks of the first
  provider of each name, where they exist\<close>

definition target_dependencies ::
  "(string, string list) dict \<Rightarrow> (string, task_entry) dict \<Rightarrow> string list \<Rightarrow> string list \<Rightarrow>
   string list \<Rightarrow> string list" where
  "target_dependencies targets entries names tasknames =
     fold (\<lambda>depname acc. case dict_list targets depname of
         [] \<Rightarrow> acc
       | depdata # _ \<Rightarrow> fold (\<lambda>taskname acc.
           let t = depdata @ '':'' @ taskname
           in if has_key entries t then set_add t acc else acc) tasknames acc) names"

definition add_build_dependencies :: "td_state \<Rightarrow> string list \<Rightarrow> string list \<Rightarrow> string list \<Rightarrow> string list" where
  "add_build_dependencies td = target_dependencies (build_targets td) (taskentries td)"

definition add_runtime_dependencies :: "td_state \<Rightarrow> string list \<Rightarrow> string list \<Rightarrow> string list \<Rightarrow> string list" where
  "add_runtime_dependencies td = target_dependencies (run_targets td) (taskentries td)"

definition add_tdepend :: "string \<Rightarrow> string \<Rightarrow> string \<Rightarrow> ('s prep_state, unit) act" where
  "add_tdepend mc tid newdep =
     act_bind (act_gets (\<lambda>s. res_bind (dict_get (pp_taskdata s) mc) (\<lambda>td.
         res_bind (dict_get (taskentries td) tid) (\<lambda>te. Inr (td, te))))) (\<lambda>r.
     act_bind (act_lift r) (\<lambda>(td, te).
     act_modify (\<lambda>s. s\<lparr>pp_taskdata := AList.update mc
       (td\<lparr>taskentries := AList.update tid (te\<lparr>te_tdepends := te_tdepends te @ [newdep]\<rparr>) (taskentries td)\<rparr>)
       (pp_taskdata s)\<rparr>)))"

definition mc_dependency :: "(string, td_state) dict \<Rightarrow> string \<Rightarrow> string \<Rightarrow> string option res" where
  "mc_dependency taskdata mc dep =
     (let parts = split_on CHR '':'' dep in
      res_bind (list_get parts 3) (\<lambda>pn.
      res_bind (list_get parts 1) (\<lambda>frommc.
      res_bind (list_get parts 2) (\<lambda>mcdep.
      res_bind (list_get parts 4) (\<lambda>deptask.
      case map_of taskdata mcdep of
        None \<Rightarrow> Inl BBHandledException
      | Some td \<Rightarrow>
          if mc \<noteq> frommc then Inr None
          else res_bind (dict_get (build_targets td) pn) (\<lambda>fns.
               res_bind (list_get fns 0) (\<lambda>fn.
               let newdep = fn @ '':'' @ deptask
               in if has_key (taskentries td) newdep then Inr (Some newdep) else Inl BBHandledException)))))))"

definition add_mc_dependencies :: "string \<Rightarrow> string \<Rightarrow> ('s prep_state, unit) act" where
  "add_mc_dependencies mc tid =
     act_bind (act_gets (\<lambda>s. res_bind (dict_get (pp_taskdata s) mc) (\<lambda>td. Inr (mcdepends td)))) (\<lambda>r.
     act_bind (act_lift r) (\<lambda>mcdeps.
     act_for mcdeps (\<lambda>dep.
       act_bind (act_gets (\<lambda>s. mc_dependency (pp_taskdata s) mc dep)) (\<lambda>r.
       act_bind (act_lift r) (\<lambda>newdep.
       case newdep of None \<Rightarrow> act_return () | Some t \<Rightarrow> add_tdepend mc tid t)))))"

text \<open>Task internal dependencies and the depends and rdepends flags\<close>

definition internal_depends :: "task_entry \<Rightarrow> string list \<Rightarrow> string list res" where
  "internal_depends te = res_fold (\<lambda>t acc.
     res_bind (split_tid_mcfn t) (\<lambda>(depmc, depfn, deptaskname, _).
     Inr (set_add (build_tid depmc depfn deptaskname) acc))) (te_tdepends te)"

definition flag_depends ::
  "(string, string list) dict \<Rightarrow> (string, task_entry) dict \<Rightarrow> string list \<Rightarrow> (string \<times> string) list \<Rightarrow>
   string list \<Rightarrow> string list res" where
  "flag_depends targets entries failed pairs = res_fold (\<lambda>(depname, idependtask) acc.
     case dict_list targets depname of
       [] \<Rightarrow> Inr acc
     | depdata # _ \<Rightarrow>
         if depname \<in> set failed then Inr acc
         else let t = depdata @ '':'' @ idependtask
              in if has_key entries t then Inr (set_add t acc) else Inl SystemExit) pairs"

definition flag_tasks :: "task_deps \<Rightarrow> string \<Rightarrow> string \<Rightarrow> string list option" where
  "flag_tasks deps flag taskname = map_option split_ws (task_flag deps flag taskname)"

text \<open>All of step A for one task, after the multiconfig dependencies: the dependencies and,
  for a recursive task, the names it follows\<close>

definition resolve_depends ::
  "td_state \<Rightarrow> task_deps \<Rightarrow> string \<Rightarrow> string \<Rightarrow> string \<Rightarrow> (string list \<times> string list option) res" where
  "resolve_depends td deps tid taskname taskfn =
     res_bind (dict_get (taskentries td) tid) (\<lambda>te.
     res_bind (internal_depends te []) (\<lambda>d1.
     res_bind (case flag_tasks deps ''deptask'' taskname of
         None \<Rightarrow> Inr d1
       | Some names \<Rightarrow> res_bind (dict_get (depids td) taskfn)
           (\<lambda>ids. Inr (add_build_dependencies td ids names d1))) (\<lambda>d2.
     res_bind (case flag_tasks deps ''rdeptask'' taskname of
         None \<Rightarrow> Inr d2
       | Some names \<Rightarrow> res_bind (dict_get (rdepids td) taskfn)
           (\<lambda>ids. Inr (add_runtime_dependencies td ids names d2))) (\<lambda>d3.
     res_bind (flag_depends (build_targets td) (taskentries td) (failed_deps td) (te_idepends te) d3) (\<lambda>d4.
     res_bind (flag_depends (run_targets td) (taskentries td) [] (te_irdepends te) d4) (\<lambda>d5.
     case flag_tasks deps ''recrdeptask'' taskname of
       None \<Rightarrow> Inr (d5, None)
     | Some names \<Rightarrow>
         res_bind (dict_get (depids td) taskfn) (\<lambda>ids.
         res_bind (dict_get (rdepids td) taskfn) (\<lambda>rids.
         Inr (add_runtime_dependencies td rids names (add_build_dependencies td ids names d5), Some names)))))))))"

definition step_a_task :: "rq_config \<Rightarrow> string \<Rightarrow> string \<Rightarrow> ('s prep_state, unit) act" where
  "step_a_task cfg mc tid =
     act_bind (act_lift (split_tid_mcfn tid)) (\<lambda>(_, fn, taskname, taskfn).
     act_bind (act_lift (res_bind (dict_get (cf_caches cfg) mc) (\<lambda>dc. dict_get (task_deps_of dc) taskfn))) (\<lambda>deps.
     act_then (act_modify (\<lambda>s. s\<lparr>pp_entries := AList.update tid new_run_task (pp_entries s)\<rparr>))
    (act_bind (act_gets (\<lambda>s. res_bind (dict_get (pp_taskdata s) mc) (\<lambda>td. Inr (fn \<in> set (failed_fns td))))) (\<lambda>r.
     act_bind (act_lift r) (\<lambda>failed.
     if failed then act_return ()
     else
       act_then (act_when (task_flag deps ''mcdepends'' taskname \<noteq> None) (add_mc_dependencies mc tid))
      (act_bind (act_gets (\<lambda>s. res_bind (dict_get (pp_taskdata s) mc) (\<lambda>td.
           resolve_depends td deps tid taskname taskfn))) (\<lambda>r.
       act_bind (act_lift r) (\<lambda>(depends, rec).
       act_then (case rec of None \<Rightarrow> act_return () | Some names \<Rightarrow>
           act_modify (\<lambda>s. s\<lparr>pp_recursive := AList.update tid names (pp_recursive s),
             pp_selfref := (if taskname \<in> set names then set_add tid (pp_selfref s) else pp_selfref s),
             pp_itasks := (case flag_tasks deps ''recideptask'' taskname of
                 None \<Rightarrow> pp_itasks s
               | Some ts \<Rightarrow> AList.update tid (List.map (build_tid mc fn) ts) (pp_itasks s))\<rparr>))
        (act_modify (\<lambda>s. s\<lparr>pp_entries :=
           update_entry tid (\<lambda>e. e\<lparr>rt_depends := removeAll tid depends\<rparr>) (pp_entries s)\<rparr>))))))))))"

definition step_a :: "rq_config \<Rightarrow> ('s prep_state, unit) act" where
  "step_a cfg =
     act_bind (act_gets (dict_keys \<circ> pp_taskdata)) (\<lambda>mcs.
     act_for mcs (\<lambda>mc.
       act_bind (act_gets (\<lambda>s. res_bind (dict_get (pp_taskdata s) mc) (\<lambda>td. Inr (dict_keys (taskentries td))))) (\<lambda>r.
       act_bind (act_lift r) (\<lambda>tids. act_for tids (step_a_task cfg mc)))))"

section \<open>Part B: recursive dependencies\<close>

text \<open>The reverse dependencies: a dependency without entry is a KeyError.\<close>

definition reverse_depends :: "graph \<Rightarrow> (string, string list) dict res" where
  "reverse_depends G =
     res_fold (\<lambda>(tid, e) revs. res_fold (\<lambda>dep revs.
         res_bind (dict_get revs dep) (\<lambda>ts. Inr (AList.update dep (set_add tid ts) revs))) (rt_depends e) revs)
       G (List.map (\<lambda>(tid, e). (tid, [])) G)"

text \<open>One round of the walk up the chains: \<open>left\<close> is what a task still waits for, \<open>cum\<close> the
  files it depends on so far.\<close>

definition collate_edge ::
  "string \<Rightarrow> string \<Rightarrow> (string, string list) dict \<times> (string, string list) dict \<times> string list \<Rightarrow>
   (string, string list) dict \<times> (string, string list) dict \<times> string list" where
  "collate_edge tid dep = (\<lambda>(left, cum, next).
     let cum = AList.update dep
           (set_union (set_add (fn_from_tid tid) (dict_list cum dep)) (dict_list cum tid)) cum;
         left = AList.update dep (removeAll tid (dict_list left dep)) left
     in (left, cum, if dict_list left dep = [] then set_add dep next else next))"

fun collate_depends ::
  "nat \<Rightarrow> (string, string list) dict \<Rightarrow> string list \<Rightarrow> (string, string list) dict \<times> (string, string list) dict \<Rightarrow>
   (string, string list) dict res" where
  "collate_depends n revs [] st = Inr (snd st)"
| "collate_depends 0 revs (t # ts) st = Inl OutOfFuel"
| "collate_depends (Suc n) revs (t # ts) st =
     (case fold (\<lambda>tid. fold (collate_edge tid) (dict_list revs tid)) (t # ts) (fst st, snd st, []) of
        (left, cum, next) \<Rightarrow> collate_depends n revs next (left, cum))"

definition cumulative_depends :: "graph \<Rightarrow> (string, string list) dict res" where
  "cumulative_depends G =
     res_bind (reverse_depends G) (\<lambda>revs.
       let left = List.map (\<lambda>(tid, e). (tid, rt_depends e)) G
       in collate_depends (Suc (length G)) revs (List.map fst (filter (\<lambda>(tid, ds). ds = []) left))
            (left, List.map (\<lambda>(tid, e). (tid, [])) G))"

text \<open>One task of one round: the counted additions, from the files below and from the other
  recursive tasks it depends on\<close>

definition add_if ::
  "(graph \<Rightarrow> string list \<Rightarrow> string \<Rightarrow> bool) \<Rightarrow> string \<Rightarrow> string \<Rightarrow> nat \<times> graph \<Rightarrow> nat \<times> graph" where
  "add_if ok tid newtid = (\<lambda>(n, G).
     if ok G (entry_depends G tid) newtid
     then (Suc n, update_entry tid (\<lambda>e. e\<lparr>rt_depends := set_add newtid (rt_depends e)\<rparr>) G)
     else (n, G))"

definition recursive_task ::
  "(string, string list) dict \<Rightarrow> (string, string list) dict \<Rightarrow> (string, string list) dict \<Rightarrow>
   string \<times> string list \<Rightarrow> nat \<times> graph \<Rightarrow> nat \<times> graph" where
  "recursive_task cum recs itasks = (\<lambda>(tid, tasknames) (n, G).
     let total = (case map_of itasks tid of
           None \<Rightarrow> entry_depends G tid
         | Some ts \<Rightarrow> fold (\<lambda>dep acc. set_union acc (entry_depends G dep)) ts (set_union (entry_depends G tid) ts));
         below = fold (\<lambda>dep acc. set_union acc (dict_list cum dep)) total [];
         (n, G) = fold (\<lambda>t. fold (\<lambda>taskname. add_if (\<lambda>G ds new. new \<noteq> tid \<and> has_key G new \<and> new \<notin> set ds)
             tid (t @ '':'' @ taskname)) tasknames) below (n, G);
         others = fold (\<lambda>dep acc. set_union acc (set_diff (entry_depends G dep) (entry_depends G tid)))
           (filter (has_key recs) (entry_depends G tid)) []
     in fold (\<lambda>new. fold (\<lambda>taskname. add_if (\<lambda>G ds new. endswith new ('':'' @ taskname) \<and> has_key G new)
             tid new) tasknames) others (n, G))"

fun close_recursive ::
  "nat \<Rightarrow> (string, string list) dict \<Rightarrow> (string, string list) dict \<Rightarrow> (string, string list) dict \<Rightarrow>
   graph \<Rightarrow> graph res" where
  "close_recursive 0 cum recs itasks G = Inl OutOfFuel"
| "close_recursive (Suc n) cum recs itasks G =
     (case fold (recursive_task cum recs itasks) recs (0, G) of
        (extradeps, G) \<Rightarrow> if extradeps = 0 then Inr G else close_recursive n cum recs itasks G)"

text \<open>The self references of the recursive tasks are dropped at the end.\<close>

definition drop_selfrefs :: "string list \<Rightarrow> graph \<Rightarrow> graph" where
  "drop_selfrefs selfref G =
     fold (\<lambda>tid. update_entry tid (\<lambda>e. e\<lparr>rt_depends := set_diff (rt_depends e) selfref\<rparr>)) selfref G"

definition part_b :: "('s prep_state, unit) act" where
  "part_b =
     act_bind (act_gets (\<lambda>s. res_bind (cumulative_depends (pp_entries s)) (\<lambda>cum.
       res_bind (close_recursive (Suc (length (pp_recursive s) * length (pp_entries s))) cum
         (pp_recursive s) (pp_itasks s) (pp_entries s)) (\<lambda>G.
       Inr (drop_selfrefs (pp_selfref s) G))))) (\<lambda>r.
     act_bind (act_lift r) (\<lambda>G. act_modify (\<lambda>s. s\<lparr>pp_entries := G\<rparr>)))"

section \<open>Step B: marking what the targets need\<close>

fun mark_active :: "nat \<Rightarrow> graph \<Rightarrow> string \<Rightarrow> string list \<Rightarrow> string list res" where
  "mark_active n G tid build =
     (if tid \<in> set build then Inr build
      else case n of
        0 \<Rightarrow> Inl OutOfFuel
      | Suc m \<Rightarrow> res_bind (dict_get G tid)
          (\<lambda>e. res_fold (mark_active m G) (rt_depends e) (build @ [tid])))"

declare mark_active.simps [simp del]

definition mark :: "string \<Rightarrow> ('s prep_state, unit) act" where
  "mark tid =
     act_bind (act_gets (\<lambda>s. mark_active (Suc (length (pp_entries s))) (pp_entries s) tid (pp_build s))) (\<lambda>r.
     act_bind (act_lift r) (\<lambda>b. act_modify (\<lambda>s. s\<lparr>pp_build := b\<rparr>)))"

definition on_siggen :: "('s, 'a) act \<Rightarrow> ('s prep_state, 'a) act" where
  "on_siggen = act_zoom pp_siggen (\<lambda>g s. s\<lparr>pp_siggen := g\<rparr>)"

definition invalidate_task ::
  "'s siggen \<Rightarrow> rq_config \<Rightarrow> string \<Rightarrow> bool \<Rightarrow> ('s prep_state, unit) act" where
  "invalidate_task sg cfg tid error_nostamp =
     act_bind (act_lift (split_tid_mcfn tid)) (\<lambda>(mc, fn, taskname, taskfn).
     act_bind (act_lift (res_bind (dict_get (cf_caches cfg) mc) (\<lambda>dc. dict_get (task_deps_of dc) taskfn))) (\<lambda>deps.
     act_bind (act_gets (\<lambda>s. dict_get (pp_taskdata s) mc)) (\<lambda>r.
     act_bind (act_lift r) (\<lambda>_.
     if task_flag deps ''nostamp'' taskname \<noteq> None
     then act_when error_nostamp (act_raise BBHandledException)
     else on_siggen (sg_invalidate sg taskname taskfn)))))"

definition add_target_tid :: "string \<Rightarrow> ('s prep_state, unit) act" where
  "add_target_tid tid = act_modify (\<lambda>s. s\<lparr>pp_target_tids := pp_target_tids s @ [tid]\<rparr>)"

text \<open>One target; a task name that ends in a dash asks for the dependencies only.\<close>

definition mark_target :: "string \<times> string \<times> string \<times> string \<Rightarrow> ('s prep_state, unit) act" where
  "mark_target = (\<lambda>(mc, target, task0, fn).
     act_bind (act_gets (\<lambda>s. dict_get (pp_taskdata s) mc)) (\<lambda>r.
     act_bind (act_lift r) (\<lambda>td.
     if dict_list (build_targets td) target = [] then act_return ()
     else if target \<in> set (failed_deps td) then act_return ()
     else
       let parents = endswith task0 ''-'';
           task = (if parents then butlast task0 else task0);
           tid = fn @ '':'' @ task
       in if fn \<in> set (failed_fns td) then act_return ()
          else act_then (add_target_tid tid)
            (if \<not> has_key (taskentries td) tid then act_raise SystemExit
             else if parents then
               act_bind (act_gets (\<lambda>s. dict_get (pp_entries s) tid)) (\<lambda>r.
               act_bind (act_lift r) (\<lambda>e. act_for (rt_depends e) mark))
             else mark tid))))"

section \<open>Step C: pruning\<close>

definition do_prefix :: "string \<Rightarrow> string" where
  "do_prefix task = (if startswith task ''do_'' then task else ''do_'' @ task)"

text \<open>The runall loop: \<open>orig\<close> are the tasks the previous round wanted.\<close>

definition runall_task ::
  "'s siggen \<Rightarrow> rq_config \<Rightarrow> string list \<Rightarrow> string \<Rightarrow> string list \<Rightarrow> ('s prep_state, string list) act" where
  "runall_task sg cfg reduced task wanted =
     act_bind (act_gets (\<lambda>s. fold (\<lambda>tid acc.
         let w = fn_from_tid tid @ '':'' @ do_prefix task
         in if has_key (pp_entries s) w then set_add w acc else acc) reduced wanted)) (\<lambda>tids.
     act_then (act_for tids (\<lambda>tid.
         act_then (mark tid) (act_then (add_target_tid tid)
           (act_when (cf_force cfg) (invalidate_task sg cfg tid False)))))
       (act_return tids))"

fun runall_tasks ::
  "'s siggen \<Rightarrow> rq_config \<Rightarrow> string list \<Rightarrow> string list \<Rightarrow> string list \<Rightarrow> ('s prep_state, string list) act" where
  "runall_tasks sg cfg reduced [] wanted = act_return wanted"
| "runall_tasks sg cfg reduced (task # tasks) wanted =
     act_bind (runall_task sg cfg reduced task wanted) (runall_tasks sg cfg reduced tasks)"

fun runall_loop :: "nat \<Rightarrow> 's siggen \<Rightarrow> rq_config \<Rightarrow> string list \<Rightarrow> ('s prep_state, unit) act" where
  "runall_loop 0 sg cfg orig = act_raise OutOfFuel"
| "runall_loop (Suc n) sg cfg orig =
     act_bind (act_gets (\<lambda>s. filter (\<lambda>tid. tid \<in> set (pp_build s)) (dict_keys (pp_entries s)))) (\<lambda>reduced.
     act_then (act_modify (\<lambda>s. s\<lparr>pp_build := []\<rparr>))
    (act_bind (runall_tasks sg cfg reduced (cf_runall cfg) []) (\<lambda>wanted.
     if set_diff wanted orig = [] then act_return () else runall_loop n sg cfg wanted)))"

definition prune :: "('s prep_state, unit) act" where
  "prune = act_modify (\<lambda>s. s\<lparr>pp_entries := filter (\<lambda>(tid, e). tid \<in> set (pp_build s)) (pp_entries s)\<rparr>)"

definition require_tasks :: "('s prep_state, unit) act" where
  "require_tasks = act_bind (act_gets pp_entries) (\<lambda>G. act_when (G = []) (act_raise SystemExit))"

definition runonly_task :: "'s siggen \<Rightarrow> rq_config \<Rightarrow> string \<Rightarrow> ('s prep_state, unit) act" where
  "runonly_task sg cfg task =
     act_bind (act_gets (dict_keys \<circ> pp_entries)) (\<lambda>ks.
     act_bind (act_lift (res_map taskname_from_tid ks)) (\<lambda>names.
     act_for (List.map fst (filter (\<lambda>(k, name). name = do_prefix task) (zip ks names))) (\<lambda>tid.
       act_then (mark tid) (act_when (cf_force cfg) (invalidate_task sg cfg tid False)))))"

definition step_c :: "'s siggen \<Rightarrow> rq_config \<Rightarrow> ('s prep_state, unit) act" where
  "step_c sg cfg =
     act_then (act_when (cf_runall cfg \<noteq> [])
       (act_bind (act_gets (length \<circ> pp_entries)) (\<lambda>n. runall_loop (n + 2) sg cfg [])))
    (act_then prune
    (act_then (act_when (cf_runall cfg \<noteq> []) require_tasks)
    (act_when (cf_runonly cfg \<noteq> [])
      (act_then (act_modify (\<lambda>s. s\<lparr>pp_build := []\<rparr>))
      (act_then (act_for (cf_runonly cfg) (runonly_task sg cfg))
      (act_then prune require_tasks))))))"

section \<open>Step D: checks and weights\<close>

definition add_revdeps :: "graph \<Rightarrow> graph res" where
  "add_revdeps G =
     res_fold (\<lambda>(tid, e) G. res_fold (\<lambda>dep G.
         res_bind (dict_get G dep) (\<lambda>d. Inr (AList.update dep (d\<lparr>rt_revdeps := set_add tid (rt_revdeps d)\<rparr>) G)))
         (rt_depends e) G) G G"

text \<open>The tasks nothing depends on; a pair of tasks that depend on each other is fatal.\<close>

fun find_endpoints :: "graph \<Rightarrow> string list res" where
  "find_endpoints [] = Inr []"
| "find_endpoints ((tid, e) # G) =
     (if \<exists>dep \<in> set (rt_revdeps e). dep \<in> set (rt_depends e) then Inl SystemExit
      else res_bind (find_endpoints G) (\<lambda>ts. Inr (if rt_revdeps e = [] then tid # ts else ts)))"

record weights =
  wt_weight :: "(string, int) dict"
  wt_left :: "(string, int) dict"
  wt_done :: "(string, bool) dict"

definition weight_edge :: "string \<Rightarrow> string \<Rightarrow> weights \<times> string list \<Rightarrow> (weights \<times> string list) res" where
  "weight_edge tid revdep = (\<lambda>(w, next).
     res_bind (dict_get (wt_weight w) revdep) (\<lambda>wr.
     res_bind (dict_get (wt_weight w) tid) (\<lambda>wt.
     res_bind (dict_get (wt_left w) revdep) (\<lambda>l.
     let w = w\<lparr>wt_weight := AList.update revdep (wr + wt) (wt_weight w),
               wt_left := AList.update revdep (l - 1) (wt_left w)\<rparr>
     in if l - 1 = 0
        then Inr (w\<lparr>wt_done := AList.update revdep True (wt_done w)\<rparr>, next @ [revdep])
        else Inr (w, next)))))"

definition weight_point :: "graph \<Rightarrow> string \<Rightarrow> weights \<times> string list \<Rightarrow> (weights \<times> string list) res" where
  "weight_point G tid st = res_bind (dict_get G tid) (\<lambda>e. res_fold (weight_edge tid) (rt_depends e) st)"

fun weight_loop :: "nat \<Rightarrow> graph \<Rightarrow> string list \<Rightarrow> weights \<Rightarrow> weights res" where
  "weight_loop 0 G endpoints w = Inl OutOfFuel"
| "weight_loop (Suc n) G endpoints w =
     res_bind (res_fold (weight_point G) endpoints (w, [])) (\<lambda>(w, next).
       if next = [] then Inr w else weight_loop n G next w)"

definition initial_weights :: "graph \<Rightarrow> string list \<Rightarrow> weights" where
  "initial_weights G endpoints =
     \<lparr> wt_weight = fold (\<lambda>tid. AList.update tid 10) endpoints (List.map (\<lambda>(tid, e). (tid, 1)) G),
       wt_left = List.map (\<lambda>(tid, e). (tid, int (length (rt_revdeps e)))) G,
       wt_done = fold (\<lambda>tid. AList.update tid True) endpoints (List.map (\<lambda>(tid, e). (tid, False)) G) \<rparr>"

text \<open>The weights of all tasks and the tasks a circle keeps from being built\<close>

definition task_weights :: "graph \<Rightarrow> string list \<Rightarrow> ((string, int) dict \<times> string list) res" where
  "task_weights G endpoints =
     res_bind (weight_loop (length G + 1) G endpoints (initial_weights G endpoints)) (\<lambda>w.
     Inr (wt_weight w, filter (\<lambda>tid. map_of (wt_done w) tid = Some False \<or> map_of (wt_left w) tid \<noteq> Some 0)
       (dict_keys G)))"

definition set_weights :: "(string, int) dict \<Rightarrow> graph \<Rightarrow> graph" where
  "set_weights weight G =
     List.map (\<lambda>(tid, e). (tid, e\<lparr>rt_weight := (case map_of weight tid of None \<Rightarrow> rt_weight e | Some x \<Rightarrow> x)\<rparr>)) G"

definition calculate_task_weights :: "string list \<Rightarrow> ('s prep_state, unit) act" where
  "calculate_task_weights endpoints =
     act_bind (act_gets (\<lambda>s. task_weights (pp_entries s) endpoints)) (\<lambda>r.
     act_bind (act_lift r) (\<lambda>(weight, problem_tasks).
     act_then (act_modify (\<lambda>s. s\<lparr>pp_entries := set_weights weight (pp_entries s)\<rparr>))
       (act_when (problem_tasks \<noteq> []) (act_raise SystemExit))))"

section \<open>Step D: several providers\<close>

text \<open>The files that are built per thing they provide, in one multiconfig\<close>

definition provider_list ::
  "cache_data \<Rightarrow> string \<Rightarrow> string list \<Rightarrow> (string, string list) dict res" where
  "provider_list dc mc tids =
     res_bind (res_fold (\<lambda>tid (provs, seen_fn).
         res_bind (split_tid_mcfn tid) (\<lambda>(tidmc, fn, taskname, taskfn).
         if taskfn \<in> set seen_fn then Inr (provs, seen_fn)
         else if mc \<noteq> tidmc then Inr (provs, seen_fn)
         else res_bind (dict_get (fn_provides dc) taskfn) (\<lambda>ps.
           Inr (fold (\<lambda>prov provs.
               if taskfn \<in> set (dict_list provs prov) then provs else dict_append prov taskfn provs) ps provs,
             seen_fn @ [taskfn])))) tids ([], []))
       (\<lambda>(provs, _). Inr provs)"

fun distinct_names :: "cache_data \<Rightarrow> string list \<Rightarrow> string list \<Rightarrow> unit res" where
  "distinct_names dc [] seen_pn = Inr ()"
| "distinct_names dc (fn # fns) seen_pn =
     res_bind (dict_get (pkg_fn dc) fn) (\<lambda>pn.
       if pn \<in> set seen_pn then Inl BBHandledException else distinct_names dc fns (seen_pn @ [pn]))"

text \<open>What the message names: per file, the tasks of other files that depend on it, and on no
  other provider; \<open>acc\<close> is None until it holds something.\<close>

definition dependees_of :: "graph \<Rightarrow> string \<Rightarrow> string list" where
  "dependees_of G provfn =
     fold (\<lambda>(tid, e) acc.
       if fn_from_tid tid \<noteq> provfn then acc
       else fold (\<lambda>dep acc. if fn_from_tid dep = provfn then acc else set_add dep acc) (rt_revdeps e) acc) G []"

definition common_of :: "string list list \<Rightarrow> string list" where
  "common_of xss = fold (\<lambda>xs acc. if acc = [] then xs else set_inter acc xs) xss []"

definition unique_dependees :: "graph \<Rightarrow> string list \<Rightarrow> (string \<times> string list) list" where
  "unique_dependees G fns =
     (let deps = List.map (dependees_of G) fns
      in List.map (\<lambda>(fn, ds). (fn, set_diff ds (common_of deps))) (zip fns deps))"

definition rprovides_of :: "cache_data \<Rightarrow> string \<Rightarrow> string list" where
  "rprovides_of dc fn =
     (let names = (\<lambda>d acc. fold (\<lambda>(name, fns) acc. if fn \<in> set fns then set_add name acc else acc) d acc)
      in names (packages_dynamic dc) (names (packages dc) (names (rproviders dc) [])))"

definition unique_provides :: "cache_data \<Rightarrow> string list \<Rightarrow> (string \<times> string list \<times> string list) list" where
  "unique_provides dc fns =
     (let ps = List.map (\<lambda>fn. set_union [] (dict_list (fn_provides dc) fn)) fns;
          rps = List.map (rprovides_of dc) fns
      in List.map (\<lambda>(fn, p, rp). (fn, set_diff p (common_of ps), set_diff rp (common_of rps))) (zip fns (zip ps rps)))"

text \<open>The conflicts that are reported: what is provided, by which files, and the hints\<close>

type_synonym conflict =
  "string \<times> (string \<times> string list) list \<times> (string \<times> string list \<times> string list) list"

definition provider_conflicts ::
  "rq_config \<Rightarrow> graph \<Rightarrow> string \<Rightarrow> cache_data \<Rightarrow> conflict list res" where
  "provider_conflicts cfg G mc dc =
     res_bind (provider_list dc mc (dict_keys G)) (\<lambda>provs.
     res_fold (\<lambda>(prov, fns) acc.
       if length fns < 2 then Inr acc
       else if prov \<in> set (cf_multi_allowed cfg) then Inr acc
       else res_bind (distinct_names dc fns [])
         (\<lambda>_. Inr (acc @ [(prov, unique_dependees G fns, unique_provides dc fns)]))) provs [])"

definition check_providers :: "rq_config \<Rightarrow> graph \<Rightarrow> conflict list res" where
  "check_providers cfg G =
     res_fold (\<lambda>(mc, dc) acc. res_bind (provider_conflicts cfg G mc dc) (\<lambda>cs. Inr (acc @ cs))) (cf_caches cfg) []"

section \<open>Step D: setscene tasks, invalidation and hashes\<close>

definition find_setscene :: "rq_config \<Rightarrow> ('s prep_state, unit) act" where
  "find_setscene cfg =
     act_then (act_modify (\<lambda>s. s\<lparr>pp_setscene := []\<rparr>))
    (act_when (\<not> cf_nosetscene cfg)
      (act_bind (act_gets (dict_keys \<circ> pp_entries)) (\<lambda>tids.
       act_for tids (\<lambda>tid.
         act_bind (act_lift (split_tid_mcfn tid)) (\<lambda>(mc, fn, taskname, _).
         act_bind (act_gets (\<lambda>s. dict_get (pp_taskdata s) mc)) (\<lambda>r.
         act_bind (act_lift r) (\<lambda>td.
         act_when (has_key (taskentries td) (tid @ ''_setscene''))
           (act_modify (\<lambda>s. s\<lparr>pp_setscene := set_add tid (pp_setscene s)\<rparr>)))))))))"

definition invalidate_targets :: "'s siggen \<Rightarrow> rq_config \<Rightarrow> ('s prep_state, unit) act" where
  "invalidate_targets sg cfg =
     act_bind (act_gets pp_target_tids) (\<lambda>tids.
     act_then (act_when (cf_force cfg) (act_for tids (\<lambda>tid. invalidate_task sg cfg tid False)))
       (if truthy (cf_invalidate cfg) then
          act_for tids (\<lambda>tid. act_for (split_on CHR '','' (the (cf_invalidate cfg))) (\<lambda>st.
            invalidate_task sg cfg (fn_from_tid tid @ '':'' @ do_prefix st) True))
        else act_return ()))"

text \<open>The table of virtual providers, handed to the signature generator\<close>

definition virtual_names :: "cache_data \<Rightarrow> (string, string) dict \<Rightarrow> (string, string) dict res" where
  "virtual_names dc virtmap =
     res_map (\<lambda>(v, fn). res_bind (dict_get (pkg_fn dc) fn) (\<lambda>pn. Inr (v, pn))) virtmap"

definition report_virtuals :: "'s siggen \<Rightarrow> rq_config \<Rightarrow> ('s prep_state, unit) act" where
  "report_virtuals sg cfg =
     act_bind (act_gets pp_taskdata) (\<lambda>tds.
     act_for tds (\<lambda>(mc, td).
       let virtmap = get_providermap td (Some ''virtual/'') in
       act_bind (act_lift (if virtmap = [] then Inr []
           else res_bind (dict_get (cf_caches cfg) mc) (\<lambda>dc. virtual_names dc virtmap))) (\<lambda>names.
       act_modify (\<lambda>s. s\<lparr>pp_siggen := sg_resolved sg virtmap names (pp_siggen s)\<rparr>))))"

text \<open>The hashes, in dependency order: a round takes the tasks whose dependencies are dealt
  with. \<open>get_taskhash\<close> may look up the unihash of the dependencies, which earlier rounds set.\<close>

definition hash_task :: "'s siggen \<Rightarrow> string \<Rightarrow> ('s prep_state, unit) act" where
  "hash_task sg tid =
     act_bind (act_gets (\<lambda>s. entry_depends (pp_entries s) tid)) (\<lambda>ds.
     act_bind (on_siggen (sg_prep sg tid ds)) (\<lambda>hdeps.
     act_bind (on_siggen (sg_taskhash sg tid ds)) (\<lambda>h.
     act_modify (\<lambda>s. s\<lparr>pp_entries :=
       update_entry tid (\<lambda>e. e\<lparr>rt_taskhash_deps := hdeps, rt_hash := Some h\<rparr>) (pp_entries s)\<rparr>))))"

definition enter_unihash_of :: "(string, string) dict \<Rightarrow> string \<Rightarrow> ('s prep_state, unit) act" where
  "enter_unihash_of unis tid =
     act_bind (act_lift (dict_get unis tid)) (\<lambda>u.
     act_modify (\<lambda>s. s\<lparr>pp_entries := update_entry tid (\<lambda>e. e\<lparr>rt_unihash := Some u\<rparr>) (pp_entries s)\<rparr>))"

definition hash_round :: "'s siggen \<Rightarrow> string list \<Rightarrow> string list \<Rightarrow> ('s prep_state, string list) act" where
  "hash_round sg dealtwith todeal =
     act_bind (act_gets (\<lambda>s. filter (\<lambda>tid. set (entry_depends (pp_entries s) tid) \<subseteq> set dealtwith) todeal)) (\<lambda>ready.
     act_then (act_for ready (hash_task sg))
    (act_bind (on_siggen (sg_unihashes sg ready)) (\<lambda>unis.
     act_then (act_for ready (enter_unihash_of unis)) (act_return ready))))"

fun hash_loop :: "nat \<Rightarrow> 's siggen \<Rightarrow> string list \<Rightarrow> string list \<Rightarrow> ('s prep_state, unit) act" where
  "hash_loop n sg dealtwith [] = act_return ()"
| "hash_loop 0 sg dealtwith (t # ts) = act_raise OutOfFuel"
| "hash_loop (Suc n) sg dealtwith (t # ts) =
     act_bind (hash_round sg dealtwith (t # ts)) (\<lambda>ready.
       hash_loop n sg (dealtwith @ ready) (filter (\<lambda>x. x \<notin> set ready) (t # ts)))"

definition compute_hashes :: "'s siggen \<Rightarrow> ('s prep_state, unit) act" where
  "compute_hashes sg =
     act_bind (act_gets (dict_keys \<circ> pp_entries)) (\<lambda>tids. hash_loop (length tids) sg [] tids)"

definition step_d :: "'s siggen \<Rightarrow> rq_config \<Rightarrow> ('s prep_state, conflict list) act" where
  "step_d sg cfg =
     act_then require_tasks
    (act_bind (act_gets (\<lambda>s. add_revdeps (pp_entries s))) (\<lambda>r.
     act_bind (act_lift r) (\<lambda>G.
     act_then (act_modify (\<lambda>s. s\<lparr>pp_entries := G\<rparr>))
    (act_bind (act_lift (find_endpoints G)) (\<lambda>endpoints.
     act_then (calculate_task_weights endpoints)
    (act_bind (act_gets (\<lambda>s. check_providers cfg (pp_entries s))) (\<lambda>r.
     act_bind (act_lift r) (\<lambda>conflicts.
     act_then (find_setscene cfg)
    (act_then (invalidate_targets sg cfg)
    (act_then (report_virtuals sg cfg)
    (act_then (act_modify (\<lambda>s. s\<lparr>pp_siggen := sg_setscene sg (pp_setscene s) (pp_siggen s)\<rparr>))
    (act_then (compute_hashes sg)
     (act_return conflicts)))))))))))))"

text \<open>\<open>prepare\<close>: the number of tasks to run, and the provider conflicts it reported\<close>

definition prepare :: "'s siggen \<Rightarrow> rq_config \<Rightarrow> ('s prep_state, nat \<times> conflict list) act" where
  "prepare sg cfg =
     act_bind (act_gets (\<lambda>s. \<exists>(mc, td) \<in> set (pp_taskdata s). taskentries td \<noteq> [])) (\<lambda>found.
     if \<not> found then act_return (0, [])
     else
       act_then (step_a cfg)
      (act_then part_b
      (act_then (act_for (cf_targets cfg) mark_target)
      (act_then (step_c sg cfg)
      (act_bind (step_d sg cfg) (\<lambda>conflicts.
       act_bind (act_gets (length \<circ> pp_entries)) (\<lambda>n. act_return (n, conflicts))))))))"

definition new_prep :: "(string, td_state) dict \<Rightarrow> 's \<Rightarrow> 's prep_state" where
  "new_prep tds sgs = \<lparr> pp_entries = [], pp_taskdata = tds, pp_recursive = [], pp_itasks = [],
     pp_selfref = [], pp_build = [], pp_target_tids = [], pp_setscene = [], pp_siggen = sgs \<rparr>"

end
