(* ===== verification/RunQueue_Graph.thy ===== *)
theory RunQueue_Graph
  imports RunQueue_Data
begin

text \<open>
  The theorems on the task graph of \<open>RunQueue_Data\<close>: marking reaches exactly what a target
  needs, pruning keeps the graph closed, the reverse dependencies are the exact converse, and
  the weights order the tasks and find the circles.
\<close>

section \<open>The marked tasks are those the targets reach\<close>

definition dep_rel :: "graph \<Rightarrow> (string \<times> string) set" where
  "dep_rel G = {(t, d). d \<in> set (entry_depends G t)}"

definition closed_graph :: "graph \<Rightarrow> bool" where
  "closed_graph G \<longleftrightarrow> wf_dict G \<and>
     (\<forall>t. \<forall>d \<in> set (entry_depends G t). d \<in> set (dict_keys G))"

definition closed_in :: "graph \<Rightarrow> string set \<Rightarrow> bool" where
  "closed_in G B \<longleftrightarrow> (\<forall>x \<in> B. \<forall>d \<in> set (entry_depends G x). d \<in> B)"

lemma closed_in_reach:
  assumes "(x, y) \<in> (dep_rel G)\<^sup>*" and "closed_in G B" and "x \<in> B"
  shows "y \<in> B"
  using assms(1)
proof (induction rule: rtrancl_induct)
  case (step y z)
  then have "z \<in> set (entry_depends G y)" by (simp add: dep_rel_def)
  with step.IH assms(2) show ?case unfolding closed_in_def by blast
qed (rule assms(3))

text \<open>
  The result of the search from one task: everything it marks is reached from the task, and
  what it marks is closed but for the tasks \<open>W\<close> whose dependencies are still being visited.
\<close>

definition search_step :: "graph \<Rightarrow> string set \<Rightarrow> string set \<Rightarrow> string set \<Rightarrow> bool" where
  "search_step G T B B' \<longleftrightarrow> B \<subseteq> B' \<and> T \<subseteq> B' \<and> B' \<subseteq> set (dict_keys G) \<and>
     (\<forall>x \<in> B' - B. \<exists>t \<in> T. (t, x) \<in> (dep_rel G)\<^sup>*) \<and>
     (\<forall>x \<in> B' - B. \<forall>d \<in> set (entry_depends G x). d \<in> B')"

lemma search_cons:
  assumes 1: "search_step G {d} B0 B1" and 2: "search_step G T B1 B"
  shows "search_step G (insert d T) B0 B"
proof -
  have "\<exists>t \<in> insert d T. (t, x) \<in> (dep_rel G)\<^sup>*" if "x \<in> B - B0" for x
  proof (cases "x \<in> B1")
    case True
    with that 1 show ?thesis unfolding search_step_def by blast
  next
    case False
    with that 2 show ?thesis unfolding search_step_def by blast
  qed
  moreover have "d' \<in> B" if "x \<in> B - B0" "d' \<in> set (entry_depends G x)" for x d'
  proof (cases "x \<in> B1")
    case True
    with that(1) have "x \<in> B1 - B0" by blast
    with 1 that(2) have "d' \<in> B1" unfolding search_step_def by blast
    with 2 show ?thesis unfolding search_step_def by blast
  next
    case False
    with that 2 show ?thesis unfolding search_step_def by blast
  qed
  moreover have "B0 \<subseteq> B" "insert d T \<subseteq> B" "B \<subseteq> set (dict_keys G)"
    using 1 2 unfolding search_step_def by blast+
  ultimately show ?thesis unfolding search_step_def by blast
qed

lemma search_root:
  assumes "search_step G (set (entry_depends G t)) (insert t B) B'"
  shows "search_step G {t} B B'"
proof -
  have "(t, x) \<in> (dep_rel G)\<^sup>*" if x: "x \<in> B' - B" for x
  proof (cases "x = t")
    case False
    with x assms obtain d where "d \<in> set (entry_depends G t)" "(d, x) \<in> (dep_rel G)\<^sup>*"
      unfolding search_step_def by blast
    then show ?thesis by (auto simp: dep_rel_def intro: converse_rtrancl_into_rtrancl)
  qed simp
  moreover have "d \<in> B'" if "x \<in> B' - B" "d \<in> set (entry_depends G x)" for x d
    using that assms unfolding search_step_def by (cases "x = t") blast+
  moreover have "B \<subseteq> B'" "t \<in> B'" "B' \<subseteq> set (dict_keys G)"
    using assms unfolding search_step_def by blast+
  ultimately show ?thesis unfolding search_step_def by blast
qed

lemma mark_active_search:
  assumes "closed_graph G"
  shows "set build \<subseteq> set (dict_keys G) \<Longrightarrow> tid \<in> set (dict_keys G) \<Longrightarrow>
    card (set (dict_keys G) - set build) \<le> n \<Longrightarrow>
    \<exists>b. mark_active n G tid build = Inr b \<and> search_step G {tid} (set build) (set b)"
proof (induction n arbitrary: tid build)
  case 0
  then have "set (dict_keys G) - set build = {}" by simp
  with 0 have "tid \<in> set build" by blast
  with 0 show ?case by (simp add: mark_active.simps search_step_def)
next
  case (Suc n)
  show ?case
  proof (cases "tid \<in> set build")
    case True
    with Suc.prems show ?thesis by (simp add: mark_active.simps search_step_def)
  next
    case False
    obtain e where e: "map_of G tid = Some e" using Suc.prems(2) by (metis has_key_def has_key_map_of option.exhaust)
    then have ds: "entry_depends G tid = rt_depends e" by (simp add: entry_depends_def)
    have "set (dict_keys G) - set (build @ [tid]) = set (dict_keys G) - set build - {tid}" by auto
    then have card: "card (set (dict_keys G) - set (build @ [tid])) \<le> n"
      using Suc.prems(2,3) False by simp
    have loop: "set D \<subseteq> set (rt_depends e) \<Longrightarrow> set b0 \<subseteq> set (dict_keys G) \<Longrightarrow>
        card (set (dict_keys G) - set b0) \<le> n \<Longrightarrow>
        \<exists>b. res_fold (mark_active n G) D b0 = Inr b \<and> search_step G (set D) (set b0) (set b)" for D b0
    proof (induction D arbitrary: b0)
      case Nil
      then show ?case by (auto simp: search_step_def)
    next
      case (Cons d D)
      have "d \<in> set (dict_keys G)" using assms Cons.prems(1) ds unfolding closed_graph_def by (metis list.set_intros(1) subset_iff)
      with Suc.IH[OF Cons.prems(2) this Cons.prems(3)] obtain b1 where
        b1: "mark_active n G d b0 = Inr b1" "search_step G {d} (set b0) (set b1)" by blast
      then have sub: "set b0 \<subseteq> set b1" "set b1 \<subseteq> set (dict_keys G)" by (auto simp: search_step_def)
      have "card (set (dict_keys G) - set b1) \<le> n"
        by (rule order_trans[OF card_mono Cons.prems(3)]) (use sub in auto)
      with Cons.IH[OF _ sub(2) this] Cons.prems(1) obtain b where
        b: "res_fold (mark_active n G) D b1 = Inr b" "search_step G (set D) (set b1) (set b)" by auto
      have "search_step G (set (d # D)) (set b0) (set b)"
        using search_cons[OF b1(2) b(2)] by simp
      with b1(1) b(1) show ?case by auto
    qed
    have "set (build @ [tid]) \<subseteq> set (dict_keys G)" using Suc.prems by simp
    from loop[OF order_refl this card] obtain b where
      b: "res_fold (mark_active n G) (rt_depends e) (build @ [tid]) = Inr b"
        "search_step G (set (rt_depends e)) (set (build @ [tid])) (set b)" by blast
    have "search_step G {tid} (set build) (set b)"
      by (rule search_root) (use b(2) ds in simp)
    with b(1) False e show ?thesis by (simp add: mark_active.simps)
  qed
qed

text \<open>C15: marking a task as active marks exactly the tasks it reaches through its
  dependencies, on top of what was marked before; it ends, and does not fail, on every graph
  whose dependencies have entries, circles included.\<close>

theorem mark_active_reachable:
  assumes "closed_graph G" and "tid \<in> set (dict_keys G)"
    and "set build \<subseteq> set (dict_keys G)" and "closed_in G (set build)"
  shows "\<exists>b. mark_active (Suc (length G)) G tid build = Inr b \<and>
    set b = set build \<union> {x. (tid, x) \<in> (dep_rel G)\<^sup>*} \<and> closed_in G (set b)"
proof -
  have "card (set (dict_keys G) - set build) \<le> card (set (dict_keys G))" by (rule card_mono) auto
  also have "\<dots> \<le> Suc (length G)" using card_length[of "dict_keys G"] by simp
  finally obtain b where b: "mark_active (Suc (length G)) G tid build = Inr b"
    "search_step G {tid} (set build) (set b)"
    using mark_active_search[OF assms(1,3,2)] by blast
  then have cl: "closed_in G (set b)" using assms(4) unfolding search_step_def closed_in_def by (meson DiffI subset_iff)
  have "x \<in> set b" if "(tid, x) \<in> (dep_rel G)\<^sup>*" for x
    using closed_in_reach[OF that cl] b(2) by (auto simp: search_step_def)
  then have "set b = set build \<union> {x. (tid, x) \<in> (dep_rel G)\<^sup>*}"
    using b(2) unfolding search_step_def by blast
  with b(1) cl show ?thesis by blast
qed

section \<open>Pruning keeps the graph closed\<close>

definition prep_ok :: "'s prep_state \<Rightarrow> bool" where
  "prep_ok s \<longleftrightarrow> closed_graph (pp_entries s) \<and> closed_in (pp_entries s) (set (pp_build s)) \<and>
     set (pp_build s) \<subseteq> set (dict_keys (pp_entries s))"

lemma keeps_mark: "keeps prep_ok (mark tid)"
  unfolding mark_def
proof (rule keepsI, simp add: act_simps split: sum.split, intro allI impI)
  fix s :: "'a prep_state" and b
  let ?G = "pp_entries s"
  assume ok: "prep_ok s" and run: "mark_active (Suc (length ?G)) ?G tid (pp_build s) = Inr b"
  show "prep_ok (s\<lparr>pp_build := b\<rparr>)"
  proof (cases "tid \<in> set (dict_keys ?G) \<or> tid \<in> set (pp_build s)")
    case True
    then have "tid \<in> set (dict_keys ?G)" using ok by (auto simp: prep_ok_def)
    from mark_active_search[OF _ _ this, of "pp_build s" "Suc (length ?G)"] ok run
    have st: "search_step ?G {tid} (set (pp_build s)) (set b)"
      using card_mono[of "set (dict_keys ?G)" "set (dict_keys ?G) - set (pp_build s)"] card_length[of "dict_keys ?G"]
      by (force simp: prep_ok_def)
    then show ?thesis using ok unfolding prep_ok_def search_step_def closed_in_def by (simp, blast)
  next
    case False
    then have "map_of ?G tid = None" by (simp add: map_of_eq_None_iff)
    then show ?thesis using False run by (simp add: mark_active.simps)
  qed
qed

lemma keeps_same:
  "(\<And>s. pp_entries (f s) = pp_entries s \<and> pp_build (f s) = pp_build s) \<Longrightarrow> keeps prep_ok (act_modify f)"
  by (rule keeps_modify) (simp add: prep_ok_def)

lemma keeps_on_siggen: "keeps prep_ok (on_siggen m)"
  unfolding on_siggen_def by (rule keeps_zoom) (simp add: prep_ok_def)

lemma keeps_invalidate: "keeps prep_ok (invalidate_task sg cfg tid err)"
  unfolding invalidate_task_def
  by (auto intro!: keeps_bind keeps_lift keeps_gets keeps_if keeps_when keeps_raise keeps_on_siggen split: prod.split)

lemma keeps_mark_target: "keeps prep_ok (mark_target t)"
  unfolding mark_target_def add_target_tid_def Let_def
  by (auto intro!: keeps_bind keeps_lift keeps_gets keeps_if keeps_return keeps_then keeps_raise keeps_for
      keeps_mark keeps_same split: prod.split)

lemma filter_map_of:
  "wf_dict G \<Longrightarrow> map_of (filter (\<lambda>(t, e). P t) G) t = (if P t then map_of G t else None)"
  by (induction G) (auto simp: map_of_eq_None_iff image_iff split: if_splits)

lemma keeps_prune: "keeps prep_ok prune"
  unfolding prune_def
proof (rule keeps_modify)
  fix s :: "'a prep_state"
  assume ok: "prep_ok s"
  let ?G = "pp_entries s" and ?B = "set (pp_build s)"
  let ?G' = "filter (\<lambda>(tid, e). tid \<in> ?B) ?G"
  have wf: "wf_dict ?G" using ok by (simp add: prep_ok_def closed_graph_def)
  then have wf': "wf_dict ?G'" by (simp add: distinct_map inj_on_def)
  have dep: "entry_depends ?G' t = (if t \<in> ?B then entry_depends ?G t else [])" for t
    using filter_map_of[OF wf, of "\<lambda>t. t \<in> ?B" t] by (simp add: entry_depends_def)
  have keys: "set (dict_keys ?G') = ?B" using ok by (force simp: prep_ok_def)
  show "prep_ok (s\<lparr>pp_entries := ?G'\<rparr>)"
    using ok wf' keys by (auto simp: prep_ok_def closed_graph_def closed_in_def dep)
qed

lemma keeps_reset: "keeps prep_ok (act_modify (\<lambda>s. s\<lparr>pp_build := []\<rparr>))"
  by (rule keeps_modify) (simp add: prep_ok_def closed_in_def)

lemma keeps_runall: "keeps prep_ok (runall_loop n sg cfg orig)"
proof (induction n arbitrary: orig)
  case (Suc n)
  have "keeps prep_ok (runall_tasks sg cfg reduced tasks wanted)" for reduced tasks wanted
    by (induction tasks arbitrary: wanted)
      (auto simp: runall_task_def add_target_tid_def intro!: keeps_bind keeps_return keeps_gets keeps_then keeps_for
        keeps_mark keeps_when keeps_invalidate keeps_same)
  with Suc show ?case by (auto intro!: keeps_bind keeps_gets keeps_then keeps_reset keeps_if keeps_return)
qed (simp add: keeps_raise)

lemma keeps_step_c: "keeps prep_ok (step_c sg cfg)"
  unfolding step_c_def require_tasks_def runonly_task_def
  by (intro keeps_bind keeps_gets keeps_lift keeps_then keeps_when keeps_reset keeps_prune keeps_raise
      keeps_for keeps_runall keeps_mark keeps_invalidate)

lemma prune_keys: "set (pp_build s) \<subseteq> set (dict_keys (pp_entries s)) \<Longrightarrow>
    set (dict_keys (pp_entries (snd (prune s)))) = set (pp_build s)"
  by (auto simp: prune_def act_simps) force

text \<open>C4: whatever targets, runall and runonly options are given, marking and pruning
  leave a graph in which every dependency of a task to run is itself a task to run.\<close>

theorem pruned_graph_closed:
  assumes "closed_graph (pp_entries s)" and "pp_build s = []"
    and "act_then (act_for (cf_targets cfg) mark_target) (step_c sg cfg) s = (Inr (), s')"
  shows "closed_graph (pp_entries s')"
proof -
  have "keeps prep_ok (act_then (act_for (cf_targets cfg) mark_target) (step_c sg cfg))"
    by (intro keeps_then keeps_for keeps_mark_target keeps_step_c)
  moreover have "prep_ok s" using assms(1,2) by (simp add: prep_ok_def closed_in_def)
  ultimately have "prep_ok s'" using assms(3) by (rule keeps_run)
  then show ?thesis by (simp add: prep_ok_def)
qed

section \<open>Weights\<close>

text \<open>A graph whose reverse dependencies are those of \<open>add_revdeps\<close>\<close>

definition linked_graph :: "graph \<Rightarrow> bool" where
  "linked_graph G \<longleftrightarrow> closed_graph G \<and>
     (\<forall>t \<in> set (dict_keys G). distinct (entry_depends G t) \<and> distinct (entry_revdeps G t) \<and>
        set (entry_revdeps G t) = {r. (r, t) \<in> dep_rel G})"

definition graph_endpoints :: "graph \<Rightarrow> string list" where
  "graph_endpoints G = filter (\<lambda>t. entry_revdeps G t = []) (dict_keys G)"

lemma linked_distinct:
  assumes "linked_graph G" and "t \<in> set (dict_keys G)"
  shows "distinct (entry_depends G t)" "distinct (entry_revdeps G t)"
  using assms unfolding linked_graph_def by blast+

lemma linked_depends:
  assumes "linked_graph G" and "d \<in> set (entry_depends G t)"
  shows "t \<in> set (dict_keys G)" "d \<in> set (dict_keys G)" "t \<in> set (entry_revdeps G d)"
proof -
  show "d \<in> set (dict_keys G)" using assms by (auto simp: linked_graph_def closed_graph_def)
  with assms show "t \<in> set (entry_revdeps G d)" by (auto simp: linked_graph_def dep_rel_def)
  show "t \<in> set (dict_keys G)"
    using assms(2) has_key_Some[of G t] by (force simp: entry_depends_def has_key_def split: option.splits)
qed

lemma linked_revdeps:
  assumes "linked_graph G" and "t \<in> set (dict_keys G)" and "r \<in> set (entry_revdeps G t)"
  shows "t \<in> set (entry_depends G r)" "r \<in> set (dict_keys G)"
proof -
  show "t \<in> set (entry_depends G r)" using assms by (auto simp: linked_graph_def dep_rel_def)
  with assms(1) show "r \<in> set (dict_keys G)" by (rule linked_depends)
qed

text \<open>The inner loop in closed form\<close>

lemma weight_edges:
  assumes "distinct D" and "tid \<notin> set D" and "map_of (wt_weight w) tid = Some x"
    and "\<And>d. d \<in> set D \<Longrightarrow> map_of (wt_weight w) d = Some (wt d) \<and> map_of (wt_left w) d = Some (l d)"
  shows "\<exists>w'. res_fold (weight_edge tid) D (w, next) = Inr (w', next @ filter (\<lambda>d. l d = 1) D) \<and>
    map_of (wt_weight w') = (\<lambda>d. if d \<in> set D then Some (wt d + x) else map_of (wt_weight w) d) \<and>
    map_of (wt_left w') = (\<lambda>d. if d \<in> set D then Some (l d - 1) else map_of (wt_left w) d) \<and>
    map_of (wt_done w') = (\<lambda>d. if d \<in> set D \<and> l d = 1 then Some True else map_of (wt_done w) d)"
  using assms
proof (induction D arbitrary: w "next")
  case (Cons d D)
  define w1 where "w1 = w\<lparr>wt_weight := AList.update d (wt d + x) (wt_weight w),
    wt_left := AList.update d (l d - 1) (wt_left w)\<rparr>"
  define w2 where "w2 = (if l d = 1 then w1\<lparr>wt_done := AList.update d True (wt_done w1)\<rparr> else w1)"
  have step: "weight_edge tid d (w, next) = Inr (w2, next @ (if l d = 1 then [d] else []))"
    using Cons.prems(3,4) by (simp add: weight_edge_def w1_def w2_def Let_def)
  have m: "map_of (wt_weight w2) = (map_of (wt_weight w))(d \<mapsto> wt d + x)"
    "map_of (wt_left w2) = (map_of (wt_left w))(d \<mapsto> l d - 1)"
    "map_of (wt_done w2) = (if l d = 1 then (map_of (wt_done w))(d \<mapsto> True) else map_of (wt_done w))"
    by (simp_all add: w2_def w1_def update_conv')
  have "\<exists>w'. res_fold (weight_edge tid) D (w2, next @ (if l d = 1 then [d] else [])) =
      Inr (w', (next @ (if l d = 1 then [d] else [])) @ filter (\<lambda>d. l d = 1) D) \<and>
    map_of (wt_weight w') = (\<lambda>d. if d \<in> set D then Some (wt d + x) else map_of (wt_weight w2) d) \<and>
    map_of (wt_left w') = (\<lambda>d. if d \<in> set D then Some (l d - 1) else map_of (wt_left w2) d) \<and>
    map_of (wt_done w') = (\<lambda>d. if d \<in> set D \<and> l d = 1 then Some True else map_of (wt_done w2) d)"
    by (rule Cons.IH) (use Cons.prems in \<open>auto simp: m\<close>)
  then obtain w' where w': "res_fold (weight_edge tid) D (w2, next @ (if l d = 1 then [d] else [])) =
      Inr (w', next @ filter (\<lambda>d. l d = 1) (d # D))"
    "map_of (wt_weight w') = (\<lambda>d. if d \<in> set D then Some (wt d + x) else map_of (wt_weight w2) d)"
    "map_of (wt_left w') = (\<lambda>d. if d \<in> set D then Some (l d - 1) else map_of (wt_left w2) d)"
    "map_of (wt_done w') = (\<lambda>d. if d \<in> set D \<and> l d = 1 then Some True else map_of (wt_done w2) d)"
    by auto
  have "d \<notin> set D" using Cons.prems(1) by simp
  with w'(2-4) have
    "map_of (wt_weight w') = (\<lambda>e. if e \<in> set (d # D) then Some (wt e + x) else map_of (wt_weight w) e)"
    "map_of (wt_left w') = (\<lambda>e. if e \<in> set (d # D) then Some (l e - 1) else map_of (wt_left w) e)"
    "map_of (wt_done w') = (\<lambda>e. if e \<in> set (d # D) \<and> l e = 1 then Some True else map_of (wt_done w) e)"
    by (auto simp: m fun_eq_iff)
  with step w'(1) show ?case by auto
qed auto

text \<open>
  The invariant of the walk: \<open>P\<close> are the tasks whose edges are counted, \<open>R\<close> those found
  ready and not yet counted.
\<close>

definition weight_inv :: "graph \<Rightarrow> string set \<Rightarrow> string list \<Rightarrow> weights \<Rightarrow> bool" where
  "weight_inv G P R w \<longleftrightarrow> distinct R \<and> set R \<inter> P = {} \<and>
     P \<union> set R = {d \<in> set (dict_keys G). set (entry_revdeps G d) \<subseteq> P} \<and>
     (\<forall>d \<in> set (dict_keys G).
        map_of (wt_left w) d = Some (int (card (set (entry_revdeps G d) - P))) \<and>
        map_of (wt_done w) d = Some (set (entry_revdeps G d) \<subseteq> P) \<and>
        (\<exists>x \<ge> 1. map_of (wt_weight w) d = Some x \<and>
          (\<forall>r \<in> set (entry_revdeps G d) \<inter> P. \<exists>y < x. map_of (wt_weight w) r = Some y)))"

lemma weight_inv_sets:
  assumes "weight_inv G P R w"
  shows "distinct R" "set R \<inter> P = {}" "P \<union> set R = {d \<in> set (dict_keys G). set (entry_revdeps G d) \<subseteq> P}"
  using assms unfolding weight_inv_def by blast+

lemma card_minus_insert:
  "finite A \<Longrightarrow> t \<in> A \<Longrightarrow> t \<notin> P \<Longrightarrow> int (card (A - insert t P)) = int (card (A - P)) - 1"
proof -
  assume *: "finite A" "t \<in> A" "t \<notin> P"
  then have "A - P = insert t (A - insert t P)" by blast
  with * have "card (A - P) = Suc (card (A - insert t P))" by (metis Diff_iff card_insert_disjoint finite_Diff insertI1)
  then show ?thesis by simp
qed

lemma card_minus_one:
  assumes "finite A" and "t \<in> A" and "t \<notin> P"
  shows "card (A - P) = 1 \<longleftrightarrow> A \<subseteq> insert t P"
proof
  assume "card (A - P) = 1"
  then obtain y where "A - P = {y}" by (rule card_1_singletonE)
  with assms have "A - P = {t}" by auto
  then show "A \<subseteq> insert t P" by blast
next
  assume "A \<subseteq> insert t P"
  with assms have "A - P = {t}" by blast
  then show "card (A - P) = 1" by simp
qed

lemma weight_point_step:
  assumes G: "linked_graph G" and inv: "weight_inv G P (t # R) w"
  shows "\<exists>w' new. weight_point G t (w, N) = Inr (w', N @ new) \<and> weight_inv G (insert t P) (R @ new) w'"
proof -
  let ?V = "set (dict_keys G)" and ?rev = "\<lambda>d. set (entry_revdeps G d)" and ?D = "entry_depends G t"
  have t: "t \<in> ?V" "t \<notin> P" "?rev t \<subseteq> P" using inv unfolding weight_inv_def by auto
  then obtain e where e: "map_of G t = Some e" by (metis has_key_def has_key_map_of option.exhaust)
  have tD: "t \<notin> set ?D" using linked_depends(3)[OF G, of t t] t by blast
  have dist: "distinct ?D" using linked_distinct(1)[OF G t(1)] .
  have DV: "d \<in> ?V" "t \<in> ?rev d" if "d \<in> set ?D" for d using linked_depends[OF G that] by auto
  have notD: "t \<notin> ?rev d" if "d \<in> ?V" "d \<notin> set ?D" for d using linked_revdeps(1)[OF G that(1)] that(2) by blast
  have DP: "d \<notin> P" if "d \<in> set ?D" for d
    using DV[OF that] t(2) inv unfolding weight_inv_def by blast
  define wt where "wt = (\<lambda>d. the (map_of (wt_weight w) d))"
  define l where "l = (\<lambda>d. int (card (?rev d - P)))"
  have wt: "map_of (wt_weight w) d = Some (wt d)" "wt d \<ge> 1" if "d \<in> ?V" for d
    using inv that unfolding weight_inv_def wt_def by force+
  have left: "map_of (wt_left w) d = Some (l d)" if "d \<in> ?V" for d
    using inv that unfolding weight_inv_def l_def by blast
  have dn: "map_of (wt_done w) d = Some (?rev d \<subseteq> P)" if "d \<in> ?V" for d
    using inv that unfolding weight_inv_def by blast
  have less: "wt r < wt d" if "d \<in> ?V" "r \<in> ?rev d" "r \<in> P" for d r
  proof -
    from inv that obtain x y where "map_of (wt_weight w) d = Some x" "map_of (wt_weight w) r = Some y" "y < x"
      unfolding weight_inv_def by blast
    then show ?thesis by (simp add: wt_def)
  qed
  have ready: "P \<union> insert t (set R) = {d \<in> ?V. ?rev d \<subseteq> P}" using weight_inv_sets(3)[OF inv] by (simp only: list.set)
  have R: "distinct R" "t \<notin> set R" "set R \<inter> P = {}" using weight_inv_sets(1,2)[OF inv] by simp_all
  obtain w' where run: "res_fold (weight_edge t) ?D (w, N) = Inr (w', N @ filter (\<lambda>d. l d = 1) ?D)"
    and m: "map_of (wt_weight w') = (\<lambda>d. if d \<in> set ?D then Some (wt d + wt t) else map_of (wt_weight w) d)"
     "map_of (wt_left w') = (\<lambda>d. if d \<in> set ?D then Some (l d - 1) else map_of (wt_left w) d)"
     "map_of (wt_done w') = (\<lambda>d. if d \<in> set ?D \<and> l d = 1 then Some True else map_of (wt_done w) d)"
    using weight_edges[OF dist tD wt(1)[OF t(1)], of wt l N] wt left DV(1) by blast
  let ?new = "filter (\<lambda>d. l d = 1) ?D"
  have one: "l d = 1 \<longleftrightarrow> ?rev d \<subseteq> insert t P" if "d \<in> set ?D" for d
    using card_minus_one[of "?rev d" t P] DV(2)[OF that] t(2) by (simp add: l_def)
  have same: "?rev d \<subseteq> insert t P \<longleftrightarrow> ?rev d \<subseteq> P" if "d \<in> ?V" "d \<notin> set ?D" for d
    using notD[OF that] by blast
  have notsub: "\<not> ?rev d \<subseteq> P" if "d \<in> set ?D" for d using DV(2)[OF that] t(2) by blast
  have sets: "insert t P \<union> set (R @ ?new) = {d \<in> ?V. ?rev d \<subseteq> insert t P}" (is "?L = ?S")
  proof (rule set_eqI)
    fix d
    show "d \<in> ?L \<longleftrightarrow> d \<in> ?S"
    proof (cases "d \<in> set ?D")
      case True
      then show ?thesis using one[OF True] DV(1)[OF True] notsub[OF True] ready by auto
    next
      case False
      then have "d \<in> ?L \<longleftrightarrow> d \<in> P \<union> insert t (set R)" by auto
      also have "\<dots> \<longleftrightarrow> d \<in> ?S" unfolding ready using same False by blast
      finally show ?thesis .
    qed
  qed
  have DR: "d \<notin> set R" if "d \<in> set ?D" for d using ready notsub[OF that] by blast
  have disj: "distinct (R @ ?new)" "set (R @ ?new) \<inter> insert t P = {}"
    using R dist DP tD DR by auto
  have "map_of (wt_left w') d = Some (int (card (?rev d - insert t P)))" if "d \<in> ?V" for d
  proof (cases "d \<in> set ?D")
    case True
    then show ?thesis using card_minus_insert[of "?rev d" t P] DV(2)[OF True] t(2) by (simp add: m(2) l_def)
  next
    case False
    have "?rev d - insert t P = ?rev d - P" using notD[OF that False] by blast
    with False show ?thesis using left[OF that] by (simp add: m(2) l_def)
  qed
  moreover have "map_of (wt_done w') d = Some (?rev d \<subseteq> insert t P)" if "d \<in> ?V" for d
    using one[of d] same[OF that] dn[OF that] notsub[of d] by (auto simp: m(3))
  moreover have "\<exists>x \<ge> 1. map_of (wt_weight w') d = Some x \<and>
      (\<forall>r \<in> ?rev d \<inter> insert t P. \<exists>y < x. map_of (wt_weight w') r = Some y)" if d: "d \<in> ?V" for d
  proof -
    have val: "map_of (wt_weight w') r = Some (wt r)" if "r \<in> insert t P" "r \<in> ?V" for r
      using that DP tD wt(1)[OF that(2)] by (auto simp: m(1))
    let ?x = "if d \<in> set ?D then wt d + wt t else wt d"
    have "map_of (wt_weight w') d = Some ?x" using wt(1)[OF d] by (simp add: m(1))
    moreover have "?x \<ge> 1" using wt(2)[OF d] wt(2)[OF t(1)] by simp
    moreover have "wt r < ?x" if r: "r \<in> ?rev d" "r \<in> insert t P" for r
    proof (cases "r = t")
      case True
      then have "d \<in> set ?D" using notD[OF d] r by blast
      with True show ?thesis using wt(2)[OF d] by simp
    next
      case False
      with r less[OF d r(1)] wt(2)[OF t(1)] show ?thesis by auto
    qed
    ultimately show ?thesis using val linked_revdeps(2)[OF G d] by blast
  qed
  ultimately have "weight_inv G (insert t P) (R @ ?new) w'"
    using sets disj unfolding weight_inv_def by blast
  moreover have "weight_point G t (w, N) = Inr (w', N @ ?new)"
    using run e by (simp add: weight_point_def entry_depends_def)
  ultimately show ?thesis by blast
qed

lemma weight_round:
  assumes "linked_graph G" and "weight_inv G P (F @ N) w"
  shows "\<exists>w' N'. res_fold (weight_point G) F (w, N) = Inr (w', N') \<and> weight_inv G (P \<union> set F) N' w'"
  using assms(2)
proof (induction F arbitrary: P N w)
  case (Cons t F)
  from weight_point_step[OF assms(1), of P t "F @ N" w N] Cons.prems obtain w' new where
    1: "weight_point G t (w, N) = Inr (w', N @ new)" "weight_inv G (insert t P) (F @ N @ new) w'" by auto
  from Cons.IH[OF 1(2)] 1(1) show ?case by auto
qed auto

lemma weight_inv_subset: "weight_inv G P R w \<Longrightarrow> P \<union> set R \<subseteq> set (dict_keys G)"
  unfolding weight_inv_def by blast

lemma weight_loop_inv:
  assumes "linked_graph G"
  shows "weight_inv G P F w \<Longrightarrow> card (set (dict_keys G) - P) < n \<Longrightarrow>
    \<exists>w' P'. weight_loop n G F w = Inr w' \<and> weight_inv G P' [] w'"
proof (induction n arbitrary: P F w)
  case (Suc n)
  from weight_round[OF assms, of P F "[]" w] Suc.prems(1) obtain w' N' where
    r: "res_fold (weight_point G) F (w, []) = Inr (w', N')" "weight_inv G (P \<union> set F) N' w'" by auto
  show ?case
  proof (cases "N' = []")
    case True
    with r show ?thesis by auto
  next
    case False
    with r(1) have "F \<noteq> []" by auto
    then obtain t where t: "t \<in> set F" by (cases F) auto
    then have "t \<notin> P" "t \<in> set (dict_keys G)" using Suc.prems(1) weight_inv_subset unfolding weight_inv_def by blast+
    with t have "set (dict_keys G) - (P \<union> set F) \<subset> set (dict_keys G) - P" by blast
    then have "card (set (dict_keys G) - (P \<union> set F)) < card (set (dict_keys G) - P)"
      by (intro psubset_card_mono) auto
    with Suc.prems(2) have "card (set (dict_keys G) - (P \<union> set F)) < n" by simp
    from Suc.IH[OF r(2) this] r(1) False show ?thesis by simp
  qed
qed simp

lemma map_of_fold_update:
  "map_of (fold (\<lambda>t. AList.update t x) ts d) k = (if k \<in> set ts then Some x else map_of d k)"
  by (induction ts arbitrary: d) (auto simp: update_conv')

lemma map_of_entries:
  "map_of (List.map (\<lambda>(t, e). (t, f e)) G) k = map_option f (map_of G k)"
  by (induction G) auto

lemma initial_weights_inv:
  assumes "linked_graph G"
  shows "weight_inv G {} (graph_endpoints G) (initial_weights G (graph_endpoints G))"
proof -
  have wf: "wf_dict G" using assms by (simp add: linked_graph_def closed_graph_def)
  have entry: "\<exists>e. map_of G d = Some e \<and> entry_revdeps G d = rt_revdeps e" if "d \<in> set (dict_keys G)" for d
  proof -
    from that obtain e where "map_of G d = Some e" by (metis has_key_def has_key_map_of option.exhaust)
    then show ?thesis by (simp add: entry_revdeps_def)
  qed
  have dist: "distinct (entry_revdeps G d)" if "d \<in> set (dict_keys G)" for d
    using linked_distinct(2)[OF assms that] .
  have rows: "map_of (wt_left (initial_weights G (graph_endpoints G))) d =
        Some (int (card (set (entry_revdeps G d) - {}))) \<and>
      map_of (wt_done (initial_weights G (graph_endpoints G))) d = Some (set (entry_revdeps G d) \<subseteq> {}) \<and>
      (\<exists>x \<ge> 1. map_of (wt_weight (initial_weights G (graph_endpoints G))) d = Some x \<and>
        (\<forall>r \<in> set (entry_revdeps G d) \<inter> {}. \<exists>y < x. map_of (wt_weight (initial_weights G (graph_endpoints G))) r = Some y))"
    if d: "d \<in> set (dict_keys G)" for d
  proof -
    from entry[OF d] obtain e where e: "map_of G d = Some e" "entry_revdeps G d = rt_revdeps e" by blast
    with dist[OF d] have "length (rt_revdeps e) = card (set (rt_revdeps e))" by (simp add: distinct_card)
    with e d show ?thesis
      by (simp add: initial_weights_def map_of_fold_update map_of_entries graph_endpoints_def)
  qed
  have "distinct (graph_endpoints G)" "{} \<union> set (graph_endpoints G) = {d \<in> set (dict_keys G). set (entry_revdeps G d) \<subseteq> {}}"
    using wf by (auto simp: graph_endpoints_def)
  with rows show ?thesis unfolding weight_inv_def by blast
qed

lemma weights_acyclic:
  assumes "linked_graph G" and "weight_inv G P [] w"
  shows "P = set (dict_keys G) \<longleftrightarrow> acyclic (dep_rel G)"
proof
  assume P: "P = set (dict_keys G)"
  have "\<exists>x y. map_of (wt_weight w) a = Some x \<and> map_of (wt_weight w) b = Some y \<and> x < y" if "(a, b) \<in> dep_rel G" for a b
  proof -
    have "b \<in> set (entry_depends G a)" using that by (simp add: dep_rel_def)
    then have "a \<in> set (dict_keys G)" "b \<in> set (dict_keys G)" "a \<in> set (entry_revdeps G b)"
      using linked_depends[OF assms(1)] by auto
    with assms(2) P show ?thesis unfolding weight_inv_def by blast
  qed
  then have "dep_rel G \<subseteq> inv_image {(x, y). x < y} (\<lambda>t. the (map_of (wt_weight w) t))" by fastforce
  moreover have "acyclic (inv_image {(x, y). x < y} (\<lambda>t. the (map_of (wt_weight w) t)))"
  proof -
    have "trans (inv_image {(x, y). x < y} (\<lambda>t. the (map_of (wt_weight w) t)))" by (rule trans_inv_image) (auto intro: transI)
    then show ?thesis by (auto simp: acyclic_def)
  qed
  ultimately show "acyclic (dep_rel G)" by (rule acyclic_subset[rotated])
next
  assume ac: "acyclic (dep_rel G)"
  let ?V = "set (dict_keys G)"
  have "dep_rel G \<subseteq> ?V \<times> ?V" using linked_depends[OF assms(1)] by (auto simp: dep_rel_def)
  then have "finite (dep_rel G)" by (rule finite_subset) simp
  then have wf: "wf (dep_rel G)" using ac by (rule finite_acyclic_wf)
  have P: "P = {d \<in> ?V. set (entry_revdeps G d) \<subseteq> P}" using assms(2) unfolding weight_inv_def by simp
  have "d \<in> P" if "d \<in> ?V" for d
    using wf that
  proof (induction d rule: wf_induct_rule)
    case (less d)
    have "r \<in> P" if "r \<in> set (entry_revdeps G d)" for r
      using less.IH[of r] linked_revdeps[OF assms(1) less.prems that] by (auto simp: dep_rel_def)
    with less.prems P show ?case by blast
  qed
  with P show "P = ?V" by blast
qed

lemma task_weights_facts:
  assumes "linked_graph G"
  shows "\<exists>weight problems. task_weights G (graph_endpoints G) = Inr (weight, problems) \<and>
    (problems = [] \<longleftrightarrow> acyclic (dep_rel G)) \<and>
    (problems = [] \<longrightarrow> (\<forall>t d. d \<in> set (entry_depends G t) \<longrightarrow>
       (\<exists>x y. map_of weight t = Some x \<and> map_of weight d = Some y \<and> 1 \<le> x \<and> x < y)))"
proof -
  have "card (set (dict_keys G) - {}) < length G + 1" using card_length[of "dict_keys G"] by simp
  from weight_loop_inv[OF assms initial_weights_inv[OF assms] this] obtain w P where
    w: "weight_loop (length G + 1) G (graph_endpoints G) (initial_weights G (graph_endpoints G)) = Inr w"
      "weight_inv G P [] w" by blast
  let ?bad = "filter (\<lambda>tid. map_of (wt_done w) tid = Some False \<or> map_of (wt_left w) tid \<noteq> Some 0) (dict_keys G)"
  have run: "task_weights G (graph_endpoints G) = Inr (wt_weight w, ?bad)" using w(1) by (simp add: task_weights_def)
  have P: "P = {d \<in> set (dict_keys G). set (entry_revdeps G d) \<subseteq> P}" using w(2) unfolding weight_inv_def by simp
  have rows: "map_of (wt_left w) d = Some (int (card (set (entry_revdeps G d) - P))) \<and>
      map_of (wt_done w) d = Some (set (entry_revdeps G d) \<subseteq> P)" if "d \<in> set (dict_keys G)" for d
    using w(2) that unfolding weight_inv_def by blast
  have "set ?bad = set (dict_keys G) - P"
  proof (rule set_eqI)
    fix d
    have "card (set (entry_revdeps G d) - P) = 0 \<longleftrightarrow> set (entry_revdeps G d) \<subseteq> P" by auto
    then have "d \<in> set ?bad \<longleftrightarrow> d \<in> set (dict_keys G) \<and> \<not> set (entry_revdeps G d) \<subseteq> P"
      using rows by (cases "d \<in> set (dict_keys G)") auto
    then show "d \<in> set ?bad \<longleftrightarrow> d \<in> set (dict_keys G) - P" using P by blast
  qed
  then have "?bad = [] \<longleftrightarrow> set (dict_keys G) - P = {}" by (simp only: set_empty[symmetric])
  moreover have "P \<subseteq> set (dict_keys G)" using P by blast
  ultimately have bad: "?bad = [] \<longleftrightarrow> P = set (dict_keys G)" by blast
  have "\<exists>x y. map_of (wt_weight w) t = Some x \<and> map_of (wt_weight w) d = Some y \<and> 1 \<le> x \<and> x < y"
    if "?bad = []" and "d \<in> set (entry_depends G t)" for t d
  proof -
    have t: "t \<in> set (dict_keys G)" "d \<in> set (dict_keys G)" "t \<in> set (entry_revdeps G d)" using linked_depends[OF assms that(2)] .
    then have "t \<in> P" using bad that(1) by simp
    with t w(2) obtain x where "1 \<le> x" "map_of (wt_weight w) t = Some x" unfolding weight_inv_def by blast
    moreover from t \<open>t \<in> P\<close> w(2) obtain x' y where "map_of (wt_weight w) t = Some x'" "map_of (wt_weight w) d = Some y" "x' < y"
      unfolding weight_inv_def by blast
    ultimately show ?thesis by auto
  qed
  moreover have "?bad = [] \<longleftrightarrow> acyclic (dep_rel G)" using weights_acyclic[OF assms w(2)] bad by simp
  ultimately show ?thesis using run by blast
qed

text \<open>C3: the weights of the tasks are computed in at most one round per task and without
  an exception; the tasks reported as unbuildable are none exactly when the dependencies have
  no circle; and then a task always weighs more than each of the tasks that depend on it.\<close>

theorem task_weights_order:
  assumes "linked_graph G"
  shows "\<exists>weight problems. task_weights G (graph_endpoints G) = Inr (weight, problems) \<and>
    (problems = [] \<longleftrightarrow> acyclic (dep_rel G)) \<and>
    (problems = [] \<longrightarrow> (\<forall>t d. d \<in> set (entry_depends G t) \<longrightarrow>
       (\<exists>x y. map_of weight t = Some x \<and> map_of weight d = Some y \<and> 1 \<le> x \<and> x < y)))"
  by (rule task_weights_facts[OF assms])

section \<open>Reverse dependencies\<close>

text \<open>The invariant of \<open>add_revdeps\<close>: \<open>E\<close> are the edges that are recorded so far.\<close>

definition rev_inv :: "graph \<Rightarrow> (string \<times> string) set \<Rightarrow> graph \<Rightarrow> bool" where
  "rev_inv G E A \<longleftrightarrow> dict_keys A = dict_keys G \<and>
     (\<forall>t e. map_of G t = Some e \<longrightarrow> (\<exists>R. map_of A t = Some (e\<lparr>rt_revdeps := R\<rparr>) \<and>
        distinct R \<and> set R = {r. (r, t) \<in> E}))"

lemma dict_keys_update_old: "k \<in> set (dict_keys d) \<Longrightarrow> dict_keys (AList.update k v d) = dict_keys d"
  by (induction d) auto

lemma map_of_key: "k \<in> set (dict_keys d) \<Longrightarrow> \<exists>v. map_of d k = Some v"
  by (metis has_key_def has_key_map_of option.exhaust)

lemma rev_inv_step:
  assumes inv: "rev_inv G E A" and d: "d \<in> set (dict_keys G)"
  shows "\<exists>A'. res_bind (dict_get A d) (\<lambda>x. Inr (AList.update d (x\<lparr>rt_revdeps := set_add t (rt_revdeps x)\<rparr>) A)) = Inr A'
    \<and> rev_inv G (insert (t, d) E) A'"
proof -
  from map_of_key[OF d] obtain e where e: "map_of G d = Some e" ..
  with inv obtain R where R: "map_of A d = Some (e\<lparr>rt_revdeps := R\<rparr>)" "distinct R" "set R = {r. (r, d) \<in> E}"
    unfolding rev_inv_def by blast
  let ?A = "AList.update d (e\<lparr>rt_revdeps := set_add t R\<rparr>) A"
  have keys: "dict_keys ?A = dict_keys G" using inv d by (simp add: rev_inv_def dict_keys_update_old)
  have "\<exists>R'. map_of ?A x = Some (f\<lparr>rt_revdeps := R'\<rparr>) \<and> distinct R' \<and> set R' = {r. (r, x) \<in> insert (t, d) E}"
    if f: "map_of G x = Some f" for x f
  proof (cases "x = d")
    case True
    have "map_of ?A x = Some (f\<lparr>rt_revdeps := set_add t R\<rparr>)" using True e f by (simp add: update_conv')
    moreover have "distinct (set_add t R)" using R(2) by simp
    moreover have "set (set_add t R) = {r. (r, x) \<in> insert (t, d) E}" using R(3) True by auto
    ultimately show ?thesis by blast
  next
    case False
    then have "map_of ?A x = map_of A x" by (simp add: update_conv')
    moreover have "{r. (r, x) \<in> insert (t, d) E} = {r. (r, x) \<in> E}" using False by auto
    moreover from inv f obtain R' where "map_of A x = Some (f\<lparr>rt_revdeps := R'\<rparr>)" "distinct R'" "set R' = {r. (r, x) \<in> E}"
      unfolding rev_inv_def by blast
    ultimately show ?thesis by (intro exI[of _ R']) simp
  qed
  with keys have "rev_inv G (insert (t, d) E) ?A" unfolding rev_inv_def by blast
  with R(1) show ?thesis by simp
qed

lemma rev_inv_task:
  assumes "rev_inv G E A" and "set D \<subseteq> set (dict_keys G)"
  shows "\<exists>A'. res_fold (\<lambda>dep A. res_bind (dict_get A dep)
      (\<lambda>d. Inr (AList.update dep (d\<lparr>rt_revdeps := set_add t (rt_revdeps d)\<rparr>) A))) D A = Inr A' \<and>
    rev_inv G (E \<union> {t} \<times> set D) A'"
  using assms
proof (induction D arbitrary: E A)
  case (Cons d D)
  from rev_inv_step[OF Cons.prems(1), of d t] Cons.prems(2) obtain A1 where
    1: "res_bind (dict_get A d) (\<lambda>x. Inr (AList.update d (x\<lparr>rt_revdeps := set_add t (rt_revdeps x)\<rparr>) A)) = Inr A1"
      "rev_inv G (insert (t, d) E) A1" by auto
  have "insert (t, d) E \<union> {t} \<times> set D = E \<union> {t} \<times> set (d # D)" by auto
  with Cons.IH[OF 1(2)] Cons.prems(2) 1(1) show ?case by auto
qed auto

lemma rev_inv_tasks:
  assumes "rev_inv G E A" and "\<And>t e. (t, e) \<in> set L \<Longrightarrow> set (rt_depends e) \<subseteq> set (dict_keys G)"
  shows "\<exists>A'. res_fold (\<lambda>(tid, e) G. res_fold (\<lambda>dep G.
         res_bind (dict_get G dep) (\<lambda>d. Inr (AList.update dep (d\<lparr>rt_revdeps := set_add tid (rt_revdeps d)\<rparr>) G)))
         (rt_depends e) G) L A = Inr A' \<and>
    rev_inv G (E \<union> {(t, d). \<exists>e. (t, e) \<in> set L \<and> d \<in> set (rt_depends e)}) A'"
  using assms
proof (induction L arbitrary: E A)
  case (Cons p L)
  obtain t e where p: "p = (t, e)" by (cases p)
  from rev_inv_task[OF Cons.prems(1), of "rt_depends e" t] Cons.prems(2)[of t e] p obtain A1 where
    1: "res_fold (\<lambda>dep A. res_bind (dict_get A dep)
      (\<lambda>d. Inr (AList.update dep (d\<lparr>rt_revdeps := set_add t (rt_revdeps d)\<rparr>) A))) (rt_depends e) A = Inr A1"
      "rev_inv G (E \<union> {t} \<times> set (rt_depends e)) A1" by auto
  have "E \<union> {t} \<times> set (rt_depends e) \<union> {(t, d). \<exists>e. (t, e) \<in> set L \<and> d \<in> set (rt_depends e)} =
    E \<union> {(t, d). \<exists>e. (t, e) \<in> set (p # L) \<and> d \<in> set (rt_depends e)}" using p by auto
  moreover have "\<And>t e. (t, e) \<in> set L \<Longrightarrow> set (rt_depends e) \<subseteq> set (dict_keys G)"
    using Cons.prems(2) by (meson list.set_intros(2))
  ultimately show ?case using Cons.IH[OF 1(2)] 1(1) p by simp
qed auto

lemma entry_of: "wf_dict G \<Longrightarrow> (t, e) \<in> set G \<Longrightarrow> entry_depends G t = rt_depends e"
  by (simp add: entry_depends_def)

text \<open>C29: in a graph whose dependencies have entries, step D records the exact converse of
  the dependencies, each task once, and changes no dependency.\<close>

theorem add_revdeps_linked:
  assumes "closed_graph G" and "\<forall>(t, e) \<in> set G. distinct (rt_depends e) \<and> rt_revdeps e = []"
  shows "\<exists>G'. add_revdeps G = Inr G' \<and> linked_graph G' \<and> dep_rel G' = dep_rel G \<and>
    dict_keys G' = dict_keys G"
proof -
  have wf: "wf_dict G" using assms(1) by (simp add: closed_graph_def)
  have cl: "set (rt_depends e) \<subseteq> set (dict_keys G)" if "(t, e) \<in> set G" for t e
    using assms(1) entry_of[OF wf that] unfolding closed_graph_def by (metis subsetI)
  have "rev_inv G {} G"
  proof -
    have "map_of G t = Some (e\<lparr>rt_revdeps := []\<rparr>)" if "map_of G t = Some e" for t e
    proof -
      have "rt_revdeps e = []" using assms(2) map_of_SomeD[OF that] by blast
      then have "e\<lparr>rt_revdeps := []\<rparr> = e" by simp
      with that show ?thesis by simp
    qed
    then show ?thesis unfolding rev_inv_def by fastforce
  qed
  from rev_inv_tasks[OF this, of G] cl obtain A where A: "add_revdeps G = Inr A"
    "rev_inv G {(t, d). \<exists>e. (t, e) \<in> set G \<and> d \<in> set (rt_depends e)} A" unfolding add_revdeps_def by auto
  have edges: "{(t, d). \<exists>e. (t, e) \<in> set G \<and> d \<in> set (rt_depends e)} = dep_rel G"
    using wf by (auto simp: dep_rel_def entry_depends_def split: option.splits)
  have keys: "dict_keys A = dict_keys G" using A(2) by (simp add: rev_inv_def)
  have rows: "\<exists>e R. map_of G t = Some e \<and> map_of A t = Some (e\<lparr>rt_revdeps := R\<rparr>) \<and> distinct R \<and> set R = {r. (r, t) \<in> dep_rel G}"
    if "t \<in> set (dict_keys G)" for t
  proof -
    from map_of_key[OF that] obtain e where e: "map_of G t = Some e" ..
    with A(2) obtain R where "map_of A t = Some (e\<lparr>rt_revdeps := R\<rparr>)" "distinct R" "set R = {r. (r, t) \<in> dep_rel G}"
      unfolding rev_inv_def edges by blast
    with e show ?thesis by blast
  qed
  have dep: "entry_depends A t = entry_depends G t" for t
  proof (cases "t \<in> set (dict_keys G)")
    case True
    from rows[OF this] show ?thesis by (auto simp: entry_depends_def)
  next
    case False
    have "map_of G t = None" using False by (simp add: map_of_eq_None_iff)
    moreover have "map_of A t = None" using False unfolding map_of_eq_None_iff set_map[symmetric] keys .
    ultimately have "map_of G t = None" "map_of A t = None" by simp_all
    then show ?thesis by (simp add: entry_depends_def)
  qed
  then have rel: "dep_rel A = dep_rel G" by (simp add: dep_rel_def)
  have cA: "closed_graph A" using assms(1) keys dep by (simp add: closed_graph_def)
  have "distinct (entry_depends A t) \<and> distinct (entry_revdeps A t) \<and> set (entry_revdeps A t) = {r. (r, t) \<in> dep_rel A}"
    if t: "t \<in> set (dict_keys A)" for t
  proof -
    from rows[of t] t keys obtain e R where r: "map_of G t = Some e" "map_of A t = Some (e\<lparr>rt_revdeps := R\<rparr>)"
      "distinct R" "set R = {r. (r, t) \<in> dep_rel G}" by auto
    have "distinct (rt_depends e)" using assms(2) map_of_SomeD[OF r(1)] by blast
    with r rel show ?thesis by (simp add: entry_depends_def entry_revdeps_def)
  qed
  with cA have "linked_graph A" unfolding linked_graph_def by blast
  with A(1) rel keys show ?thesis by blast
qed

lemma find_endpoints_entries:
  "find_endpoints L = (if \<exists>(t, e) \<in> set L. \<exists>d \<in> set (rt_revdeps e). d \<in> set (rt_depends e) then Inl SystemExit
     else Inr (List.map fst (filter (\<lambda>(t, e). rt_revdeps e = []) L)))"
  by (induction L rule: find_endpoints.induct) auto

lemma find_endpoints_eq:
  assumes "wf_dict G"
  shows "find_endpoints G =
     (if \<exists>t \<in> set (dict_keys G). \<exists>d \<in> set (entry_revdeps G t). d \<in> set (entry_depends G t) then Inl SystemExit
      else Inr (graph_endpoints G))"
proof -
  have ent: "entry_revdeps G t = rt_revdeps e \<and> entry_depends G t = rt_depends e" if "(t, e) \<in> set G" for t e
    using that assms by (simp add: entry_revdeps_def entry_depends_def)
  have "graph_endpoints G = List.map fst (filter (\<lambda>(t, e). rt_revdeps e = []) G)"
    unfolding graph_endpoints_def using ent
    by (auto simp: filter_map o_def intro!: arg_cong[where f = "List.map fst"] filter_cong)
  moreover have "(\<exists>(t, e) \<in> set G. \<exists>d \<in> set (rt_revdeps e). d \<in> set (rt_depends e)) \<longleftrightarrow>
    (\<exists>p \<in> set G. \<exists>d \<in> set (entry_revdeps G (fst p)). d \<in> set (entry_depends G (fst p)))"
    by (rule bex_cong) (auto simp: ent)
  ultimately show ?thesis by (simp add: find_endpoints_entries)
qed

section \<open>Instances\<close>

lemma closed_graph_code:
  "closed_graph G \<longleftrightarrow> wf_dict G \<and> (\<forall>(t, e) \<in> set G. \<forall>d \<in> set (rt_depends e). d \<in> set (dict_keys G))"
proof (cases "wf_dict G")
  case True
  have "(\<forall>t. \<forall>d \<in> set (entry_depends G t). d \<in> set (dict_keys G)) \<longleftrightarrow>
      (\<forall>(t, e) \<in> set G. \<forall>d \<in> set (rt_depends e). d \<in> set (dict_keys G))" (is "?L \<longleftrightarrow> ?R")
  proof
    assume L: ?L
    have "d \<in> set (dict_keys G)" if "(t, e) \<in> set G" "d \<in> set (rt_depends e)" for t e d
      using L that(2) unfolding entry_of[OF True that(1), symmetric] by blast
    then show ?R by blast
  next
    assume R: ?R
    show ?L
    proof (intro allI ballI)
      fix t d assume "d \<in> set (entry_depends G t)"
      then obtain e where "map_of G t = Some e" "d \<in> set (rt_depends e)"
        by (cases "map_of G t") (auto simp: entry_depends_def)
      with R map_of_SomeD show "d \<in> set (dict_keys G)" by fast
    qed
  qed
  with True show ?thesis unfolding closed_graph_def by blast
qed (simp add: closed_graph_def)

lemma linked_graph_code:
  "linked_graph G \<longleftrightarrow> closed_graph G \<and>
     (\<forall>t \<in> set (dict_keys G). distinct (entry_depends G t) \<and> distinct (entry_revdeps G t) \<and>
        set (entry_revdeps G t) = set (filter (\<lambda>r. t \<in> set (entry_depends G r)) (dict_keys G)))"
proof -
  have "{r. (r, t) \<in> dep_rel G} = set (filter (\<lambda>r. t \<in> set (entry_depends G r)) (dict_keys G))" for t
  proof (rule set_eqI)
    fix r
    have "r \<in> set (dict_keys G)" if "t \<in> set (entry_depends G r)"
      using that has_key_Some[of G r] by (cases "map_of G r") (auto simp: entry_depends_def has_key_def)
    then show "r \<in> {r. (r, t) \<in> dep_rel G} \<longleftrightarrow> r \<in> set (filter (\<lambda>r. t \<in> set (entry_depends G r)) (dict_keys G))"
      unfolding dep_rel_def by auto
  qed
  then show ?thesis by (simp only: linked_graph_def)
qed

text \<open>A recipe \<open>a\<close> whose packaging needs its compilation, and the compilation of \<open>b\<close>\<close>

definition task_of :: "string list \<Rightarrow> string list \<Rightarrow> run_task" where
  "task_of ds rs = new_run_task\<lparr>rt_depends := ds, rt_revdeps := rs\<rparr>"

definition small_graph :: graph where
  "small_graph =
    [(''a.bb:do_package'', task_of [''a.bb:do_compile''] []),
     (''a.bb:do_compile'', task_of [''b.bb:do_compile''] []),
     (''b.bb:do_compile'', task_of [] [])]"

definition small_linked :: graph where
  "small_linked =
    [(''a.bb:do_package'', task_of [''a.bb:do_compile''] []),
     (''a.bb:do_compile'', task_of [''b.bb:do_compile''] [''a.bb:do_package'']),
     (''b.bb:do_compile'', task_of [] [''a.bb:do_compile''])]"

lemma small_graph_closed: "closed_graph small_graph"
  unfolding closed_graph_code by code_simp

lemma small_graph_linked: "linked_graph small_linked"
  unfolding linked_graph_code closed_graph_code by code_simp

theorem mark_active_reachable_witness:
  "\<exists>b. mark_active 4 small_graph ''a.bb:do_compile'' [] = Inr b \<and>
    set b = {x. (''a.bb:do_compile'', x) \<in> (dep_rel small_graph)\<^sup>*} \<and> closed_in small_graph (set b)"
proof -
  have "length small_graph = 3" by code_simp
  with mark_active_reachable[OF small_graph_closed, of "''a.bb:do_compile''" "[]"] show ?thesis
    by (simp add: closed_in_def) (simp add: small_graph_def)
qed

definition small_config :: rq_config where
  "small_config = \<lparr>cf_caches = [], cf_targets = [], cf_runall = [], cf_runonly = [], cf_force = False,
     cf_invalidate = None, cf_nosetscene = False, cf_multi_allowed = []\<rparr>"

definition idle_siggen :: "unit siggen" where
  "idle_siggen = \<lparr>sg_prep = (\<lambda>t ds. act_return ds), sg_taskhash = (\<lambda>t ds. act_return t),
     sg_unihashes = (\<lambda>ts. act_return (List.map (\<lambda>t. (t, t)) ts)), sg_invalidate = (\<lambda>a b. act_return ()),
     sg_setscene = (\<lambda>a s. s), sg_resolved = (\<lambda>a b s. s)\<rparr>"

definition small_taskdata :: td_state where
  "small_taskdata = (new_taskdata True [] False empty_cache)\<lparr>
     build_targets := [(''a'', [''a.bb''])],
     taskentries := List.map (\<lambda>(t, e). (t, \<lparr>te_tdepends = [], te_idepends = [], te_irdepends = []\<rparr>)) small_graph\<rparr>"

text \<open>Packaging \<open>a\<close> with only the compilation tasks asked for prunes the packaging task.\<close>

theorem pruned_graph_closed_witness:
  "\<exists>s'. act_then (act_for [('''', ''a'', ''do_package'', ''a.bb'')] mark_target)
      (step_c idle_siggen (small_config\<lparr>cf_targets := [('''', ''a'', ''do_package'', ''a.bb'')], cf_runonly := [''compile'']\<rparr>))
      ((new_prep [('''', small_taskdata)] ())\<lparr>pp_entries := small_graph\<rparr>) = (Inr (), s') \<and>
    dict_keys (pp_entries s') = [''a.bb:do_compile'', ''b.bb:do_compile''] \<and> closed_graph (pp_entries s')"
proof -
  let ?cfg = "small_config\<lparr>cf_targets := [('''', ''a'', ''do_package'', ''a.bb'')], cf_runonly := [''compile'']\<rparr>"
  let ?s = "(new_prep [('''', small_taskdata)] ())\<lparr>pp_entries := small_graph\<rparr>"
  let ?r = "act_then (act_for [('''', ''a'', ''do_package'', ''a.bb'')] mark_target) (step_c idle_siggen ?cfg) ?s"
  have run: "fst ?r = Inr ()" "dict_keys (pp_entries (snd ?r)) = [''a.bb:do_compile'', ''b.bb:do_compile'']"
    by code_simp+
  have "cf_targets ?cfg = [('''', ''a'', ''do_package'', ''a.bb'')]" by (simp add: small_config_def)
  moreover have "closed_graph (pp_entries ?s)" "pp_build ?s = []" using small_graph_closed by (simp_all add: new_prep_def)
  ultimately have "closed_graph (pp_entries (snd ?r))"
    using pruned_graph_closed[of ?s ?cfg idle_siggen "snd ?r"] run(1) by (metis prod.collapse)
  with run show ?thesis by (metis prod.collapse)
qed

theorem add_revdeps_linked_witness:
  "add_revdeps small_graph = Inr small_linked \<and> linked_graph small_linked \<and> dep_rel small_linked = dep_rel small_graph"
proof -
  have run: "add_revdeps small_graph = Inr small_linked" by code_simp
  have "\<forall>(t, e) \<in> set small_graph. distinct (rt_depends e) \<and> rt_revdeps e = []" by code_simp
  from add_revdeps_linked[OF small_graph_closed this] run show ?thesis by auto
qed

theorem task_weights_order_witness:
  "task_weights small_linked [''a.bb:do_package''] =
     Inr ([(''a.bb:do_package'', 10), (''a.bb:do_compile'', 11), (''b.bb:do_compile'', 12)], []) \<and>
   acyclic (dep_rel small_linked)"
proof -
  have run: "task_weights small_linked (graph_endpoints small_linked) =
     Inr ([(''a.bb:do_package'', 10), (''a.bb:do_compile'', 11), (''b.bb:do_compile'', 12)], [])"
    "graph_endpoints small_linked = [''a.bb:do_package'']" by code_simp+
  with task_weights_order[OF small_graph_linked] show ?thesis by auto
qed

end
