(* ===== verification/RunQueue_State.thy ===== *)
theory RunQueue_State
  imports RunQueue_Graph
begin

text \<open>
  The state of a build in progress: \<open>RunQueueStats\<close>, \<open>RunQueue\<close>, \<open>RunQueueExecute\<close>,
  the scheduler and \<open>SQData\<close> of \<open>runqueue.py\<close> in one record \<open>rq\<close>, field by field, with
  \<open>RunQueueData\<close> as the \<open>prep_state\<close> that \<open>prepare\<close> filled. The world outside (the files, the
  signature generator, the workers) is an abstract state \<open>'w\<close>, the last field of \<open>prep_state\<close>;
  \<open>q_exec\<close> says whether there is a \<open>RunQueueExecute\<close> yet, \<open>q_pipes\<close> what each worker's pipe holds
  (the bytes not yet understood, by worker: whether it is a fakeroot worker, and its multiconfig);
  the record \<open>rq_env\<close> holds what is read of the configuration and the operations on the world.
  The events fired and the tasks sent to workers are recorded in \<open>q_events\<close>.
\<close>

section \<open>Counters\<close>

record rq_stats =
  st_completed :: int
  st_skipped :: int
  st_failed :: int
  st_active :: int
  st_sq_active :: int
  st_covered :: int
  st_notcovered :: int
  st_sq_total :: int
  st_total :: int

definition new_stats :: "int \<Rightarrow> int \<Rightarrow> rq_stats" where
  "new_stats tasks setscene_tasks =
     \<lparr> st_completed = 0, st_skipped = 0, st_failed = 0, st_active = 0, st_sq_active = 0,
       st_covered = 0, st_notcovered = 0, st_sq_total = setscene_tasks, st_total = tasks \<rparr>"

definition stats_failed :: "rq_stats \<Rightarrow> rq_stats" where
  "stats_failed st = st\<lparr>st_active := st_active st - 1, st_failed := st_failed st + 1\<rparr>"

definition stats_completed :: "rq_stats \<Rightarrow> rq_stats" where
  "stats_completed st = st\<lparr>st_active := st_active st - 1, st_completed := st_completed st + 1\<rparr>"

definition stats_skipped :: "rq_stats \<Rightarrow> rq_stats" where
  "stats_skipped st = st\<lparr>st_active := st_active st + 1, st_skipped := st_skipped st + 1\<rparr>"

definition stats_active :: "rq_stats \<Rightarrow> rq_stats" where
  "stats_active st = st\<lparr>st_active := st_active st + 1\<rparr>"

definition update_covered :: "int \<Rightarrow> int \<Rightarrow> rq_stats \<Rightarrow> rq_stats" where
  "update_covered covered notcovered st = st\<lparr>st_covered := covered, st_notcovered := notcovered\<rparr>"

definition update_active_setscene :: "int \<Rightarrow> rq_stats \<Rightarrow> rq_stats" where
  "update_active_setscene active st = st\<lparr>st_sq_active := active\<rparr>"

section \<open>The state\<close>

text \<open>The values of \<open>RunQueue.state\<close>\<close>

datatype phase = PhasePrepare | SceneInit | DumpSigs | Running | Failed | CleanUp | Complete

text \<open>The entry of a task in the dependency data that is sent to a worker\<close>

record dep_data =
  dd_pn :: string
  dd_taskname :: string
  dd_fn :: string
  dd_deps :: "string list"
  dd_provides :: "string list"
  dd_taskhash :: "string option"
  dd_unihash :: "string option"
  dd_hashfn :: string
  dd_hash_deps :: "string list"

record run_request =
  rr_fn :: string
  rr_task :: string
  rr_taskname :: string
  rr_taskhash :: "string option"
  rr_unihash :: "string option"
  rr_quieterrors :: bool
  rr_appends :: "string list"
  rr_layer :: string
  rr_depdata :: "(string, dep_data) dict"
  rr_dry_run :: bool
  rr_fakerootenv :: string
  rr_fakerootdirs :: string
  rr_fakerootnoenv :: string

text \<open>The exit status of a task, or the reason it was not run; what a worker reports; and the
  outcome of unpickling a message\<close>

datatype exit_code = Status int | Reason string

datatype worker_event = UniHashUpdate string string | OtherEvent string

datatype 'a loaded = Loaded 'a | Truncated | Unloadable

datatype rq_event =
    TaskStarted string rq_stats bool
  | TaskCompleted string rq_stats
  | TaskFailed string rq_stats exit_code "string option"
  | TaskSkipped string rq_stats string
  | SceneStarted string rq_stats
  | SceneCompleted string rq_stats
  | SceneFailed string rq_stats int
  | SceneComplete rq_stats
  | ExitWait int
  | StaleSetscene string "(string, string list) dict"
  | SentTask string bool run_request
  | SentHashes bool string
  | SentFinishNow bool string
  | FromWorker worker_event
  | StoppedWorker bool string
  | DepTreeGenerated
  | InvalidTasks "string list"

text \<open>The scheduler; the priority map of the basic one holds a view of the keys, no task.\<close>

datatype prio_item = Prio_Tid string | Prio_Keys

record sched =
  sc_buildable :: "string list"
  sc_prio_map :: "prio_item list"
  sc_rev_prio :: "(string, nat) dict"
  sc_maxthread :: "(string, string option) dict"
  sc_stamps :: "(string, string) dict"

record sqdata =
  sq_deps :: "(string, string list) dict"
  sq_revdeps :: "(string, string list) dict"
  sq_harddeps :: "(string, string list) dict"
  sq_harddeps_rev :: "(string, string list) dict"
  sq_stamps :: "(string, string) dict"
  sq_unskippable :: "string list"
  sq_outrightfail :: "string list"
  sq_covered_tasks :: "(string, string list) dict"
  sq_cantskip :: "string list"
  sq_multiconfigs :: "string list"
  sq_noexec :: "string list"
  sq_stamppresent :: "string list"
  sq_valid :: "string list"
  sq_hashes :: "(string, string) dict"

definition empty_sqdata :: sqdata where
  "empty_sqdata = \<lparr> sq_deps = [], sq_revdeps = [], sq_harddeps = [], sq_harddeps_rev = [],
     sq_stamps = [], sq_unskippable = [], sq_outrightfail = [], sq_covered_tasks = [],
     sq_cantskip = [], sq_multiconfigs = [], sq_noexec = [], sq_stamppresent = [], sq_valid = [],
     sq_hashes = [] \<rparr>"

record 'w rq =
  q_data :: "'w prep_state"
  q_phase :: phase
  q_stats :: rq_stats
  sq_buildable :: "string list"
  sq_running :: "string list"
  sq_live :: "string list"
  taskhash_queue :: "(string \<times> string) list"
  pending_migrations :: "string list"
  runq_buildable :: "string list"
  runq_running :: "string list"
  runq_complete :: "string list"
  runq_tasksrun :: "string list"
  build_stamps :: "(string, string) dict"
  build_stamps2 :: "string list"
  failed_tids :: "string list"
  sq_deferred :: "(string, string) dict"
  sq_needed_harddeps :: "string list"
  sq_harddep_deferred :: "string list"
  stampcache :: "(string, bool) dict"
  holdoff_tasks :: "string list"
  holdoff_need_update :: bool
  sqdone :: bool
  scenequeue_covered :: "string list"
  tasks_covered :: "string list"
  tasks_scenequeue_done :: "string list"
  scenequeue_notcovered :: "string list"
  tasks_notcovered :: "string list"
  scenequeue_notneeded :: "string list"
  q_sched :: sched
  q_sq :: sqdata
  scene_cycle :: "string list option"
  taskdep_cache :: "(string, dep_data) dict"
  q_exec :: bool
  q_workers :: "string list"
  fakeworkers :: "string list"
  q_teardown :: bool
  q_pipes :: "(bool \<times> string, string) dict"
  q_events :: "rq_event list"

text \<open>The variables of \<open>RunQueueData\<close>, and the world\<close>

abbreviation q_entries :: "'w rq \<Rightarrow> graph" where
  "q_entries s \<equiv> pp_entries (q_data s)"

abbreviation q_setscene :: "'w rq \<Rightarrow> string list" where
  "q_setscene s \<equiv> pp_setscene (q_data s)"

abbreviation q_target_tids :: "'w rq \<Rightarrow> string list" where
  "q_target_tids s \<equiv> pp_target_tids (q_data s)"

abbreviation q_world :: "'w rq \<Rightarrow> 'w" where
  "q_world s \<equiv> pp_siggen (q_data s)"

definition on_world :: "('w \<Rightarrow> 'w) \<Rightarrow> ('w rq, unit) act" where
  "on_world f = act_modify (q_data_update (pp_siggen_update f))"

definition in_world :: "('w, 'a) act \<Rightarrow> ('w rq, 'a) act" where
  "in_world = act_zoom q_world (\<lambda>w. q_data_update (pp_siggen_update (\<lambda>_. w)))"

definition on_entries :: "(graph \<Rightarrow> graph) \<Rightarrow> ('w rq, unit) act" where
  "on_entries f = act_modify (q_data_update (pp_entries_update f))"

definition fire_event :: "('w rq \<Rightarrow> rq_event) \<Rightarrow> ('w rq, unit) act" where
  "fire_event f = act_modify (\<lambda>s. s\<lparr>q_events := q_events s @ [f s]\<rparr>)"

definition get_entry :: "string \<Rightarrow> ('w rq, run_task) act" where
  "get_entry tid = act_read (\<lambda>s. dict_get (q_entries s) tid)"

section \<open>What is read of the configuration and the world\<close>

record sq_query =
  qy_tid :: string
  qy_hash :: "string option"
  qy_hashfn :: string
  qy_unihash :: "string option"

record 'w rq_env =
  en_cfg :: rq_config
  en_siggen :: "'w siggen"
  en_number_tasks :: int
  en_scheduler :: string
  en_dry_run :: bool
  en_skipsetscene :: bool
  en_setsceneonly :: bool
  en_enforce :: bool
  en_ignore :: "string list option"
  en_threads :: "string \<Rightarrow> string option"
  en_stamp :: "string \<Rightarrow> string \<Rightarrow> 'w \<Rightarrow> string"
  en_stamp_plain :: "string \<Rightarrow> string \<Rightarrow> 'w \<Rightarrow> string"
  en_access :: "string \<Rightarrow> 'w \<Rightarrow> bool"
  en_mtime :: "string \<Rightarrow> 'w \<Rightarrow> int option"
  en_make_stamp :: "string \<Rightarrow> string \<Rightarrow> 'w \<Rightarrow> 'w"
  en_stale_stamps :: "string \<Rightarrow> string \<Rightarrow> 'w \<Rightarrow> string list"
  en_hashvalidate :: "(sq_query list \<Rightarrow> int \<Rightarrow> bool \<Rightarrow> bool \<Rightarrow> 'w \<Rightarrow> string list \<times> 'w) option"
  en_depvalidate :: "(string \<Rightarrow> (string, string \<times> string \<times> string) dict \<Rightarrow> string list \<Rightarrow> 'w \<Rightarrow> bool) option"
  en_pressure :: "'w \<Rightarrow> bool \<times> 'w"
  en_set_unihash :: "string \<Rightarrow> string \<Rightarrow> 'w \<Rightarrow> 'w"
  en_report_equiv :: "string \<Rightarrow> string \<Rightarrow> string option \<Rightarrow> string \<Rightarrow> 'w \<Rightarrow> 'w"
  en_fnmatch :: "string \<Rightarrow> string \<Rightarrow> bool"
  en_start_fakeworker :: "string \<Rightarrow> 'w \<Rightarrow> bool \<times> 'w"
  en_died :: "bool \<times> string \<Rightarrow> 'w \<Rightarrow> bool"
  en_input :: "bool \<times> string \<Rightarrow> 'w \<Rightarrow> string \<times> 'w"
  en_load_event :: "string \<Rightarrow> worker_event loaded"
  en_load_exit :: "string \<Rightarrow> (string \<times> int) loaded"
  en_read_log :: "string \<Rightarrow> 'w \<Rightarrow> string list option"
  en_dumpsigs :: "string list"
  en_dump_step :: "'w \<Rightarrow> bool \<times> 'w"
  en_drain :: nat
  en_appends :: "string \<Rightarrow> string \<Rightarrow> string list"
  en_layer :: "string \<Rightarrow> string \<Rightarrow> string"

definition cache_field :: "'w rq_env \<Rightarrow> string \<Rightarrow> (cache_data \<Rightarrow> (string, 'v) dict) \<Rightarrow> string \<Rightarrow> 'v res" where
  "cache_field env mc field fn = res_bind (dict_get (cf_caches (en_cfg env)) mc) (\<lambda>dc. dict_get (field dc) fn)"

section \<open>Stamps\<close>

text \<open>\<open>check_stamp_task\<close> over its cache. A time that is missing or zero is false; comparing a
  missing time is a TypeError.\<close>

definition time_set :: "int option \<Rightarrow> bool" where
  "time_set t \<longleftrightarrow> t \<noteq> None \<and> t \<noteq> Some 0"

definition time_less :: "int option \<Rightarrow> int option \<Rightarrow> bool res" where
  "time_less a b = (case (a, b) of (Some x, Some y) \<Rightarrow> Inr (x < y) | _ \<Rightarrow> Inl TypeError)"

text \<open>One dependency: whether the task is still current after it\<close>

definition stamp_dep ::
  "(string \<Rightarrow> ((string, bool) dict, bool) act) \<Rightarrow> 'w rq_env \<Rightarrow> 'w \<Rightarrow> string \<Rightarrow> int option \<Rightarrow> bool \<Rightarrow>
   string \<Rightarrow> bool \<Rightarrow> ((string, bool) dict, bool) act" where
  "stamp_dep check env w fn t1 recurse dep iscurrent =
     (if \<not> iscurrent then act_return False
      else act_bind (act_lift (split_tid_mcfn dep)) (\<lambda>(_, fn2, taskname2, taskfn2).
        let t2 = en_mtime env (en_stamp env taskname2 taskfn2 w) w;
            t3 = en_mtime env (en_stamp env (taskname2 @ ''_setscene'') taskfn2 w) w
        in if time_set t3 \<and> \<not> time_set t2 then act_return True
           else act_bind (act_lift (if time_set t3 then time_less t2 t3 else Inr False)) (\<lambda>newer.
             if newer then act_return True
             else if fn \<noteq> fn2 then act_return True
             else if \<not> time_set t2 then act_return False
             else act_bind (act_lift (time_less t1 t2)) (\<lambda>older.
               if older then act_return False
               else if \<not> recurse then act_return True
               else act_bind (act_gets (\<lambda>cache. map_of cache dep)) (\<lambda>known. case known of
                   Some b \<Rightarrow> act_return b
                 | None \<Rightarrow> act_bind (check dep) (\<lambda>b.
                     act_then (act_modify (AList.update dep b)) (act_return b)))))))"

fun stamp_deps :: "(string \<Rightarrow> bool \<Rightarrow> ('s, bool) act) \<Rightarrow> string list \<Rightarrow> bool \<Rightarrow> ('s, bool) act" where
  "stamp_deps f [] b = act_return b"
| "stamp_deps f (dep # deps) b = act_bind (f dep b) (stamp_deps f deps)"

fun check_stamp ::
  "nat \<Rightarrow> 'w rq_env \<Rightarrow> graph \<Rightarrow> 'w \<Rightarrow> string option \<Rightarrow> bool \<Rightarrow> string \<Rightarrow> ((string, bool) dict, bool) act" where
  "check_stamp 0 env G w name recurse tid = act_raise OutOfFuel"
| "check_stamp (Suc n) env G w name recurse tid =
     act_bind (act_lift (split_tid_mcfn tid)) (\<lambda>(mc, fn, tn, taskfn).
     let taskname = (case name of None \<Rightarrow> tn | Some x \<Rightarrow> x);
         stampfile = en_stamp env taskname taskfn w
     in if \<not> en_access env stampfile w then act_return False
        else act_bind (act_lift (cache_field env mc task_deps_of taskfn)) (\<lambda>deps.
          if task_flag deps ''nostamp'' taskname \<noteq> None then act_return False
          else if endswith taskname ''_setscene'' then act_return True
          else act_bind (act_lift (dict_get G tid)) (\<lambda>e.
            act_bind (stamp_deps (stamp_dep (check_stamp n env G w None True) env w fn
                (en_mtime env stampfile w) recurse) (rt_depends e) True) (\<lambda>b.
            act_then (act_when recurse (act_modify (AList.update tid b))) (act_return b)))))"

text \<open>The check as the run queue makes it, with the cache of the build\<close>

definition check_stamp_task ::
  "'w rq_env \<Rightarrow> string \<Rightarrow> string option \<Rightarrow> bool \<Rightarrow> ('w rq, bool) act" where
  "check_stamp_task env tid name recurse =
     act_bind (act_gets (\<lambda>s. (q_entries s, q_world s))) (\<lambda>(G, w).
     act_zoom stampcache (\<lambda>c s. s\<lparr>stampcache := c\<rparr>)
       (check_stamp (Suc (length G)) env G w name recurse tid))"

section \<open>Hashes\<close>

definition hash_query :: "'w rq_env \<Rightarrow> graph \<Rightarrow> string \<Rightarrow> sq_query res" where
  "hash_query env G tid =
     res_bind (split_tid_mcfn tid) (\<lambda>(mc, fn, taskname, taskfn).
     res_bind (dict_get G tid) (\<lambda>e.
     res_bind (cache_field env mc hashfn taskfn) (\<lambda>h.
     Inr \<lparr>qy_tid = tid, qy_hash = rt_hash e, qy_hashfn = h, qy_unihash = rt_unihash e\<rparr>)))"

definition validate_hashes ::
  "'w rq_env \<Rightarrow> string list \<Rightarrow> int \<Rightarrow> bool \<Rightarrow> bool \<Rightarrow> ('w rq, string list) act" where
  "validate_hashes env tocheck currentcount siginfo summary =
     (case en_hashvalidate env of
        None \<Rightarrow> act_return []
      | Some f \<Rightarrow>
          act_bind (act_read (\<lambda>s. res_map (hash_query env (q_entries s)) tocheck)) (\<lambda>queries.
          act_bind (act_gets (\<lambda>s. f queries currentcount siginfo summary (q_world s))) (\<lambda>(valid, w).
          act_then (on_world (\<lambda>_. w)) (act_return valid))))"

text \<open>The index under which tasks of several multiconfigs are paired; the task's name is not
  part of it, the literal word is.\<close>

definition pending_hash_index :: "'w rq_env \<Rightarrow> graph \<Rightarrow> string \<Rightarrow> string res" where
  "pending_hash_index env G tid =
     res_bind (split_tid_mcfn tid) (\<lambda>(mc, fn, taskname, taskfn).
     res_bind (cache_field env mc pkg_fn taskfn) (\<lambda>pn.
     res_bind (dict_get G tid) (\<lambda>e. case rt_unihash e of
         None \<Rightarrow> Inl TypeError
       | Some h \<Rightarrow> Inr (pn @ '':'' @ ''taskname'' @ h))))"

section \<open>Setscene enforcement\<close>

fun ignore_tasks_of :: "(string \<times> string \<times> string \<times> string) list \<Rightarrow> string list \<Rightarrow> string list res" where
  "ignore_tasks_of targets [] = Inr []"
| "ignore_tasks_of targets (item # items) =
     res_bind (if startswith item ''%:''
         then res_map (\<lambda>(mc, target, task, fn).
           res_bind (list_get (split_on CHR '':'' item) 1) (\<lambda>x. Inr (target @ '':'' @ x))) targets
         else Inr [item]) (\<lambda>out.
     res_bind (ignore_tasks_of targets items) (\<lambda>rest. Inr (out @ rest)))"

definition get_setscene_enforce_ignore_tasks ::
  "string option \<Rightarrow> string option \<Rightarrow> (string \<times> string \<times> string \<times> string) list \<Rightarrow> string list option res" where
  "get_setscene_enforce_ignore_tasks enforce ignore targets =
     (if enforce \<noteq> Some ''1'' then Inr None
      else res_bind (ignore_tasks_of targets (split_ws (case ignore of None \<Rightarrow> [] | Some x \<Rightarrow> x)))
        (\<lambda>out. Inr (Some out)))"

definition check_setscene_enforce_ignore_tasks ::
  "(string \<Rightarrow> string \<Rightarrow> bool) \<Rightarrow> string \<Rightarrow> string \<Rightarrow> string list option \<Rightarrow> bool" where
  "check_setscene_enforce_ignore_tasks fnmatch pn taskname ignore =
     (case ignore of
        None \<Rightarrow> True
      | Some items \<Rightarrow> \<exists>item \<in> set items. fnmatch (pn @ '':'' @ taskname) item)"

end
