(* ===== verification/Scheduler.thy ===== *)
theory Scheduler
  imports RunQueue_State
begin

text \<open>
  The schedulers of \<open>runqueue.py\<close>: \<open>RunQueueScheduler\<close>, \<open>RunQueueSchedulerSpeed\<close> and
  \<open>RunQueueSchedulerCompletion\<close> differ in the list of priorities they start with; the choice
  among the buildable tasks (\<open>next_buildable_task\<close>) is common. The pressure of the system is a
  parameter.
\<close>

section \<open>Priorities\<close>

text \<open>\<open>RunQueueSchedulerSpeed\<close>: the tasks by weight, the heaviest first\<close>

definition tasks_by_weight :: "graph \<Rightarrow> (int, string list) dict" where
  "tasks_by_weight G = fold (\<lambda>(tid, e). dict_append (rt_weight e) tid) G []"

definition speed_prio :: "graph \<Rightarrow> string list" where
  "speed_prio G = rev (List.concat (List.map (dict_list (tasks_by_weight G)) (sort (dict_keys (tasks_by_weight G)))))"

text \<open>\<open>RunQueueSchedulerCompletion\<close>: the task names of each recipe are merged into one list,
  \<open>index\<close> is where the next name is expected and \<open>old_task\<close> the name that is there.\<close>

definition split_task :: "string \<Rightarrow> (string \<times> string) res" where
  "split_task tid = (case rsplit1 CHR '':'' tid of [fn, taskname] \<Rightarrow> Inr (fn, taskname) | _ \<Rightarrow> Inl ValueError)"

definition recipe_tasks :: "string list \<Rightarrow> (string, string list) dict res" where
  "recipe_tasks prio = res_fold (\<lambda>tid d. res_bind (split_task tid) (\<lambda>(fn, taskname). Inr (dict_append fn taskname d))) prio []"

definition task_at :: "string list \<Rightarrow> nat \<Rightarrow> string option" where
  "task_at xs i = (if i < length xs then Some (xs ! i) else None)"

fun index_of :: "'a list \<Rightarrow> 'a \<Rightarrow> nat option" where
  "index_of [] y = None"
| "index_of (x # xs) y = (if x = y then Some 0 else map_option Suc (index_of xs y))"

definition merge_task :: "string \<Rightarrow> string list \<times> nat \<times> string option \<Rightarrow> string list \<times> nat \<times> string option" where
  "merge_task new_task = (\<lambda>(all_tasks, index, old_task).
     if old_task = Some new_task then (all_tasks, index + 1, task_at all_tasks (index + 1))
     else case index_of all_tasks new_task of
         Some i \<Rightarrow> (all_tasks, i + 1, task_at all_tasks (i + 1))
       | None \<Rightarrow> (take index all_tasks @ new_task # drop index all_tasks, index + 1, old_task))"

definition merge_recipe :: "string list \<Rightarrow> string list \<Rightarrow> string list" where
  "merge_recipe new_tasks all_tasks = fst (fold merge_task new_tasks (all_tasks, 0, task_at all_tasks 0))"

definition merge_tasks :: "(string, string list) dict \<Rightarrow> string list" where
  "merge_tasks ls = fold (\<lambda>(recipe, new_tasks). merge_recipe new_tasks) ls []"

text \<open>Then the tasks are moved to the front, one task name after the other.\<close>

definition move_task :: "string \<Rightarrow> nat \<Rightarrow> string list \<times> nat \<Rightarrow> (string list \<times> nat) res" where
  "move_task task index = (\<lambda>(prio, task_index).
     res_bind (list_get prio index) (\<lambda>tid.
     res_bind (taskname_from_tid tid) (\<lambda>taskname.
     if taskname = task
     then let prio = take index prio @ drop (index + 1) prio
          in Inr (take task_index prio @ tid # drop task_index prio, task_index + 1)
     else Inr (prio, task_index))))"

definition move_tasks :: "nat \<Rightarrow> string \<Rightarrow> string list \<times> nat \<Rightarrow> (string list \<times> nat) res" where
  "move_tasks num task = (\<lambda>(prio, task_index). res_fold (move_task task) [task_index..<num] (prio, task_index))"

definition completion_prio :: "graph \<Rightarrow> string list res" where
  "completion_prio G =
     (let prio = speed_prio G
      in res_bind (recipe_tasks prio) (\<lambda>ls.
         res_bind (res_fold (move_tasks (length G)) (rev (merge_tasks ls)) (prio, 0)) (\<lambda>(prio, _). Inr prio)))"

section \<open>The scheduler\<close>

definition prio_map_of :: "string \<Rightarrow> graph \<Rightarrow> prio_item list res" where
  "prio_map_of name G =
     (if name = ''basic'' then Inr [Prio_Keys]
      else if name = ''speed'' then Inr (List.map Prio_Tid (speed_prio G))
      else if name = ''completion'' then res_bind (completion_prio G) (\<lambda>p. Inr (List.map Prio_Tid p))
      else Inl BBHandledException)"

definition new_sched :: "'w rq_env \<Rightarrow> graph \<Rightarrow> 'w \<Rightarrow> string list \<Rightarrow> sched res" where
  "new_sched env G w buildable =
     res_bind (res_map (\<lambda>tid. res_bind (split_tid_mcfn tid) (\<lambda>(mc, fn, taskname, taskfn).
         Inr (tid, en_stamp_plain env taskname taskfn w))) (dict_keys G)) (\<lambda>stamps.
     res_bind (prio_map_of (en_scheduler env) G) (\<lambda>prio.
     Inr \<lparr>sc_buildable = filter (\<lambda>tid. tid \<in> set buildable) (dict_keys G), sc_prio_map = prio,
       sc_rev_prio = [], sc_maxthread = [], sc_stamps = stamps\<rparr>))"

definition newbuildable :: "string \<Rightarrow> sched \<Rightarrow> sched" where
  "newbuildable task sc = sc\<lparr>sc_buildable := set_add task (sc_buildable sc)\<rparr>"

definition removebuildable :: "string \<Rightarrow> sched \<Rightarrow> sched res" where
  "removebuildable task sc =
     (if task \<in> set (sc_buildable sc) then Inr (sc\<lparr>sc_buildable := removeAll task (sc_buildable sc)\<rparr>) else Inl KeyError)"

definition setbuildable :: "string \<Rightarrow> ('w rq, unit) act" where
  "setbuildable task = act_modify (\<lambda>s. s\<lparr>runq_buildable := set_add task (runq_buildable s),
     q_sched := newbuildable task (q_sched s)\<rparr>)"

definition can_start_task :: "'w rq_env \<Rightarrow> 'w rq \<Rightarrow> bool" where
  "can_start_task env s \<longleftrightarrow> st_active (q_stats s) + int (length (sq_live s)) < en_number_tasks env"

text \<open>The tasks that run, counted by name where the number of threads is limited\<close>

definition count_running ::
  "'w rq_env \<Rightarrow> string \<Rightarrow> (string, string option) dict \<times> (string, nat) dict \<Rightarrow>
   ((string, string option) dict \<times> (string, nat) dict) res" where
  "count_running env running = (\<lambda>(maxthread, skip).
     res_bind (taskname_from_tid running) (\<lambda>name.
       let maxthread = (if has_key maxthread name then maxthread else AList.update name (en_threads env name) maxthread)
       in Inr (maxthread, case map_of maxthread name of
           Some (Some (_ # _)) \<Rightarrow> AList.update name (case map_of skip name of None \<Rightarrow> 1 | Some n \<Rightarrow> n + 1) skip
         | _ \<Rightarrow> skip)))"

definition over_limit :: "(string, string option) dict \<Rightarrow> (string, nat) dict \<Rightarrow> string \<Rightarrow> bool res" where
  "over_limit maxthread skip tid =
     res_bind (taskname_from_tid tid) (\<lambda>name. case map_of skip name of
         None \<Rightarrow> Inr False
       | Some n \<Rightarrow> (case map_of maxthread name of
             Some (Some x) \<Rightarrow> res_bind (py_int x) (\<lambda>m. Inr (m \<le> int n))
           | _ \<Rightarrow> Inl TypeError))"

definition reverse_prio :: "graph \<Rightarrow> prio_item list \<Rightarrow> (string, nat) dict res" where
  "reverse_prio G prio = res_map (\<lambda>tid. case index_of prio (Prio_Tid tid) of
     None \<Rightarrow> Inl ValueError | Some i \<Rightarrow> Inr (tid, i)) (dict_keys G)"

definition best_task ::
  "sched \<Rightarrow> (string, nat) dict \<Rightarrow> string list \<Rightarrow> string \<Rightarrow> (string \<times> nat) option \<Rightarrow> (string \<times> nat) option res" where
  "best_task sc skip used tid best =
     res_bind (dict_get (sc_rev_prio sc) tid) (\<lambda>prio.
     if best \<noteq> None \<and> snd (the best) \<le> prio then Inr best
     else res_bind (over_limit (sc_maxthread sc) skip tid) (\<lambda>over.
       if over then Inr best
       else res_bind (dict_get (sc_stamps sc) tid) (\<lambda>stamp.
         Inr (if stamp \<in> set used then best else Some (tid, prio)))))"

definition buildable_now :: "'w rq \<Rightarrow> string list" where
  "buildable_now s = set_inter (set_diff (sc_buildable (q_sched s)) (holdoff_tasks s))
     (tasks_covered s @ tasks_notcovered s)"

definition on_sched :: "(sched \<Rightarrow> sched) \<Rightarrow> ('w rq, unit) act" where
  "on_sched f = act_modify (q_sched_update f)"

text \<open>The choice among the buildable tasks, once the map of the priorities is there; the set is
  empty when its only task could not be taken.\<close>

definition choose_task :: "(string, nat) dict \<Rightarrow> string list \<Rightarrow> ('w rq, string option) act" where
  "choose_task skip tids =
     act_bind (act_gets (\<lambda>s. sc_rev_prio (q_sched s) = [])) (\<lambda>empty.
     act_then (if empty then act_bind (act_read (\<lambda>s. reverse_prio (q_entries s) (sc_prio_map (q_sched s))))
         (\<lambda>rp. on_sched (\<lambda>sc. sc\<lparr>sc_rev_prio := rp\<rparr>)) else act_return ())
    (act_bind (act_read (\<lambda>s. res_fold (best_task (q_sched s) skip (List.map snd (build_stamps s))) tids None))
      (\<lambda>best. act_return (map_option fst best))))"

definition drop_running :: "('w rq, unit) act" where
  "drop_running = act_modify (\<lambda>s. s\<lparr>q_sched := (q_sched s)\<lparr>sc_buildable := set_diff (sc_buildable (q_sched s)) (runq_running s)\<rparr>\<rparr>)"

definition under_pressure :: "'w rq_env \<Rightarrow> ('w rq, bool) act" where
  "under_pressure env =
     act_bind (act_gets (\<lambda>s. if st_active (q_stats s) \<noteq> 0 then en_pressure env (q_world s) else (False, q_world s))) (\<lambda>(pressure, w).
     act_then (on_world (\<lambda>_. w)) (act_return pressure))"

text \<open>A single task is taken without looking at the priorities.\<close>

definition choose_single :: "(string, string option) dict \<Rightarrow> (string, nat) dict \<Rightarrow> string \<Rightarrow> ('w rq, string option) act" where
  "choose_single maxthread skip tid =
     act_bind (act_lift (over_limit maxthread skip tid)) (\<lambda>over.
     if over then act_return None
     else act_bind (act_read (\<lambda>s. dict_get (sc_stamps (q_sched s)) tid)) (\<lambda>stamp.
       act_bind (act_gets (\<lambda>s. stamp \<in> set (List.map snd (build_stamps s)))) (\<lambda>used.
       if used then choose_task skip [] else act_return (Some tid))))"

definition choose_among :: "'w rq_env \<Rightarrow> string list \<Rightarrow> ('w rq, string option) act" where
  "choose_among env tids =
     act_bind (act_read (\<lambda>s. res_fold (count_running env) (set_diff (runq_running s) (runq_complete s)) (sc_maxthread (q_sched s), []))) (\<lambda>(maxthread, skip).
     act_then (on_sched (\<lambda>sc. sc\<lparr>sc_maxthread := maxthread\<rparr>))
    (case tids of [tid] \<Rightarrow> choose_single maxthread skip tid | _ \<Rightarrow> choose_task skip tids))"

definition next_buildable_task :: "'w rq_env \<Rightarrow> ('w rq, string option) act" where
  "next_buildable_task env =
     act_then drop_running
    (act_bind (act_gets buildable_now) (\<lambda>tids.
     if tids = [] then act_return None
     else act_bind (under_pressure env) (\<lambda>pressure.
       if pressure then act_return None else choose_among env tids)))"

definition next_task :: "'w rq_env \<Rightarrow> ('w rq, string option) act" where
  "next_task env = act_bind (act_gets (can_start_task env)) (\<lambda>b.
     if b then next_buildable_task env else act_return None)"

end
