(* ===== verification/Setscene.thy ===== *)
theory Setscene
  imports Scheduler
begin

text \<open>
  The setscene queue of \<open>runqueue.py\<close>: \<open>build_scenequeue_data\<close> reduces the task graph to the
  setscene tasks, \<open>update_scenequeue_data\<close> finds out which of them can be used, and the
  \<open>sq_task_*\<close> methods record what became of one and pass it on.

  \<^item> In a prepared graph the dependencies and reverse dependencies of an entry have entries
    (\<open>pruned_graph_closed\<close>), so the dictionaries of \<open>build_scenequeue_data\<close> that are indexed by
    the tasks of the graph are read with \<open>dict_list\<close>.
  \<^item> \<open>process_endpoints\<close> takes one unit of fuel per level of the graph, \<open>unskippable_loop\<close> one
    per task it can add, \<open>fail_outright\<close> one per task it can mark as not covered, and
    \<open>done_walk\<close> two per task it can mark as done.
\<close>

section \<open>The graph of the setscene tasks\<close>

definition on_sq :: "(sqdata \<Rightarrow> sqdata) \<Rightarrow> ('w rq, unit) act" where
  "on_sq f = act_modify (q_sq_update f)"

type_synonym lists = "(string, string list) dict"

definition drop_from :: "string \<Rightarrow> string \<Rightarrow> lists \<Rightarrow> lists" where
  "drop_from k x d = AList.update k (removeAll x (dict_list d k)) d"

definition add_to :: "string \<Rightarrow> string \<Rightarrow> lists \<Rightarrow> lists" where
  "add_to k x d = AList.update k (set_add x (dict_list d k)) d"

text \<open>The reverse dependencies that are left, and the points the walk starts from: the tasks
  nothing depends on, and the dependencies of the setscene tasks\<close>

definition scene_start :: "graph \<Rightarrow> string list \<Rightarrow> lists \<times> lists \<times> lists" where
  "scene_start G ss =
     fold (\<lambda>tid (revs, coll, endpoints).
         fold (\<lambda>dep (revs, coll, endpoints). (drop_from dep tid revs, coll, add_to dep tid endpoints))
           (entry_depends G tid) (revs, AList.update tid [] coll, endpoints))
       ss
       (List.map (\<lambda>(tid, e). (tid, rt_revdeps e)) G, [],
        List.map (\<lambda>(tid, e). (tid, [])) (filter (\<lambda>(tid, e). rt_revdeps e = [] \<and> tid \<notin> set ss) G))"

text \<open>One point: the setscene tasks above it cover it, and are passed down to what it depends
  on unless it is a setscene task itself.\<close>

definition scene_dep ::
  "string list \<Rightarrow> string \<Rightarrow> string list \<Rightarrow> string list \<Rightarrow> string \<Rightarrow> lists \<times> lists \<times> lists \<Rightarrow> lists \<times> lists \<times> lists" where
  "scene_dep ss point task tasks dep = (\<lambda>(revs, squash, new).
     let revs = drop_from dep point revs;
         squash = AList.update dep (set_union (dict_list squash dep) tasks) squash
     in (revs, squash, if dict_list revs dep = [] \<and> dep \<notin> set ss then AList.update dep task new else new))"

definition scene_point ::
  "graph \<Rightarrow> string list \<Rightarrow> string \<times> string list \<Rightarrow> (lists \<times> lists \<times> lists) \<times> lists \<Rightarrow>
   (lists \<times> lists \<times> lists) \<times> lists" where
  "scene_point G ss = (\<lambda>(point, task) ((revs, squash, new), coll).
     let tasks = set_union task (dict_list squash point)
     in if point \<in> set ss then ((revs, AList.update point tasks squash, new), coll)
        else (fold (scene_dep ss point task tasks) (entry_depends G point) (revs, AList.update point [] squash, new),
              fold (\<lambda>t. add_to t point) tasks coll))"

fun process_endpoints ::
  "nat \<Rightarrow> graph \<Rightarrow> string list \<Rightarrow> lists \<Rightarrow> lists \<times> lists \<times> lists \<Rightarrow> (lists \<times> lists) res" where
  "process_endpoints 0 G ss endpoints st = Inl OutOfFuel"
| "process_endpoints (Suc n) G ss endpoints (revs, squash, coll) =
     (case fold (scene_point G ss) endpoints ((revs, squash, []), coll) of
        ((revs, squash, new), coll) \<Rightarrow>
          if new = [] then Inr (squash, coll) else process_endpoints n G ss new (revs, squash, coll))"

definition squash_graph :: "graph \<Rightarrow> string list \<Rightarrow> (lists \<times> lists) res" where
  "squash_graph G ss =
     (case scene_start G ss of (revs, coll, endpoints) \<Rightarrow>
        process_endpoints (Suc (length G)) G ss endpoints (revs, List.map (\<lambda>(tid, e). (tid, [])) G, coll))"

text \<open>The tasks that cannot be skipped: the ends of the build and what they depend on, down to
  the setscene tasks\<close>

definition unskip_task :: "string \<Rightarrow> ('w rq, unit) act" where
  "unskip_task tid =
     act_bind (act_gets (\<lambda>s. tid \<in> set (q_setscene s))) (\<lambda>scene.
     if scene then act_return ()
     else act_bind (get_entry tid) (\<lambda>e.
       act_then (act_when (rt_depends e = []) (setbuildable tid))
         (on_sq (\<lambda>sq. sq\<lparr>sq_unskippable := set_union (sq_unskippable sq) (rt_depends e)\<rparr>))))"

fun unskippable_loop :: "nat \<Rightarrow> ('w rq, unit) act" where
  "unskippable_loop 0 = act_raise OutOfFuel"
| "unskippable_loop (Suc n) =
     act_bind (act_gets (sq_unskippable \<circ> q_sq)) (\<lambda>orig.
     act_then (act_for (rev (sort orig)) unskip_task)
    (act_bind (act_gets (sq_unskippable \<circ> q_sq)) (\<lambda>now.
       if set_diff now orig = [] then act_return () else unskippable_loop n)))"

definition find_unskippable :: "('w rq, unit) act" where
  "find_unskippable =
     act_bind (act_gets q_entries) (\<lambda>G.
     act_then (on_sq (\<lambda>sq. sq\<lparr>sq_unskippable := set_union (set_union (sq_unskippable sq)
         (List.map fst (filter (\<lambda>(tid, e). rt_revdeps e = []) G))) (sq_cantskip sq)\<rparr>))
    (act_then (unskippable_loop (length G + 1))
    (act_modify (\<lambda>s. s\<lparr>tasks_scenequeue_done := set_union (tasks_scenequeue_done s)
       (set_diff (sq_unskippable (q_sq s)) (q_setscene s))\<rparr>))))"

text \<open>The dependencies between setscene tasks\<close>

definition scene_depends :: "('w rq \<Rightarrow> string \<Rightarrow> string list res)" where
  "scene_depends s tid =
     res_bind (split_tid_mcfn tid) (\<lambda>(mc, _, _, _).
     res_bind (dict_get (pp_taskdata (q_data s)) mc) (\<lambda>td.
     res_bind (dict_get (taskentries td) (tid @ ''_setscene'')) (\<lambda>te.
     res_fold (\<lambda>(depname, idependtask) acc.
         if \<not> has_key (build_targets td) depname then Inr acc
         else res_bind (dict_get (build_targets td) depname) (\<lambda>fns.
           res_bind (list_get fns 0) (\<lambda>depfn.
           Inr (set_add (depfn @ '':'' @ remove_sub ''_setscene'' idependtask) acc)))) (te_idepends te) [])))"

definition add_harddeps :: "'w rq_env \<Rightarrow> string \<Rightarrow> ('w rq, unit) act" where
  "add_harddeps env tid =
     act_bind (act_lift (split_tid_mcfn tid)) (\<lambda>(mc, fn, taskname, taskfn).
     act_bind (act_read (\<lambda>s. scene_depends s tid)) (\<lambda>deps.
     act_then (act_modify (\<lambda>s. s\<lparr>q_sq := (q_sq s)\<lparr>
         sq_stamps := AList.update tid (en_stamp_plain env taskname taskfn (q_world s)) (sq_stamps (q_sq s)),
         sq_harddeps_rev := AList.update tid [] (sq_harddeps_rev (q_sq s))\<rparr>\<rparr>))
    (act_for deps (\<lambda>deptid.
       act_bind (act_gets (\<lambda>s. has_key (q_entries s) deptid)) (\<lambda>known.
       if \<not> known then act_raise SystemExit
       else on_sq (\<lambda>sq. sq\<lparr>sq_harddeps := add_to deptid tid (sq_harddeps sq),
              sq_harddeps_rev := add_to tid deptid (sq_harddeps_rev sq)\<rparr>))))))"

definition reverse_lists :: "lists \<Rightarrow> lists res" where
  "reverse_lists d = res_fold (\<lambda>(tid, deps) acc. res_fold (\<lambda>dep acc.
       res_bind (dict_get acc dep) (\<lambda>ts. Inr (AList.update dep (set_add tid ts) acc))) deps acc)
     d (List.map (\<lambda>(tid, deps). (tid, [])) d)"

text \<open>Of the tasks that could share a result, the first is tried and the others wait for it.\<close>

definition defer_task :: "'w rq_env \<Rightarrow> string \<Rightarrow> ('w rq, unit) act" where
  "defer_task env tid =
     act_bind (act_read (\<lambda>s. pending_hash_index env (q_entries s) tid)) (\<lambda>h.
     act_modify (\<lambda>s. case map_of (sq_hashes (q_sq s)) h of
         None \<Rightarrow> s\<lparr>q_sq := (q_sq s)\<lparr>sq_hashes := AList.update h tid (sq_hashes (q_sq s))\<rparr>\<rparr>
       | Some t \<Rightarrow> s\<lparr>sq_deferred := AList.update tid t (sq_deferred s)\<rparr>))"

definition build_scenequeue_data :: "'w rq_env \<Rightarrow> ('w rq, unit) act" where
  "build_scenequeue_data env =
     act_then (act_modify (\<lambda>s. s\<lparr>q_sq := (q_sq s)\<lparr>sq_cantskip :=
         set_inter (set_diff (set_union [] (q_target_tids s)) (q_setscene s)) (dict_keys (q_entries s))\<rparr>\<rparr>))
    (act_bind (act_read (\<lambda>s. squash_graph (q_entries s) (q_setscene s))) (\<lambda>(squash, coll).
     act_then find_unskippable
    (act_bind (act_gets (\<lambda>s. (q_entries s, q_setscene s))) (\<lambda>(G, ss).
     act_then (act_when (\<exists>(tid, e) \<in> set G. tid \<notin> set ss \<and> dict_list squash tid \<noteq> []) (act_raise SystemExit))
    (act_then (act_for ss (add_harddeps env))
    (let revs = filter (\<lambda>(tid, _). \<not> (has_key G tid \<and> tid \<notin> set ss)) squash in
     act_bind (act_lift (reverse_lists revs)) (\<lambda>deps.
     act_then (act_modify (\<lambda>s. s\<lparr>
         q_sq := (q_sq s)\<lparr>sq_revdeps := revs, sq_covered_tasks := coll, sq_deps := deps,
           sq_multiconfigs := fold (\<lambda>tid. set_add (mc_from_tid tid)) (dict_keys revs) [],
           sq_noexec := [], sq_stamppresent := [], sq_valid := [], sq_hashes := []\<rparr>,
         sq_buildable := set_union (sq_buildable s) (List.map fst (filter (\<lambda>(tid, r). r = []) revs)),
         sq_deferred := []\<rparr>))
    (act_bind (act_gets (sort \<circ> sq_multiconfigs \<circ> q_sq)) (\<lambda>mcs.
     act_for mcs (\<lambda>mc. act_for (filter (\<lambda>tid. mc_from_tid tid = mc) (sort (dict_keys revs))) (defer_task env)))))))))))"

section \<open>What became of a setscene task\<close>

definition check_setscene_stamps :: "'w rq_env \<Rightarrow> string \<Rightarrow> ('w rq, bool \<times> bool) act" where
  "check_setscene_stamps env tid =
     act_bind (act_lift (split_tid_mcfn tid)) (\<lambda>(mc, fn, taskname, taskfn).
     act_bind (act_lift (cache_field env mc task_deps_of taskfn)) (\<lambda>deps.
     if task_flag deps ''noexec'' taskname \<noteq> None
     then act_then (on_world (en_make_stamp env (taskname @ ''_setscene'') taskfn)) (act_return (True, False))
     else act_bind (check_stamp_task env tid (Some (taskname @ ''_setscene'')) False) (\<lambda>current.
       if current then act_return (False, True)
       else act_bind (check_stamp_task env tid (Some taskname) True) (\<lambda>current. act_return (False, current)))))"

text \<open>The walk down from a finished setscene task: a task is done with the setscene queue when
  everything that depends on it is.\<close>

definition done_dep :: "graph \<Rightarrow> string list \<Rightarrow> string \<Rightarrow> string list \<times> string list \<Rightarrow> (string list \<times> string list) res" where
  "done_dep G ss dep = (\<lambda>(finished, new).
     if dep \<in> set ss \<or> dep \<in> set finished then Inr (finished, new)
     else res_bind (dict_get G dep) (\<lambda>e.
       Inr (finished, if set (rt_revdeps e) \<subseteq> set finished then set_add dep new else new)))"

definition done_task :: "graph \<Rightarrow> string list \<Rightarrow> string \<Rightarrow> string list \<times> string list \<Rightarrow> (string list \<times> string list) res" where
  "done_task G ss t = (\<lambda>(finished, new).
     res_bind (dict_get G t) (\<lambda>e. res_fold (done_dep G ss) (rt_depends e) (set_add t finished, new)))"

fun done_walk :: "nat \<Rightarrow> graph \<Rightarrow> string list \<Rightarrow> string list \<Rightarrow> string list \<Rightarrow> string list res" where
  "done_walk n G ss [] finished = Inr finished"
| "done_walk 0 G ss (t # ts) finished = Inl OutOfFuel"
| "done_walk (Suc n) G ss (t # ts) finished =
     res_bind (res_fold (done_task G ss) (sort (t # ts)) (finished, [])) (\<lambda>(finished, new).
       done_walk n G ss new finished)"

definition handled :: "'w rq \<Rightarrow> string list" where
  "handled s = scenequeue_covered s @ scenequeue_notcovered s"

text \<open>\<open>scenequeue_updatecounters\<close>; \<open>failure\<close> is \<open>sq_task_failoutright\<close>, which calls it back.\<close>

definition fail_harddeps ::
  "(string \<Rightarrow> ('w rq, unit) act) \<Rightarrow> 'w rq_env \<Rightarrow> string \<Rightarrow> ('w rq, unit) act" where
  "fail_harddeps failure env task =
     act_bind (act_gets (\<lambda>s. dict_list (sq_harddeps (q_sq s)) task)) (\<lambda>deps.
     act_for (sort deps) (\<lambda>dep.
       act_bind (act_gets (\<lambda>s. dep \<in> set (handled s))) (\<lambda>known.
       if known then act_return ()
       else act_bind (check_setscene_stamps env dep) (\<lambda>(noexec, stamppresent).
         if noexec \<or> stamppresent then act_return () else failure dep))))"

definition enable_deps :: "string \<Rightarrow> ('w rq, unit) act" where
  "enable_deps task =
     act_bind (act_read (\<lambda>s. dict_get (sq_deps (q_sq s)) task)) (\<lambda>deps.
     act_bind (act_gets handled) (\<lambda>allcovered.
     act_for (sort deps) (\<lambda>dep.
       act_bind (act_read (\<lambda>s. dict_get (sq_revdeps (q_sq s)) dep)) (\<lambda>revs.
       act_when (set revs \<subseteq> set allcovered)
         (act_modify (\<lambda>s. s\<lparr>sq_buildable := set_add dep (sq_buildable s)\<rparr>))))))"

definition walk_done :: "string \<Rightarrow> ('w rq, unit) act" where
  "walk_done task =
     act_bind (act_read (\<lambda>s. done_walk (2 * length (q_entries s) + 2) (q_entries s) (q_setscene s) [task]
       (tasks_scenequeue_done s))) (\<lambda>finished. act_modify (\<lambda>s. s\<lparr>tasks_scenequeue_done := finished\<rparr>))"

definition release_harddeps :: "string \<Rightarrow> ('w rq, unit) act" where
  "release_harddeps task =
     act_bind (act_gets (\<lambda>s. has_key (sq_harddeps (q_sq s)) task)) (\<lambda>hard.
     act_when hard (act_bind (act_gets sq_harddep_deferred) (\<lambda>deferred.
       act_for deferred (\<lambda>dep.
         act_bind (act_read (\<lambda>s. dict_get (sq_harddeps_rev (q_sq s)) dep)) (\<lambda>needs.
         act_modify (\<lambda>s. if set needs \<subseteq> set (handled s)
           then s\<lparr>sq_harddep_deferred := removeAll dep (sq_harddep_deferred s)\<rparr> else s))))))"

definition update_stats_covered :: "('w rq, unit) act" where
  "update_stats_covered = act_modify (\<lambda>s. s\<lparr>q_stats := update_covered (int (length (scenequeue_covered s)))
     (int (length (scenequeue_notcovered s))) (q_stats s)\<rparr>)"

definition update_counters_with ::
  "(string \<Rightarrow> ('w rq, unit) act) \<Rightarrow> 'w rq_env \<Rightarrow> string \<Rightarrow> bool \<Rightarrow> ('w rq, unit) act" where
  "update_counters_with failure env task fail =
     act_then (act_when fail (fail_harddeps failure env task))
    (act_then (enable_deps task)
    (act_then (walk_done task)
    (act_then (release_harddeps task)
    (act_then update_stats_covered
    (act_modify (\<lambda>s. s\<lparr>holdoff_need_update := True\<rparr>))))))"

definition mark_started :: "string \<Rightarrow> ('w rq, unit) act" where
  "mark_started task = act_modify (\<lambda>s. s\<lparr>sq_running := set_add task (sq_running s),
     sq_buildable := set_add task (sq_buildable s)\<rparr>)"

definition mark_notcovered :: "string \<Rightarrow> ('w rq, unit) act" where
  "mark_notcovered task = act_modify (\<lambda>s. s\<lparr>scenequeue_notcovered := set_add task (scenequeue_notcovered s)\<rparr>)"

fun fail_outright :: "nat \<Rightarrow> 'w rq_env \<Rightarrow> string \<Rightarrow> ('w rq, unit) act" where
  "fail_outright 0 env task = act_raise OutOfFuel"
| "fail_outright (Suc n) env task =
     act_then (mark_started task)
    (act_then (mark_notcovered task)
    (update_counters_with (fail_outright n env) env task True))"

definition sq_task_failoutright :: "'w rq_env \<Rightarrow> string \<Rightarrow> ('w rq, unit) act" where
  "sq_task_failoutright env task =
     act_bind (act_gets (\<lambda>s. length (sq_deps (q_sq s)))) (\<lambda>n. fail_outright (n + 2) env task)"

definition scenequeue_updatecounters :: "'w rq_env \<Rightarrow> string \<Rightarrow> bool \<Rightarrow> ('w rq, unit) act" where
  "scenequeue_updatecounters env = update_counters_with (sq_task_failoutright env) env"

definition sq_task_completeoutright :: "'w rq_env \<Rightarrow> string \<Rightarrow> ('w rq, unit) act" where
  "sq_task_completeoutright env task =
     act_then (act_modify (\<lambda>s. s\<lparr>scenequeue_covered := set_add task (scenequeue_covered s)\<rparr>))
       (scenequeue_updatecounters env task False)"

definition sq_check_taskfail :: "'w rq_env \<Rightarrow> string \<Rightarrow> ('w rq, unit) act" where
  "sq_check_taskfail env task =
     (if en_ignore env = None then act_return ()
      else act_bind (act_lift (split_tid_mcfn (before_sub ''_setscene'' task))) (\<lambda>(mc, fn, taskname, taskfn).
           act_bind (act_lift (cache_field env mc pkg_fn taskfn)) (\<lambda>pn.
           act_when (\<not> check_setscene_enforce_ignore_tasks (en_fnmatch env) pn taskname (en_ignore env))
             (act_modify (\<lambda>s. s\<lparr>q_phase := CleanUp\<rparr>)))))"

definition sq_task_complete :: "'w rq_env \<Rightarrow> string \<Rightarrow> ('w rq, unit) act" where
  "sq_task_complete env task =
     act_then (fire_event (\<lambda>s. SceneCompleted task (q_stats s))) (sq_task_completeoutright env task)"

definition sq_task_fail :: "'w rq_env \<Rightarrow> string \<Rightarrow> int \<Rightarrow> ('w rq, unit) act" where
  "sq_task_fail env task result =
     act_then (fire_event (\<lambda>s. SceneFailed task (q_stats s) result))
    (act_then (mark_notcovered task)
    (act_then (scenequeue_updatecounters env task True)
    (sq_check_taskfail env task)))"

definition sq_task_skip :: "'w rq_env \<Rightarrow> string \<Rightarrow> ('w rq, unit) act" where
  "sq_task_skip env task = act_then (mark_started task) (sq_task_completeoutright env task)"

section \<open>Which setscene tasks can be used\<close>

text \<open>The first loop returns the tasks whose hashes have to be looked up.\<close>

definition scene_stamps :: "'w rq_env \<Rightarrow> string \<Rightarrow> ('w rq, string list) act" where
  "scene_stamps env tid =
     act_then (on_sq (\<lambda>sq. sq\<lparr>sq_stamppresent := removeAll tid (sq_stamppresent sq),
         sq_valid := removeAll tid (sq_valid sq), sq_outrightfail := removeAll tid (sq_outrightfail sq)\<rparr>))
    (act_bind (check_setscene_stamps env tid) (\<lambda>(noexec, stamppresent).
     if noexec then
       act_then (on_sq (\<lambda>sq. sq\<lparr>sq_noexec := set_add tid (sq_noexec sq)\<rparr>))
         (act_then (sq_task_skip env tid) (act_return []))
     else if stamppresent then
       act_then (on_sq (\<lambda>sq. sq\<lparr>sq_stamppresent := set_add tid (sq_stamppresent sq)\<rparr>))
         (act_then (sq_task_skip env tid) (act_return []))
     else act_return [tid]))"

definition undecided :: "'w rq \<Rightarrow> string \<Rightarrow> bool" where
  "undecided s tid \<longleftrightarrow> tid \<notin> set (sq_stamppresent (q_sq s)) \<and> tid \<notin> set (sq_valid (q_sq s)) \<and>
     tid \<notin> set (sq_noexec (q_sq s)) \<and> tid \<notin> set (scenequeue_covered s) \<and>
     tid \<notin> set (scenequeue_notcovered s) \<and> \<not> has_key (sq_deferred s) tid"

definition update_scenequeue_data :: "'w rq_env \<Rightarrow> string list \<Rightarrow> bool \<Rightarrow> ('w rq, unit) act" where
  "update_scenequeue_data env tids summary =
     act_bind (act_map (scene_stamps env) (sort tids)) (\<lambda>tocheck.
     act_bind (act_gets (\<lambda>s. int (length (sq_stamppresent (q_sq s))))) (\<lambda>current.
     act_bind (validate_hashes env (set_union [] (List.concat tocheck)) current False summary) (\<lambda>valid.
     act_then (on_sq (\<lambda>sq. sq\<lparr>sq_valid := set_union (sq_valid sq) valid\<rparr>))
     (act_modify (\<lambda>s. s\<lparr>q_sq := (q_sq s)\<lparr>sq_outrightfail :=
        set_union (sq_outrightfail (q_sq s)) (filter (undecided s) tids)\<rparr>\<rparr>)))))"

end
