(* ===== verification/RunQueue_Tasks.thy ===== *)
theory RunQueue_Tasks
  imports Setscene
begin

text \<open>
  \<open>RunQueueExecute\<close> of \<open>runqueue.py\<close>: how a task is started, completed, skipped or failed, what
  a worker is sent, and \<open>execute\<close>, which the main loop of the server calls again and again. Each
  method is an action on the state of the build; \<open>execute\<close> returns what the caller is to do next.
\<close>

section \<open>The end of a task\<close>

text \<open>The next task that waits for \<open>task\<close> may go on, the others wait for it instead.\<close>

fun release_deferred :: "'w rq_env \<Rightarrow> string \<Rightarrow> string option \<Rightarrow> string list \<Rightarrow> ('w rq, unit) act" where
  "release_deferred env task found [] = act_return ()"
| "release_deferred env task found (t # ts) =
     act_bind (act_read (\<lambda>s. dict_get (sq_deferred s) t)) (\<lambda>blocker.
     if blocker \<noteq> task then release_deferred env task found ts
     else case found of
         None \<Rightarrow>
           act_then (act_modify (\<lambda>s. s\<lparr>sq_deferred := AList.delete t (sq_deferred s)\<rparr>))
          (act_then (update_scenequeue_data env [t] False)
          (release_deferred env task (Some t) ts))
       | Some f \<Rightarrow>
           act_then (act_modify (\<lambda>s. s\<lparr>sq_deferred := AList.update t f (sq_deferred s)\<rparr>))
             (release_deferred env task found ts))"

definition enable_revdep :: "string \<Rightarrow> ('w rq, unit) act" where
  "enable_revdep revdep =
     act_bind (act_gets (\<lambda>s. revdep \<in> set (runq_running s) \<or> revdep \<in> set (runq_buildable s))) (\<lambda>seen.
     if seen then act_return ()
     else act_bind (get_entry revdep) (\<lambda>e.
       act_bind (act_gets (\<lambda>s. set (rt_depends e) \<subseteq> set (runq_complete s))) (\<lambda>alldeps.
       act_when alldeps (setbuildable revdep))))"

definition task_completeoutright :: "'w rq_env \<Rightarrow> string \<Rightarrow> ('w rq, unit) act" where
  "task_completeoutright env task =
     act_then (act_modify (\<lambda>s. s\<lparr>runq_complete := set_add task (runq_complete s)\<rparr>))
    (act_bind (get_entry task) (\<lambda>e.
     act_then (act_for (rt_revdeps e) enable_revdep)
    (act_bind (act_gets (sort \<circ> dict_keys \<circ> sq_deferred)) (release_deferred env task None))))"

definition on_stats :: "(rq_stats \<Rightarrow> rq_stats) \<Rightarrow> ('w rq, unit) act" where
  "on_stats f = act_modify (q_stats_update f)"

definition add_tasksrun :: "string \<Rightarrow> ('w rq, unit) act" where
  "add_tasksrun task = act_modify (\<lambda>s. s\<lparr>runq_tasksrun := set_add task (runq_tasksrun s)\<rparr>)"

definition task_complete :: "'w rq_env \<Rightarrow> string \<Rightarrow> ('w rq, unit) act" where
  "task_complete env task =
     act_then (on_stats stats_completed)
    (act_then (fire_event (\<lambda>s. TaskCompleted task (q_stats s)))
    (act_then (task_completeoutright env task)
    (add_tasksrun task)))"

text \<open>The tail of the log of the fakeroot process, the last line first, if it reports an error\<close>

fun scan_log :: "string list \<Rightarrow> bool \<Rightarrow> bool \<times> string list" where
  "scan_log [] broken = (broken, [])"
| "scan_log (line # lines) broken =
     (let broken = broken \<or> (\<exists>err \<in> set [''mismatch'', ''error'', ''fatal'']. contains (lower line) err)
      in if contains line ''doing new pid setup and server start'' then (broken, [])
         else case scan_log lines broken of (b, ls) \<Rightarrow> (b, line # ls))"

definition fakeroot_log :: "string list option \<Rightarrow> string option" where
  "fakeroot_log content = (case content of
       None \<Rightarrow> None
     | Some ls \<Rightarrow> (case scan_log (rev ls) False of
           (broken, out) \<Rightarrow> if broken \<and> List.concat out \<noteq> [] then Some (List.concat out) else None))"

definition read_fakeroot_log :: "'w rq_env \<Rightarrow> string option \<Rightarrow> 'w rq \<Rightarrow> string option" where
  "read_fakeroot_log env name s = (case name of
       Some (c # cs) \<Rightarrow> fakeroot_log (en_read_log env (c # cs) (q_world s))
     | _ \<Rightarrow> None)"

definition task_fail :: "'w rq_env \<Rightarrow> string \<Rightarrow> exit_code \<Rightarrow> string option \<Rightarrow> ('w rq, unit) act" where
  "task_fail env task exitcode log =
     act_then (on_stats stats_failed)
    (act_then (act_modify (\<lambda>s. s\<lparr>failed_tids := failed_tids s @ [task]\<rparr>))
    (act_then (fire_event (\<lambda>s. TaskFailed task (q_stats s) exitcode (read_fakeroot_log env log s)))
    (act_bind (act_read (\<lambda>s. dict_get (pp_taskdata (q_data s)) [])) (\<lambda>td.
     act_when (halt td) (act_modify (\<lambda>s. s\<lparr>q_phase := CleanUp\<rparr>))))))"

definition add_running :: "string \<Rightarrow> ('w rq, unit) act" where
  "add_running task = act_modify (\<lambda>s. s\<lparr>runq_running := set_add task (runq_running s)\<rparr>)"

definition task_skip :: "'w rq_env \<Rightarrow> string \<Rightarrow> string \<Rightarrow> ('w rq, unit) act" where
  "task_skip env task reason =
     act_then (add_running task)
    (act_then (setbuildable task)
    (act_then (fire_event (\<lambda>s. TaskSkipped task (q_stats s) reason))
    (act_then (task_completeoutright env task)
    (act_then (on_stats stats_skipped)
    (on_stats stats_completed)))))"

text \<open>\<open>runqueue_process_waitpid\<close>: a worker reports that a task has ended.\<close>

definition forget_stamp :: "string \<Rightarrow> ('w rq, unit) act" where
  "forget_stamp task =
     act_bind (act_gets (\<lambda>s. map_of (build_stamps s) task)) (\<lambda>stamp. case stamp of
         None \<Rightarrow> act_return ()
       | Some x \<Rightarrow> act_bind (act_gets (\<lambda>s. x \<in> set (build_stamps2 s))) (\<lambda>there.
           if \<not> there then act_raise ValueError
           else act_modify (\<lambda>s. s\<lparr>build_stamps2 := remove1 x (build_stamps2 s),
                  build_stamps := AList.delete task (build_stamps s)\<rparr>)))"

definition update_live :: "('w rq, unit) act" where
  "update_live = act_modify (\<lambda>s. s\<lparr>q_stats := update_active_setscene (int (length (sq_live s))) (q_stats s)\<rparr>)"

definition runqueue_process_waitpid ::
  "'w rq_env \<Rightarrow> string \<Rightarrow> int \<Rightarrow> string option \<Rightarrow> ('w rq, unit) act" where
  "runqueue_process_waitpid env task status log =
     act_then (forget_stamp task)
    (act_bind (act_gets (\<lambda>s. task \<in> set (sq_live s))) (\<lambda>scene.
     if scene then
       act_then (if status \<noteq> 0 then sq_task_fail env task status else sq_task_complete env task)
      (act_then (act_modify (\<lambda>s. s\<lparr>sq_live := removeAll task (sq_live s)\<rparr>)) update_live)
     else if status \<noteq> 0 then task_fail env task (Status status) log
     else task_complete env task))"

section \<open>Finishing\<close>

definition finish_now :: "('w rq, unit) act" where
  "finish_now =
     act_then (act_modify (\<lambda>s. s\<lparr>q_events := q_events s @ List.map (SentFinishNow False) (q_workers s) @
       List.map (SentFinishNow True) (fakeworkers s)\<rparr>))
    (act_modify (\<lambda>s. s\<lparr>q_phase := (if failed_tids s \<noteq> [] then Failed else Complete)\<rparr>))"

text \<open>Whether anything is left that should not be, at the end of the setscene queue\<close>

definition scenequeue_errors :: "'w rq \<Rightarrow> bool" where
  "scenequeue_errors s \<longleftrightarrow> sq_deferred s \<noteq> [] \<or> taskhash_queue s \<noteq> [] \<or> holdoff_tasks s \<noteq> [] \<or>
     (\<exists>tid \<in> set (q_setscene s). tid \<notin> set (handled s) \<or> tid \<notin> set (sq_buildable s) \<or> tid \<notin> set (sq_running s)) \<or>
     (\<exists>(x, e) \<in> set (q_entries s). x \<notin> set (tasks_covered s) \<and> x \<notin> set (tasks_notcovered s) \<or>
        x \<notin> set (tasks_scenequeue_done s) \<or> rt_depends e = [] \<and> x \<notin> set (runq_buildable s))"

definition summarise_scenequeue_errors :: "('w rq, bool) act" where
  "summarise_scenequeue_errors =
     act_bind (act_gets sqdone) (\<lambda>finished.
     act_then (if finished then act_return () else fire_event (\<lambda>s. SceneComplete (q_stats s)))
       (act_gets scenequeue_errors))"

section \<open>The dependency data of a task\<close>

definition filtermcdeps :: "string \<Rightarrow> string list \<Rightarrow> string list" where
  "filtermcdeps mc deps = fold (\<lambda>dep acc. if mc_from_tid dep = mc then set_add dep acc else acc) deps []"

definition make_dep_data :: "'w rq_env \<Rightarrow> graph \<Rightarrow> string \<Rightarrow> (run_task \<Rightarrow> string \<Rightarrow> string list) \<Rightarrow> dep_data res" where
  "make_dep_data env G tid deps =
     res_bind (split_tid_mcfn tid) (\<lambda>(mc, fn, taskname, taskfn).
     res_bind (cache_field env mc pkg_fn taskfn) (\<lambda>pn.
     res_bind (dict_get G tid) (\<lambda>e.
     res_bind (cache_field env mc fn_provides taskfn) (\<lambda>provides.
     res_bind (cache_field env mc hashfn taskfn) (\<lambda>h.
     Inr \<lparr>dd_pn = pn, dd_taskname = taskname, dd_fn = fn, dd_deps = deps e mc, dd_provides = provides,
       dd_taskhash = rt_hash e, dd_unihash = rt_unihash e, dd_hashfn = h, dd_hash_deps = rt_taskhash_deps e\<rparr>)))))"

definition build_taskdepdata_cache :: "'w rq_env \<Rightarrow> ('w rq, unit) act" where
  "build_taskdepdata_cache env =
     act_bind (act_read (\<lambda>s. res_map (\<lambda>tid. res_bind (make_dep_data env (q_entries s) tid
         (\<lambda>e mc. filtermcdeps mc (rt_depends e))) (\<lambda>d. Inr (tid, d))) (dict_keys (q_entries s)))) (\<lambda>c.
     act_modify (\<lambda>s. s\<lparr>taskdep_cache := c\<rparr>))"

text \<open>\<open>build_taskdepdata\<close>: all the task depends on within its multiconfig, with the unihashes of
  now; two units of fuel per task\<close>

type_synonym dep_table = "(string, dep_data) dict"

definition depdata_node ::
  "graph \<Rightarrow> string \<Rightarrow> dep_table \<times> dep_table \<times> string list \<Rightarrow> (dep_table \<times> dep_table \<times> string list) res" where
  "depdata_node G tid = (\<lambda>(cache, data, additional).
     res_bind (dict_get G tid) (\<lambda>e.
     res_bind (dict_get cache tid) (\<lambda>d.
     let d = d\<lparr>dd_unihash := rt_unihash e\<rparr>;
         data = AList.update tid d data
     in Inr (AList.update tid d cache, data, additional @ filter (\<lambda>x. \<not> has_key data x) (dd_deps d)))))"

fun depdata_loop :: "nat \<Rightarrow> graph \<Rightarrow> string list \<Rightarrow> dep_table \<times> dep_table \<Rightarrow> (dep_table \<times> dep_table) res" where
  "depdata_loop n G [] st = Inr st"
| "depdata_loop 0 G (t # ts) st = Inl OutOfFuel"
| "depdata_loop (Suc n) G (t # ts) (cache, data) =
     res_bind (res_fold (depdata_node G) (t # ts) (cache, data, [])) (\<lambda>(cache, data, additional).
       depdata_loop n G additional (cache, data))"

definition build_taskdepdata :: "string \<Rightarrow> ('w rq, dep_table) act" where
  "build_taskdepdata task =
     act_bind (get_entry task) (\<lambda>e.
     act_bind (act_read (\<lambda>s. depdata_loop (2 * length (q_entries s) + 2) (q_entries s)
         (filtermcdeps (mc_from_tid task) (set_add task (rt_depends e))) (taskdep_cache s, []))) (\<lambda>(cache, data).
     act_then (act_modify (\<lambda>s. s\<lparr>taskdep_cache := cache\<rparr>)) (act_return data)))"

text \<open>\<open>sq_build_taskdepdata\<close>: the same over the dependencies between setscene tasks\<close>

definition scene_depdata_node ::
  "'w rq_env \<Rightarrow> 'w rq \<Rightarrow> string \<Rightarrow> dep_table \<times> string list \<Rightarrow> (dep_table \<times> string list) res" where
  "scene_depdata_node env s tid = (\<lambda>(data, additional).
     res_bind (scene_depends s tid) (\<lambda>deps.
     res_bind (make_dep_data env (q_entries s) tid (\<lambda>_ _. deps)) (\<lambda>d.
     let data = AList.update tid d data
     in Inr (data, additional @ filter (\<lambda>x. \<not> has_key data x) deps))))"

fun scene_depdata_loop :: "nat \<Rightarrow> 'w rq_env \<Rightarrow> 'w rq \<Rightarrow> string list \<Rightarrow> dep_table \<Rightarrow> dep_table res" where
  "scene_depdata_loop n env s [] data = Inr data"
| "scene_depdata_loop 0 env s (t # ts) data = Inl OutOfFuel"
| "scene_depdata_loop (Suc n) env s (t # ts) data =
     res_bind (res_fold (scene_depdata_node env s) (t # ts) (data, [])) (\<lambda>(data, additional).
       scene_depdata_loop n env s additional data)"

definition sq_build_taskdepdata :: "'w rq_env \<Rightarrow> string \<Rightarrow> ('w rq, dep_table) act" where
  "sq_build_taskdepdata env task =
     act_read (\<lambda>s. res_bind (scene_depends s task) (\<lambda>deps.
       scene_depdata_loop (2 * length (q_entries s) + 2) env s (set_add task deps) []))"

section \<open>What the workers report\<close>

text \<open>\<open>runQueuePipe.read\<close>: the bytes of a pipe are a sequence of messages, events and exit codes
  of tasks between tags. The end of an event is the first end tag before which the text unpickles,
  since the text itself may contain end tags.\<close>

definition occurrences :: "string \<Rightarrow> string \<Rightarrow> nat list" where
  "occurrences sub s = filter (\<lambda>i. startswith (drop i s) sub) [0..<length s]"

definition find_sub :: "string \<Rightarrow> string \<Rightarrow> nat option" where
  "find_sub sub s = (case occurrences sub s of [] \<Rightarrow> None | i # is \<Rightarrow> Some i)"

definition slice :: "nat \<Rightarrow> nat \<Rightarrow> string \<Rightarrow> string" where
  "slice i j s = take (j - i) (drop i s)"

definition event_end :: "'w rq_env \<Rightarrow> string \<Rightarrow> nat option" where
  "event_end env q = List.find (\<lambda>i. en_load_event env (slice 7 i q) \<noteq> Truncated) (occurrences ''</event>'' q)"

type_synonym pipe_key = "bool \<times> string"

definition pipe_queue :: "pipe_key \<Rightarrow> 'w rq \<Rightarrow> string" where
  "pipe_queue key s = (case map_of (q_pipes s) key of None \<Rightarrow> [] | Some q \<Rightarrow> q)"

definition set_queue :: "pipe_key \<Rightarrow> string \<Rightarrow> ('w rq, unit) act" where
  "set_queue key q = act_modify (\<lambda>s. s\<lparr>q_pipes := AList.update key q (q_pipes s)\<rparr>)"

definition worker_event :: "worker_event \<Rightarrow> ('w rq, unit) act" where
  "worker_event ev =
     act_then (fire_event (\<lambda>s. FromWorker ev))
       (case ev of UniHashUpdate tid unihash \<Rightarrow> act_modify (\<lambda>s. s\<lparr>taskhash_queue := taskhash_queue s @ [(tid, unihash)]\<rparr>)
        | _ \<Rightarrow> act_return ())"

fun read_events :: "nat \<Rightarrow> 'w rq_env \<Rightarrow> pipe_key \<Rightarrow> bool \<Rightarrow> ('w rq, bool) act" where
  "read_events 0 env key found = act_raise OutOfFuel"
| "read_events (Suc n) env key found =
     act_bind (act_gets (pipe_queue key)) (\<lambda>q.
     if \<not> startswith q ''<event>'' then act_return found
     else case event_end env q of
         None \<Rightarrow> act_return found
       | Some i \<Rightarrow> (case en_load_event env (slice 7 i q) of
             Loaded ev \<Rightarrow> act_then (worker_event ev) (act_then (set_queue key (drop (i + 8) q)) (read_events n env key True))
           | _ \<Rightarrow> act_raise SystemExit))"

definition fakeroot_log_of :: "'w rq_env \<Rightarrow> pipe_key \<Rightarrow> string \<Rightarrow> string option res" where
  "fakeroot_log_of env key taskfn =
     (if fst key then res_bind (dict_get (cf_caches (en_cfg env)) (snd key)) (\<lambda>dc.
        Inr (if taskfn = [] then None else map_of (fakerootlogs dc) taskfn))
      else Inr None)"

fun read_exits :: "nat \<Rightarrow> 'w rq_env \<Rightarrow> pipe_key \<Rightarrow> bool \<Rightarrow> ('w rq, bool) act" where
  "read_exits 0 env key found = act_raise OutOfFuel"
| "read_exits (Suc n) env key found =
     act_bind (act_gets (pipe_queue key)) (\<lambda>q.
     if \<not> startswith q ''<exitcode>'' then act_return found
     else case find_sub ''</exitcode>'' q of
         None \<Rightarrow> act_return found
       | Some i \<Rightarrow> (case en_load_exit env (slice 10 i q) of
             Loaded (task, status) \<Rightarrow>
               act_bind (act_lift (split_tid_mcfn task)) (\<lambda>(_, _, _, taskfn).
               act_bind (act_lift (fakeroot_log_of env key taskfn)) (\<lambda>log.
               act_then (runqueue_process_waitpid env task status log)
              (act_then (set_queue key (drop (i + 11) q))
              (read_exits n env key True))))
           | _ \<Rightarrow> act_raise SystemExit))"

fun read_messages :: "nat \<Rightarrow> 'w rq_env \<Rightarrow> pipe_key \<Rightarrow> ('w rq, unit) act" where
  "read_messages 0 env key = act_raise OutOfFuel"
| "read_messages (Suc n) env key =
     act_bind (act_gets (pipe_queue key)) (\<lambda>q.
     if q = [] then act_return ()
     else act_bind (read_events (Suc (length q)) env key False) (\<lambda>found.
          act_bind (read_exits (Suc (length q)) env key found) (\<lambda>found.
          if found then read_messages n env key else act_return ())))"

text \<open>\<open>finish_runqueue(True)\<close>, and what a read does about workers that died\<close>

definition finish_runqueue_now :: "('w rq, unit) act" where
  "finish_runqueue_now = act_bind (act_gets q_exec) (\<lambda>there.
     if there then finish_now else act_modify (\<lambda>s. s\<lparr>q_phase := Complete\<rparr>))"

definition worker_keys :: "'w rq \<Rightarrow> pipe_key list" where
  "worker_keys s = List.map (Pair False) (q_workers s) @ List.map (Pair True) (fakeworkers s)"

definition check_workers :: "'w rq_env \<Rightarrow> ('w rq, unit) act" where
  "check_workers env =
     act_bind (act_gets worker_keys) (\<lambda>keys.
     act_for keys (\<lambda>key.
       act_bind (act_gets (\<lambda>s. en_died env key (q_world s) \<and> \<not> q_teardown s)) (\<lambda>died.
       act_when died finish_runqueue_now)))"

definition pipe_read :: "'w rq_env \<Rightarrow> pipe_key \<Rightarrow> ('w rq, bool) act" where
  "pipe_read env key =
     act_then (check_workers env)
    (act_bind (act_gets (\<lambda>s. en_input env key (q_world s))) (\<lambda>(bytes, w).
     act_then (on_world (\<lambda>_. w))
    (act_bind (act_gets (pipe_queue key)) (\<lambda>q.
     act_then (set_queue key (q @ bytes))
    (act_then (read_messages (Suc (length (q @ bytes))) env key)
     (act_return (bytes \<noteq> [])))))))"

definition read_workers :: "'w rq_env \<Rightarrow> ('w rq, unit) act" where
  "read_workers env =
     act_bind (act_gets worker_keys) (\<lambda>keys.
     act_for keys (\<lambda>key. act_then (pipe_read env key) (act_return ())))"

text \<open>What the main loop is told: to call again, to wait for the pipes, or the end\<close>

datatype retval = Ret bool | Fds "pipe_key list" | Wait

definition finish :: "'w rq_env \<Rightarrow> ('w rq, retval) act" where
  "finish env =
     act_then (act_modify (\<lambda>s. s\<lparr>q_phase := CleanUp\<rparr>))
    (act_bind (act_gets (\<lambda>s. st_active (q_stats s) + int (length (sq_live s)))) (\<lambda>active.
     if active > 0 then
       act_then (fire_event (\<lambda>_. ExitWait active))
      (act_then (read_workers env)
      (act_bind (act_gets worker_keys) (\<lambda>fds. act_return (Fds fds))))
     else act_then (act_modify (\<lambda>s. s\<lparr>q_phase := (if failed_tids s \<noteq> [] then Failed else Complete)\<rparr>))
       (act_return (Ret True))))"

section \<open>Which tasks are covered\<close>

definition covered_by :: "lists \<Rightarrow> string list \<Rightarrow> string list res" where
  "covered_by coll tids = res_fold (\<lambda>tid acc. res_bind (dict_get coll tid) (\<lambda>ts. Inr (set_union acc ts))) tids tids"

definition compute_covered :: "'w rq \<Rightarrow> (string list \<times> string list) res" where
  "compute_covered s =
     (let sq = q_sq s in
      res_bind (covered_by (sq_covered_tasks sq) (scenequeue_notcovered s)) (\<lambda>ns.
      let notcovered = set_inter (set_union (set_union ns (sq_cantskip sq))
            (set_diff (sq_unskippable sq) (q_setscene s))) (tasks_scenequeue_done s)
      in res_bind (covered_by (sq_covered_tasks sq) (scenequeue_covered s)) (\<lambda>cs.
         Inr (set_inter (set_diff cs notcovered) (tasks_scenequeue_done s), notcovered))))"

definition holdoff_of :: "'w rq \<Rightarrow> string list res" where
  "holdoff_of s =
     (let open = filter (\<lambda>tid. tid \<notin> set (handled s)) (q_setscene s)
      in res_fold (\<lambda>tid acc. res_bind (dict_get (sq_covered_tasks (q_sq s)) tid) (\<lambda>ts.
           Inr (set_union acc (filter (\<lambda>dep. dep \<notin> set (runq_complete s)) ts)))) open open)"

definition enable_covered :: "string \<Rightarrow> ('w rq, unit) act" where
  "enable_covered tid =
     act_bind (get_entry tid) (\<lambda>e.
     act_bind (act_gets (\<lambda>s. set (rt_depends e) \<subseteq> set (runq_complete s))) (\<lambda>ready.
     act_when ready (setbuildable tid)))"

definition update_holdofftasks :: "('w rq, unit) act" where
  "update_holdofftasks =
     act_bind (act_gets holdoff_need_update) (\<lambda>need.
     if \<not> need then act_return ()
     else act_bind (act_read compute_covered) (\<lambda>(covered, notcovered).
       act_then (act_for (set_union notcovered covered) enable_covered)
      (act_then (act_modify (\<lambda>s. s\<lparr>tasks_covered := covered, tasks_notcovered := notcovered\<rparr>))
      (act_bind (act_read holdoff_of) (\<lambda>holdoff.
       act_modify (\<lambda>s. s\<lparr>holdoff_tasks := holdoff, holdoff_need_update := False\<rparr>))))))"

end
