(* ===== verification/Migration.thy ===== *)
theory Migration
  imports RunQueue_Tasks
begin

text \<open>
  The rest of \<open>RunQueueExecute.process_possible_migrations\<close>: the unihashes that changed while the
  build runs are passed on to the tasks that depend on them, and setscene tasks whose hash changed
  go back to the setscene queue. The loops take one unit of fuel per task of the graph.
\<close>

section \<open>Changed hashes\<close>

text \<open>\<open>process_possible_migrations\<close>. First the unihashes the workers reported, for tasks that do
  not run: the tasks they change, those deferred after them included.\<close>

definition set_unihash :: "'w rq_env \<Rightarrow> string \<Rightarrow> string \<Rightarrow> ('w rq, unit) act" where
  "set_unihash env unihash hashtid =
     act_bind (get_entry hashtid) (\<lambda>_.
     act_then (on_entries (update_entry hashtid (\<lambda>e. e\<lparr>rt_unihash := Some unihash\<rparr>)))
       (on_world (en_set_unihash env hashtid unihash)))"

definition apply_unihash :: "'w rq_env \<Rightarrow> string \<times> string \<Rightarrow> ('w rq, string list) act" where
  "apply_unihash env = (\<lambda>(tid, unihash).
     act_bind (act_gets (\<lambda>s. tid \<in> set (runq_running s) \<and> tid \<notin> set (runq_complete s))) (\<lambda>runs.
     if runs then act_return []
     else act_then (act_modify (\<lambda>s. s\<lparr>taskhash_queue := remove1 (tid, unihash) (taskhash_queue s)\<rparr>))
         (act_bind (get_entry tid) (\<lambda>e.
          if rt_unihash e = Some unihash then act_return []
          else act_bind (act_gets (\<lambda>s. tid # List.map fst (filter (\<lambda>(deftid, t). t = tid) (sq_deferred s)))) (\<lambda>torehash.
            act_then (act_for torehash (set_unihash env unihash)) (act_return torehash))))))"

text \<open>Then all that depends on them, and the hashes of these in dependency order. The test of
  \<open>depends\<close> reads the entry of \<open>p\<close>, the last task an earlier loop visited.\<close>

definition all_revdeps :: "graph \<Rightarrow> string list \<Rightarrow> string list res" where
  "all_revdeps G tids = res_fold (\<lambda>t acc. res_bind (dict_get G t) (\<lambda>e. Inr (set_union acc (rt_revdeps e)))) tids []"

fun revdeps_closure :: "nat \<Rightarrow> graph \<Rightarrow> string list \<Rightarrow> string list \<Rightarrow> string list res" where
  "revdeps_closure n G [] seen = Inr seen"
| "revdeps_closure 0 G (t # ts) seen = Inl OutOfFuel"
| "revdeps_closure (Suc n) G (t # ts) seen =
     (let seen = set_union seen (t # ts)
      in res_bind (all_revdeps G (t # ts)) (\<lambda>new. revdeps_closure n G (set_diff new seen) seen))"

definition rehash_ready ::
  "'w rq_env \<Rightarrow> string \<Rightarrow> string list \<Rightarrow> string list \<Rightarrow> ('w rq, (string \<times> string) list) act" where
  "rehash_ready env p waiting current =
     act_bind (get_entry p) (\<lambda>pe.
     act_bind (act_map (\<lambda>tid. act_bind (get_entry tid) (\<lambda>e.
         if rt_depends pe \<noteq> [] \<and> set (rt_depends e) \<inter> set waiting \<noteq> {} then act_return []
         else act_bind (in_world (sg_taskhash (en_siggen env) tid (rt_depends e))) (\<lambda>h. act_return [(tid, h)]))) current) (\<lambda>rows.
     act_return (List.concat rows)))"

definition rehash_task ::
  "'w rq_env \<Rightarrow> (string, string) dict \<Rightarrow> string \<times> string \<Rightarrow> ('w rq, string list) act" where
  "rehash_task env unihashes = (\<lambda>(tid, newhash).
     act_bind (get_entry tid) (\<lambda>e.
     act_bind (act_lift (dict_get unihashes tid)) (\<lambda>newuni.
     act_bind (act_gets (\<lambda>s. tid \<in> set (scenequeue_covered s) \<or> tid \<in> set (sq_live s))) (\<lambda>started.
     if rt_unihash e = Some newuni then act_return []
     else if started then
       act_then (on_world (en_report_equiv env tid newhash (rt_unihash e) newuni)) (act_return [])
     else act_then (on_entries (update_entry tid (\<lambda>e. e\<lparr>rt_hash := Some newhash, rt_unihash := Some newuni\<rparr>)))
       (act_return [tid])))))"

fun rehash_loop ::
  "nat \<Rightarrow> 'w rq_env \<Rightarrow> string \<Rightarrow> string list \<Rightarrow> string list \<Rightarrow> string list \<Rightarrow> ('w rq, string list) act" where
  "rehash_loop n env p waiting [] changed = act_return changed"
| "rehash_loop 0 env p waiting (t # ts) changed = act_raise OutOfFuel"
| "rehash_loop (Suc n) env p waiting (t # ts) changed =
     act_bind (rehash_ready env p waiting (t # ts)) (\<lambda>ready.
     act_bind (in_world (sg_unihashes (en_siggen env) (List.map fst ready))) (\<lambda>unihashes.
     act_bind (act_map (rehash_task env unihashes) ready) (\<lambda>rows.
     act_bind (act_read (\<lambda>s. all_revdeps (q_entries s) (List.map fst ready))) (\<lambda>revs.
     let waiting = set_diff waiting (List.map fst ready)
     in rehash_loop n env p waiting (set_inter revs waiting) (changed @ List.concat rows)))))"

definition rehash :: "'w rq_env \<Rightarrow> string list \<Rightarrow> ('w rq, string list) act" where
  "rehash env toprocess =
     act_bind (act_read (\<lambda>s. res_bind (all_revdeps (q_entries s) toprocess) (\<lambda>start.
         revdeps_closure (Suc (length (q_entries s))) (q_entries s) start []))) (\<lambda>waiting.
     act_bind (act_read (\<lambda>s. res_map (\<lambda>p. res_bind (dict_get (q_entries s) p) (\<lambda>e.
         Inr (if set (rt_depends e) \<inter> set waiting = {} then [p] else []))) waiting)) (\<lambda>rows.
     if waiting = [] then act_return []
     else rehash_loop (Suc (length waiting)) env (last waiting) waiting (List.concat rows) []))"

text \<open>A setscene task whose hash changed goes back to the queue, unless it or a task it covers is
  running; \<open>Some False\<close>: it stays pending, \<open>None\<close>: a covered task has run already, which is fatal.\<close>

definition reset_scene_task :: "'w rq_env \<Rightarrow> string \<Rightarrow> ('w rq, unit) act" where
  "reset_scene_task env tid =
     act_bind (act_lift (split_tid_mcfn tid)) (\<lambda>(mc, fn, taskname, taskfn).
     act_modify (\<lambda>s. s\<lparr>
       sq_buildable := removeAll tid (sq_buildable s),
       sq_running := removeAll tid (sq_running s),
       scenequeue_notcovered := removeAll tid (scenequeue_notcovered s),
       scenequeue_covered := removeAll tid (scenequeue_covered s),
       scenequeue_notneeded := removeAll tid (scenequeue_notneeded s),
       q_sq := (q_sq s)\<lparr>sq_outrightfail := removeAll tid (sq_outrightfail (q_sq s)),
         sq_stamps := AList.update tid (en_stamp_plain env taskname taskfn (q_world s)) (sq_stamps (q_sq s))\<rparr>,
       stampcache := AList.delete tid (stampcache s),
       build_stamps := AList.delete tid (build_stamps s)\<rparr>))"

text \<open>The loop over the covered tasks: True if one is marked as completed without having run\<close>

fun undo_done :: "string list \<Rightarrow> ('w rq, bool) act" where
  "undo_done [] = act_return False"
| "undo_done (dep # deps) =
     act_bind (act_gets (\<lambda>s. (dep \<in> set (runq_complete s), dep \<in> set (runq_tasksrun s)))) (\<lambda>(complete, ran).
     if complete \<and> \<not> ran then act_return True
     else act_then (act_when (\<not> complete) (act_modify (\<lambda>s. if dep \<in> set (sq_unskippable (q_sq s)) then s
              else s\<lparr>tasks_scenequeue_done := removeAll dep (tasks_scenequeue_done s)\<rparr>)))
            (undo_done deps))"

definition migrate_task :: "'w rq_env \<Rightarrow> string \<Rightarrow> ('w rq, bool option) act" where
  "migrate_task env tid =
     act_bind (act_gets (\<lambda>s. tid \<in> set (runq_running s) \<or> tid \<in> set (sq_live s))) (\<lambda>late.
     let forget = act_modify (\<lambda>s. s\<lparr>pending_migrations := removeAll tid (pending_migrations s)\<rparr>) in
     if late then act_then forget (act_return (Some False))
     else act_bind (act_read (\<lambda>s. dict_get (sq_covered_tasks (q_sq s)) tid)) (\<lambda>covered.
       act_bind (act_gets (\<lambda>s. \<exists>dep \<in> set covered. dep \<in> set (runq_running s) \<and> dep \<notin> set (runq_complete s))) (\<lambda>blocked.
       if blocked then act_return (Some False)
       else act_then forget
         (act_then (act_modify (\<lambda>s. s\<lparr>tasks_scenequeue_done := removeAll tid (tasks_scenequeue_done s)\<rparr>))
         (act_bind (undo_done covered) (\<lambda>fatal.
          if fatal then act_then (act_modify (\<lambda>s. s\<lparr>failed_tids := failed_tids s @ [tid], q_phase := CleanUp\<rparr>)) (act_return None)
          else act_then (reset_scene_task env tid) (act_return (Some True))))))))"

fun migrate_tasks :: "'w rq_env \<Rightarrow> string list \<Rightarrow> string list \<Rightarrow> ('w rq, string list option) act" where
  "migrate_tasks env [] moved = act_return (Some moved)"
| "migrate_tasks env (tid # tids) moved =
     act_bind (migrate_task env tid) (\<lambda>r. case r of
         None \<Rightarrow> act_return None
       | Some True \<Rightarrow> migrate_tasks env tids (moved @ [tid])
       | Some False \<Rightarrow> migrate_tasks env tids moved)"

definition requeue_task :: "string \<Rightarrow> ('w rq, string \<times> bool) act" where
  "requeue_task tid =
     act_bind (act_read (\<lambda>s. dict_get (sq_harddeps_rev (q_sq s)) tid)) (\<lambda>hard.
     act_bind (act_read (\<lambda>s. dict_get (sq_revdeps (q_sq s)) tid)) (\<lambda>revs.
     act_bind (act_gets (\<lambda>s. \<exists>t \<in> set hard. t \<in> set (scenequeue_notcovered s))) (\<lambda>harddepfail.
     act_then (act_modify (\<lambda>s. if (\<not> harddepfail \<and> set revs \<subseteq> set (handled s)) \<or> revs = []
         then s\<lparr>sq_buildable := set_add tid (sq_buildable s)\<rparr> else s))
     (act_return (tid, harddepfail)))))"

definition defer_again :: "'w rq_env \<Rightarrow> string \<Rightarrow> ('w rq, unit) act" where
  "defer_again env tid =
     act_bind (act_read (\<lambda>s. pending_hash_index env (q_entries s) tid)) (\<lambda>h.
     act_modify (\<lambda>s. case map_of (sq_hashes (q_sq s)) h of
         None \<Rightarrow> s
       | Some t \<Rightarrow> if t = tid then s else s\<lparr>sq_deferred := AList.update tid t (sq_deferred s)\<rparr>))"

definition requeue_tasks :: "'w rq_env \<Rightarrow> string list \<Rightarrow> ('w rq, unit) act" where
  "requeue_tasks env moved =
     act_bind (act_map requeue_task moved) (\<lambda>rows.
     act_then (act_when (moved \<noteq> [])
       (act_then (act_modify (\<lambda>s. s\<lparr>sqdone := False\<rparr>))
       (act_bind (act_gets (sort \<circ> sq_multiconfigs \<circ> q_sq)) (\<lambda>mcs.
        act_then (act_for mcs (\<lambda>mc. act_for (filter (\<lambda>tid. mc_from_tid tid = mc) (sort moved)) (defer_again env)))
          (update_scenequeue_data env moved False)))))
     (act_for rows (\<lambda>(tid, harddepfail). act_when harddepfail (sq_task_failoutright env tid))))"

definition process_possible_migrations :: "'w rq_env \<Rightarrow> ('w rq, unit) act" where
  "process_possible_migrations env =
     act_bind (act_gets taskhash_queue) (\<lambda>updates.
     act_bind (act_map (apply_unihash env) updates) (\<lambda>rows.
     act_bind (rehash env (set_union [] (List.concat rows))) (\<lambda>changed.
     act_then (act_when (changed \<noteq> []) (act_modify (\<lambda>s. s\<lparr>q_events := q_events s @
         List.map (\<lambda>(fake, mc). SentHashes fake mc) (worker_keys s)\<rparr>)))
    (act_then (act_modify (\<lambda>s. s\<lparr>pending_migrations := set_union (pending_migrations s)
         (filter (\<lambda>tid. tid \<in> set (q_setscene s)) changed)\<rparr>))
    (act_bind (act_gets pending_migrations) (\<lambda>pending.
     act_bind (migrate_tasks env pending []) (\<lambda>r. case r of
         None \<Rightarrow> act_return ()
       | Some moved \<Rightarrow>
           act_then (requeue_tasks env moved)
          (act_when (changed \<noteq> [] \<or> moved \<noteq> [])
             (act_then update_stats_covered
               (act_modify (\<lambda>s. s\<lparr>sq_needed_harddeps := [], sq_harddep_deferred := [], holdoff_need_update := True\<rparr>)))))))))))"

end
