(* ===== verification/RunQueue_Execute.thy ===== *)
theory RunQueue_Execute
  imports Migration
begin

text \<open>
  \<open>RunQueueExecute.execute\<close> of \<open>runqueue.py\<close>: one step of the build. It reads what the workers
  report, starts at most one setscene task and one task, and tells the main loop whether to call
  again, to wait for the workers, or that the build has ended.
\<close>

section \<open>Starting a task\<close>

text \<open>\<open>virtualfn2realfn\<close> of \<open>cache.py\<close>: file, class extension and multiconfig\<close>

definition virtualfn2realfn :: "string \<Rightarrow> string \<times> string \<times> string" where
  "virtualfn2realfn virtualfn =
     (let (mc, v) = split_mc virtualfn
      in if startswith v ''virtual:''
         then let elems = split_on CHR '':'' v in (last elems, join '':'' (butlast (tl elems)), mc)
         else (v, [], mc))"

definition make_request ::
  "'w rq_env \<Rightarrow> string \<Rightarrow> string \<Rightarrow> bool \<Rightarrow> bool \<Rightarrow> dep_table \<Rightarrow> ('w rq, run_request) act" where
  "make_request env task taskname noerrors dry depdata =
     act_bind (act_lift (split_tid_mcfn task)) (\<lambda>(mc, fn, _, taskfn).
     act_bind (get_entry task) (\<lambda>e.
     act_bind (act_lift (cache_field env mc fakerootenv taskfn)) (\<lambda>fenv.
     act_bind (act_lift (cache_field env mc fakerootdirs taskfn)) (\<lambda>fdirs.
     act_bind (act_lift (cache_field env mc fakerootnoenv taskfn)) (\<lambda>fnoenv.
     act_return \<lparr>rr_fn = taskfn, rr_task = task, rr_taskname = taskname, rr_taskhash = rt_hash e,
       rr_unihash = rt_unihash e, rr_quieterrors = noerrors, rr_appends = en_appends env mc taskfn,
       rr_layer = en_layer env mc (fst (virtualfn2realfn taskfn)), rr_depdata = depdata, rr_dry_run = dry,
       rr_fakerootenv = fenv, rr_fakerootdirs = fdirs, rr_fakerootnoenv = fnoenv\<rparr>)))))"

definition start_fakeworker :: "'w rq_env \<Rightarrow> string \<Rightarrow> ('w rq, unit) act" where
  "start_fakeworker env mc =
     act_bind (act_gets (\<lambda>s. mc \<in> set (fakeworkers s))) (\<lambda>there.
     if there then act_return ()
     else act_bind (act_gets (\<lambda>s. en_start_fakeworker env mc (q_world s))) (\<lambda>(started, w).
       act_then (on_world (\<lambda>_. w))
      (if \<not> started then act_raise (ExternalExn ''OSError'')
       else act_modify (\<lambda>s. s\<lparr>fakeworkers := fakeworkers s @ [mc], q_pipes := AList.update (True, mc) [] (q_pipes s)\<rparr>))))"

definition send_task :: "bool \<Rightarrow> string \<Rightarrow> run_request \<Rightarrow> ('w rq, unit) act" where
  "send_task fake mc req =
     act_bind (act_gets (\<lambda>s. if fake then mc \<in> set (fakeworkers s) else mc \<in> set (q_workers s))) (\<lambda>there.
     if there then fire_event (\<lambda>_. SentTask mc fake req) else act_raise KeyError)"

definition add_build_stamp :: "'w rq_env \<Rightarrow> string \<Rightarrow> string \<Rightarrow> string \<Rightarrow> ('w rq, unit) act" where
  "add_build_stamp env task taskname taskfn =
     act_modify (\<lambda>s. let stamp = en_stamp_plain env taskname taskfn (q_world s)
       in s\<lparr>build_stamps := AList.update task stamp (build_stamps s), build_stamps2 := build_stamps2 s @ [stamp]\<rparr>)"

section \<open>The next setscene task\<close>

definition check_dependencies :: "'w rq_env \<Rightarrow> string \<Rightarrow> string list \<Rightarrow> ('w rq, bool) act" where
  "check_dependencies env task taskdeps =
     (case en_depvalidate env of
        None \<Rightarrow> act_return False
      | Some f \<Rightarrow>
          act_bind (act_lift (res_map (\<lambda>dep. res_bind (split_tid_mcfn dep) (\<lambda>(mc, fn, taskname, taskfn).
              res_bind (cache_field env mc pkg_fn taskfn) (\<lambda>pn. Inr (dep, pn, taskname, fn)))) (set_add task taskdeps))) (\<lambda>taskdata.
          act_gets (\<lambda>s. f task taskdata (scenequeue_notneeded s) (q_world s))))"

datatype choice = Go_on | Give_up | Pick string

text \<open>Whether the task waits its turn\<close>

definition scene_ready :: "string \<Rightarrow> ('w rq, bool) act" where
  "scene_ready t =
     act_read (\<lambda>s. if t \<in> set (sq_buildable s) \<and> t \<notin> set (sq_running s)
       then res_bind (dict_get (sq_stamps (q_sq s)) t) (\<lambda>stamp.
         Inr (stamp \<notin> set (List.map snd (build_stamps s)) \<and> t \<notin> set (sq_harddep_deferred s) \<and>
           (case map_of (sq_deferred s) t of None \<Rightarrow> True | Some b \<Rightarrow> b \<in> set (runq_complete s))))
       else Inr False)"

text \<open>Whether all that would use the task's result is covered, so that it is not needed\<close>

definition scene_unneeded :: "'w rq_env \<Rightarrow> string \<Rightarrow> ('w rq, bool) act" where
  "scene_unneeded env t =
     act_bind (act_read (\<lambda>s. dict_get (sq_revdeps (q_sq s)) t)) (\<lambda>revs.
     act_bind (act_gets (\<lambda>s. t \<notin> set (sq_unskippable (q_sq s)) \<and> revs \<noteq> [] \<and> t \<notin> set (sq_needed_harddeps s) \<and>
         set revs \<subseteq> set (scenequeue_covered s))) (\<lambda>ok.
     if \<not> ok then act_return False
     else act_bind (check_dependencies env t revs) (\<lambda>valid.
       act_gets (\<lambda>s. valid \<and> t \<notin> set (q_target_tids s)))))"

definition delete_deferred :: "string \<Rightarrow> ('w rq, unit) act" where
  "delete_deferred t = act_modify (\<lambda>s. s\<lparr>sq_deferred := AList.delete t (sq_deferred s)\<rparr>)"

definition skip_unneeded :: "'w rq_env \<Rightarrow> string \<Rightarrow> ('w rq, unit) act" where
  "skip_unneeded env t =
     act_then (sq_task_skip env t)
    (act_then (act_modify (\<lambda>s. s\<lparr>scenequeue_notneeded := set_add t (scenequeue_notneeded s)\<rparr>))
    (delete_deferred t))"

text \<open>The hard dependencies that are open are asked for, and the task waits for them: True if any
  had not been asked for before.\<close>

definition open_harddeps :: "string \<Rightarrow> 'w rq \<Rightarrow> bool" where
  "open_harddeps t s \<longleftrightarrow> (case map_of (sq_harddeps_rev (q_sq s)) t of
     None \<Rightarrow> False | Some hard \<Rightarrow> \<not> set hard \<subseteq> set (handled s))"

definition ask_harddeps :: "string \<Rightarrow> ('w rq, bool) act" where
  "ask_harddeps t =
     act_bind (act_gets (\<lambda>s. filter (\<lambda>dep. dep \<notin> set (sq_needed_harddeps s)) (dict_list (sq_harddeps_rev (q_sq s)) t))) (\<lambda>new.
     act_then (act_modify (\<lambda>s. s\<lparr>sq_buildable := set_union (sq_buildable s) new,
         sq_needed_harddeps := set_union (sq_needed_harddeps s) new,
         sq_harddep_deferred := set_add t (sq_harddep_deferred s)\<rparr>))
       (act_return (new \<noteq> [])))"

text \<open>The last tests before a task is picked: a deferred task is looked up again. The loop over
  the covered tasks that are running has no effect, its \<open>continue\<close> being its own.\<close>

definition scene_valid :: "'w rq_env \<Rightarrow> string \<Rightarrow> ('w rq, choice) act" where
  "scene_valid env t =
     act_bind (act_read (\<lambda>s. dict_get (sq_covered_tasks (q_sq s)) t)) (\<lambda>_.
     act_bind (act_gets (\<lambda>s. has_key (sq_deferred s) t)) (\<lambda>deferred.
     act_bind (if deferred then act_then (delete_deferred t) (validate_hashes env [t] 0 False False) else act_return [t]) (\<lambda>valid.
     act_bind (act_gets (\<lambda>s. valid = [] \<or> t \<in> set (sq_outrightfail (q_sq s)))) (\<lambda>failed.
     if failed then act_then (sq_task_failoutright env t) (act_return Give_up)
     else act_return (Pick t)))))"

definition try_setscene :: "'w rq_env \<Rightarrow> string \<Rightarrow> ('w rq, choice) act" where
  "try_setscene env t =
     act_bind (scene_ready t) (\<lambda>ready.
     if \<not> ready then act_return Go_on
     else act_bind (scene_unneeded env t) (\<lambda>unneeded.
     if unneeded then act_then (skip_unneeded env t) (act_return Give_up)
     else act_bind (act_gets (open_harddeps t)) (\<lambda>open.
     if open then act_bind (ask_harddeps t) (\<lambda>updated. act_return (if updated then Give_up else Go_on))
     else scene_valid env t)))"

text \<open>The loop goes once round the setscene tasks, from where it stopped the last time.\<close>

definition next_in_cycle :: "('w rq, string) act" where
  "next_in_cycle = act_bind (act_gets scene_cycle) (\<lambda>c. case c of
       Some (t # ts) \<Rightarrow> act_then (act_modify (\<lambda>s. s\<lparr>scene_cycle := Some (ts @ [t])\<rparr>)) (act_return t)
     | _ \<Rightarrow> act_raise (ExternalExn ''StopIteration''))"

fun scene_loop :: "nat \<Rightarrow> 'w rq_env \<Rightarrow> ('w rq, choice) act" where
  "scene_loop 0 env = act_return Go_on"
| "scene_loop (Suc n) env =
     act_bind next_in_cycle (\<lambda>t.
     act_bind (try_setscene env t) (\<lambda>c. if c = Go_on then scene_loop n env else act_return c))"

definition next_setscene :: "'w rq_env \<Rightarrow> ('w rq, choice) act" where
  "next_setscene env =
     act_then (act_modify (\<lambda>s. case scene_cycle s of None \<Rightarrow> s\<lparr>scene_cycle := Some (q_setscene s)\<rparr> | Some _ \<Rightarrow> s))
    (act_bind (act_gets (\<lambda>s. (\<not> sqdone s \<and> can_start_task env s, length (q_setscene s)))) (\<lambda>(ok, n).
     if ok then scene_loop n env else act_return Go_on))"

text \<open>Running it, or not; True if \<open>execute\<close> returns to its caller here\<close>

definition launch_setscene :: "'w rq_env \<Rightarrow> string \<Rightarrow> string \<Rightarrow> string \<Rightarrow> string \<Rightarrow> ('w rq, bool) act" where
  "launch_setscene env task mc taskname taskfn =
     act_then (fire_event (\<lambda>s. SceneStarted task (q_stats s)))
    (act_bind (act_lift (cache_field env mc task_deps_of taskfn)) (\<lambda>deps.
     act_bind (sq_build_taskdepdata env task) (\<lambda>depdata.
     act_bind (make_request env task taskname True False depdata) (\<lambda>req.
     act_then (if task_flag deps ''fakeroot'' taskname \<noteq> None \<and> \<not> en_dry_run env
         then act_then (start_fakeworker env mc) (send_task True mc req) else send_task False mc req)
    (act_then (add_build_stamp env task taskname taskfn)
    (act_then (act_modify (\<lambda>s. s\<lparr>sq_running := set_add task (sq_running s), sq_live := set_add task (sq_live s)\<rparr>))
    (act_then update_live
    (act_gets (can_start_task env)))))))))"

definition run_setscene :: "'w rq_env \<Rightarrow> string \<Rightarrow> ('w rq, bool) act" where
  "run_setscene env task =
     act_bind (act_lift (split_tid_mcfn task)) (\<lambda>(mc, fn, tn, taskfn).
     let taskname = tn @ ''_setscene'' in
     act_bind (act_lift (taskname_from_tid task)) (\<lambda>plain.
     act_bind (check_stamp_task env task (Some plain) True) (\<lambda>current.
     if current then act_then (sq_task_failoutright env task) (act_return True)
     else act_bind (act_gets (\<lambda>s. cf_force (en_cfg env) \<and> task \<in> set (q_target_tids s))) (\<lambda>forced.
     if forced then act_then (sq_task_failoutright env task) (act_return True)
     else act_bind (check_stamp_task env task (Some taskname) False) (\<lambda>current.
     if current then act_then (sq_task_skip env task) (act_return True)
     else if en_skipsetscene env then act_then (sq_task_failoutright env task) (act_return True)
     else launch_setscene env task mc taskname taskfn)))))"

section \<open>The next task\<close>

definition check_setscene_ignore_tasks :: "'w rq_env \<Rightarrow> string \<Rightarrow> ('w rq, bool) act" where
  "check_setscene_ignore_tasks env tid =
     act_bind (act_lift (split_tid_mcfn tid)) (\<lambda>(mc, fn, taskname, taskfn).
     act_bind (act_gets (\<lambda>s. tid \<in> set (tasks_covered s))) (\<lambda>covered.
     if covered then act_return False
     else act_bind (check_stamp_task env tid (Some taskname) False) (\<lambda>current.
     if current then act_return False
     else act_bind (act_lift (cache_field env mc task_deps_of taskfn)) (\<lambda>deps.
     if task_flag deps ''noexec'' taskname \<noteq> None then act_return False
     else act_bind (act_lift (cache_field env mc pkg_fn taskfn)) (\<lambda>pn.
       act_return (\<not> check_setscene_enforce_ignore_tasks (en_fnmatch env) pn taskname (en_ignore env)))))))"

text \<open>True: \<open>execute\<close> returns; a fakeroot worker that cannot be started fails the build, and
  counts the task as failed although it was never counted as active.\<close>

definition run_noexec :: "'w rq_env \<Rightarrow> string \<Rightarrow> string \<Rightarrow> string \<Rightarrow> ('w rq, unit) act" where
  "run_noexec env task taskname taskfn =
     act_then (fire_event (\<lambda>s. TaskStarted task (q_stats s) True))
    (act_then (add_running task)
    (act_then (on_stats stats_active)
    (act_then (act_when (\<not> (en_dry_run env \<or> en_enforce env)) (on_world (en_make_stamp env taskname taskfn)))
    (task_complete env task))))"

definition deliver_task :: "'w rq_env \<Rightarrow> bool \<Rightarrow> string \<Rightarrow> run_request \<Rightarrow> ('w rq, bool) act" where
  "deliver_task env fake mc req =
     (if \<not> fake then act_then (send_task False mc req) (act_return True)
      else act_bind (act_catch (act_then (start_fakeworker env mc) (act_return True))
             (\<lambda>e. if e = ExternalExn ''OSError''
                then act_then (act_modify (\<lambda>s. s\<lparr>q_phase := Failed\<rparr>)) (act_then (on_stats stats_failed) (act_return False))
                else act_raise e)) (\<lambda>ok.
           if ok then act_then (send_task True mc req) (act_return True) else act_return False))"

definition launch_task :: "'w rq_env \<Rightarrow> string \<Rightarrow> string \<Rightarrow> string \<Rightarrow> string \<Rightarrow> task_deps \<Rightarrow> ('w rq, bool) act" where
  "launch_task env task mc taskname taskfn deps =
     act_then (fire_event (\<lambda>s. TaskStarted task (q_stats s) False))
    (act_bind (build_taskdepdata task) (\<lambda>depdata.
     act_bind (make_request env task taskname False (en_enforce env) depdata) (\<lambda>req.
     act_bind (deliver_task env (task_flag deps ''fakeroot'' taskname \<noteq> None \<and> \<not> (en_dry_run env \<or> en_enforce env)) mc req) (\<lambda>ok.
     if \<not> ok then act_return True
     else act_then (add_build_stamp env task taskname taskfn)
         (act_then (add_running task)
         (act_then (on_stats stats_active)
         (act_gets (can_start_task env))))))))"

definition run_task_now :: "'w rq_env \<Rightarrow> string \<Rightarrow> ('w rq, bool) act" where
  "run_task_now env task =
     act_bind (act_lift (split_tid_mcfn task)) (\<lambda>(mc, fn, taskname, taskfn).
     act_bind (if en_ignore env = None then act_return False else check_setscene_ignore_tasks env task) (\<lambda>unexpected.
     if unexpected then act_then (task_fail env task (Reason ''setscene ignore_tasks'') None) (act_return True)
     else act_bind (act_gets (\<lambda>s. task \<in> set (tasks_covered s))) (\<lambda>covered.
     if covered then act_then (task_skip env task ''covered'') (act_return True)
     else act_bind (check_stamp_task env task (Some taskname) False) (\<lambda>current.
     if current then act_then (task_skip env task ''existing'') (act_then (add_tasksrun task) (act_return True))
     else act_bind (act_lift (cache_field env mc task_deps_of taskfn)) (\<lambda>deps.
     if task_flag deps ''noexec'' taskname \<noteq> None
     then act_then (run_noexec env task taskname taskfn) (act_return True)
     else launch_task env task mc taskname taskfn deps)))))"

section \<open>One step of the build\<close>

definition scene_finished :: "'w rq \<Rightarrow> bool" where
  "scene_finished s \<longleftrightarrow> sq_live s = [] \<and> \<not> sqdone s \<and> sq_deferred s = [] \<and> taskhash_queue s = [] \<and> holdoff_tasks s = []"

definition set_phase :: "phase \<Rightarrow> ('w rq, unit) act" where
  "set_phase p = act_modify (\<lambda>s. s\<lparr>q_phase := p\<rparr>)"

text \<open>True: the build has ended with the setscene tasks\<close>

definition end_setscene :: "'w rq_env \<Rightarrow> ('w rq, bool) act" where
  "end_setscene env =
     act_bind (act_gets scene_finished) (\<lambda>finished.
     if \<not> finished then act_return False
     else act_bind summarise_scenequeue_errors (\<lambda>err.
       if err then act_then (set_phase Failed) (act_return True)
       else if en_setsceneonly env then act_then (set_phase Complete) (act_return True)
       else act_then (act_modify (\<lambda>s. s\<lparr>sqdone := True\<rparr>))
           (act_bind (act_gets (\<lambda>s. st_total (q_stats s) = 0)) (\<lambda>nothing.
            if nothing then act_then (set_phase Complete) (act_return True) else act_return False))))"

definition never_done :: "'w rq \<Rightarrow> bool" where
  "never_done s \<longleftrightarrow> (\<exists>(t, e) \<in> set (q_entries s).
     t \<notin> set (runq_buildable s) \<or> t \<notin> set (runq_running s) \<or> t \<notin> set (runq_complete s))"

definition end_build :: "'w rq_env \<Rightarrow> ('w rq, retval) act" where
  "end_build env =
     act_bind (act_gets (\<lambda>s. st_active (q_stats s) > 0 \<or> sq_live s \<noteq> [])) (\<lambda>busy.
     if busy then act_then (read_workers env) (act_bind (act_gets worker_keys) (\<lambda>fds. act_return (Fds fds)))
     else act_bind (act_gets sq_deferred) (\<lambda>deferred.
     if deferred \<noteq> [] then act_then (delete_deferred (fst (hd deferred))) (act_return (Ret True))
     else act_bind (act_gets failed_tids) (\<lambda>failed.
     if failed \<noteq> [] then act_then (set_phase Failed) (act_return (Ret True))
     else act_bind summarise_scenequeue_errors (\<lambda>err.
       act_bind (act_gets never_done) (\<lambda>never.
       act_then (set_phase (if err \<or> never then Failed else Complete)) (act_return (Ret True)))))))"

definition execute :: "'w rq_env \<Rightarrow> ('w rq, retval) act" where
  "execute env =
     act_then (read_workers env)
    (act_bind (act_gets (\<lambda>s. taskhash_queue s \<noteq> [] \<or> pending_migrations s \<noteq> [])) (\<lambda>migrate.
     act_then (act_when migrate (process_possible_migrations env))
    (act_bind (next_setscene env) (\<lambda>c.
     act_bind (case c of Go_on \<Rightarrow> act_return False | Give_up \<Rightarrow> act_return True | Pick t \<Rightarrow> run_setscene env t) (\<lambda>stop.
     if stop then act_return (Ret True)
     else act_then update_holdofftasks
         (act_bind (end_setscene env) (\<lambda>stop.
          if stop then act_return (Ret True)
          else act_bind (if en_setsceneonly env then act_return None else next_task env) (\<lambda>t.
               act_bind (case t of None \<Rightarrow> act_return False | Some task \<Rightarrow> run_task_now env task) (\<lambda>stop.
               if stop then act_return (Ret True) else end_build env)))))))))"

end
