(* ===== verification/RunQueue_Machine.thy ===== *)
theory RunQueue_Machine
  imports RunQueue_Execute
begin

text \<open>
  \<open>RunQueue\<close> of \<open>runqueue.py\<close>: the state machine around \<open>RunQueueData\<close> and \<open>RunQueueExecute\<close>.
  \<open>execute_runqueue\<close> is what the server calls until it returns False or raises.

  \<^item> Progress, log messages, the disk monitor and the dependency tree of the cooker are left out;
    writing the signatures is a parameter that says when it is done.
  \<^item> The limits of the pressure options are checked with floating point numbers and are left out
    of \<open>new_execute\<close>.
  \<^item> \<open>en_drain\<close> bounds the reads of the pipe of a worker that is being stopped.
\<close>

section \<open>The executor\<close>

definition fresh_exec :: "'w rq \<Rightarrow> 'w rq" where
  "fresh_exec s = s\<lparr>
     q_stats := new_stats (int (length (q_entries s))) (int (length (q_setscene s))),
     sq_buildable := [], sq_running := [], sq_live := [], taskhash_queue := [], pending_migrations := [],
     runq_buildable := [], runq_running := [], runq_complete := [], runq_tasksrun := [],
     build_stamps := [], build_stamps2 := [], failed_tids := [], sq_deferred := [],
     sq_needed_harddeps := [], sq_harddep_deferred := [], stampcache := [],
     holdoff_tasks := [], holdoff_need_update := True, sqdone := False,
     scenequeue_covered := [], tasks_covered := [], tasks_scenequeue_done := [],
     scenequeue_notcovered := [], tasks_notcovered := [], scenequeue_notneeded := [],
     q_sq := empty_sqdata, scene_cycle := None, taskdep_cache := []\<rparr>"

definition stale_row :: "'w rq_env \<Rightarrow> 'w \<Rightarrow> string \<Rightarrow> (string, (string, string list) dict) dict \<Rightarrow>
    (string, (string, string list) dict) dict res" where
  "stale_row env w tid found =
     res_bind (split_tid_mcfn tid) (\<lambda>(mc, fn, taskname, taskfn).
     let stamps = en_stale_stamps env taskname taskfn w
     in Inr (if stamps = [] then found
             else AList.update mc (AList.update tid stamps (case map_of found mc of None \<Rightarrow> [] | Some d \<Rightarrow> d)) found))"

definition report_stale :: "'w rq_env \<Rightarrow> ('w rq, unit) act" where
  "report_stale env =
     act_bind (act_read (\<lambda>s. res_fold (stale_row env (q_world s)) (q_setscene s) [])) (\<lambda>found.
     act_modify (\<lambda>s. s\<lparr>q_events := q_events s @ List.map (\<lambda>(mc, d). StaleSetscene mc d) found\<rparr>))"

definition new_execute :: "'w rq_env \<Rightarrow> ('w rq, unit) act" where
  "new_execute env =
     act_then (act_modify fresh_exec)
    (act_then (act_when (en_number_tasks env \<le> 0) (act_raise BBHandledException))
    (act_bind (act_read (\<lambda>s. new_sched env (q_entries s) (q_world s) (runq_buildable s))) (\<lambda>sc.
     act_then (act_modify (\<lambda>s. s\<lparr>q_sched := sc\<rparr>))
    (act_then (build_scenequeue_data env)
    (act_bind (act_gets (dict_keys \<circ> sq_revdeps \<circ> q_sq)) (\<lambda>tids.
     act_then (update_scenequeue_data env tids True)
    (act_then (report_stale env)
    (act_then (build_taskdepdata_cache env)
    (act_modify (\<lambda>s. s\<lparr>q_exec := True\<rparr>))))))))))"

section \<open>Workers\<close>

fun drain_pipe :: "nat \<Rightarrow> 'w rq_env \<Rightarrow> pipe_key \<Rightarrow> ('w rq, unit) act" where
  "drain_pipe 0 env key = act_raise OutOfFuel"
| "drain_pipe (Suc n) env key =
     act_bind (act_gets (\<lambda>s. en_died env key (q_world s))) (\<lambda>ended.
     act_bind (pipe_read env key) (\<lambda>more.
     if \<not> ended \<or> more then drain_pipe n env key else act_return ()))"

definition teardown_worker :: "'w rq_env \<Rightarrow> pipe_key \<Rightarrow> ('w rq, unit) act" where
  "teardown_worker env key =
     act_then (fire_event (\<lambda>_. StoppedWorker (fst key) (snd key))) (drain_pipe (en_drain env) env key)"

definition teardown_workers :: "'w rq_env \<Rightarrow> ('w rq, unit) act" where
  "teardown_workers env =
     act_then (act_modify (\<lambda>s. s\<lparr>q_teardown := True\<rparr>))
    (act_bind (act_gets q_workers) (\<lambda>ws.
     act_then (act_for ws (\<lambda>mc. teardown_worker env (False, mc)))
    (act_then (act_modify (\<lambda>s. s\<lparr>q_workers := []\<rparr>))
    (act_bind (act_gets fakeworkers) (\<lambda>fs.
     act_then (act_for fs (\<lambda>mc. teardown_worker env (True, mc)))
    (act_modify (\<lambda>s. s\<lparr>fakeworkers := []\<rparr>)))))))"

definition start_worker :: "'w rq_env \<Rightarrow> ('w rq, unit) act" where
  "start_worker env =
     act_bind (act_gets (\<lambda>s. q_workers s \<noteq> [])) (\<lambda>running.
     act_then (act_when running (teardown_workers env))
    (act_then (act_modify (\<lambda>s. s\<lparr>q_teardown := False\<rparr>))
    (act_modify (\<lambda>s. s\<lparr>q_workers := dict_keys (cf_caches (en_cfg env)),
       q_pipes := fold (\<lambda>mc. AList.update (False, mc) []) (dict_keys (cf_caches (en_cfg env))) (q_pipes s)\<rparr>))))"

section \<open>Where the build departs from the cache\<close>

fun root_invalid_tasks ::
  "nat \<Rightarrow> graph \<Rightarrow> string list \<Rightarrow> string list \<Rightarrow> string \<Rightarrow> string list \<Rightarrow> (string list \<times> string list) res" where
  "root_invalid_tasks 0 G valid noexec task visited = Inl OutOfFuel"
| "root_invalid_tasks (Suc n) G valid noexec task visited =
     res_bind (dict_get G task) (\<lambda>e.
     res_bind (res_fold (\<lambda>t (out, visited).
         if t \<in> set valid \<or> t \<in> set visited then Inr (out, visited)
         else res_bind (root_invalid_tasks n G valid noexec t visited) (\<lambda>(ts, visited).
           Inr (out @ ts, set_add t visited))) (rt_depends e) ([], visited)) (\<lambda>(out, visited).
     Inr (if set (rt_depends e) \<subseteq> set valid \<and> task \<notin> set noexec then [task] else out, visited)))"

definition diff_task ::
  "graph \<Rightarrow> string list \<Rightarrow> lists \<Rightarrow> string list \<Rightarrow> string list \<Rightarrow> string \<Rightarrow>
   string list \<times> string list \<times> string list \<Rightarrow> (string list \<times> string list \<times> string list) res" where
  "diff_task G ss deps valid noexec t = (\<lambda>(next, visited, invalid).
     if t \<notin> set valid \<and> t \<notin> set noexec
     then res_bind (root_invalid_tasks (Suc (length G)) G valid noexec t visited) (\<lambda>(ts, visited).
       Inr (next, visited, set_union invalid ts))
     else if t \<in> set ss then res_bind (dict_get deps t) (\<lambda>ds. Inr (set_union next ds, visited, invalid))
     else res_bind (dict_get G t) (\<lambda>e. Inr (set_union next (rt_depends e), visited, invalid)))"

fun diff_loop ::
  "nat \<Rightarrow> graph \<Rightarrow> string list \<Rightarrow> lists \<Rightarrow> string list \<Rightarrow> string list \<Rightarrow> string list \<Rightarrow> string list \<Rightarrow> string list res" where
  "diff_loop n G ss deps valid noexec [] invalid = Inr invalid"
| "diff_loop 0 G ss deps valid noexec (t # ts) invalid = Inl OutOfFuel"
| "diff_loop (Suc n) G ss deps valid noexec (t # ts) invalid =
     res_bind (res_fold (diff_task G ss deps valid noexec) (t # ts) ([], [], invalid)) (\<lambda>(next, _, invalid).
       diff_loop n G ss deps valid noexec next invalid)"

definition noexec_tasks :: "'w rq_env \<Rightarrow> graph \<Rightarrow> string list res" where
  "noexec_tasks env G = res_bind (res_map (\<lambda>tid.
     res_bind (split_tid_mcfn tid) (\<lambda>(mc, fn, taskname, taskfn).
     res_bind (cache_field env mc task_deps_of taskfn) (\<lambda>deps.
     Inr (if task_flag deps ''noexec'' taskname \<noteq> None then [tid] else [])))) (dict_keys G))
     (\<lambda>rows. Inr (List.concat rows))"

definition noexec_valid :: "graph \<Rightarrow> string list \<Rightarrow> string list \<Rightarrow> string list \<Rightarrow> string list res" where
  "noexec_valid G ss noexec valid =
     res_fold (\<lambda>tid valid. res_bind (dict_get G tid) (\<lambda>e.
       res_fold (\<lambda>dep valid. res_bind (dict_get G dep) (\<lambda>d.
         Inr (if \<forall>dep2 \<in> set (rt_revdeps d). dep2 \<in> set ss \<and> dep2 \<in> set noexec then set_add dep valid else valid)))
         (rt_depends e) valid)) (filter (\<lambda>tid. tid \<in> set ss) noexec) valid"

definition print_diffscenetasks :: "'w rq_env \<Rightarrow> ('w rq, string list) act" where
  "print_diffscenetasks env =
     act_bind (act_read (\<lambda>s. noexec_tasks env (q_entries s))) (\<lambda>noexec.
     act_bind (act_gets (\<lambda>s. set_diff (dict_keys (q_entries s)) noexec)) (\<lambda>tocheck.
     act_bind (validate_hashes env tocheck 0 True False) (\<lambda>valid.
     act_bind (act_read (\<lambda>s. res_bind (noexec_valid (q_entries s) (q_setscene s) noexec valid) (\<lambda>valid.
         res_fold (\<lambda>tid invalid. diff_loop (Suc (length (q_entries s))) (q_entries s) (q_setscene s)
             (sq_deps (q_sq s)) valid noexec [tid] invalid)
           (set_union [] (List.map (\<lambda>(mc, target, task, fn). fn @ '':'' @ task) (cf_targets (en_cfg env)))) []))) (\<lambda>invalid.
     act_then (fire_event (\<lambda>_. InvalidTasks invalid)) (act_return invalid)))))"

definition dump_signatures :: "'w rq_env \<Rightarrow> ('w rq, retval) act" where
  "dump_signatures env =
     act_bind (act_gets (\<lambda>s. en_dump_step env (q_world s))) (\<lambda>(finished, w).
     act_then (on_world (\<lambda>_. w)) (act_return (if finished then Ret False else Wait)))"

section \<open>The state machine\<close>

definition in_phase :: "phase \<Rightarrow> ('w rq, 'a) act \<Rightarrow> 'a \<Rightarrow> ('w rq, 'a) act" where
  "in_phase p m dflt = act_bind (act_gets (\<lambda>s. q_phase s = p)) (\<lambda>b. if b then m else act_return dflt)"

definition do_prepare :: "'w rq_env \<Rightarrow> ('w rq, unit) act" where
  "do_prepare env =
     act_bind (act_zoom q_data (\<lambda>d s. s\<lparr>q_data := d\<rparr>) (prepare (en_siggen env) (en_cfg env))) (\<lambda>(n, _).
     set_phase (if n = 0 then Complete else SceneInit))"

definition do_init :: "'w rq_env \<Rightarrow> ('w rq, unit) act" where
  "do_init env =
     act_then (fire_event (\<lambda>_. DepTreeGenerated))
    (act_then (new_execute env)
    (act_when (en_dumpsigs env \<noteq> [])
      (act_then (act_when (''printdiff'' \<in> set (en_dumpsigs env)) (act_then (print_diffscenetasks env) (act_return ())))
        (set_phase DumpSigs))))"

definition do_dump :: "'w rq_env \<Rightarrow> ('w rq, retval) act" where
  "do_dump env =
     act_bind (dump_signatures env) (\<lambda>r.
     act_then (act_when (r = Ret False) (set_phase Complete)) (act_return r))"

definition do_start :: "'w rq_env \<Rightarrow> ('w rq, unit) act" where
  "do_start env =
     act_then (start_worker env)
    (act_bind (act_gets (\<lambda>s. (q_setscene s, dict_keys (q_entries s)))) (\<lambda>(ss, tids).
     act_then (act_when (ss = [])
       (act_then (act_for tids (\<lambda>tid.
            act_bind (get_entry tid) (\<lambda>e.
            act_then (act_when (rt_depends e = []) (setbuildable tid))
              (act_modify (\<lambda>s. s\<lparr>tasks_notcovered := set_add tid (tasks_notcovered s)\<rparr>)))))
         (act_modify (\<lambda>s. s\<lparr>sqdone := True\<rparr>))))
     (set_phase Running)))"

definition run_phases :: "'w rq_env \<Rightarrow> ('w rq, retval) act" where
  "run_phases env =
     act_then (in_phase PhasePrepare (do_prepare env) ())
    (act_then (in_phase SceneInit (do_init env) ())
    (act_bind (in_phase DumpSigs (do_dump env) (Ret True)) (\<lambda>r.
     act_then (in_phase SceneInit (do_start env) ())
    (act_bind (in_phase Running (execute env) r) (\<lambda>r.
     in_phase CleanUp (finish env) r)))))"

definition priv_execute_runqueue :: "'w rq_env \<Rightarrow> ('w rq, retval) act" where
  "priv_execute_runqueue env =
     act_bind (run_phases env) (\<lambda>r.
     act_bind (act_gets (\<lambda>s. (q_phase s = Complete \<or> q_phase s = Failed) \<and> q_exec s)) (\<lambda>finished.
     act_then (act_when finished (teardown_workers env))
    (act_bind (act_gets (\<lambda>s. (q_phase s, failed_tids s))) (\<lambda>(p, failed).
     if p = Failed then act_raise (TaskFailure failed)
     else act_return (if p = Complete then Ret False else r)))))"

text \<open>Any other exception stops the workers and completes the run queue before it is passed on.\<close>

definition on_failure :: "'w rq_env \<Rightarrow> exn \<Rightarrow> ('w rq, retval) act" where
  "on_failure env e = (case e of
       TaskFailure ts \<Rightarrow> act_raise e
     | SystemExit \<Rightarrow> act_raise e
     | _ \<Rightarrow> act_then (act_catch (teardown_workers env) (\<lambda>_. act_return ()))
           (act_then (set_phase Complete) (act_raise e)))"

definition execute_runqueue :: "'w rq_env \<Rightarrow> ('w rq, retval) act" where
  "execute_runqueue env = act_catch (priv_execute_runqueue env) (on_failure env)"

definition finish_runqueue :: "'w rq_env \<Rightarrow> bool \<Rightarrow> ('w rq, unit) act" where
  "finish_runqueue env now =
     act_bind (act_gets q_exec) (\<lambda>there.
     if \<not> there then set_phase Complete
     else if now then finish_now
     else act_then (finish env) (act_return ()))"

text \<open>A run queue as \<open>RunQueue.__init__\<close> leaves it\<close>

definition empty_sched :: sched where
  "empty_sched = \<lparr>sc_buildable = [], sc_prio_map = [], sc_rev_prio = [], sc_maxthread = [], sc_stamps = []\<rparr>"

definition new_rq :: "(string, td_state) dict \<Rightarrow> 'w \<Rightarrow> 'w rq" where
  "new_rq taskdata w = \<lparr>
     q_data = new_prep taskdata w, q_phase = PhasePrepare, q_stats = new_stats 0 0,
     sq_buildable = [], sq_running = [], sq_live = [], taskhash_queue = [], pending_migrations = [],
     runq_buildable = [], runq_running = [], runq_complete = [], runq_tasksrun = [],
     build_stamps = [], build_stamps2 = [], failed_tids = [], sq_deferred = [],
     sq_needed_harddeps = [], sq_harddep_deferred = [], stampcache = [],
     holdoff_tasks = [], holdoff_need_update = True, sqdone = False,
     scenequeue_covered = [], tasks_covered = [], tasks_scenequeue_done = [],
     scenequeue_notcovered = [], tasks_notcovered = [], scenequeue_notneeded = [],
     q_sched = empty_sched, q_sq = empty_sqdata, scene_cycle = None, taskdep_cache = [],
     q_exec = False, q_workers = [], fakeworkers = [], q_teardown = False, q_pipes = [], q_events = []\<rparr>"

end
