(* ===== verification/Small_Build.thy ===== *)
theory Small_Build
  imports RunQueue_Machine
begin

text \<open>
  A small build that the theorems on the run queue are applied to: two recipes, no setscene tasks,
  and one worker whose reports are a script, the state of the world.
\<close>

definition scripted_siggen :: "string list siggen" where
  "scripted_siggen = \<lparr>sg_prep = (\<lambda>t ds. act_return ds), sg_taskhash = (\<lambda>t ds. act_return t),
     sg_unihashes = (\<lambda>ts. act_return (List.map (\<lambda>t. (t, t)) ts)), sg_invalidate = (\<lambda>a b. act_return ()),
     sg_setscene = (\<lambda>a s. s), sg_resolved = (\<lambda>a b s. s)\<rparr>"

definition two_recipes :: cache_data where
  "two_recipes = empty_cache\<lparr>
     task_deps_of := [(''a.bb'', \<lparr>td_tasks = [''do_compile'', ''do_package''], td_parents = [], td_flags = []\<rparr>),
       (''b.bb'', \<lparr>td_tasks = [''do_compile''], td_parents = [], td_flags = []\<rparr>)],
     pkg_fn := [(''a.bb'', ''a''), (''b.bb'', ''b'')], hashfn := [(''a.bb'', ''''), (''b.bb'', '''')],
     fn_provides := [(''a.bb'', [''a'']), (''b.bb'', [''b''])],
     fakerootenv := [(''a.bb'', ''''), (''b.bb'', '''')], fakerootdirs := [(''a.bb'', ''''), (''b.bb'', '''')],
     fakerootnoenv := [(''a.bb'', ''''), (''b.bb'', '''')]\<rparr>"

definition two_config :: rq_config where
  "two_config = \<lparr>cf_caches = [('''', two_recipes)], cf_targets = [('''', ''a'', ''do_package'', ''a.bb'')],
     cf_runall = [], cf_runonly = [], cf_force = False,
     cf_invalidate = None, cf_nosetscene = False, cf_multi_allowed = []\<rparr>"

definition two_taskdata :: td_state where
  "two_taskdata = (new_taskdata True [] False empty_cache)\<lparr>
     build_targets := [(''a'', [''a.bb'']), (''b'', [''b.bb''])],
     taskentries := [(''a.bb:do_package'', \<lparr>te_tdepends = [''a.bb:do_compile''], te_idepends = [], te_irdepends = []\<rparr>),
       (''a.bb:do_compile'', \<lparr>te_tdepends = [], te_idepends = [(''b'', ''do_compile'')], te_irdepends = []\<rparr>),
       (''b.bb:do_compile'', \<lparr>te_tdepends = [], te_idepends = [], te_irdepends = []\<rparr>)]\<rparr>"

definition two_env :: "string list rq_env" where
  "two_env = \<lparr>en_cfg = two_config, en_siggen = scripted_siggen, en_number_tasks = 2, en_scheduler = ''speed'',
     en_dry_run = False, en_skipsetscene = False, en_setsceneonly = False, en_enforce = False, en_ignore = None,
     en_threads = (\<lambda>_. None), en_stamp = (\<lambda>t fn _. fn @ t), en_stamp_plain = (\<lambda>t fn _. fn @ t),
     en_access = (\<lambda>_ _. False), en_mtime = (\<lambda>_ _. None), en_make_stamp = (\<lambda>_ _ w. w), en_stale_stamps = (\<lambda>_ _ _. []),
     en_hashvalidate = None, en_depvalidate = None, en_pressure = (\<lambda>w. (False, w)), en_set_unihash = (\<lambda>_ _ w. w),
     en_report_equiv = (\<lambda>_ _ _ _ w. w), en_fnmatch = (\<lambda>_ _. False), en_start_fakeworker = (\<lambda>_ w. (True, w)),
     en_died = (\<lambda>_ w. w = []), en_input = (\<lambda>_ w. case w of [] \<Rightarrow> ('''', []) | x # xs \<Rightarrow> (x, xs)),
     en_load_event = (\<lambda>_. Truncated), en_load_exit = (\<lambda>x. Loaded (x, 0)), en_read_log = (\<lambda>_ _. None),
     en_dumpsigs = [], en_dump_step = (\<lambda>w. (True, w)), en_drain = 5, en_appends = (\<lambda>_ _. []), en_layer = (\<lambda>_ _. '''')\<rparr>"

text \<open>The main loop calls \<open>execute_runqueue\<close> again and again.\<close>

fun calls :: "nat \<Rightarrow> 'w rq_env \<Rightarrow> 'w rq \<Rightarrow> 'w rq" where
  "calls 0 env s = s"
| "calls (Suc n) env s = calls n env (snd (execute_runqueue env s))"

definition two_script :: "string list" where
  "two_script = [''<exitcode>b.bb:do_compile</exitcode>'', '''', ''<exitcode>a.bb:do_compile</exitcode>'', '''',
     ''<exitcode>a.bb:do_package</exitcode>'', '''']"

definition two_start :: "string list rq" where
  "two_start = new_rq [('''', two_taskdata)] two_script"

text \<open>A state in the middle of that build: nothing of recipe \<open>a\<close> is started yet.\<close>

definition two_ready :: "string list rq" where
  "two_ready = two_start\<lparr>q_data := (q_data two_start)\<lparr>pp_entries := small_linked\<rparr>, q_phase := Running,
     q_stats := new_stats 3 0, runq_buildable := [''a.bb:do_compile'', ''b.bb:do_compile''],
     tasks_notcovered := [''a.bb:do_package'', ''a.bb:do_compile'', ''b.bb:do_compile''],
     q_sched := \<lparr>sc_buildable = [''a.bb:do_compile'', ''b.bb:do_compile''],
       sc_prio_map = List.map Prio_Tid [''b.bb:do_compile'', ''a.bb:do_compile'', ''a.bb:do_package''],
       sc_rev_prio = [], sc_maxthread = [],
       sc_stamps = [(''a.bb:do_compile'', ''1''), (''b.bb:do_compile'', ''2''), (''a.bb:do_package'', ''3'')]\<rparr>\<rparr>"

end
