(* ===== verification/Scheduler_Facts.thy ===== *)
theory Scheduler_Facts
  imports Small_Build
begin

text \<open>
  The theorems on the schedulers: what \<open>next_task\<close> returns, the order of the speed scheduler, the
  order of the completion scheduler, and what is wrong with the basic one.
\<close>

section \<open>The choice of a task\<close>

definition running_counts :: "'w rq_env \<Rightarrow> 'w rq \<Rightarrow> ((string, string option) dict \<times> (string, nat) dict) res" where
  "running_counts env s = res_fold (count_running env) (set_diff (runq_running s) (runq_complete s)) (sc_maxthread (q_sched s), [])"

text \<open>A task that may be started: buildable, not running, not held off, decided by the setscene
  queue, below the limit of its name, and with a stamp no running task uses\<close>

definition unblocked :: "sched \<Rightarrow> (string, string option) dict \<Rightarrow> (string, nat) dict \<Rightarrow> string list \<Rightarrow> string \<Rightarrow> bool" where
  "unblocked sc maxthread skip used t \<longleftrightarrow> over_limit maxthread skip t = Inr False \<and>
     (\<exists>stamp. map_of (sc_stamps sc) t = Some stamp \<and> stamp \<notin> set used)"

definition candidate :: "'w rq \<Rightarrow> (string, string option) dict \<Rightarrow> (string, nat) dict \<Rightarrow> string \<Rightarrow> bool" where
  "candidate s maxthread skip t \<longleftrightarrow> t \<in> set (sc_buildable (q_sched s)) \<and> t \<notin> set (runq_running s) \<and>
     t \<notin> set (holdoff_tasks s) \<and> (t \<in> set (tasks_covered s) \<or> t \<in> set (tasks_notcovered s)) \<and>
     unblocked (q_sched s) maxthread skip (List.map snd (build_stamps s)) t"

definition priority :: "'w rq \<Rightarrow> string \<Rightarrow> nat option" where
  "priority s t = index_of (sc_prio_map (q_sched s)) (Prio_Tid t)"

text \<open>The map of the priorities, once it is computed, belongs to the list.\<close>

definition sched_ok :: "'w rq \<Rightarrow> bool" where
  "sched_ok s \<longleftrightarrow> sc_rev_prio (q_sched s) = [] \<or>
     reverse_prio (q_entries s) (sc_prio_map (q_sched s)) = Inr (sc_rev_prio (q_sched s))"

lemma reverse_prio_row: "reverse_prio G prio = Inr rp \<Longrightarrow> map_of rp t = Some p \<Longrightarrow> index_of prio (Prio_Tid t) = Some p"
proof -
  have "res_map (\<lambda>tid. case index_of prio (Prio_Tid tid) of None \<Rightarrow> Inl ValueError | Some i \<Rightarrow> Inr (tid, i)) ts = Inr rp \<Longrightarrow>
      map_of rp t = Some p \<Longrightarrow> index_of prio (Prio_Tid t) = Some p" for ts
    by (induction ts arbitrary: rp) (auto simp: res_bind_Inr_iff split: option.splits if_splits)
  then show "reverse_prio G prio = Inr rp \<Longrightarrow> map_of rp t = Some p \<Longrightarrow> index_of prio (Prio_Tid t) = Some p"
    unfolding reverse_prio_def by blast
qed

lemma best_task_fold:
  assumes "res_fold (best_task sc skip used) tids b = Inr (Some (t, p))"
  shows "(b = Some (t, p) \<or> t \<in> set tids \<and> unblocked sc (sc_maxthread sc) skip used t \<and> map_of (sc_rev_prio sc) t = Some p) \<and>
    (\<forall>u \<in> set tids. unblocked sc (sc_maxthread sc) skip used u \<longrightarrow> (\<exists>q \<ge> p. map_of (sc_rev_prio sc) u = Some q)) \<and>
    (case b of None \<Rightarrow> True | Some (_, q) \<Rightarrow> p \<le> q)"
  using assms
proof (induction tids arbitrary: b)
  case (Cons x xs)
  from Cons.prems obtain c where c: "best_task sc skip used x b = Inr c" "res_fold (best_task sc skip used) xs c = Inr (Some (t, p))"
    by (auto elim: res_bind_Inr_E)
  note IH = Cons.IH[OF c(2)]
  from c(1) obtain q where q: "map_of (sc_rev_prio sc) x = Some q" by (auto simp: best_task_def res_bind_Inr_iff)
  consider (old) "c = b" "b \<noteq> None" "snd (the b) \<le> q" | (blocked) "c = b" "\<not> unblocked sc (sc_maxthread sc) skip used x"
    | (new) "c = Some (x, q)" "unblocked sc (sc_maxthread sc) skip used x" "b = None \<or> q < snd (the b)"
    using c(1) q by (cases b) (auto simp: best_task_def res_bind_Inr_iff unblocked_def not_le split: if_splits)
  then show ?case
  proof cases
    case old
    then obtain y r where "b = Some (y, r)" "r \<le> q" by (cases b) auto
    with old IH q show ?thesis by auto
  next
    case blocked
    with IH show ?thesis by auto
  next
    case new
    with IH q show ?thesis by (cases b) auto
  qed
qed auto

lemma choose_task_best:
  assumes "choose_task skip tids s = (Inr (Some t), s')" and "sched_ok s"
  shows "t \<in> set tids \<and> unblocked (q_sched s) (sc_maxthread (q_sched s)) skip (List.map snd (build_stamps s)) t \<and>
    (\<exists>p. priority s t = Some p \<and> (\<forall>u \<in> set tids.
       unblocked (q_sched s) (sc_maxthread (q_sched s)) skip (List.map snd (build_stamps s)) u \<longrightarrow>
       (\<exists>q \<ge> p. priority s u = Some q)))"
proof -
  let ?sc = "q_sched s" and ?used = "List.map snd (build_stamps s)"
  obtain rp where rp: "reverse_prio (q_entries s) (sc_prio_map ?sc) = Inr rp"
    and fold: "map_sum id (map_option fst) (res_fold (best_task (?sc\<lparr>sc_rev_prio := rp\<rparr>) skip ?used) tids None) = Inr (Some t)"
  proof (cases "sc_rev_prio ?sc = []")
    case True
    with assms(1) that show ?thesis
      by (cases "reverse_prio (q_entries s) (sc_prio_map ?sc)") (auto simp: choose_task_def act_simps on_sched_def split: sum.splits)
  next
    case False
    with assms(2) have "reverse_prio (q_entries s) (sc_prio_map ?sc) = Inr (sc_rev_prio ?sc)" by (simp add: sched_ok_def)
    moreover have "?sc\<lparr>sc_rev_prio := sc_rev_prio ?sc\<rparr> = ?sc" by simp
    ultimately show ?thesis using assms(1) False that[of "sc_rev_prio ?sc"] by (auto simp: choose_task_def act_simps split: sum.splits)
  qed
  from fold obtain p where "res_fold (best_task (?sc\<lparr>sc_rev_prio := rp\<rparr>) skip ?used) tids None = Inr (Some (t, p))"
    by (cases "res_fold (best_task (?sc\<lparr>sc_rev_prio := rp\<rparr>) skip ?used) tids None") auto
  from best_task_fold[OF this] reverse_prio_row[OF rp] show ?thesis
    unfolding unblocked_def priority_def by simp blast
qed

lemma buildable_now_candidate: 
  "t \<in> set (buildable_now s) \<longleftrightarrow> t \<in> set (sc_buildable (q_sched s)) \<and> t \<notin> set (holdoff_tasks s) \<and>
     (t \<in> set (tasks_covered s) \<or> t \<in> set (tasks_notcovered s))"
  by (auto simp: buildable_now_def)

lemma choose_among_run:
  assumes "choose_among env tids s = (Inr r, s')"
  shows "\<exists>maxthread skip. running_counts env s = Inr (maxthread, skip) \<and>
    (case tids of [tid] \<Rightarrow> choose_single maxthread skip tid | _ \<Rightarrow> choose_task skip tids)
      (q_sched_update (\<lambda>sc. sc\<lparr>sc_maxthread := maxthread\<rparr>) s) = (Inr r, s')"
proof (cases "running_counts env s")
  case (Inl e)
  with assms show ?thesis by (simp add: choose_among_def running_counts_def act_simps)
next
  case (Inr p)
  with assms show ?thesis by (cases p) (simp add: choose_among_def running_counts_def on_sched_def act_simps)
qed

text \<open>C5: a task that is chosen may be started (it is buildable, not running, not held off, decided
  by the setscene queue, within the limits), and no task that may be started too has a better place
  in the list of priorities. It is chosen only while fewer tasks run than the configured number.\<close>

theorem next_task_choice:
  assumes "next_task env s = (Inr (Some t), s')" and "sched_ok s"
  shows "can_start_task env s \<and> (\<exists>maxthread skip. running_counts env s = Inr (maxthread, skip) \<and>
    candidate s maxthread skip t \<and>
    (\<forall>u p. candidate s maxthread skip u \<longrightarrow> u \<noteq> t \<longrightarrow> priority s u = Some p \<longrightarrow> (\<exists>q \<le> p. priority s t = Some q)))"
proof -
  have start: "can_start_task env s" and run: "next_buildable_task env s = (Inr (Some t), s')"
    using assms(1) by (auto simp: next_task_def act_simps split: if_splits)
  let ?s1 = "s\<lparr>q_sched := (q_sched s)\<lparr>sc_buildable := set_diff (sc_buildable (q_sched s)) (runq_running s)\<rparr>\<rparr>"
  let ?tids = "buildable_now ?s1" and ?used = "List.map snd (build_stamps s)"
  obtain w where among: "choose_among env ?tids (q_data_update (pp_siggen_update (\<lambda>_. w)) ?s1) = (Inr (Some t), s')"
    and tids: "?tids \<noteq> []"
    using run by (auto simp: next_buildable_task_def drop_running_def under_pressure_def on_world_def act_simps split: if_splits prod.splits)
  let ?s2 = "q_data_update (pp_siggen_update (\<lambda>_. w)) ?s1"
  from choose_among_run[OF among] obtain maxthread skip where "running_counts env ?s2 = Inr (maxthread, skip)"
    and rest: "(case ?tids of [tid] \<Rightarrow> choose_single maxthread skip tid | _ \<Rightarrow> choose_task skip ?tids)
      (q_sched_update (\<lambda>sc. sc\<lparr>sc_maxthread := maxthread\<rparr>) ?s2) = (Inr (Some t), s')" by blast
  then have c: "running_counts env s = Inr (maxthread, skip)" by (simp add: running_counts_def)
  let ?s3 = "q_sched_update (\<lambda>sc. sc\<lparr>sc_maxthread := maxthread\<rparr>) ?s2"
  have ok: "sched_ok ?s3" using assms(2) by (simp add: sched_ok_def)
  have cand: "candidate s maxthread skip u \<longleftrightarrow> u \<in> set ?tids \<and> unblocked (q_sched ?s3) maxthread skip ?used u" for u
    by (auto simp: candidate_def buildable_now_candidate unblocked_def)
  have prio: "priority ?s3 u = priority s u" for u by (simp add: priority_def)
  consider (one) tid where "?tids = [tid]" | (many) "choose_task skip ?tids ?s3 = (Inr (Some t), s')"
    using rest by (cases ?tids; cases "tl ?tids") auto
  then show ?thesis
  proof cases
    case one
    have "choose_task skip [] ?s3 \<noteq> (Inr (Some t), s')" using choose_task_best[OF _ ok, of skip "[]" t s'] by auto
    then have "t = tid" "unblocked (q_sched ?s3) maxthread skip ?used t"
      using rest unfolding one by (auto simp: choose_single_def act_simps unblocked_def split: sum.splits if_splits)
    with one cand c start show ?thesis by auto
  next
    case many
    from choose_task_best[OF many ok] have "t \<in> set ?tids" "unblocked (q_sched ?s3) maxthread skip ?used t"
      and best: "\<exists>p. priority s t = Some p \<and> (\<forall>u \<in> set ?tids. unblocked (q_sched ?s3) maxthread skip ?used u \<longrightarrow> (\<exists>q \<ge> p. priority s u = Some q))"
      unfolding prio by auto
    then have "candidate s maxthread skip t" by (simp add: cand)
    moreover have "\<exists>q \<le> p. priority s t = Some q" if "candidate s maxthread skip u" "priority s u = Some p" for u p
      using best that cand by fastforce
    ultimately show ?thesis using c start by blast
  qed
qed

theorem next_task_choice_witness:
  "(\<exists>s'. next_task two_env two_ready = (Inr (Some ''b.bb:do_compile''), s')) \<and>
   priority two_ready ''a.bb:do_compile'' = Some 1 \<and> candidate two_ready [] [] ''a.bb:do_compile'' \<and>
   (\<exists>q \<le> 1. priority two_ready ''b.bb:do_compile'' = Some q)"
proof -
  have run: "fst (next_task two_env two_ready) = Inr (Some ''b.bb:do_compile'')"
    "priority two_ready ''a.bb:do_compile'' = Some 1" "running_counts two_env two_ready = Inr ([], [])"
    by code_simp+
  have cand: "candidate two_ready [] [] ''a.bb:do_compile''"
    unfolding candidate_def unblocked_def by (simp add: two_ready_def two_start_def new_rq_def over_limit_def) code_simp
  have "sched_ok two_ready" by (simp add: sched_ok_def two_ready_def)
  moreover obtain s' where s': "next_task two_env two_ready = (Inr (Some ''b.bb:do_compile''), s')"
    using run(1) by (cases "next_task two_env two_ready") auto
  ultimately have "\<exists>q \<le> 1. priority two_ready ''b.bb:do_compile'' = Some q"
    using next_task_choice[of two_env two_ready "''b.bb:do_compile''" s'] run(2,3) cand by auto
  with s' cand run(2) show ?thesis by blast
qed

section \<open>The speed scheduler\<close>

definition weight_in :: "graph \<Rightarrow> string \<Rightarrow> int" where
  "weight_in G t = (case map_of G t of None \<Rightarrow> 0 | Some e \<Rightarrow> rt_weight e)"

lemma tasks_by_weight_fold:
  "dict_list (fold (\<lambda>(tid, e). dict_append (rt_weight e) tid) L d) x =
     dict_list d x @ List.map fst (filter (\<lambda>(t, e). rt_weight e = x) L)"
  by (induction L arbitrary: d) auto

lemma tasks_by_weight_fold_keys:
  "set (dict_keys (fold (\<lambda>(tid, e). dict_append (rt_weight e) tid) L d)) = set (dict_keys d) \<union> (rt_weight \<circ> snd) ` set L"
proof (induction L arbitrary: d)
  case (Cons p L)
  show ?case unfolding fold_simps o_apply Cons.IH by (cases p) simp
qed simp

lemma tasks_by_weight_fold_wf: "wf_dict d \<Longrightarrow> wf_dict (fold (\<lambda>(tid, e). dict_append (rt_weight e) tid) L d)"
  by (induction L arbitrary: d) auto

lemma tasks_by_weight_list: "dict_list (tasks_by_weight G) x = List.map fst (filter (\<lambda>(t, e). rt_weight e = x) G)"
  unfolding tasks_by_weight_def tasks_by_weight_fold by (simp add: dict_list_def)

lemma tasks_by_weight_keys: "set (dict_keys (tasks_by_weight G)) = (rt_weight \<circ> snd) ` set G"
  unfolding tasks_by_weight_def tasks_by_weight_fold_keys by simp

lemma tasks_by_weight_wf: "wf_dict (tasks_by_weight G)"
  unfolding tasks_by_weight_def by (rule tasks_by_weight_fold_wf) simp

lemma weight_group:
  assumes "wf_dict G" and "t \<in> set (dict_list (tasks_by_weight G) x)"
  shows "weight_in G t = x"
  using assms by (auto simp: tasks_by_weight_list weight_in_def)

lemma sorted_groups:
  assumes "sorted xs" and "\<And>x t. x \<in> set xs \<Longrightarrow> t \<in> set (f x) \<Longrightarrow> (w t :: int) = x"
  shows "sorted_wrt (\<lambda>a b. w a \<le> w b) (List.concat (List.map f xs))"
  using assms
proof (induction xs)
  case (Cons x xs)
  have "w a = x" if "a \<in> set (f x)" for a using Cons.prems(2)[of x a] that by simp
  then have "sorted_wrt (\<lambda>a b. w a \<le> w b) (f x)"
    by (simp add: sorted_wrt_iff_nth_less)
  moreover have "sorted_wrt (\<lambda>a b. w a \<le> w b) (List.concat (List.map f xs))" using Cons by auto
  moreover have "w a \<le> w b" if "a \<in> set (f x)" "b \<in> set (List.concat (List.map f xs))" for a b
  proof -
    from that(2) obtain y where y: "y \<in> set xs" "b \<in> set (f y)" by auto
    have "w a = x" "w b = y" using Cons.prems(2)[of x a] Cons.prems(2)[of y b] that(1) y by simp_all
    with y(1) Cons.prems(1) show ?thesis by simp
  qed
  ultimately show ?case by (simp add: sorted_wrt_append)
qed simp

lemma distinct_groups:
  assumes "distinct xs" and "\<And>x. x \<in> set xs \<Longrightarrow> distinct (f x)" and "\<And>x t. x \<in> set xs \<Longrightarrow> t \<in> set (f x) \<Longrightarrow> w t = x"
  shows "distinct (List.concat (List.map f xs))"
  using assms
proof (induction xs)
  case (Cons x xs)
  have "a \<notin> set (f y)" if "a \<in> set (f x)" "y \<in> set xs" for a y
    using Cons.prems(1) Cons.prems(3)[of x a] Cons.prems(3)[of y a] that by auto
  moreover have "distinct (List.concat (List.map f xs))" using Cons by auto
  ultimately show ?case using Cons.prems(2) by auto
qed simp

lemma speed_prio_set: "set (speed_prio G) = set (dict_keys G)"
proof (rule set_eqI)
  fix t
  have "t \<in> set (speed_prio G) \<longleftrightarrow> (\<exists>x \<in> set (dict_keys (tasks_by_weight G)). t \<in> set (dict_list (tasks_by_weight G) x))"
    by (simp add: speed_prio_def)
  also have "\<dots> \<longleftrightarrow> (\<exists>e. (t, e) \<in> set G)"
    unfolding tasks_by_weight_keys tasks_by_weight_list by force
  also have "\<dots> \<longleftrightarrow> t \<in> set (dict_keys G)" by force
  finally show "t \<in> set (speed_prio G) \<longleftrightarrow> t \<in> set (dict_keys G)" .
qed

lemma speed_prio_distinct: "wf_dict G \<Longrightarrow> distinct (speed_prio G)"
proof -
  assume wf: "wf_dict G"
  have "distinct (dict_list (tasks_by_weight G) x)" for x
    unfolding tasks_by_weight_list using wf by (simp add: distinct_map_filter)
  then show ?thesis
    unfolding speed_prio_def distinct_rev
    by (intro distinct_groups[where w = "weight_in G"]) (auto simp: weight_group[OF wf] intro: tasks_by_weight_wf)
qed

lemma speed_prio_sorted: "wf_dict G \<Longrightarrow> sorted_wrt (\<lambda>a b. weight_in G b \<le> weight_in G a) (speed_prio G)"
  unfolding speed_prio_def sorted_wrt_rev
  by (intro sorted_groups) (auto intro: weight_group)

text \<open>C17: with the weights \<open>prepare\<close> computes for a graph without circles, the list of the speed
  scheduler holds every task once, heavier tasks first, and each task after all it depends on.\<close>

theorem speed_prio_dependencies_first:
  assumes "linked_graph G" and "acyclic (dep_rel G)"
    and "task_weights G (graph_endpoints G) = Inr (weight, problems)"
  shows "distinct (speed_prio (set_weights weight G)) \<and> set (speed_prio (set_weights weight G)) = set (dict_keys G) \<and>
    (\<forall>xs t ys. speed_prio (set_weights weight G) = xs @ t # ys \<longrightarrow> set (entry_depends G t) \<subseteq> set xs)"
proof -
  let ?G = "set_weights weight G"
  have keys: "dict_keys ?G = dict_keys G" by (simp add: set_weights_def o_def case_prod_beta)
  have wf: "wf_dict ?G" using assms(1) keys by (simp add: linked_graph_def closed_graph_def)
  have w: "weight_in ?G t = x" if "t \<in> set (dict_keys G)" "map_of weight t = Some x" for t x
  proof -
    have "map_of ?G t = map_option (\<lambda>e. e\<lparr>rt_weight := (case map_of weight t of None \<Rightarrow> rt_weight e | Some x \<Rightarrow> x)\<rparr>) (map_of G t)"
      unfolding set_weights_def by (induction G) (auto split: option.split)
    with map_of_key[OF that(1)] that(2) show ?thesis by (auto simp: weight_in_def)
  qed
  have "problems = []" and less: "\<And>t d. d \<in> set (entry_depends G t) \<Longrightarrow>
      \<exists>x y. map_of weight t = Some x \<and> map_of weight d = Some y \<and> x < y"
    using task_weights_facts[OF assms(1)] assms(2,3) by fastforce+
  have "d \<in> set xs" if s: "speed_prio ?G = xs @ t # ys" and d: "d \<in> set (entry_depends G t)" for xs t ys d
  proof -
    from less[OF d] obtain x y where xy: "map_of weight t = Some x" "map_of weight d = Some y" "x < y" by blast
    have "t \<in> set (dict_keys G)" "d \<in> set (dict_keys G)" using linked_depends[OF assms(1) d] by auto
    then have lt: "weight_in ?G t < weight_in ?G d" using w xy by simp
    have "weight_in ?G b \<le> weight_in ?G t" if "b \<in> set (t # ys)" for b
      using speed_prio_sorted[OF wf] that unfolding s by (auto simp: sorted_wrt_append)
    then have "d \<notin> set (t # ys)" using lt by force
    moreover have "d \<in> set (xs @ t # ys)" using speed_prio_set[of ?G] s keys \<open>d \<in> set (dict_keys G)\<close> by simp
    ultimately show ?thesis by simp
  qed
  then show ?thesis using speed_prio_distinct[OF wf] speed_prio_set[of ?G] keys by auto
qed

theorem speed_prio_dependencies_first_witness:
  "speed_prio (set_weights [(''a.bb:do_package'', 10), (''a.bb:do_compile'', 11), (''b.bb:do_compile'', 12)] small_linked) =
     [''b.bb:do_compile'', ''a.bb:do_compile'', ''a.bb:do_package''] \<and>
   set (entry_depends small_linked ''a.bb:do_package'') \<subseteq> {''b.bb:do_compile'', ''a.bb:do_compile''}"
proof -
  have p: "speed_prio (set_weights [(''a.bb:do_package'', 10), (''a.bb:do_compile'', 11), (''b.bb:do_compile'', 12)] small_linked) =
     [''b.bb:do_compile'', ''a.bb:do_compile''] @ ''a.bb:do_package'' # []" by code_simp
  have t: "task_weights small_linked (graph_endpoints small_linked) =
     Inr ([(''a.bb:do_package'', 10), (''a.bb:do_compile'', 11), (''b.bb:do_compile'', 12)], [])" by code_simp
  have "acyclic (dep_rel small_linked)" using task_weights_facts[OF small_graph_linked] t by auto
  from speed_prio_dependencies_first[OF small_graph_linked this t, THEN conjunct2, THEN conjunct2, rule_format, OF p]
  have "set (entry_depends small_linked ''a.bb:do_package'') \<subseteq> {''b.bb:do_compile'', ''a.bb:do_compile''}"
    by (simp only: list.set)
  with p show ?thesis by (simp only: append.simps simp_thms)
qed

section \<open>The completion scheduler\<close>

text \<open>\<open>move_tasks\<close> moves the tasks of one name to the front of what is left, in their order.\<close>

definition has_name :: "string \<Rightarrow> string \<Rightarrow> bool" where
  "has_name task tid \<longleftrightarrow> taskname_from_tid tid = Inr task"

definition named :: "string \<Rightarrow> bool" where
  "named tid \<longleftrightarrow> (\<exists>name. taskname_from_tid tid = Inr name)"

lemma move_task_next:
  assumes "named x"
  shows "move_task task (length (P @ F @ N)) (P @ F @ N @ x # rest, length (P @ F)) =
    Inr (if has_name task x then (P @ (F @ [x]) @ N @ rest, length (P @ F @ [x])) else (P @ F @ (N @ [x]) @ rest, length (P @ F)))"
  using assms by (auto simp: move_task_def list_get_def named_def has_name_def nth_append Let_def)

lemma move_tasks_split:
  assumes "\<forall>x \<in> set rest. named x"
  shows "res_fold (move_task task) [length (P @ F @ N)..<length (P @ F @ N @ rest)] (P @ F @ N @ rest, length (P @ F)) =
    Inr (P @ F @ filter (has_name task) rest @ N @ filter (\<lambda>x. \<not> has_name task x) rest,
      length (P @ F @ filter (has_name task) rest))"
  using assms
proof (induction rest arbitrary: F N)
  case (Cons x rest)
  have upt: "[length (P @ F @ N)..<length (P @ F @ N @ x # rest)] =
      length (P @ F @ N) # [Suc (length (P @ F @ N))..<length (P @ F @ N @ x # rest)]"
    by (rule upt_conv_Cons) simp
  have named: "named x" "\<forall>y \<in> set rest. named y" using Cons.prems by simp_all
  show ?case
  proof (cases "has_name task x")
    case True
    with Cons.IH[OF named(2), of "F @ [x]" N] show ?thesis
      unfolding upt res_fold.simps move_task_next[OF named(1)] by simp
  next
    case False
    with Cons.IH[OF named(2), of F "N @ [x]"] show ?thesis
      unfolding upt res_fold.simps move_task_next[OF named(1)] by simp
  qed
qed simp

lemma move_tasks_partition:
  assumes "\<forall>x \<in> set rest. named x"
  shows "move_tasks (length (P @ rest)) task (P @ rest, length P) =
    Inr (P @ filter (has_name task) rest @ filter (\<lambda>x. \<not> has_name task x) rest, length (P @ filter (has_name task) rest))"
  using move_tasks_split[OF assms, of task P "[]" "[]"] by (simp add: move_tasks_def)

definition groups :: "string list \<Rightarrow> string list \<Rightarrow> string list" where
  "groups names tids = List.concat (List.map (\<lambda>task. filter (has_name task) tids) names)"

lemma groups_cong: "(\<And>task. task \<in> set names \<Longrightarrow> filter (has_name task) xs = filter (has_name task) ys) \<Longrightarrow> groups names xs = groups names ys"
  unfolding groups_def by (metis (no_types, lifting) map_eq_conv)

lemma move_all_tasks:
  assumes "distinct names" and "\<forall>x \<in> set rest. named x"
  shows "res_fold (move_tasks (length (P @ rest))) names (P @ rest, length P) =
    Inr (P @ groups names rest @ filter (\<lambda>x. \<forall>task \<in> set names. \<not> has_name task x) rest, length (P @ groups names rest))"
  using assms
proof (induction names arbitrary: P rest)
  case (Cons task names)
  let ?F = "filter (has_name task) rest" and ?N = "filter (\<lambda>x. \<not> has_name task x) rest"
  have N: "\<forall>x \<in> set ?N. named x" using Cons.prems(2) by simp
  have len: "length (P @ rest) = length ((P @ ?F) @ ?N)" using sum_length_filter_compl[of "has_name task" rest] by simp
  have other: "filter (has_name t) ?N = filter (has_name t) rest" if "t \<in> set names" for t
    unfolding filter_filter using Cons.prems(1) that by (intro filter_cong) (auto simp: has_name_def)
  then have g: "groups names ?N = groups names rest" by (rule groups_cong)
  have "res_fold (move_tasks (length (P @ rest))) (task # names) (P @ rest, length P) =
      res_fold (move_tasks (length (P @ rest))) names ((P @ ?F) @ ?N, length (P @ ?F))"
    unfolding res_fold.simps move_tasks_partition[OF Cons.prems(2)] by simp
  also have "\<dots> = Inr ((P @ ?F) @ groups names ?N @ filter (\<lambda>x. \<forall>t \<in> set names. \<not> has_name t x) ?N,
      length ((P @ ?F) @ groups names ?N))"
    unfolding len by (rule Cons.IH) (use Cons.prems(1) N in simp_all)
  finally show ?case unfolding g by (simp add: groups_def conj_commute)
qed (simp add: groups_def)

text \<open>The names that are merged are those of the recipes, each once.\<close>

lemma index_of_None: "index_of xs y = None \<longleftrightarrow> y \<notin> set xs"
  by (induction xs) auto

lemma task_at_set: "task_at xs i = Some x \<Longrightarrow> x \<in> set xs"
  by (auto simp: task_at_def split: if_splits)

definition merge_ok :: "string list \<times> nat \<times> string option \<Rightarrow> bool" where
  "merge_ok = (\<lambda>(all_tasks, index, old_task). distinct all_tasks \<and> (\<forall>x. old_task = Some x \<longrightarrow> x \<in> set all_tasks))"

lemma set_insert_at: "set (take i xs @ x # drop i xs) = insert x (set xs)"
  by (metis append_take_drop_id list.simps(15) set_append Un_insert_right)

lemma merge_task_ok:
  assumes "merge_ok st"
  shows "merge_ok (merge_task new st) \<and> set (fst (merge_task new st)) = insert new (set (fst st))"
proof -
  obtain xs i old where st: "st = (xs, i, old)" by (cases st)
  consider (old) "old = Some new" | (there) j where "old \<noteq> Some new" "index_of xs new = Some j"
    | (fresh) "old \<noteq> Some new" "index_of xs new = None" by (cases "index_of xs new") auto
  then show ?thesis
  proof cases
    case old
    with assms show ?thesis unfolding st by (auto simp: merge_ok_def merge_task_def dest: task_at_set)
  next
    case there
    then have "new \<in> set xs" using index_of_None[of xs new] by auto
    with there assms show ?thesis unfolding st by (auto simp: merge_ok_def merge_task_def dest: task_at_set)
  next
    case fresh
    then have "new \<notin> set xs" using index_of_None[of xs new] by simp
    moreover from this have "distinct xs \<Longrightarrow> distinct (take i xs @ new # drop i xs)"
      using set_take_disj_set_drop_if_distinct[of xs i i] in_set_takeD[of new i xs] in_set_dropD[of new i xs] by auto
    ultimately show ?thesis using fresh assms unfolding st
      by (simp add: merge_ok_def merge_task_def set_insert_at del: set_append)
  qed
qed

lemma merge_recipe_ok: "distinct xs \<Longrightarrow> distinct (merge_recipe new xs) \<and> set (merge_recipe new xs) = set xs \<union> set new"
proof -
  have "merge_ok st \<Longrightarrow> merge_ok (fold merge_task new st) \<and> set (fst (fold merge_task new st)) = set (fst st) \<union> set new" for st
  proof (induction new arbitrary: st)
    case (Cons n new)
    from merge_task_ok[OF Cons.prems] Cons.IH[of "merge_task n st"] show ?case by simp
  qed simp
  from this[of "(xs, 0, task_at xs 0)"] show "distinct xs \<Longrightarrow> ?thesis"
    unfolding merge_recipe_def by (cases "fold merge_task new (xs, 0, task_at xs 0)") (auto simp: merge_ok_def dest: task_at_set)
qed

lemma merge_tasks_ok: "distinct (merge_tasks ls) \<and> set (merge_tasks ls) = \<Union> (set ` snd ` set ls)"
proof -
  have "distinct xs \<Longrightarrow> distinct (fold (\<lambda>(recipe, new). merge_recipe new) ls xs) \<and>
      set (fold (\<lambda>(recipe, new). merge_recipe new) ls xs) = set xs \<union> \<Union> (set ` snd ` set ls)" for xs
  proof (induction ls arbitrary: xs)
    case (Cons p ls)
    obtain r new where p: "p = (r, new)" by (cases p)
    from merge_recipe_ok[OF Cons.prems] Cons.IH[of "merge_recipe new xs"] show ?case unfolding p by auto
  qed simp
  from this[of "[]"] show ?thesis unfolding merge_tasks_def by simp
qed

lemma split_task_named: "CHR '':'' \<in> set tid \<Longrightarrow> \<exists>fn name. split_task tid = Inr (fn, name) \<and> taskname_from_tid tid = Inr name"
  by (rule rsplit1_cases[of "CHR '':''" tid]) (auto simp: split_task_def taskname_from_tid_def list_get_def)

lemma append_names: "\<Union> (set ` snd ` set (dict_append k v d)) = insert v (\<Union> (set ` snd ` set d))" if "wf_dict d"
proof -
  have "wf_dict d \<Longrightarrow> \<Union> (set ` snd ` set (AList.update k (xs @ [v]) d)) = insert v (\<Union> (set ` snd ` set d))"
    if "xs = dict_list d k" for xs using that
  proof (induction d)
    case (Cons p d)
    then show ?case by (cases p) (auto simp: dict_list_def image_iff)
  qed (simp add: dict_list_def)
  with that show ?thesis by (simp add: dict_append_def)
qed

lemma recipe_tasks_names:
  assumes "\<forall>t \<in> set prio. CHR '':'' \<in> set t"
  shows "\<exists>ls. recipe_tasks prio = Inr ls \<and> \<Union> (set ` snd ` set ls) = {name. \<exists>t \<in> set prio. has_name name t}"
proof -
  have "wf_dict d \<Longrightarrow> \<forall>t \<in> set prio. CHR '':'' \<in> set t \<Longrightarrow>
      \<exists>ls. res_fold (\<lambda>tid d. res_bind (split_task tid) (\<lambda>(fn, taskname). Inr (dict_append fn taskname d))) prio d = Inr ls \<and>
        \<Union> (set ` snd ` set ls) = \<Union> (set ` snd ` set d) \<union> {name. \<exists>t \<in> set prio. has_name name t}" for d
  proof (induction prio arbitrary: d)
    case (Cons t prio)
    obtain fn name where t: "split_task t = Inr (fn, name)" "taskname_from_tid t = Inr name"
      using split_task_named[of t] Cons.prems(2) by auto
    obtain ls where "res_fold (\<lambda>tid d. res_bind (split_task tid) (\<lambda>(fn, taskname). Inr (dict_append fn taskname d))) prio (dict_append fn name d) = Inr ls"
      "\<Union> (set ` snd ` set ls) = \<Union> (set ` snd ` set (dict_append fn name d)) \<union> {name. \<exists>t \<in> set prio. has_name name t}"
      using Cons.IH[of "dict_append fn name d"] Cons.prems by auto
    with t(1) append_names[OF Cons.prems(1)] t(2) show ?case by (auto simp: has_name_def)
  qed simp
  from this[of "[]"] assms show ?thesis unfolding recipe_tasks_def by auto
qed

lemma speed_prio_length: "wf_dict G \<Longrightarrow> length (speed_prio G) = length G"
  using distinct_card[OF speed_prio_distinct, of G] speed_prio_set[of G] distinct_card[of "dict_keys G"] by simp

text \<open>C18: the completion scheduler, which moves tasks about in one list, ends up with the list of
  the speed scheduler grouped by task name: each name that occurs has one group, and each group
  keeps the order of the speed scheduler; no task is lost or doubled.\<close>

theorem completion_prio_groups:
  assumes "wf_dict G" and "\<forall>t \<in> set (dict_keys G). CHR '':'' \<in> set t"
  shows "\<exists>prio names. completion_prio G = Inr prio \<and> distinct names \<and>
    set names = {name. \<exists>t \<in> set (dict_keys G). taskname_from_tid t = Inr name} \<and>
    prio = List.concat (List.map (\<lambda>name. filter (\<lambda>t. taskname_from_tid t = Inr name) (speed_prio G)) names) \<and>
    distinct prio \<and> set prio = set (dict_keys G)"
proof -
  let ?S = "speed_prio G"
  have colon: "\<forall>t \<in> set ?S. CHR '':'' \<in> set t" using assms(2) speed_prio_set by simp
  from recipe_tasks_names[OF this] obtain ls where ls: "recipe_tasks ?S = Inr ls"
    "\<Union> (set ` snd ` set ls) = {name. \<exists>t \<in> set ?S. has_name name t}" by blast
  let ?names = "rev (merge_tasks ls)"
  have names: "distinct ?names" "set ?names = {name. \<exists>t \<in> set ?S. has_name name t}"
    using merge_tasks_ok[of ls] ls(2) by simp_all
  have named: "\<forall>t \<in> set ?S. named t" using colon split_task_named by (auto simp: named_def)
  then have "filter (\<lambda>t. \<forall>task \<in> set ?names. \<not> has_name task t) ?S = []"
    unfolding names(2) filter_empty_conv has_name_def named_def by blast
  with move_all_tasks[OF names(1) named, of "[]"] ls(1) have run: "completion_prio G = Inr (groups ?names ?S)"
    by (simp add: completion_prio_def speed_prio_length[OF assms(1)])
  have "distinct (groups ?names ?S)"
    unfolding groups_def using speed_prio_distinct[OF assms(1)] names(1)
    by (intro distinct_groups[where w = "\<lambda>t. projr (taskname_from_tid t)"]) (auto simp: has_name_def)
  moreover have "set (groups ?names ?S) = {x \<in> set ?S. \<exists>name \<in> set ?names. has_name name x}" by (auto simp: groups_def)
  moreover have "\<dots> = set ?S" unfolding names(2) using named unfolding named_def has_name_def by blast
  ultimately have "distinct (groups ?names ?S)" "set (groups ?names ?S) = set (dict_keys G)" using speed_prio_set[of G] by simp_all
  with run names show ?thesis unfolding groups_def has_name_def speed_prio_set[symmetric]
    by blast
qed

theorem completion_prio_groups_witness:
  "completion_prio small_linked = Inr [''a.bb:do_package'', ''b.bb:do_compile'', ''a.bb:do_compile''] \<and>
   distinct [''a.bb:do_package'', ''b.bb:do_compile'', ''a.bb:do_compile'']"
proof -
  have "wf_dict small_linked" using small_graph_linked by (simp add: linked_graph_def closed_graph_def)
  moreover have "\<forall>t \<in> set (dict_keys small_linked). CHR '':'' \<in> set t" by code_simp
  moreover have "completion_prio small_linked = Inr [''a.bb:do_package'', ''b.bb:do_compile'', ''a.bb:do_compile'']" by code_simp
  ultimately show ?thesis using completion_prio_groups[of small_linked] by auto
qed

section \<open>The basic scheduler\<close>

text \<open>the priority map of the basic scheduler is a list with one element, the view of the keys,
  so that looking up the place of a task in it raises a ValueError. It only ever starts a
  task that is the one buildable task of the moment.\<close>

theorem basic_scheduler_choice:
  assumes "prio_map_of ''basic'' (q_entries s) = Inr (sc_prio_map (q_sched s))" and "sc_rev_prio (q_sched s) = []"
    and "q_entries s \<noteq> []"
  shows "choose_task skip tids s = (Inl ValueError, s) \<and>
    (next_task env s = (Inr (Some t), s') \<longrightarrow> buildable_now (snd (drop_running s)) = [t])"
proof -
  have fails: "fst (choose_task skip tids u) = Inl ValueError \<and> snd (choose_task skip tids u) = u"
    if "sc_prio_map (q_sched u) = [Prio_Keys]" "sc_rev_prio (q_sched u) = []" "q_entries u \<noteq> []" for skip tids u
    using that by (cases "q_entries u") (auto simp: choose_task_def act_simps reverse_prio_def)
  have prio: "sc_prio_map (q_sched s) = [Prio_Keys]" using assms(1) by (simp add: prio_map_of_def)
  have "buildable_now (snd (drop_running s)) = [t]" if run: "next_task env s = (Inr (Some t), s')"
  proof -
    let ?s1 = "snd (drop_running s)"
    have s1: "drop_running s = (Inr (), ?s1)" "sc_prio_map (q_sched ?s1) = [Prio_Keys]" "sc_rev_prio (q_sched ?s1) = []" "q_entries ?s1 \<noteq> []"
      using prio assms(2,3) by (simp_all add: drop_running_def act_simps)
    from run s1(1) obtain w where among: "choose_among env (buildable_now ?s1) (q_data_update (pp_siggen_update (\<lambda>_. w)) ?s1) = (Inr (Some t), s')"
      by (auto simp: next_task_def next_buildable_task_def under_pressure_def on_world_def act_simps split: if_splits prod.splits)
    from choose_among_run[OF among] obtain maxthread skip where
      rest: "(case buildable_now ?s1 of [tid] \<Rightarrow> choose_single maxthread skip tid | _ \<Rightarrow> choose_task skip (buildable_now ?s1))
        (q_sched_update (\<lambda>sc. sc\<lparr>sc_maxthread := maxthread\<rparr>) (q_data_update (pp_siggen_update (\<lambda>_. w)) ?s1)) = (Inr (Some t), s')" by blast
    let ?u = "q_sched_update (\<lambda>sc. sc\<lparr>sc_maxthread := maxthread\<rparr>) (q_data_update (pp_siggen_update (\<lambda>_. w)) ?s1)"
    have never: "choose_task skip tids ?u \<noteq> (Inr (Some t), s')" for tids using fails[of ?u skip tids] s1 by auto
    then obtain tid where one: "buildable_now ?s1 = [tid]" using rest by (cases "buildable_now ?s1"; cases "tl (buildable_now ?s1)") auto
    with rest never have "tid = t" by (auto simp: choose_single_def act_simps split: sum.splits if_splits)
    with one show ?thesis by simp
  qed
  with fails[OF prio assms(2,3), of skip tids] show ?thesis by (metis prod.collapse)
qed

theorem basic_scheduler_choice_witness:
  "let s = two_ready\<lparr>q_sched := (q_sched two_ready)\<lparr>sc_prio_map := [Prio_Keys]\<rparr>\<rparr> in
   prio_map_of ''basic'' (q_entries s) = Inr (sc_prio_map (q_sched s)) \<and> choose_task [] [''a.bb:do_compile'', ''b.bb:do_compile''] s = (Inl ValueError, s)"
proof -
  let ?s = "two_ready\<lparr>q_sched := (q_sched two_ready)\<lparr>sc_prio_map := [Prio_Keys]\<rparr>\<rparr>"
  have "prio_map_of ''basic'' (q_entries ?s) = Inr (sc_prio_map (q_sched ?s))" by (simp add: prio_map_of_def)
  moreover have "sc_rev_prio (q_sched ?s) = []" "q_entries ?s \<noteq> []" by (simp_all add: two_ready_def small_linked_def)
  ultimately show ?thesis using basic_scheduler_choice[of ?s "[]" "[''a.bb:do_compile'', ''b.bb:do_compile'']"]
    unfolding Let_def by blast
qed

end
