(* ===== verification/Build_Invariant.thy ===== *)
theory Build_Invariant
  imports RunQueue_Machine
begin

text \<open>
  Safety of a build: over all the states a run queue reaches, however the workers, the files and
  the signature generator behave, a task that was started has all its dependencies completed.

  \<open>core\<close> is the part of the state this rests on; most methods leave it alone, and \<open>keeps_intros\<close>
  takes an action apart down to the updates that do or do not touch it.
\<close>

section \<open>The invariant\<close>

definition core :: "'w rq \<Rightarrow> string list \<times> string list \<times> string list \<times> string list \<times> (string \<times> string list) list" where
  "core s = (runq_buildable s, sc_buildable (q_sched s), runq_running s, runq_complete s,
     List.map (\<lambda>(t, e). (t, rt_depends e)) (q_entries s))"

definition deps_complete :: "'w rq \<Rightarrow> string \<Rightarrow> bool" where
  "deps_complete s t \<longleftrightarrow> set (entry_depends (q_entries s) t) \<subseteq> set (runq_complete s)"

text \<open>\<open>fst E\<close> are the early phases the run queue is known to have left, \<open>snd E\<close> tasks that are known
  to be ready.\<close>

definition ready_inv :: "phase set \<times> string set \<Rightarrow> 'w rq \<Rightarrow> bool" where
  "ready_inv E s \<longleftrightarrow>
     (\<forall>t \<in> set (runq_buildable s) \<union> set (sc_buildable (q_sched s)) \<union> set (runq_running s) \<union> snd E. deps_complete s t) \<and>
     (q_phase s \<in> fst E \<longrightarrow> q_phase s \<notin> {PhasePrepare, SceneInit})"

lemma entry_depends_map: "entry_depends G t = (case map_of (List.map (\<lambda>(t, e). (t, rt_depends e)) G) t of None \<Rightarrow> [] | Some ds \<Rightarrow> ds)"
  unfolding entry_depends_def map_of_entries by (cases "map_of G t") auto

lemma ready_inv_core:
  "core s' = core s \<and> (q_phase s' = q_phase s \<or> q_phase s' \<noteq> PhasePrepare \<and> q_phase s' \<noteq> SceneInit) \<Longrightarrow>
   ready_inv E s \<Longrightarrow> ready_inv E s'"
  unfolding ready_inv_def deps_complete_def core_def entry_depends_map by auto

text \<open>Rules that take an action apart\<close>

lemma keeps_core:
  "(\<And>s. core (f s) = core s \<and> (q_phase (f s) = q_phase s \<or> q_phase (f s) \<noteq> PhasePrepare \<and> q_phase (f s) \<noteq> SceneInit)) \<Longrightarrow>
   keeps (ready_inv E) (act_modify f)"
  by (rule keeps_modify) (rule ready_inv_core)

lemma keeps_prod: "(\<And>a b. keeps I (f a b)) \<Longrightarrow> keeps I (case p of (a, b) \<Rightarrow> f a b)"
  by (cases p) simp

lemma keeps_option: "keeps I m \<Longrightarrow> (\<And>x. keeps I (f x)) \<Longrightarrow> keeps I (case z of None \<Rightarrow> m | Some x \<Rightarrow> f x)"
  by (cases z) auto

lemma keeps_list: "keeps I m \<Longrightarrow> (\<And>x xs. keeps I (f x xs)) \<Longrightarrow> keeps I (case z of [] \<Rightarrow> m | x # xs \<Rightarrow> f x xs)"
  by (cases z) auto

lemma keeps_loaded: "(\<And>x. keeps I (f x)) \<Longrightarrow> keeps I m \<Longrightarrow> keeps I n \<Longrightarrow>
   keeps I (case z of Loaded x \<Rightarrow> f x | Truncated \<Rightarrow> m | Unloadable \<Rightarrow> n)"
  by (cases z) auto

lemma keeps_worker_event: "(\<And>t u. keeps I (f t u)) \<Longrightarrow> (\<And>x. keeps I (g x)) \<Longrightarrow>
   keeps I (case z of UniHashUpdate t u \<Rightarrow> f t u | OtherEvent x \<Rightarrow> g x)"
  by (cases z) auto

lemma keeps_choice: "keeps I m \<Longrightarrow> keeps I n \<Longrightarrow> (\<And>x. keeps I (f x)) \<Longrightarrow>
   keeps I (case z of Go_on \<Rightarrow> m | Give_up \<Rightarrow> n | Pick x \<Rightarrow> f x)"
  by (cases z) auto

lemma keeps_bool: "keeps I m \<Longrightarrow> keeps I n \<Longrightarrow> keeps I (case b of True \<Rightarrow> m | False \<Rightarrow> n)"
  by (cases b) auto

lemmas keeps_intros = keeps_return keeps_raise keeps_lift keeps_gets keeps_read keeps_bind keeps_then keeps_when
  keeps_catch keeps_for keeps_map keeps_if keeps_core keeps_prod keeps_option keeps_list keeps_loaded
  keeps_worker_event keeps_choice keeps_bool

lemmas core_leaves = on_world_def fire_event_def get_entry_def on_sq_def on_stats_def set_phase_def

lemma core_world [simp]: "core (q_data_update (pp_siggen_update f) s) = core s"
  by (simp add: core_def)

section \<open>Actions that do not make a task buildable\<close>

lemma keeps_check_stamp_task: "keeps (ready_inv E) (check_stamp_task env tid name rec)"
  unfolding check_stamp_task_def
  by (intro keeps_intros keeps_zoom) (erule ready_inv_core[rotated], simp add: core_def)

lemma keeps_validate_hashes: "keeps (ready_inv E) (validate_hashes env ts n a b)"
  unfolding validate_hashes_def core_leaves by (intro keeps_intros) simp

lemma keeps_check_setscene_stamps: "keeps (ready_inv E) (check_setscene_stamps env tid)"
  unfolding check_setscene_stamps_def core_leaves by (intro keeps_intros keeps_check_stamp_task) simp

lemma keeps_update_counters:
  assumes "\<And>t. keeps (ready_inv E) (failure t)"
  shows "keeps (ready_inv E) (update_counters_with failure env task fail)"
  unfolding update_counters_with_def fail_harddeps_def enable_deps_def walk_done_def release_harddeps_def
    update_stats_covered_def
  by (intro keeps_intros keeps_check_setscene_stamps assms; simp add: core_def)

lemma keeps_fail_outright: "keeps (ready_inv E) (fail_outright n env task)"
proof (induction n arbitrary: task)
  case (Suc n)
  show ?case
    unfolding fail_outright.simps mark_started_def mark_notcovered_def
    by (intro keeps_intros keeps_update_counters Suc.IH; simp add: core_def)
qed (simp add: keeps_raise)

lemma keeps_sq_task_failoutright: "keeps (ready_inv E) (sq_task_failoutright env task)"
  unfolding sq_task_failoutright_def by (intro keeps_intros keeps_fail_outright)

lemma keeps_scenequeue_updatecounters: "keeps (ready_inv E) (scenequeue_updatecounters env task fail)"
  unfolding scenequeue_updatecounters_def by (intro keeps_update_counters keeps_sq_task_failoutright)

lemma keeps_sq_task_completeoutright: "keeps (ready_inv E) (sq_task_completeoutright env task)"
  unfolding sq_task_completeoutright_def
  by (intro keeps_intros keeps_scenequeue_updatecounters; simp add: core_def)

lemma keeps_sq_task_complete: "keeps (ready_inv E) (sq_task_complete env task)"
  unfolding sq_task_complete_def core_leaves
  by (intro keeps_intros keeps_sq_task_completeoutright; simp add: core_def)

lemma keeps_sq_task_fail: "keeps (ready_inv E) (sq_task_fail env task result)"
  unfolding sq_task_fail_def sq_check_taskfail_def mark_notcovered_def core_leaves
  by (intro keeps_intros keeps_scenequeue_updatecounters; simp add: core_def)

lemma keeps_sq_task_skip: "keeps (ready_inv E) (sq_task_skip env task)"
  unfolding sq_task_skip_def mark_started_def
  by (intro keeps_intros keeps_sq_task_completeoutright; simp add: core_def)

lemma keeps_update_scenequeue_data: "keeps (ready_inv E) (update_scenequeue_data env tids summary)"
  unfolding update_scenequeue_data_def scene_stamps_def core_leaves
  by (intro keeps_intros keeps_check_setscene_stamps keeps_sq_task_skip keeps_validate_hashes; simp add: core_def)

section \<open>Completing tasks\<close>

lemma keeps_setbuildable_if:
  "ready_inv E s \<Longrightarrow> deps_complete s t \<Longrightarrow> ready_inv E (snd (setbuildable t s))"
  by (auto simp: ready_inv_def deps_complete_def setbuildable_def newbuildable_def act_simps)

lemma keeps_release_deferred: "keeps (ready_inv E) (release_deferred env task found ts)"
proof (induction ts arbitrary: found)
  case (Cons t ts)
  show ?case
    unfolding release_deferred.simps
    by (intro keeps_intros keeps_update_scenequeue_data Cons.IH; simp add: core_def)
qed (simp add: keeps_return)

lemma keeps_enable: 
  "keeps (ready_inv E) (act_bind (get_entry t) (\<lambda>e. act_bind (act_gets (\<lambda>s. set (rt_depends e) \<subseteq> set (runq_complete s)))
     (\<lambda>ready. act_when ready (setbuildable t))))"
proof (rule keepsI)
  fix s :: "'a rq" assume inv: "ready_inv E s"
  show "ready_inv E (snd (act_bind (get_entry t) (\<lambda>e. act_bind (act_gets (\<lambda>s. set (rt_depends e) \<subseteq> set (runq_complete s)))
     (\<lambda>ready. act_when ready (setbuildable t))) s))"
  proof (cases "map_of (q_entries s) t")
    case None
    with inv show ?thesis by (simp add: act_simps get_entry_def)
  next
    case (Some e)
    have "deps_complete s t" if "set (rt_depends e) \<subseteq> set (runq_complete s)"
      using that Some by (simp add: deps_complete_def entry_depends_def)
    with inv Some keeps_setbuildable_if[of E s t] show ?thesis by (simp add: act_simps get_entry_def)
  qed
qed

lemma keeps_enable_revdep: "keeps (ready_inv E) (enable_revdep t)"
  unfolding enable_revdep_def by (intro keeps_bind keeps_gets keeps_if keeps_return keeps_enable)

lemma keeps_add_complete: "keeps (ready_inv E) (act_modify (\<lambda>s. s\<lparr>runq_complete := set_add t (runq_complete s)\<rparr>))"
  by (rule keeps_modify) (auto simp: ready_inv_def deps_complete_def)

lemma keeps_task_completeoutright: "keeps (ready_inv E) (task_completeoutright env task)"
  unfolding task_completeoutright_def core_leaves
  by (intro keeps_intros keeps_add_complete keeps_enable_revdep keeps_release_deferred)

lemma keeps_task_complete: "keeps (ready_inv E) (task_complete env task)"
  unfolding task_complete_def add_tasksrun_def core_leaves
  by (intro keeps_intros keeps_task_completeoutright; simp add: core_def)

lemma keeps_task_fail: "keeps (ready_inv E) (task_fail env task exitcode log)"
  unfolding task_fail_def core_leaves by (intro keeps_intros; simp add: core_def)

lemma keeps_process_waitpid: "keeps (ready_inv E) (runqueue_process_waitpid env task status log)"
  unfolding runqueue_process_waitpid_def forget_stamp_def update_live_def
  by (intro keeps_intros keeps_task_complete keeps_task_fail keeps_sq_task_fail keeps_sq_task_complete; simp add: core_def)

section \<open>The workers\<close>

lemma keeps_read_events: "keeps (ready_inv E) (read_events n env key found)"
proof (induction n arbitrary: found)
  case (Suc n)
  show ?case
    unfolding read_events.simps worker_event_def set_queue_def core_leaves
    by (intro keeps_intros Suc.IH; simp add: core_def)
qed (simp add: keeps_raise)

lemma keeps_read_exits: "keeps (ready_inv E) (read_exits n env key found)"
proof (induction n arbitrary: found)
  case (Suc n)
  show ?case
    unfolding read_exits.simps set_queue_def
    by (intro keeps_intros keeps_process_waitpid Suc.IH; simp add: core_def)
qed (simp add: keeps_raise)

lemma keeps_read_messages: "keeps (ready_inv E) (read_messages n env key)"
proof (induction n)
  case (Suc n)
  show ?case
    unfolding read_messages.simps by (intro keeps_intros keeps_read_events keeps_read_exits Suc.IH)
qed (simp add: keeps_raise)

lemma keeps_finish_now: "keeps (ready_inv E) finish_now"
  unfolding finish_now_def by (intro keeps_intros; simp add: core_def)

lemma keeps_pipe_read: "keeps (ready_inv E) (pipe_read env key)"
  unfolding pipe_read_def check_workers_def finish_runqueue_now_def set_queue_def core_leaves
  by (intro keeps_intros keeps_read_messages keeps_finish_now; simp add: core_def)

lemma keeps_read_workers: "keeps (ready_inv E) (read_workers env)"
  unfolding read_workers_def by (intro keeps_intros keeps_pipe_read)

lemma keeps_finish: "keeps (ready_inv E) (finish env)"
  unfolding finish_def core_leaves by (intro keeps_intros keeps_read_workers; simp add: core_def)

lemma keeps_update_holdofftasks: "keeps (ready_inv E) update_holdofftasks"
  unfolding update_holdofftasks_def enable_covered_def
  by (intro keeps_intros keeps_enable; simp add: core_def)

section \<open>Migrations\<close>

lemma depends_update:
  assumes "\<And>e. rt_depends (f e) = rt_depends e"
  shows "List.map (\<lambda>(t, e). (t, rt_depends e)) (update_entry tid f G) = List.map (\<lambda>(t, e). (t, rt_depends e)) G"
proof -
  have "map_of G tid = Some e \<Longrightarrow>
      List.map (\<lambda>(t, e). (t, rt_depends e)) (AList.update tid (f e) G) = List.map (\<lambda>(t, e). (t, rt_depends e)) G" for e
    by (induction G) (auto simp: assms)
  then show ?thesis unfolding update_entry_def by (simp split: option.split)
qed

lemma core_entries:
  "(\<And>e. rt_depends (f e) = rt_depends e) \<Longrightarrow> core (q_data_update (pp_entries_update (update_entry tid f)) s) = core s"
  by (simp add: core_def depends_update)

lemma keeps_set_unihash: "keeps (ready_inv E) (set_unihash env u t)"
  unfolding set_unihash_def on_entries_def core_leaves by (intro keeps_intros; simp add: core_entries)

lemma keeps_in_world: "keeps (ready_inv E) (in_world m)"
  unfolding in_world_def by (rule keeps_zoom) (erule ready_inv_core[rotated], simp add: core_def)

lemma keeps_rehash_loop: "keeps (ready_inv E) (rehash_loop n env p waiting ts changed)"
proof (induction n arbitrary: waiting ts changed)
  case 0
  show ?case by (cases ts) (auto intro: keeps_intros)
next
  case (Suc n)
  show ?case
  proof (cases ts)
    case (Cons a as)
    show ?thesis
      unfolding Cons rehash_loop.simps rehash_ready_def rehash_task_def on_entries_def core_leaves Let_def
      by (intro keeps_intros keeps_in_world Suc.IH; simp add: core_entries)
  qed (auto intro: keeps_intros)
qed

lemma keeps_rehash: "keeps (ready_inv E) (rehash env ts)"
  unfolding rehash_def by (intro keeps_intros keeps_rehash_loop)

lemma keeps_apply_unihash: "keeps (ready_inv E) (apply_unihash env u)"
  unfolding apply_unihash_def core_leaves by (intro keeps_intros keeps_set_unihash; simp add: core_def)

lemma keeps_undo_done: "keeps (ready_inv E) (undo_done deps)"
proof (induction deps)
  case (Cons d ds)
  show ?case unfolding undo_done.simps by (intro keeps_intros Cons.IH; simp add: core_def)
qed (simp add: keeps_return)

lemma keeps_migrate_task: "keeps (ready_inv E) (migrate_task env tid)"
  unfolding migrate_task_def reset_scene_task_def Let_def
  by (intro keeps_intros keeps_undo_done; simp add: core_def)

lemma keeps_migrate_tasks: "keeps (ready_inv E) (migrate_tasks env ts moved)"
proof (induction ts arbitrary: moved)
  case (Cons t ts)
  show ?case unfolding migrate_tasks.simps by (intro keeps_intros keeps_migrate_task Cons.IH)
qed (simp add: keeps_return)

lemma keeps_requeue_tasks: "keeps (ready_inv E) (requeue_tasks env moved)"
  unfolding requeue_tasks_def requeue_task_def defer_again_def
  by (intro keeps_intros keeps_update_scenequeue_data keeps_sq_task_failoutright; simp add: core_def split: option.split)

lemma keeps_process_possible_migrations: "keeps (ready_inv E) (process_possible_migrations env)"
  unfolding process_possible_migrations_def update_stats_covered_def
  by (intro keeps_intros keeps_apply_unihash keeps_rehash keeps_migrate_tasks keeps_requeue_tasks; simp add: core_def)

section \<open>Setscene tasks\<close>

lemma keeps_scene_valid: "keeps (ready_inv E) (scene_valid env t)"
  unfolding scene_valid_def delete_deferred_def
  by (intro keeps_intros keeps_validate_hashes keeps_sq_task_failoutright; simp add: core_def)

lemma keeps_try_setscene: "keeps (ready_inv E) (try_setscene env t)"
  unfolding try_setscene_def scene_ready_def scene_unneeded_def check_dependencies_def skip_unneeded_def
    ask_harddeps_def delete_deferred_def
  by (intro keeps_intros keeps_scene_valid keeps_sq_task_skip; simp add: core_def)

lemma keeps_scene_loop: "keeps (ready_inv E) (scene_loop n env)"
proof (induction n)
  case (Suc n)
  show ?case
    unfolding scene_loop.simps next_in_cycle_def by (intro keeps_intros keeps_try_setscene Suc.IH; simp add: core_def)
qed (simp add: keeps_return)

lemma keeps_next_setscene: "keeps (ready_inv E) (next_setscene env)"
  unfolding next_setscene_def by (intro keeps_intros keeps_scene_loop; simp add: core_def split: option.split)

lemma keeps_start_fakeworker: "keeps (ready_inv E) (start_fakeworker env mc)"
  unfolding start_fakeworker_def core_leaves by (intro keeps_intros; simp add: core_def)

lemma keeps_send_task: "keeps (ready_inv E) (send_task fake mc req)"
  unfolding send_task_def core_leaves by (intro keeps_intros; simp add: core_def)

lemma keeps_make_request: "keeps (ready_inv E) (make_request env task name noerr dry data)"
  unfolding make_request_def core_leaves by (intro keeps_intros)

lemma keeps_launch_setscene: "keeps (ready_inv E) (launch_setscene env task mc name fn)"
  unfolding launch_setscene_def sq_build_taskdepdata_def add_build_stamp_def update_live_def core_leaves Let_def
  by (intro keeps_intros keeps_make_request keeps_start_fakeworker keeps_send_task; simp add: core_def)

lemma keeps_run_setscene: "keeps (ready_inv E) (run_setscene env task)"
  unfolding run_setscene_def Let_def
  by (intro keeps_intros keeps_check_stamp_task keeps_sq_task_failoutright keeps_sq_task_skip keeps_launch_setscene)

section \<open>The next task\<close>

lemma keeps_choose_task: "keeps (ready_inv E) (choose_task skip tids)"
  unfolding choose_task_def on_sched_def by (intro keeps_intros; simp add: core_def)

lemma keeps_drop_running:
  "keeps (ready_inv E) drop_running"
  unfolding drop_running_def by (rule keeps_modify) (auto simp: ready_inv_def deps_complete_def)

lemma keeps_next_task: "keeps (ready_inv E) (next_task env)"
  unfolding next_task_def next_buildable_task_def under_pressure_def choose_among_def choose_single_def on_sched_def core_leaves
  by (intro keeps_intros keeps_drop_running keeps_choose_task; simp add: core_def)

end
