(* ===== verification/Build_Safety.thy ===== *)
theory Build_Safety
  imports Build_Invariant Small_Build
begin

text \<open>
  The invariant of \<open>Build_Invariant\<close> over the parts that do start tasks, over the phases of the run
  queue, and over all the states it reaches.
\<close>

section \<open>The task that is chosen\<close>

lemma choose_task_in: "choose_task skip tids s = (Inr (Some t), s') \<Longrightarrow> t \<in> set tids"
proof -
  have fold: "res_fold (best_task sc skip used) tids b = Inr (Some (t, p)) \<Longrightarrow> t \<in> set tids \<or> b = Some (t, p)" for sc used b p
  proof (induction tids arbitrary: b)
    case (Cons x tids)
    then obtain c where "best_task sc skip used x b = Inr c" "res_fold (best_task sc skip used) tids c = Inr (Some (t, p))"
      by (auto elim: res_bind_Inr_E)
    moreover from this(1) have "c = b \<or> (\<exists>q. c = Some (x, q))" by (auto simp: best_task_def res_bind_Inr_iff split: if_splits)
    ultimately show ?case using Cons.IH[of c] by auto
  qed simp
  have best: "res_fold (best_task sc skip used) tids None = Inr (Some (t, p)) \<Longrightarrow> t \<in> set tids" for sc used p
    using fold[of sc used None p] by simp
  assume "choose_task skip tids s = (Inr (Some t), s')"
  then show ?thesis
    by (auto simp: choose_task_def act_simps on_sched_def dest: best split: sum.splits if_splits)
qed

lemma choose_among_in: "choose_among env tids s = (Inr (Some t), s') \<Longrightarrow> t \<in> set tids"
proof -
  assume "choose_among env tids s = (Inr (Some t), s')"
  then obtain maxthread skip u where
    "(case tids of [tid] \<Rightarrow> choose_single maxthread skip tid | _ \<Rightarrow> choose_task skip tids) u = (Inr (Some t), s')"
    by (auto simp: choose_among_def act_simps on_sched_def split: sum.splits prod.splits)
  then show ?thesis
    using choose_task_in[of skip "[]" u t s'] choose_task_in[of skip tids u t s']
    by (cases tids; cases "tl tids") (auto simp: choose_single_def act_simps split: sum.splits if_splits)
qed

lemma keeps_choose_among: "keeps (ready_inv E) (choose_among env tids)"
  unfolding choose_among_def choose_single_def on_sched_def
  by (intro keeps_intros keeps_choose_task; simp add: core_def)

lemma keeps_under_pressure: "keeps (ready_inv E) (under_pressure env)"
  unfolding under_pressure_def core_leaves by (intro keeps_intros) simp

lemma ready_weaken: "ready_inv (P, T) s \<Longrightarrow> T' \<subseteq> T \<Longrightarrow> ready_inv (P, T') s"
  unfolding ready_inv_def by auto

lemma next_task_ready:
  "triple (ready_inv (P, {})) (next_task env) (\<lambda>r s. case r of None \<Rightarrow> ready_inv (P, {}) s | Some t \<Rightarrow> ready_inv (P, {t}) s)
     (\<lambda>_. ready_inv (P, {}))"
proof -
  have "case r of Inl e \<Rightarrow> ready_inv (P, {}) s' | Inr None \<Rightarrow> ready_inv (P, {}) s' | Inr (Some t) \<Rightarrow> ready_inv (P, {t}) s'"
    if inv: "ready_inv (P, {}) s" and run: "next_task env s = (r, s')" for s r s'
  proof (cases r)
    case (Inr x)
    show ?thesis
    proof (cases x)
      case (Some t)
      let ?s1 = "snd (drop_running s)"
      have s1: "drop_running s = (Inr (), ?s1)" by (simp add: drop_running_def act_simps)
      have "ready_inv (P, {}) ?s1" by (rule keepsD[OF keeps_drop_running inv])
      then have tids: "ready_inv (P, set (buildable_now ?s1)) ?s1" by (auto simp: ready_inv_def buildable_now_def)
      from run s1 obtain u where u: "under_pressure env ?s1 = (Inr False, u)" "choose_among env (buildable_now ?s1) u = (Inr (Some t), s')"
        unfolding Inr Some by (auto simp: next_task_def next_buildable_task_def act_simps split: if_splits prod.splits sum.splits)
      have "ready_inv (P, set (buildable_now ?s1)) s'"
        using keeps_run[OF keeps_choose_among keeps_run[OF keeps_under_pressure tids u(1)] u(2)] .
      moreover have "{t} \<subseteq> set (buildable_now ?s1)" using choose_among_in[OF u(2)] by simp
      ultimately show ?thesis unfolding Inr Some by (simp add: ready_weaken)
    qed (use keeps_run[OF keeps_next_task inv run] Inr in simp)
  qed (use keeps_run[OF keeps_next_task inv run] in simp)
  then show ?thesis unfolding triple_def by (fastforce split: prod.splits sum.splits option.splits)
qed

section \<open>Starting a task\<close>

lemma keeps_add_running: "t \<in> snd E \<Longrightarrow> keeps (ready_inv E) (add_running t)"
  unfolding add_running_def by (rule keeps_modify) (auto simp: ready_inv_def deps_complete_def)

lemma keeps_setbuildable: "t \<in> snd E \<Longrightarrow> keeps (ready_inv E) (setbuildable t)"
  by (rule keepsI, rule keeps_setbuildable_if) (auto simp: ready_inv_def)

lemma keeps_add_tasksrun: "keeps (ready_inv E) (add_tasksrun t)"
  unfolding add_tasksrun_def by (intro keeps_intros) (simp add: core_def)

lemma keeps_task_skip: "t \<in> snd E \<Longrightarrow> keeps (ready_inv E) (task_skip env t reason)"
  unfolding task_skip_def core_leaves
  by (intro keeps_intros keeps_add_running keeps_setbuildable keeps_task_completeoutright; simp add: core_def)

lemma keeps_run_noexec: "t \<in> snd E \<Longrightarrow> keeps (ready_inv E) (run_noexec env t name fn)"
  unfolding run_noexec_def core_leaves
  by (intro keeps_intros keeps_add_running keeps_task_complete; simp add: core_def)

lemma keeps_deliver_task: "keeps (ready_inv E) (deliver_task env fake mc req)"
  unfolding deliver_task_def core_leaves
  by (intro keeps_intros keeps_send_task keeps_start_fakeworker; simp add: core_def)

lemma keeps_build_taskdepdata: "keeps (ready_inv E) (build_taskdepdata t)"
  unfolding build_taskdepdata_def core_leaves by (intro keeps_intros; simp add: core_def)

lemma keeps_launch_task: "t \<in> snd E \<Longrightarrow> keeps (ready_inv E) (launch_task env t mc name fn deps)"
  unfolding launch_task_def add_build_stamp_def core_leaves Let_def
  by (intro keeps_intros keeps_add_running keeps_build_taskdepdata keeps_make_request keeps_deliver_task; simp add: core_def)

lemma keeps_check_setscene_ignore_tasks: "keeps (ready_inv E) (check_setscene_ignore_tasks env t)"
  unfolding check_setscene_ignore_tasks_def by (intro keeps_intros keeps_check_stamp_task)

lemma keeps_run_task_now: "t \<in> snd E \<Longrightarrow> keeps (ready_inv E) (run_task_now env t)"
  unfolding run_task_now_def
  by (intro keeps_intros keeps_check_setscene_ignore_tasks keeps_task_fail keeps_task_skip keeps_add_tasksrun
      keeps_check_stamp_task keeps_run_noexec keeps_launch_task)

lemma keeps_end_setscene: "keeps (ready_inv E) (end_setscene env)"
  unfolding end_setscene_def summarise_scenequeue_errors_def core_leaves by (intro keeps_intros; simp add: core_def)

lemma keeps_end_build: "keeps (ready_inv E) (end_build env)"
  unfolding end_build_def summarise_scenequeue_errors_def delete_deferred_def core_leaves
  by (intro keeps_intros keeps_read_workers; simp add: core_def)

lemma keeps_run_next: "keeps (ready_inv (P, {}))
  (act_bind (if b then act_return None else next_task env) (\<lambda>t.
     act_bind (case t of None \<Rightarrow> act_return False | Some task \<Rightarrow> run_task_now env task) (\<lambda>stop.
     if stop then act_return (Ret True) else end_build env)))"
proof -
  have first: "triple (ready_inv (P, {})) (if b then act_return None else next_task env)
      (\<lambda>r s. case r of None \<Rightarrow> ready_inv (P, {}) s | Some t \<Rightarrow> ready_inv (P, {t}) s) (\<lambda>_. ready_inv (P, {}))"
    by (auto intro: next_task_ready triple_returnI)
  have tail: "keeps (ready_inv E) (act_bind (case t of None \<Rightarrow> act_return False | Some task \<Rightarrow> run_task_now env task) (\<lambda>stop.
     if stop then act_return (Ret True) else end_build env))" if "\<And>x. t = Some x \<Longrightarrow> x \<in> snd E" for t E
    using that by (cases t) (auto intro!: keeps_bind keeps_return keeps_if keeps_run_task_now keeps_end_build)
  have "triple (\<lambda>s. case t of None \<Rightarrow> ready_inv (P, {}) s | Some t \<Rightarrow> ready_inv (P, {t}) s)
      (act_bind (case t of None \<Rightarrow> act_return False | Some task \<Rightarrow> run_task_now env task) (\<lambda>stop.
        if stop then act_return (Ret True) else end_build env)) (\<lambda>_. ready_inv (P, {})) (\<lambda>_. ready_inv (P, {}))" for t
  proof (cases t)
    case None
    with tail[of t "(P, {})"] show ?thesis by (simp add: keeps_def)
  next
    case (Some x)
    with tail[of t "(P, {x})"] have "triple (ready_inv (P, {x})) (act_bind (case t of None \<Rightarrow> act_return False | Some task \<Rightarrow> run_task_now env task)
        (\<lambda>stop. if stop then act_return (Ret True) else end_build env)) (\<lambda>_. ready_inv (P, {x})) (\<lambda>_. ready_inv (P, {x}))"
      by (simp add: keeps_def)
    then show ?thesis by (rule triple_weaken) (auto simp: Some intro: ready_weaken)
  qed
  then show ?thesis unfolding keeps_def by (rule triple_bindI[OF first])
qed

lemma keeps_execute: "keeps (ready_inv (P, {})) (execute env)"
  unfolding execute_def
  by (intro keeps_intros keeps_run_next keeps_read_workers keeps_process_possible_migrations keeps_next_setscene
      keeps_run_setscene keeps_update_holdofftasks keeps_end_setscene)

section \<open>The beginning of a build\<close>

lemma keeps_case_prod: "(\<And>a b c d. keeps I (f a b c d)) \<Longrightarrow> keeps I (case p of (a, b, c, d) \<Rightarrow> f a b c d)"
  by (cases p) simp

lemma keeps_setbuildable_leaf:
  "keeps (ready_inv E) (act_bind (get_entry t) (\<lambda>e. act_then (act_when (rt_depends e = []) (setbuildable t)) (m e)))"
  if "\<And>e. keeps (ready_inv E) (m e)"
proof (rule keepsI)
  fix s :: "'a rq" assume inv: "ready_inv E s"
  show "ready_inv E (snd (act_bind (get_entry t) (\<lambda>e. act_then (act_when (rt_depends e = []) (setbuildable t)) (m e)) s))"
  proof (cases "map_of (q_entries s) t")
    case None
    with inv show ?thesis by (simp add: act_simps get_entry_def)
  next
    case (Some e)
    have "ready_inv E (snd (act_when (rt_depends e = []) (setbuildable t) s))"
    proof (cases "rt_depends e = []")
      case True
      then have "deps_complete s t" using Some by (simp add: deps_complete_def entry_depends_def)
      from keeps_setbuildable_if[OF inv this] True show ?thesis by (simp add: act_simps)
    qed (simp add: act_simps inv)
    then have "ready_inv E (snd (act_then (act_when (rt_depends e = []) (setbuildable t)) (m e) s))"
      using keepsD[OF that] by (auto simp: act_simps setbuildable_def)
    with Some show ?thesis by (simp add: act_simps get_entry_def)
  qed
qed

lemma keeps_unskippable_loop: "keeps (ready_inv E) (unskippable_loop n)"
proof (induction n)
  case (Suc n)
  show ?case
    unfolding unskippable_loop.simps unskip_task_def on_sq_def
    by (intro keeps_intros keeps_setbuildable_leaf Suc.IH; simp add: core_def)
qed (simp add: keeps_raise)

lemma keeps_build_scenequeue_data: "keeps (ready_inv E) (build_scenequeue_data env)"
  unfolding build_scenequeue_data_def find_unskippable_def add_harddeps_def defer_task_def on_sq_def Let_def
  by (intro keeps_intros keeps_unskippable_loop; simp add: core_def split: option.split)

lemma keeps_report_stale: "keeps (ready_inv E) (report_stale env)"
  unfolding report_stale_def by (intro keeps_intros; simp add: core_def)

lemma keeps_build_taskdepdata_cache: "keeps (ready_inv E) (build_taskdepdata_cache env)"
  unfolding build_taskdepdata_cache_def by (intro keeps_intros; simp add: core_def)

lemma keeps_drain_pipe: "keeps (ready_inv E) (drain_pipe n env key)"
proof (induction n)
  case (Suc n)
  show ?case unfolding drain_pipe.simps by (intro keeps_intros keeps_pipe_read Suc.IH)
qed (simp add: keeps_raise)

lemma keeps_teardown_workers: "keeps (ready_inv E) (teardown_workers env)"
  unfolding teardown_workers_def teardown_worker_def core_leaves
  by (intro keeps_intros keeps_drain_pipe; simp add: core_def)

lemma keeps_start_worker: "keeps (ready_inv E) (start_worker env)"
  unfolding start_worker_def by (intro keeps_intros keeps_teardown_workers; simp add: core_def)

lemma keeps_print_diffscenetasks: "keeps (ready_inv E) (print_diffscenetasks env)"
  unfolding print_diffscenetasks_def core_leaves by (intro keeps_intros keeps_validate_hashes; simp add: core_def)

text \<open>Before the executor is there nothing is buildable or running.\<close>

definition untouched :: "phase set \<Rightarrow> 'w rq \<Rightarrow> bool" where
  "untouched E s \<longleftrightarrow> runq_buildable s = [] \<and> sc_buildable (q_sched s) = [] \<and> runq_running s = [] \<and> q_phase s \<notin> E"

lemma untouched_ready: "untouched E s \<Longrightarrow> ready_inv (E, {}) s"
  by (simp add: untouched_def ready_inv_def)

lemma new_sched_empty: "new_sched env G w [] = Inr sc \<Longrightarrow> sc_buildable sc = []"
  by (auto simp: new_sched_def res_bind_Inr_iff)

lemma new_execute_start:
  "act_then (act_modify fresh_exec)
    (act_then (act_when (en_number_tasks env \<le> 0) (act_raise BBHandledException))
    (act_bind (act_read (\<lambda>s. new_sched env (q_entries s) (q_world s) (runq_buildable s))) (\<lambda>sc.
     act_then (act_modify (\<lambda>s. s\<lparr>q_sched := sc\<rparr>)) m))) = 
   act_then (act_then (act_modify fresh_exec)
    (act_then (act_when (en_number_tasks env \<le> 0) (act_raise BBHandledException))
    (act_bind (act_read (\<lambda>s. new_sched env (q_entries s) (q_world s) (runq_buildable s))) (\<lambda>sc.
     act_modify (\<lambda>s. s\<lparr>q_sched := sc\<rparr>))))) m"
  by (rule ext) (simp add: act_simps split: sum.splits)

lemma new_execute_ready:
  "triple (untouched E) (new_execute env) (\<lambda>_. ready_inv (E, {})) (\<lambda>_. ready_inv (E, {}))"
proof -
  have "triple (untouched E) (act_then (act_modify fresh_exec)
    (act_then (act_when (en_number_tasks env \<le> 0) (act_raise BBHandledException))
    (act_bind (act_read (\<lambda>s. new_sched env (q_entries s) (q_world s) (runq_buildable s))) (\<lambda>sc.
     act_modify (\<lambda>s. s\<lparr>q_sched := sc\<rparr>))))) (\<lambda>_. ready_inv (E, {})) (\<lambda>_. ready_inv (E, {}))"
    unfolding triple_def
    by (auto simp: act_simps fresh_exec_def untouched_def ready_inv_def dest: new_sched_empty split: sum.splits)
  moreover have "keeps (ready_inv (E, {})) (act_then (build_scenequeue_data env)
    (act_bind (act_gets (dict_keys \<circ> sq_revdeps \<circ> q_sq)) (\<lambda>tids.
     act_then (update_scenequeue_data env tids True)
    (act_then (report_stale env)
    (act_then (build_taskdepdata_cache env)
    (act_modify (\<lambda>s. s\<lparr>q_exec := True\<rparr>)))))))"
    by (intro keeps_intros keeps_build_scenequeue_data keeps_update_scenequeue_data keeps_report_stale
        keeps_build_taskdepdata_cache; simp add: core_def)
  ultimately show ?thesis unfolding new_execute_def new_execute_start keeps_def by (rule triple_thenI)
qed

lemma do_init_ready: "triple (untouched E) (do_init env) (\<lambda>_. ready_inv (E, {})) (\<lambda>_. ready_inv (E, {}))"
proof -
  have "triple (untouched E) (fire_event f) (\<lambda>_. untouched E) (\<lambda>_. ready_inv (E, {}))" for f
    unfolding fire_event_def by (rule triple_modifyI) (simp add: untouched_def)
  moreover have "keeps (ready_inv (E, {})) (act_when (en_dumpsigs env \<noteq> [])
      (act_then (act_when (''printdiff'' \<in> set (en_dumpsigs env)) (act_then (print_diffscenetasks env) (act_return ())))
        (set_phase DumpSigs)))"
    unfolding core_leaves by (intro keeps_intros keeps_print_diffscenetasks; simp add: core_def)
  ultimately show ?thesis
    unfolding do_init_def by (intro triple_thenI[OF _ triple_thenI[OF new_execute_ready]]) (simp_all add: keeps_def)
qed

lemma do_prepare_untouched:
  "triple (untouched {}) (do_prepare env) (\<lambda>_. untouched {PhasePrepare}) (\<lambda>_. untouched {})"
  unfolding do_prepare_def triple_def
  by (auto simp: act_simps act_zoom_def set_phase_def untouched_def split: prod.splits sum.splits)

lemma keeps_do_dump: "keeps (ready_inv E) (do_dump env)"
  unfolding do_dump_def dump_signatures_def core_leaves by (intro keeps_intros; simp add: core_def)

lemma do_start_ready:
  "triple (ready_inv (E, {})) (do_start env) (\<lambda>_. ready_inv ({PhasePrepare, SceneInit}, {})) (\<lambda>_. ready_inv (E, {}))"
proof -
  let ?body = "\<lambda>(ss, tids). act_when (ss = [])
       (act_then (act_for tids (\<lambda>tid.
            act_bind (get_entry tid) (\<lambda>e.
            act_then (act_when (rt_depends e = []) (setbuildable tid))
              (act_modify (\<lambda>s. s\<lparr>tasks_notcovered := set_add tid (tasks_notcovered s)\<rparr>)))))
         (act_modify (\<lambda>s. s\<lparr>sqdone := True\<rparr>)))"
  have "keeps (ready_inv (E, {})) (?body p)" for p
    by (cases p) (simp, intro keeps_intros keeps_setbuildable_leaf; simp add: core_def)
  moreover have "triple (ready_inv (E, {})) (set_phase Running) (\<lambda>_. ready_inv ({PhasePrepare, SceneInit}, {})) (\<lambda>_. ready_inv (E, {}))"
    unfolding set_phase_def by (rule triple_modifyI) (auto simp: ready_inv_def deps_complete_def)
  ultimately have "triple (ready_inv (E, {})) (case p of (ss, tids) \<Rightarrow> act_then (act_when (ss = [])
       (act_then (act_for tids (\<lambda>tid.
            act_bind (get_entry tid) (\<lambda>e.
            act_then (act_when (rt_depends e = []) (setbuildable tid))
              (act_modify (\<lambda>s. s\<lparr>tasks_notcovered := set_add tid (tasks_notcovered s)\<rparr>)))))
         (act_modify (\<lambda>s. s\<lparr>sqdone := True\<rparr>)))) (set_phase Running))
      (\<lambda>_. ready_inv ({PhasePrepare, SceneInit}, {})) (\<lambda>_. ready_inv (E, {}))" for p :: "string list \<times> string list"
    by (cases p) (auto simp: keeps_def intro: triple_thenI)
  then show ?thesis
    unfolding do_start_def
    by (intro triple_thenI[OF keeps_start_worker[unfolded keeps_def]] triple_bindI[OF keeps_gets[unfolded keeps_def]])
qed

section \<open>A call of the run queue\<close>

abbreviation early :: "phase set" where
  "early \<equiv> {PhasePrepare, SceneInit}"

lemma keeps_in_phase: "keeps I m \<Longrightarrow> keeps I (in_phase p m dflt)"
  unfolding in_phase_def by (intro keeps_intros)

lemma triple_in_phase:
  "triple P m Q E \<Longrightarrow> (\<And>s. P s \<Longrightarrow> q_phase s \<noteq> p \<Longrightarrow> Q dflt s) \<Longrightarrow> triple P (in_phase p m dflt) Q E"
  unfolding triple_def in_phase_def by (simp add: act_simps split: prod.splits sum.splits)

text \<open>An early phase that has been left is not entered again.\<close>

lemma in_phase_skip: "p \<in> early \<Longrightarrow> keeps (ready_inv (early, {})) (in_phase p m dflt)"
  by (rule keepsI) (auto simp: in_phase_def act_simps ready_inv_def)

lemma ready_weaken_phase: "ready_inv (P, {}) s \<Longrightarrow> P' \<subseteq> P \<Longrightarrow> ready_inv (P', {}) s"
  unfolding ready_inv_def by auto

lemma keeps_run_phases: "keeps (ready_inv (early, {})) (run_phases env)"
  unfolding run_phases_def
  by (intro keeps_then keeps_bind in_phase_skip keeps_in_phase keeps_do_dump keeps_execute keeps_finish; simp)

lemma run_phases_ready:
  "triple (untouched {}) (run_phases env) (\<lambda>_. ready_inv (early, {})) (\<lambda>_. ready_inv ({}, {}))"
proof -
  have prepare: "triple (untouched {}) (in_phase PhasePrepare (do_prepare env) ()) (\<lambda>_. untouched {PhasePrepare}) (\<lambda>_. ready_inv ({}, {}))"
  proof (rule triple_in_phase)
    show "triple (untouched {}) (do_prepare env) (\<lambda>_. untouched {PhasePrepare}) (\<lambda>_. ready_inv ({}, {}))"
      by (rule triple_weaken[OF do_prepare_untouched]) (auto intro: untouched_ready)
  qed (simp add: untouched_def)
  have init: "triple (untouched {PhasePrepare}) (in_phase SceneInit (do_init env) ()) (\<lambda>_. ready_inv ({PhasePrepare}, {})) (\<lambda>_. ready_inv ({}, {}))"
  proof (rule triple_in_phase)
    show "triple (untouched {PhasePrepare}) (do_init env) (\<lambda>_. ready_inv ({PhasePrepare}, {})) (\<lambda>_. ready_inv ({}, {}))"
      by (rule triple_weaken[OF do_init_ready[of "{PhasePrepare}"]]) (auto intro: ready_weaken_phase)
  qed (rule untouched_ready)
  have dump: "triple (ready_inv ({PhasePrepare}, {})) (in_phase DumpSigs (do_dump env) (Ret True)) (\<lambda>_. ready_inv ({PhasePrepare}, {})) (\<lambda>_. ready_inv ({}, {}))"
    by (rule triple_weaken[OF keeps_in_phase[OF keeps_do_dump[of "({PhasePrepare}, {})"], unfolded keeps_def]]) (auto intro: ready_weaken_phase)
  have start: "triple (ready_inv ({PhasePrepare}, {})) (in_phase SceneInit (do_start env) ()) (\<lambda>_. ready_inv (early, {})) (\<lambda>_. ready_inv ({}, {}))"
  proof (rule triple_in_phase)
    show "triple (ready_inv ({PhasePrepare}, {})) (do_start env) (\<lambda>_. ready_inv (early, {})) (\<lambda>_. ready_inv ({}, {}))"
      by (rule triple_weaken[OF do_start_ready]) (auto intro: ready_weaken_phase)
  qed (auto simp: ready_inv_def)
  have last: "triple (ready_inv (early, {})) (act_bind (in_phase Running (execute env) r) (\<lambda>r. in_phase CleanUp (finish env) r))
      (\<lambda>_. ready_inv (early, {})) (\<lambda>_. ready_inv ({}, {}))" for r
  proof (rule triple_weaken)
    show "triple (ready_inv (early, {})) (act_bind (in_phase Running (execute env) r) (\<lambda>r. in_phase CleanUp (finish env) r))
        (\<lambda>_. ready_inv (early, {})) (\<lambda>_. ready_inv (early, {}))"
      unfolding keeps_def[symmetric] by (intro keeps_bind keeps_in_phase keeps_execute keeps_finish)
  qed (auto intro: ready_weaken_phase)
  show ?thesis
    unfolding run_phases_def
    by (intro triple_thenI[OF prepare] triple_thenI[OF init] triple_bindI[OF dump] triple_thenI[OF start] last)
qed

lemma keeps_after_phases: "keeps (ready_inv E)
  (act_bind (act_gets (\<lambda>s. (q_phase s = Complete \<or> q_phase s = Failed) \<and> q_exec s)) (\<lambda>finished.
     act_then (act_when finished (teardown_workers env))
    (act_bind (act_gets (\<lambda>s. (q_phase s, failed_tids s))) (\<lambda>(p, failed).
     if p = Failed then act_raise (TaskFailure failed)
     else act_return (if p = Complete then Ret False else r)))))"
  by (intro keeps_intros keeps_teardown_workers)

lemma keeps_handler: "keeps (ready_inv E) (on_failure env e)"
proof -
  have "keeps (ready_inv E) (act_then (act_catch (teardown_workers env) (\<lambda>_. act_return ())) (act_then (set_phase Complete) (act_raise e)))"
    unfolding core_leaves by (intro keeps_intros keeps_teardown_workers) (simp add: core_def)
  then show ?thesis unfolding on_failure_def by (cases e) (auto intro: keeps_raise)
qed

lemma keeps_execute_runqueue: "keeps (ready_inv (early, {})) (execute_runqueue env)"
  unfolding execute_runqueue_def priv_execute_runqueue_def
  by (intro keeps_catch keeps_bind[OF keeps_run_phases] keeps_after_phases keeps_handler)

lemma on_failure_run:
  assumes "e \<noteq> SystemExit" and "\<And>ts. e \<noteq> TaskFailure ts"
  shows "on_failure env e s = (Inl e, (snd (teardown_workers env s))\<lparr>q_phase := Complete\<rparr>)"
proof -
  have "act_catch m (\<lambda>_. act_return ()) s = (Inr (), snd (m s))" for m :: "('a rq, unit) act"
    by (cases "m s"; cases "fst (m s)") (auto simp: act_simps)
  then have "act_then (act_catch (teardown_workers env) (\<lambda>_. act_return ())) (act_then (set_phase Complete) (act_raise e)) s =
      (Inl e, (snd (teardown_workers env s))\<lparr>q_phase := Complete\<rparr>)"
    by (simp add: act_then_def act_bind_def set_phase_def act_modify_def act_raise_def)
  with assms show ?thesis unfolding on_failure_def by (cases e) auto
qed

lemma handler_raises: "fst (on_failure env e s) = Inl e"
proof (cases "e = SystemExit \<or> (\<exists>ts. e = TaskFailure ts)")
  case True
  then show ?thesis by (auto simp: on_failure_def act_simps)
next
  case False
  then show ?thesis using on_failure_run[of e env s] by auto
qed

lemma execute_runqueue_ready:
  assumes "untouched {} s" and "execute_runqueue env s = (r, t)"
  shows "ready_inv ({}, {}) t \<and> (isl r \<or> ready_inv (early, {}) t)"
proof -
  have "triple (untouched {}) (priv_execute_runqueue env) (\<lambda>_. ready_inv (early, {})) (\<lambda>_. ready_inv ({}, {}))"
    unfolding priv_execute_runqueue_def
    by (rule triple_bindI[OF run_phases_ready], rule triple_weaken[OF keeps_after_phases[of "(early, {})", unfolded keeps_def]])
      (auto intro: ready_weaken_phase)
  from triple_runE[OF this assms(1)] show ?thesis
  proof cases
    case (1 x u)
    with assms(2) show ?thesis by (auto simp: execute_runqueue_def act_simps intro: ready_weaken_phase)
  next
    case (2 e u)
    then have run: "on_failure env e u = (r, t)"
      using assms(2) by (simp add: execute_runqueue_def act_catch_def)
    from keeps_run[OF keeps_handler 2(2) run] handler_raises[of env e u] run show ?thesis by auto
  qed
qed

lemma keeps_finish_runqueue: "keeps (ready_inv E) (finish_runqueue env now)"
  unfolding finish_runqueue_def core_leaves by (intro keeps_intros keeps_finish_now keeps_finish; simp add: core_def)

section \<open>All the states of a run queue\<close>

text \<open>The idle functions of the cooker (\<open>buildTargetsIdle\<close>) call \<open>execute_runqueue\<close> until it returns
  False or raises, and \<open>finish_runqueue\<close> when the server is told to stop; between the calls the
  world changes.\<close>

inductive reaches :: "'w rq_env \<Rightarrow> 'w rq \<Rightarrow> 'w rq \<Rightarrow> bool" for env s where
  reaches_start: "reaches env s s"
| reaches_call: "reaches env s t \<Longrightarrow> execute_runqueue env t = (Inr r, u) \<Longrightarrow> reaches env s u"
| reaches_finish: "reaches env s t \<Longrightarrow> finish_runqueue env now t = (Inr (), u) \<Longrightarrow> reaches env s u"
| reaches_world: "reaches env s t \<Longrightarrow> reaches env s (q_data_update (pp_siggen_update f) t)"

definition fresh_rq :: "'w rq \<Rightarrow> bool" where
  "fresh_rq s \<longleftrightarrow> untouched {} s \<and> \<not> q_exec s"

lemma fresh_new_rq: "fresh_rq (new_rq td w)"
  by (simp add: fresh_rq_def untouched_def new_rq_def empty_sched_def)

lemma reaches_inv: "reaches env s t \<Longrightarrow> fresh_rq s \<Longrightarrow> fresh_rq t \<or> ready_inv (early, {}) t"
proof (induction rule: reaches.induct)
  case (reaches_call t r u)
  then show ?case
    using execute_runqueue_ready[of t env "Inr r" u] keeps_run[OF keeps_execute_runqueue, of t env "Inr r" u]
    by (auto simp: fresh_rq_def)
next
  case (reaches_finish t now u)
  from reaches_finish.IH[OF reaches_finish.prems] show ?case
  proof
    assume "fresh_rq t"
    with reaches_finish.hyps(2) show ?thesis
      by (auto simp: finish_runqueue_def act_simps set_phase_def fresh_rq_def untouched_def ready_inv_def)
  next
    assume "ready_inv (early, {}) t"
    from keeps_run[OF keeps_finish_runqueue this reaches_finish.hyps(2)] show ?thesis ..
  qed
next
  case (reaches_world t f)
  have "ready_inv (early, {}) (q_data_update (pp_siggen_update f) t)" if "ready_inv (early, {}) t"
    by (rule ready_inv_core[OF _ that]) simp
  with reaches_world show ?case by (auto simp: fresh_rq_def untouched_def)
qed simp

text \<open>C1: whatever the workers report, however the files and the signature generator behave and
  whenever the build is stopped, a task that runs or has run has all its dependencies completed
  first, also in the state a call leaves behind that raises.\<close>

theorem started_after_dependencies:
  assumes "reaches env (new_rq td w) s" and "execute_runqueue env s = (r, s')"
    and "t \<in> set (runq_running s')" and "d \<in> set (entry_depends (q_entries s') t)"
  shows "d \<in> set (runq_complete s')"
proof -
  from reaches_inv[OF assms(1) fresh_new_rq] have "ready_inv ({}, {}) s'"
  proof
    assume "fresh_rq s"
    with execute_runqueue_ready[OF _ assms(2)] show ?thesis by (simp add: fresh_rq_def)
  next
    assume "ready_inv (early, {}) s"
    from keeps_run[OF keeps_execute_runqueue this assms(2)] show ?thesis by (rule ready_weaken_phase) simp
  qed
  with assms(3,4) show ?thesis by (auto simp: ready_inv_def deps_complete_def)
qed

text \<open>The second call of the small build starts the compilation of \<open>a\<close>.\<close>

theorem started_after_dependencies_witness:
  "''a.bb:do_compile'' \<in> set (runq_running (calls 2 two_env two_start)) \<and>
   ''b.bb:do_compile'' \<in> set (runq_complete (calls 2 two_env two_start))"
proof -
  let ?c = "calls 1 two_env two_start"
  have one: "?c = snd (execute_runqueue two_env two_start)" and two: "calls 2 two_env two_start = snd (execute_runqueue two_env ?c)"
    by (simp_all add: numeral_2_eq_2)
  have run: "fst (execute_runqueue two_env two_start) = Inr (Ret True)" by code_simp
  then have "execute_runqueue two_env two_start = (Inr (Ret True), ?c)" unfolding one by (metis prod.collapse)
  from reaches_call[OF reaches_start this] have "reaches two_env (new_rq [('''', two_taskdata)] two_script) ?c"
    unfolding two_start_def .
  note start = started_after_dependencies[OF this, of "fst (execute_runqueue two_env ?c)" "calls 2 two_env two_start"
      "''a.bb:do_compile''" "''b.bb:do_compile''"]
  have "(let s = calls 2 two_env two_start in (runq_running s, entry_depends (q_entries s) ''a.bb:do_compile'')) =
      ([''b.bb:do_compile'', ''a.bb:do_compile''], [''b.bb:do_compile''])" by code_simp
  then have state: "''a.bb:do_compile'' \<in> set (runq_running (calls 2 two_env two_start))"
    "''b.bb:do_compile'' \<in> set (entry_depends (q_entries (calls 2 two_env two_start)) ''a.bb:do_compile'')"
    by (simp_all add: Let_def del: calls.simps)
  have "execute_runqueue two_env ?c = (fst (execute_runqueue two_env ?c), calls 2 two_env two_start)"
    unfolding two by (rule prod.collapse[symmetric])
  from start[OF this state] state(1) show ?thesis by (rule conjI[rotated])
qed

text \<open>C30: a call that returns never leaves the run queue failed, and tells its caller the end when
  the run queue is complete. A call that raises anything but the two exceptions the caller
  handles leaves the run queue complete, so that nothing more is done.\<close>

theorem execute_runqueue_outcome:
  assumes "execute_runqueue env s = (r, t)"
  shows "case r of
      Inr x \<Rightarrow> q_phase t \<noteq> Failed \<and> (q_phase t = Complete \<longrightarrow> x = Ret False)
    | Inl e \<Rightarrow> e = SystemExit \<or> (\<exists>ts. e = TaskFailure ts) \<or> q_phase t = Complete"
proof (cases "priv_execute_runqueue env s")
  case (Pair p u)
  show ?thesis
  proof (cases p)
    case (Inr x)
    with Pair have "q_phase u \<noteq> Failed \<and> (q_phase u = Complete \<longrightarrow> x = Ret False)"
      by (auto simp: priv_execute_runqueue_def act_simps split: sum.splits prod.splits if_splits)
    with assms Pair Inr show ?thesis by (auto simp: execute_runqueue_def act_catch_def)
  next
    case (Inl e)
    with assms Pair have run: "on_failure env e u = (r, t)" by (simp add: execute_runqueue_def act_catch_def)
    then have r: "r = Inl e" using handler_raises[of env e u] by simp
    show ?thesis
    proof (cases "e = SystemExit \<or> (\<exists>ts. e = TaskFailure ts)")
      case False
      with run on_failure_run[of e env u] have "q_phase t = Complete" by auto
      with r show ?thesis by simp
    qed (auto simp: r)
  qed
qed

theorem execute_runqueue_outcome_witness:
  "\<exists>t. execute_runqueue two_env (two_ready\<lparr>q_phase := Complete\<rparr>) = (Inr (Ret False), t) \<and> q_phase t = Complete"
proof -
  let ?r = "execute_runqueue two_env (two_ready\<lparr>q_phase := Complete\<rparr>)"
  have run: "fst ?r = Inr (Ret False)" "q_phase (snd ?r) = Complete" by code_simp+
  have "?r = (Inr (Ret False), snd ?r)" using run(1) by (metis prod.collapse)
  with execute_runqueue_outcome[OF this] run(2) show ?thesis by auto
qed

end
