(* ===== verification/Circular_Chains.thy ===== *)
theory Circular_Chains
  imports RunQueue_Graph
begin

text \<open>
  \<open>RunQueueData.circular_depchains_handler\<close> of \<open>runqueue.py\<close>: when tasks cannot be built, the
  circles of dependencies are looked for and reported, at most eleven. The search follows the
  reverse dependencies depth first; \<open>prev_chain\<close> are the tasks it came along.

  The search takes fuel, one unit per task of the graph: it goes down only from a task that is not
  in the chain yet. Reaching the limit, the exception \<open>TooManyLoops\<close> of the code, is the first
  component of the result.
\<close>

section \<open>Messages\<close>

text \<open>\<open>re.sub("_[^,]*,", ",", s)\<close>: from an underscore to the next comma\<close>

function drop_versions :: "string \<Rightarrow> string" where
  "drop_versions s =
     (case s of [] \<Rightarrow> []
      | c # cs \<Rightarrow> if c = CHR ''_'' \<and> CHR '','' \<in> set cs
                 then CHR '','' # drop_versions (tl (dropWhile (\<lambda>x. x \<noteq> CHR '','') cs))
                 else c # drop_versions cs)"
  by pat_completeness auto
termination
proof (relation "measure length")
  fix s c and cs :: string assume "s = c # cs"
  moreover have "length (tl (dropWhile (\<lambda>x. x \<noteq> CHR '','') cs)) \<le> length cs"
    using length_dropWhile_le[of "\<lambda>x. x \<noteq> CHR '',''" cs] by simp
  ultimately show "(tl (dropWhile (\<lambda>x. x \<noteq> CHR '','') cs), s) \<in> measure length" by simp
qed auto

declare drop_versions.simps [simp del]

definition runq_depends_names :: "string list \<Rightarrow> string list" where
  "runq_depends_names ids = List.map (\<lambda>i. drop_versions (basename i)) ids"

datatype chain_msg = Loop_Found nat | Loop_Task string "string list" | Loop_Halted

section \<open>Chains\<close>

text \<open>The position of the lowest task, and the chain turned to start there\<close>

definition lowest_index :: "string list \<Rightarrow> nat" where
  "lowest_index chain = fold (\<lambda>entry lowest. if chain ! entry < chain ! lowest then entry else lowest) [0..<length chain] 0"

definition chain_reorder :: "string list \<Rightarrow> string list" where
  "chain_reorder chain = drop (lowest_index chain) chain @ take (lowest_index chain) chain"

fun chain_compare_equal :: "string list \<Rightarrow> string list \<Rightarrow> bool" where
  "chain_compare_equal [] [] \<longleftrightarrow> True"
| "chain_compare_equal (x # xs) (y # ys) \<longleftrightarrow> x = y \<and> chain_compare_equal xs ys"
| "chain_compare_equal _ _ \<longleftrightarrow> False"

definition chain_array_contains :: "string list \<Rightarrow> string list list \<Rightarrow> bool" where
  "chain_array_contains chain found \<longleftrightarrow> (\<exists>ch \<in> set found. chain_compare_equal ch chain)"

record chain_state =
  cs_valid :: "string list list"
  cs_explored :: "(string, string list) dict"
  cs_msgs :: "chain_msg list"

definition report_chain :: "graph \<Rightarrow> string list \<Rightarrow> chain_state \<Rightarrow> chain_state" where
  "report_chain G chain st =
     (let new_chain = chain_reorder chain in
      if chain_array_contains new_chain (cs_valid st) then st
      else st\<lparr>cs_valid := cs_valid st @ [new_chain],
        cs_msgs := cs_msgs st @ [Loop_Found (length (cs_valid st) + 1)] @
          List.map (\<lambda>dep. Loop_Task dep (runq_depends_names (entry_depends G dep))) new_chain\<rparr>)"

definition needs_scan :: "chain_state \<Rightarrow> string list \<Rightarrow> string \<Rightarrow> bool" where
  "needs_scan st prev_chain revdep =
     (case map_of (cs_explored st) revdep of
        None \<Rightarrow> True
      | Some ds \<Rightarrow> revdep \<in> set ds \<or> (\<exists>dep \<in> set prev_chain. dep \<in> set ds))"

text \<open>One reverse dependency: \<open>total\<close> are the tasks known to depend on the task so far; the flag
  says that the limit is reached.\<close>

definition chain_revdep ::
  "(string \<Rightarrow> chain_state \<Rightarrow> (bool \<times> chain_state) res) \<Rightarrow> graph \<Rightarrow> string list \<Rightarrow> string \<Rightarrow>
   bool \<times> string list \<times> chain_state \<Rightarrow> (bool \<times> string list \<times> chain_state) res" where
  "chain_revdep go G prev_chain revdep = (\<lambda>(stop, deps, st).
     if stop then Inr (stop, deps, st)
     else if revdep \<in> set prev_chain then
       let st = report_chain G (dropWhile (\<lambda>t. t \<noteq> revdep) prev_chain) st
       in Inr (if length (cs_valid st) > 10 then (True, deps, st\<lparr>cs_msgs := cs_msgs st @ [Loop_Halted]\<rparr>)
               else (False, deps, st))
     else res_bind (if needs_scan st prev_chain revdep then go revdep st else Inr (False, st)) (\<lambda>(stop, st).
       if stop then Inr (True, deps, st)
       else res_bind (dict_get (cs_explored st) revdep) (\<lambda>ds. Inr (False, set_union deps ds, st))))"

fun find_chains :: "nat \<Rightarrow> graph \<Rightarrow> string list \<Rightarrow> string \<Rightarrow> chain_state \<Rightarrow> (bool \<times> chain_state) res" where
  "find_chains 0 G prev tid st = Inl OutOfFuel"
| "find_chains (Suc n) G prev tid st =
     res_bind (dict_get G tid) (\<lambda>e.
     res_bind (res_fold (chain_revdep (find_chains n G (prev @ [tid])) G (prev @ [tid])) (rt_revdeps e)
         (False, rt_revdeps e, st)) (\<lambda>(stop, deps, st).
     Inr (stop, if stop then st else st\<lparr>cs_explored := AList.update tid deps (cs_explored st)\<rparr>)))"

definition circular_depchains_handler :: "graph \<Rightarrow> string list \<Rightarrow> chain_state res" where
  "circular_depchains_handler G tasks =
     res_bind (res_fold (\<lambda>task (stop, st). if stop then Inr (stop, st)
         else find_chains (length G + 1) G [] task st) tasks
       (False, \<lparr>cs_valid = [], cs_explored = [], cs_msgs = []\<rparr>)) (\<lambda>(stop, st). Inr st)"

section \<open>What is reported is a circle\<close>

definition rev_edge :: "graph \<Rightarrow> string \<Rightarrow> string \<Rightarrow> bool" where
  "rev_edge G a b \<longleftrightarrow> b \<in> set (entry_revdeps G a)"

definition circle :: "graph \<Rightarrow> string list \<Rightarrow> bool" where
  "circle G ch \<longleftrightarrow> ch \<noteq> [] \<and> distinct ch \<and> successively (rev_edge G) ch \<and> rev_edge G (last ch) (hd ch)"

lemma circle_turn: "circle G (xs @ ys) \<Longrightarrow> circle G (ys @ xs)"
  unfolding circle_def
  by (cases "xs = []"; cases "ys = []") (auto simp: successively_append_iff hd_append)

lemma lowest_index_bound: "chain \<noteq> [] \<Longrightarrow> lowest_index chain < length chain"
proof -
  have fold: "fold (\<lambda>entry lowest. if chain ! entry < chain ! lowest then entry else lowest) is k < length chain"
    if "k < length chain" "set is \<subseteq> {..<length chain}" for "is" k
    using that by (induction "is" arbitrary: k) auto
  assume "chain \<noteq> []"
  then show ?thesis unfolding lowest_index_def by (intro fold) auto
qed

lemma circle_reorder: "circle G ch \<Longrightarrow> circle G (chain_reorder ch)"
  unfolding chain_reorder_def by (rule circle_turn) simp

lemma chain_compare_eq: "chain_compare_equal xs ys \<longleftrightarrow> xs = ys"
  by (induction xs ys rule: chain_compare_equal.induct) auto

lemma circle_suffix:
  assumes "distinct ch" and "successively (rev_edge G) ch" and "r \<in> set ch" and "rev_edge G (last ch) r"
  shows "circle G (dropWhile (\<lambda>t. t \<noteq> r) ch)"
proof -
  let ?suf = "dropWhile (\<lambda>t. t \<noteq> r) ch"
  have ne: "?suf \<noteq> []" using assms(3) by (induction ch) auto
  have split: "ch = takeWhile (\<lambda>t. t \<noteq> r) ch @ ?suf" by simp
  have "hd ?suf = r" using hd_dropWhile[OF ne] by simp
  moreover have "last ?suf = last ch" using split ne by (metis last_appendR)
  moreover have "successively (rev_edge G) ?suf" using assms(2) split by (metis successively_append_iff)
  ultimately show ?thesis using ne assms(1,4) unfolding circle_def by (simp add: distinct_dropWhile)
qed

definition chains_ok :: "graph \<Rightarrow> bool \<Rightarrow> chain_state \<Rightarrow> bool" where
  "chains_ok G stop st \<longleftrightarrow> (\<forall>ch \<in> set (cs_valid st). circle G ch) \<and> distinct (cs_valid st) \<and>
     length (cs_valid st) \<le> (if stop then 11 else 10)"

lemma report_chain_ok:
  assumes "chains_ok G False st" and "circle G ch"
  shows "(\<forall>c \<in> set (cs_valid (report_chain G ch st)). circle G c) \<and> distinct (cs_valid (report_chain G ch st)) \<and>
    length (cs_valid (report_chain G ch st)) \<le> 11 \<and> cs_explored (report_chain G ch st) = cs_explored st"
  using assms circle_reorder[OF assms(2)]
  by (auto simp: report_chain_def chains_ok_def chain_array_contains_def chain_compare_eq Let_def)

definition found_in :: "chain_state \<Rightarrow> string set" where
  "found_in st = set (dict_keys (cs_explored st))"

text \<open>The induction hypothesis on the search below a task\<close>

definition search_ok ::
  "graph \<Rightarrow> (string \<Rightarrow> chain_state \<Rightarrow> (bool \<times> chain_state) res) \<Rightarrow> string \<Rightarrow> bool" where
  "search_ok G go r \<longleftrightarrow> (\<forall>st. chains_ok G False st \<longrightarrow>
     (\<exists>stop st'. go r st = Inr (stop, st') \<and> chains_ok G stop st' \<and> found_in st \<subseteq> found_in st' \<and>
        (\<not> stop \<longrightarrow> r \<in> found_in st')))"

lemma chain_revdep_ok:
  assumes path: "distinct prev" "successively (rev_edge G) prev" "rev_edge G (last prev) r"
    and go: "r \<notin> set prev \<Longrightarrow> search_ok G go r"
    and st: "chains_ok G stop st"
  shows "\<exists>stop' deps' st'. chain_revdep go G prev r (stop, deps, st) = Inr (stop', deps', st') \<and>
    chains_ok G stop' st' \<and> found_in st \<subseteq> found_in st'"
proof (cases stop)
  case True
  with st show ?thesis by (auto simp: chain_revdep_def)
next
  case False
  with st have ok: "chains_ok G False st" by simp
  show ?thesis
  proof (cases "r \<in> set prev")
    case True
    from report_chain_ok[OF ok circle_suffix[OF path(1,2) True path(3)]] False True show ?thesis
      by (auto simp: chain_revdep_def chains_ok_def found_in_def Let_def)
  next
    case r: False
    show ?thesis
    proof (cases "needs_scan st prev r")
      case True
      from go[OF r] ok obtain stop' st' where "go r st = Inr (stop', st')" "chains_ok G stop' st'"
        "found_in st \<subseteq> found_in st'" "\<not> stop' \<longrightarrow> r \<in> found_in st'" unfolding search_ok_def by blast
      moreover then have "\<not> stop' \<Longrightarrow> \<exists>ds. map_of (cs_explored st') r = Some ds"
        by (simp add: found_in_def map_of_key)
      ultimately show ?thesis using False r True by (cases stop') (auto simp: chain_revdep_def)
    next
      case scan: False
      then obtain ds where "map_of (cs_explored st) r = Some ds" by (auto simp: needs_scan_def split: option.splits)
      with scan False r ok show ?thesis by (auto simp: chain_revdep_def)
    qed
  qed
qed

lemma chain_revdeps_ok:
  assumes path: "distinct prev" "successively (rev_edge G) prev"
  shows "(\<And>r. r \<in> set rs \<Longrightarrow> rev_edge G (last prev) r \<and> (r \<notin> set prev \<longrightarrow> search_ok G go r)) \<Longrightarrow>
    chains_ok G stop st \<Longrightarrow>
    \<exists>stop' deps' st'. res_fold (chain_revdep go G prev) rs (stop, deps, st) = Inr (stop', deps', st') \<and>
      chains_ok G stop' st' \<and> found_in st \<subseteq> found_in st'"
proof (induction rs arbitrary: stop deps st)
  case (Cons r rs)
  from chain_revdep_ok[OF path, of r go stop st deps] Cons.prems obtain s1 d1 st1 where
    1: "chain_revdep go G prev r (stop, deps, st) = Inr (s1, d1, st1)" "chains_ok G s1 st1" "found_in st \<subseteq> found_in st1"
    by auto
  from Cons.IH[OF _ 1(2), of d1] Cons.prems(1) obtain s2 d2 st2 where
    "res_fold (chain_revdep go G prev) rs (s1, d1, st1) = Inr (s2, d2, st2)" "chains_ok G s2 st2" "found_in st1 \<subseteq> found_in st2"
    by auto
  with 1 show ?case by auto
qed auto

lemma find_chains_ok:
  assumes rev: "\<And>t. set (entry_revdeps G t) \<subseteq> set (dict_keys G)"
  shows "distinct (prev @ [tid]) \<Longrightarrow> successively (rev_edge G) (prev @ [tid]) \<Longrightarrow>
    set (prev @ [tid]) \<subseteq> set (dict_keys G) \<Longrightarrow> card (set (dict_keys G) - set prev) \<le> n \<Longrightarrow>
    search_ok G (find_chains n G prev) tid"
proof (induction n arbitrary: prev tid)
  case 0
  then have "set (dict_keys G) - set prev = {}" by simp
  with 0 show ?case by auto
next
  case (Suc n)
  let ?prev = "prev @ [tid]"
  obtain e where e: "map_of G tid = Some e" using Suc.prems(3) map_of_key by fastforce
  then have rd: "rt_revdeps e = entry_revdeps G tid" by (simp add: entry_revdeps_def)
  have "set (dict_keys G) - set ?prev = set (dict_keys G) - set prev - {tid}" by auto
  then have card: "card (set (dict_keys G) - set ?prev) \<le> n" using Suc.prems by simp
  have below: "rev_edge G (last ?prev) r \<and> (r \<notin> set ?prev \<longrightarrow> search_ok G (find_chains n G ?prev) r)"
    if "r \<in> set (rt_revdeps e)" for r
  proof -
    have edge: "rev_edge G (last ?prev) r" using that rd by (simp add: rev_edge_def)
    have "search_ok G (find_chains n G ?prev) r" if r: "r \<notin> set ?prev"
    proof (rule Suc.IH)
      show "distinct (?prev @ [r])" using Suc.prems(1) r by auto
      show "successively (rev_edge G) (?prev @ [r])" using Suc.prems(2) edge by (simp add: successively_append_iff)
      show "set (?prev @ [r]) \<subseteq> set (dict_keys G)" using Suc.prems(3) rev[of tid] \<open>r \<in> set (rt_revdeps e)\<close> rd by auto
    qed (rule card)
    with edge show ?thesis by blast
  qed
  show ?case
    unfolding search_ok_def
  proof (intro allI impI)
    fix st assume "chains_ok G False st"
    from chain_revdeps_ok[OF Suc.prems(1,2) below this, of "rt_revdeps e" "rt_revdeps e"] obtain stop' deps' st' where
      "res_fold (chain_revdep (find_chains n G ?prev) G ?prev) (rt_revdeps e) (False, rt_revdeps e, st) = Inr (stop', deps', st')"
      "chains_ok G stop' st'" "found_in st \<subseteq> found_in st'" by auto
    with e show "\<exists>stop st'. find_chains (Suc n) G prev tid st = Inr (stop, st') \<and> chains_ok G stop st' \<and>
        found_in st \<subseteq> found_in st' \<and> (\<not> stop \<longrightarrow> tid \<in> found_in st')"
      by (cases stop') (auto simp: chains_ok_def found_in_def)
  qed
qed

text \<open>C28: looking for circular dependencies ends on every graph, and each chain it reports is a
  circle: its tasks are different, each is a dependency of the next and the last one of the first.
  No chain is reported twice, and there are at most eleven.\<close>

theorem reported_chains_are_circles:
  assumes "linked_graph G" and "set tasks \<subseteq> set (dict_keys G)"
  shows "\<exists>st. circular_depchains_handler G tasks = Inr st \<and> distinct (cs_valid st) \<and> length (cs_valid st) \<le> 11 \<and>
    (\<forall>ch \<in> set (cs_valid st). ch \<noteq> [] \<and> distinct ch \<and>
       (\<forall>i < length ch. ch ! i \<in> set (entry_depends G (ch ! (Suc i mod length ch)))))"
proof -
  have rev: "set (entry_revdeps G t) \<subseteq> set (dict_keys G)" for t
  proof (cases "t \<in> set (dict_keys G)")
    case True
    then show ?thesis using linked_revdeps(2)[OF assms(1)] by blast
  next
    case False
    then have "map_of G t = None" by (simp add: map_of_eq_None_iff)
    then show ?thesis by (simp add: entry_revdeps_def)
  qed
  let ?step = "\<lambda>task (stop, st). if stop then Inr (stop, st) else find_chains (length G + 1) G [] task st"
  have "card (set (dict_keys G) - set []) \<le> length G + 1" using card_length[of "dict_keys G"] by simp
  then have one: "search_ok G (find_chains (length G + 1) G []) t" if "t \<in> set (dict_keys G)" for t
    using find_chains_ok[of G "[]" t "length G + 1", OF rev] that by simp
  have "\<exists>stop' st'. res_fold ?step ts (stop, st) = Inr (stop', st') \<and> chains_ok G stop' st'"
    if "set ts \<subseteq> set (dict_keys G)" "chains_ok G stop st" for ts stop st
    using that
  proof (induction ts arbitrary: stop st)
    case (Cons t ts)
    obtain s1 st1 where 1: "?step t (stop, st) = Inr (s1, st1)" "chains_ok G s1 st1"
    proof (cases stop)
      case False
      with Cons.prems(2) have "chains_ok G False st" by simp
      moreover have "search_ok G (find_chains (length G + 1) G []) t" using one[of t] Cons.prems(1) by simp
      ultimately obtain s1 st1 where "find_chains (length G + 1) G [] t st = Inr (s1, st1)" "chains_ok G s1 st1"
        unfolding search_ok_def by blast
      with False that show ?thesis by simp
    next
      case True
      with Cons.prems(2) that show ?thesis by simp
    qed
    with Cons.IH[OF _ 1(2)] Cons.prems(1) show ?case by auto
  qed auto
  from this[OF assms(2), of False "\<lparr>cs_valid = [], cs_explored = [], cs_msgs = []\<rparr>"] obtain stop st where
    run: "circular_depchains_handler G tasks = Inr st" and ok: "chains_ok G stop st"
    by (auto simp: circular_depchains_handler_def chains_ok_def)
  have edge: "ch ! i \<in> set (entry_depends G (ch ! (Suc i mod length ch)))" if "circle G ch" "i < length ch" for ch i
  proof -
    have "rev_edge G (ch ! i) (ch ! (Suc i mod length ch))"
    proof (cases "Suc i < length ch")
      case True
      with that(1) show ?thesis unfolding circle_def by (simp add: successively_conv_nth)
    next
      case False
      with that have "Suc i = length ch" by simp
      with that(1) show ?thesis unfolding circle_def by (metis diff_Suc_1 hd_conv_nth last_conv_nth mod_self)
    qed
    then have r: "ch ! (Suc i mod length ch) \<in> set (entry_revdeps G (ch ! i))" by (simp add: rev_edge_def)
    have "ch ! i \<in> set (dict_keys G)"
    proof (rule ccontr)
      assume "ch ! i \<notin> set (dict_keys G)"
      then have "map_of G (ch ! i) = None" by (simp add: map_of_eq_None_iff)
      with r show False by (simp add: entry_revdeps_def)
    qed
    from linked_revdeps(1)[OF assms(1) this r] show ?thesis .
  qed
  have "length (cs_valid st) \<le> 11" using ok by (cases stop) (auto simp: chains_ok_def)
  with run ok edge show ?thesis unfolding chains_ok_def circle_def by blast
qed

text \<open>Three tasks in a circle and one beside it\<close>

definition ring_graph :: graph where
  "ring_graph = [(''a'', task_of [''b''] [''c'']), (''b'', task_of [''c''] [''a'']),
     (''c'', task_of [''a''] [''b'']), (''d'', task_of [] [])]"

theorem reported_chains_are_circles_witness:
  "\<exists>st. circular_depchains_handler ring_graph [''b'', ''c'', ''a''] = Inr st \<and>
    cs_valid st = [[''a'', ''c'', ''b'']] \<and>
    (\<forall>ch \<in> set (cs_valid st). \<forall>i < length ch. ch ! i \<in> set (entry_depends ring_graph (ch ! (Suc i mod length ch))))"
proof -
  have l: "linked_graph ring_graph" unfolding linked_graph_code closed_graph_code by code_simp
  have s: "set [''b'', ''c'', ''a''] \<subseteq> set (dict_keys ring_graph)" by code_simp
  have "map_sum id cs_valid (circular_depchains_handler ring_graph [''b'', ''c'', ''a'']) = Inr [[''a'', ''c'', ''b'']]"
    by code_simp
  moreover from reported_chains_are_circles[OF l s] obtain st where st:
    "circular_depchains_handler ring_graph [''b'', ''c'', ''a''] = Inr st"
    "\<forall>ch \<in> set (cs_valid st). ch \<noteq> [] \<and> distinct ch \<and>
       (\<forall>i < length ch. ch ! i \<in> set (entry_depends ring_graph (ch ! (Suc i mod length ch))))" by blast
  ultimately have "cs_valid st = [[''a'', ''c'', ''b'']]" by simp
  with st show ?thesis by blast
qed

end
