(* ===== verification/Sig_Gen.thy ===== *)
theory Sig_Gen
  imports Task_Ids RunQueue_Data
begin

text \<open>
  The signature generators of \<open>siggen.py\<close> and the hash of a task's variables of \<open>data.py\<close>. The
  state is the record of the generator's attributes; \<open>sg_taint_files\<close> are the taint files on disk
  and \<open>sg_world\<close> what lies outside (the random UUIDs, the hash equivalence server). The hash
  function, the checksums of files, the configured patterns and the server are fields of
  \<open>sig_env\<close>. \<open>datacaches\<close> and the argument \<open>dataCaches\<close> are the same caches.

  A generator is handed to \<open>prepare\<close> as a record \<open>siggen\<close> of its methods: \<open>basichash_siggen\<close> and
  \<open>uni_siggen\<close>. Where the code dispatches on the class, the method is an argument: \<open>get_unihash\<close>
  of \<open>get_taskhash\<close>.
\<close>

section \<open>The state\<close>

record 'v sig_state =
  sg_basehash :: "(string, string) dict"
  sg_hashes :: "(string, string) dict"
  sg_unihash :: "(string, string option) dict"
  sg_runtaskdeps :: "(string, (string \<times> string) list) dict"
  sg_files :: "(string, (string \<times> string) list) dict"
  sg_taints :: "(string, string) dict"
  sg_unitaskhashes :: "(string, string \<times> string) dict"
  sg_tidtopn :: "(string, string) dict"
  sg_setscenetasks :: "string list"
  sg_exists :: "string list"
  sg_taint_files :: "(string, string) dict"
  sg_world :: 'v

record 'v sig_env =
  se_caches :: "(string, cache_data) dict"
  se_sha :: "string \<Rightarrow> string"
  se_ignore_tasks :: "(string \<Rightarrow> bool) option"
  se_checksums :: "string \<Rightarrow> string \<Rightarrow> (string \<times> string) list"
  se_uuid :: "'v \<Rightarrow> string \<times> 'v"
  se_method :: string
  se_extramethod :: "(string, string) dict"
  se_query :: "(string \<times> string) list \<Rightarrow> 'v \<Rightarrow> string option list option \<times> 'v"
  se_exist :: "string list \<Rightarrow> 'v \<Rightarrow> bool list \<times> 'v"
  se_report_equiv :: "string \<Rightarrow> string \<Rightarrow> string \<Rightarrow> 'v \<Rightarrow> string option option \<times> 'v"

definition new_sig :: "(string, string \<times> string) dict \<Rightarrow> (string, string) dict \<Rightarrow> 'v \<Rightarrow> 'v sig_state" where
  "new_sig unitaskhashes taint_files v = \<lparr>sg_basehash = [], sg_hashes = [], sg_unihash = [],
     sg_runtaskdeps = [], sg_files = [], sg_taints = [], sg_unitaskhashes = unitaskhashes, sg_tidtopn = [],
     sg_setscenetasks = [], sg_exists = [], sg_taint_files = taint_files, sg_world = v\<rparr>"

definition data_cache :: "'v sig_env \<Rightarrow> string \<Rightarrow> (cache_data \<Rightarrow> (string, 'x) dict) \<Rightarrow> string \<Rightarrow> 'x res" where
  "data_cache env mc field k = res_bind (dict_get (se_caches env) mc) (\<lambda>dc. dict_get (field dc) k)"

section \<open>Stamps\<close>

definition stampfile :: "string \<Rightarrow> string \<Rightarrow> string \<Rightarrow> string" where
  "stampfile stampbase taskname extrainfo =
     rstrip_chars (\<lambda>c. c = CHR ''.'') (stampbase @ ''.'' @ taskname @ ''.'' @ extrainfo)"

definition stamp_flag_name :: "string \<Rightarrow> string" where
  "stamp_flag_name taskname = (if endswith taskname ''_setscene'' then remove_sub ''_setscene'' taskname else taskname)"

text \<open>\<open>stampfile_mcfn\<close> over the class's \<open>stampfile\<close>; without a stamp the result is None.\<close>

definition stampfile_mcfn ::
  "(string \<Rightarrow> string \<Rightarrow> string \<Rightarrow> string \<Rightarrow> string res) \<Rightarrow> 'v sig_env \<Rightarrow> string \<Rightarrow> string \<Rightarrow> bool \<Rightarrow> string option res" where
  "stampfile_mcfn sf env taskname mcfn extrainfo =
     res_bind (data_cache env (mc_from_tid mcfn) stamp_of mcfn) (\<lambda>stamp.
     if stamp = [] then Inr None
     else res_bind (if \<not> extrainfo then Inr [] else
         res_bind (data_cache env (mc_from_tid mcfn) stamp_extrainfo mcfn) (\<lambda>d.
         Inr (case map_of d (stamp_flag_name taskname) of None \<Rightarrow> [] | Some x \<Rightarrow> x))) (\<lambda>extra.
       res_bind (sf stamp mcfn taskname extra) (\<lambda>r. Inr (Some r))))"

text \<open>\<open>SignatureGeneratorBasicHash\<close>: the hash of the task is part of the name of its stamp.\<close>

definition get_stampfile_hash :: "string \<Rightarrow> 'v sig_state \<Rightarrow> string res" where
  "get_stampfile_hash tid s = (case map_of (sg_hashes s) tid of
       Some h \<Rightarrow> Inr h | None \<Rightarrow> dict_get (sg_basehash s) tid)"

definition hash_stampfile ::
  "(string \<Rightarrow> string res) \<Rightarrow> bool \<Rightarrow> string \<Rightarrow> string \<Rightarrow> string \<Rightarrow> string \<Rightarrow> string res" where
  "hash_stampfile stamphash masked stampbase mcfn taskname extrainfo =
     (let tid = mcfn @ '':'' @ (if endswith taskname ''_setscene'' then take (length taskname - 9) taskname else taskname)
      in res_bind (if masked then Inr ''*'' else stamphash tid) (\<lambda>h.
         Inr (rstrip_chars (\<lambda>c. c = CHR ''.'') (stampbase @ ''.'' @ taskname @ ''.'' @ h @ ''.'' @ extrainfo))))"

section \<open>The generator that does nothing\<close>

definition noop_get_taskhash :: "'v sig_env \<Rightarrow> string \<Rightarrow> ('v sig_state, string) act" where
  "noop_get_taskhash env tid =
     act_then (act_modify (\<lambda>s. s\<lparr>sg_hashes := AList.update tid (se_sha env tid) (sg_hashes s)\<rparr>))
       (act_read (\<lambda>s. dict_get (sg_hashes s) tid))"

text \<open>\<open>get_unihash\<close> without a cache of unihashes, also that of the basic generator\<close>

definition plain_get_unihash :: "string \<Rightarrow> ('v sig_state, string) act" where
  "plain_get_unihash tid = act_read (\<lambda>s. dict_get (sg_hashes s) tid)"

definition plain_get_unihashes :: "string list \<Rightarrow> ('v sig_state, (string, string) dict) act" where
  "plain_get_unihashes tids = act_map (\<lambda>tid. act_bind (plain_get_unihash tid) (\<lambda>u. act_return (tid, u))) tids"

section \<open>The basic generator\<close>

definition build_pnid :: "string \<Rightarrow> string \<Rightarrow> string \<Rightarrow> string" where
  "build_pnid mc pn taskname =
     (if mc \<noteq> [] then ''mc:'' @ mc @ '':'' @ pn @ '':'' @ taskname else pn @ '':'' @ taskname)"

definition rundep_check :: "'v sig_env \<Rightarrow> string \<Rightarrow> string \<Rightarrow> bool" where
  "rundep_check env recipename depname = (case se_ignore_tasks env of
       None \<Rightarrow> True | Some search \<Rightarrow> search recipename \<or> \<not> search depname)"

definition read_taint :: "string \<Rightarrow> string \<Rightarrow> 'v sig_state \<Rightarrow> string option" where
  "read_taint task stampbase s = map_of (sg_taint_files s) (stampbase @ ''.'' @ task @ ''.taint'')"

text \<open>One dependency of \<open>prep_taskhash\<close>\<close>

definition prep_dep :: "'v sig_env \<Rightarrow> string \<Rightarrow> string \<Rightarrow> string \<Rightarrow> ('v sig_state, unit) act" where
  "prep_dep env tid recipename dep =
     act_bind (act_lift (split_tid_mcfn dep)) (\<lambda>(depmc, _, deptask, depmcfn).
     act_bind (act_lift (data_cache env depmc pkg_fn depmcfn)) (\<lambda>dep_pn.
     if \<not> rundep_check env recipename dep_pn then act_return ()
     else act_bind (act_gets (\<lambda>s. has_key (sg_hashes s) dep)) (\<lambda>known.
       if \<not> known then act_raise BBHandledException
       else act_modify (\<lambda>s. s\<lparr>sg_runtaskdeps :=
         dict_append tid (build_pnid depmc dep_pn deptask, dep) (sg_runtaskdeps s)\<rparr>))))"

definition prep_taint :: "'v sig_env \<Rightarrow> string \<Rightarrow> bool \<Rightarrow> ('v sig_state, unit) act" where
  "prep_taint env tid nostamp =
     act_when nostamp (act_bind (act_gets (\<lambda>s. case map_of (sg_taints s) tid of
         Some t \<Rightarrow> startswith t ''nostamp:'' | None \<Rightarrow> False)) (\<lambda>there.
       if there then act_return ()
       else act_modify (\<lambda>s. case se_uuid env (sg_world s) of (u, v) \<Rightarrow>
         s\<lparr>sg_world := v, sg_taints := AList.update tid (''nostamp:'' @ u) (sg_taints s)\<rparr>)))"

definition prep_taskhash :: "'v sig_env \<Rightarrow> string \<Rightarrow> string list \<Rightarrow> ('v sig_state, string list) act" where
  "prep_taskhash env tid deps =
     act_bind (act_lift (split_tid_mcfn tid)) (\<lambda>(mc, _, task, mcfn).
     act_bind (act_lift (data_cache env mc basetaskhash tid)) (\<lambda>base.
     act_then (act_modify (\<lambda>s. s\<lparr>sg_basehash := AList.update tid base (sg_basehash s),
         sg_runtaskdeps := AList.update tid [] (sg_runtaskdeps s), sg_files := AList.update tid [] (sg_files s)\<rparr>))
    (act_bind (act_lift (data_cache env mc pkg_fn mcfn)) (\<lambda>recipename.
     act_then (act_modify (\<lambda>s. s\<lparr>sg_tidtopn := AList.update tid recipename (sg_tidtopn s)\<rparr>))
    (act_then (act_for deps (prep_dep env tid recipename))
    (act_bind (act_lift (data_cache env mc file_checksums mcfn)) (\<lambda>checksums.
     act_then (case map_of checksums task of None \<Rightarrow> act_return () | Some names \<Rightarrow>
         act_modify (\<lambda>s. s\<lparr>sg_files := AList.update tid (se_checksums env names recipename) (sg_files s)\<rparr>))
    (act_bind (act_lift (data_cache env mc task_deps_of mcfn)) (\<lambda>taskdep.
     act_then (prep_taint env tid (task_flag taskdep ''nostamp'' task \<noteq> None))
    (act_bind (act_lift (data_cache env mc stamp_of mcfn)) (\<lambda>stamp.
     act_then (act_modify (\<lambda>s. case read_taint task stamp s of
           Some (c # cs) \<Rightarrow> s\<lparr>sg_taints := AList.update tid (c # cs) (sg_taints s)\<rparr> | _ \<Rightarrow> s))
       (act_gets (\<lambda>s. set_union [] (List.map snd (dict_list (sg_runtaskdeps s) tid)))))))))))))))"

text \<open>What the hash is computed from: the base hash, the unihashes of the dependencies, the checksums
  of files and the taint\<close>

definition sort_deps :: "(string \<times> string) list \<Rightarrow> (string \<times> string) list" where
  "sort_deps ds = sort_key fst (sort_key snd ds)"

definition clean_checksum_file_path :: "string \<Rightarrow> string" where
  "clean_checksum_file_path f =
     (if contains f ''/./'' then ''./'' @ before_sub ''/./'' (after_sub ''/./'' f) else basename f)"

definition sort_files :: "(string \<times> string) list \<Rightarrow> (string \<times> string) list" where
  "sort_files = sort_key (clean_checksum_file_path \<circ> fst)"

definition file_data :: "string \<times> string \<Rightarrow> string" where
  "file_data = (\<lambda>(f, cs). if cs = [] then []
     else (if contains f ''/./'' then ''./'' @ before_sub ''/./'' (after_sub ''/./'' f) else []) @ cs)"

definition taint_data :: "string option \<Rightarrow> string" where
  "taint_data t = (case t of None \<Rightarrow> [] | Some x \<Rightarrow> if startswith x ''nostamp:'' then drop 8 x else x)"

definition get_taskhash ::
  "(string \<Rightarrow> ('v sig_state, string) act) \<Rightarrow> 'v sig_env \<Rightarrow> string \<Rightarrow> ('v sig_state, string) act" where
  "get_taskhash get_unihash env tid =
     act_bind (act_read (\<lambda>s. dict_get (sg_basehash s) tid)) (\<lambda>base.
     act_bind (act_read (\<lambda>s. dict_get (sg_runtaskdeps s) tid)) (\<lambda>deps.
     act_bind (act_map (\<lambda>dep. get_unihash (snd dep)) (sort_deps deps)) (\<lambda>unis.
     act_bind (act_read (\<lambda>s. dict_get (sg_files s) tid)) (\<lambda>sums.
     act_bind (act_gets (\<lambda>s. map_of (sg_taints s) tid)) (\<lambda>taint.
     let h = se_sha env (base @ List.concat unis @ List.concat (List.map file_data (sort_files sums)) @ taint_data taint)
     in act_then (act_modify (\<lambda>s. s\<lparr>sg_hashes := AList.update tid h (sg_hashes s)\<rparr>)) (act_return h))))))"

definition set_setscene_tasks :: "string list \<Rightarrow> 'v sig_state \<Rightarrow> 'v sig_state" where
  "set_setscene_tasks tasks s = s\<lparr>sg_setscenetasks := set_union [] tasks\<rparr>"

text \<open>\<open>invalidate_task\<close> of the hashing generator writes a taint file.\<close>

definition invalidate_stamp :: "'v sig_env \<Rightarrow> string \<Rightarrow> string \<Rightarrow> ('v sig_state, unit) act" where
  "invalidate_stamp env task mcfn =
     act_bind (act_lift (data_cache env (mc_from_tid mcfn) stamp_of mcfn)) (\<lambda>stamp.
     act_modify (\<lambda>s. case se_uuid env (sg_world s) of (u, v) \<Rightarrow>
       s\<lparr>sg_world := v, sg_taint_files := AList.update (stamp @ ''.'' @ task @ ''.taint'') u (sg_taint_files s)\<rparr>))"

definition basichash_siggen :: "'v sig_env \<Rightarrow> 'v sig_state siggen" where
  "basichash_siggen env = \<lparr>sg_prep = prep_taskhash env, sg_taskhash = (\<lambda>tid deps. get_taskhash plain_get_unihash env tid),
     sg_unihashes = plain_get_unihashes, sg_invalidate = invalidate_stamp env,
     sg_setscene = set_setscene_tasks, sg_resolved = (\<lambda>_ _ s. s)\<rparr>"

section \<open>Hash equivalence\<close>

definition unihash_key :: "string \<Rightarrow> 'v sig_state \<Rightarrow> string res" where
  "unihash_key tid s =
     res_bind (split_tid_mcfn tid) (\<lambda>(mc, fn, taskname, taskfn).
     res_bind (dict_get (sg_tidtopn s) tid) (\<lambda>pn. Inr (mc @ '':'' @ pn @ '':'' @ taskname)))"

definition sig_set_unihash :: "string \<Rightarrow> string \<Rightarrow> ('v sig_state, unit) act" where
  "sig_set_unihash tid unihash =
     act_bind (act_read (unihash_key tid)) (\<lambda>key.
     act_bind (act_read (\<lambda>s. dict_get (sg_hashes s) tid)) (\<lambda>h.
     act_modify (\<lambda>s. s\<lparr>sg_unitaskhashes := AList.update key (h, unihash) (sg_unitaskhashes s),
       sg_unihash := AList.update tid (Some unihash) (sg_unihash s)\<rparr>)))"

definition priv_get_unihash :: "string \<Rightarrow> string option \<Rightarrow> 'v sig_state \<Rightarrow> string option res" where
  "priv_get_unihash tid checkkey s =
     (if \<not> has_key (sg_tidtopn s) tid then Inr None
      else res_bind (unihash_key tid s) (\<lambda>key.
        case map_of (sg_unitaskhashes s) key of
          None \<Rightarrow> Inr None
        | Some (h, unihash) \<Rightarrow>
            res_bind (case checkkey of Some (c # cs) \<Rightarrow> Inr (c # cs) | _ \<Rightarrow> dict_get (sg_hashes s) tid) (\<lambda>check.
            Inr (if h \<noteq> check then None else Some unihash))))"

definition get_cached_unihash :: "string \<Rightarrow> ('v sig_state, string option) act" where
  "get_cached_unihash tid =
     act_bind (act_read (\<lambda>s. dict_get (sg_hashes s) tid)) (\<lambda>h.
     act_bind (act_gets (\<lambda>s. sg_setscenetasks s \<noteq> [] \<and> tid \<notin> set (sg_setscenetasks s))) (\<lambda>plain.
     if plain then act_then (act_modify (\<lambda>s. s\<lparr>sg_unihash := AList.update tid None (sg_unihash s)\<rparr>)) (act_return (Some h))
     else act_bind (act_read (priv_get_unihash tid None)) (\<lambda>u. case u of
         None \<Rightarrow> act_return None
       | Some unihash \<Rightarrow>
           act_then (act_modify (\<lambda>s. s\<lparr>sg_unihash := AList.update tid (Some unihash) (sg_unihash s)\<rparr>))
             (act_return (Some unihash)))))"

definition get_method :: "'v sig_env \<Rightarrow> string \<Rightarrow> string" where
  "get_method env tid = se_method env @ (case map_of (se_extramethod env) tid of None \<Rightarrow> [] | Some m \<Rightarrow> m)"

text \<open>The cached unihashes first; then the server is asked for the others, and what it does not
  know, or cannot be asked for, is the task hash.\<close>

definition cached_or_query :: "string \<Rightarrow> ('v sig_state, (string \<times> string) list \<times> string list) act" where
  "cached_or_query tid =
     act_bind (get_cached_unihash tid) (\<lambda>u. case u of
         Some (c # cs) \<Rightarrow> act_return ([(tid, c # cs)], [])
       | _ \<Rightarrow> act_return ([], [tid]))"

definition ask_server :: "'v sig_env \<Rightarrow> string list \<Rightarrow> ('v sig_state, string option list) act" where
  "ask_server env tids =
     (if tids = [] then act_return []
      else act_bind (act_read (\<lambda>s. res_map (\<lambda>tid. res_bind (dict_get (sg_hashes s) tid)
          (\<lambda>h. Inr (get_method env tid, h))) tids)) (\<lambda>queries.
        act_bind (act_gets (\<lambda>s. se_query env queries (sg_world s))) (\<lambda>(answer, v).
        act_then (act_modify (\<lambda>s. s\<lparr>sg_world := v\<rparr>))
          (act_return (case answer of None \<Rightarrow> [] | Some us \<Rightarrow> us)))))"

definition enter_unihash :: "string option list \<Rightarrow> nat \<times> string \<Rightarrow> ('v sig_state, string \<times> string) act" where
  "enter_unihash unihashes = (\<lambda>(idx, tid).
     act_bind (act_read (\<lambda>s. dict_get (sg_hashes s) tid)) (\<lambda>h.
     act_bind (if unihashes = [] then act_return None else act_lift (list_get unihashes idx)) (\<lambda>found.
     let unihash = (case found of Some (c # cs) \<Rightarrow> c # cs | _ \<Rightarrow> h)
     in act_then (sig_set_unihash tid unihash) (act_return (tid, unihash)))))"

definition uni_get_unihashes :: "'v sig_env \<Rightarrow> string list \<Rightarrow> ('v sig_state, (string, string) dict) act" where
  "uni_get_unihashes env tids =
     act_bind (act_map cached_or_query tids) (\<lambda>rows.
     let cached = List.concat (List.map fst rows);
         query_tids = List.concat (List.map snd rows)
     in act_bind (ask_server env query_tids) (\<lambda>unihashes.
        act_bind (act_map (enter_unihash unihashes) (List.enumerate 0 query_tids)) (\<lambda>found.
        act_return (fold (\<lambda>(t, u). AList.update t u) (cached @ found) []))))"

definition uni_get_unihash :: "'v sig_env \<Rightarrow> string \<Rightarrow> ('v sig_state, string) act" where
  "uni_get_unihash env tid = act_bind (uni_get_unihashes env [tid]) (\<lambda>d. act_lift (dict_get d tid))"

definition uni_stampfile_hash :: "string \<Rightarrow> 'v sig_state \<Rightarrow> string res" where
  "uni_stampfile_hash tid s =
     (if has_key (sg_hashes s) tid
      then res_bind (priv_get_unihash tid None s) (\<lambda>u. case u of Some x \<Rightarrow> Inr x | None \<Rightarrow> get_stampfile_hash tid s)
      else get_stampfile_hash tid s)"

definition unihashes_exist :: "'v sig_env \<Rightarrow> (string, string) dict \<Rightarrow> ('v sig_state, (string, bool) dict) act" where
  "unihashes_exist env query =
     act_bind (act_gets (\<lambda>s. filter (\<lambda>(key, unihash). unihash \<in> set (sg_exists s)) query)) (\<lambda>known.
     let asked = filter (\<lambda>(key, unihash). (key, unihash) \<notin> set known) query
     in act_bind (act_gets (\<lambda>s. if asked = [] then ([], sg_world s) else se_exist env (List.map snd asked) (sg_world s))) (\<lambda>(answers, v).
        act_then (act_modify (\<lambda>s. s\<lparr>sg_world := v\<rparr>))
       (act_bind (act_map (\<lambda>(idx, key, unihash).
            act_bind (act_lift (list_get answers idx)) (\<lambda>exists.
            act_then (act_modify (\<lambda>s. if exists then s\<lparr>sg_exists := set_add unihash (sg_exists s)\<rparr> else s))
              (act_return (key, exists)))) (List.enumerate 0 asked)) (\<lambda>found.
        act_return (fold (\<lambda>(k, b). AList.update k b) (List.map (\<lambda>(k, _). (k, True)) known @ found) [])))))"

definition report_unihash_equiv ::
  "'v sig_env \<Rightarrow> string \<Rightarrow> string \<Rightarrow> string \<Rightarrow> string \<Rightarrow> ('v sig_state, bool) act" where
  "report_unihash_equiv env tid taskhash wanted current =
     act_bind (act_gets (\<lambda>s. se_report_equiv env taskhash (get_method env tid) wanted (sg_world s))) (\<lambda>(answer, v).
     act_then (act_modify (\<lambda>s. s\<lparr>sg_world := v\<rparr>))
    (case answer of
       Some (Some final) \<Rightarrow>
         if final = current then act_return False
         else if final = wanted then act_then (sig_set_unihash tid final) (act_return True)
         else act_return False
     | _ \<Rightarrow> act_return False))"

definition uni_siggen :: "'v sig_env \<Rightarrow> 'v sig_state siggen" where
  "uni_siggen env = (basichash_siggen env)\<lparr>sg_taskhash := (\<lambda>tid deps. get_taskhash (uni_get_unihash env) env tid),
     sg_unihashes := uni_get_unihashes env\<rparr>"

section \<open>The data a signature file holds\<close>

text \<open>The hash of a task's variables, over the dependencies between variables; one round per
  variable at most.\<close>

definition vars_below :: "(string, string list) dict \<Rightarrow> string list \<Rightarrow> string list res" where
  "vars_below gendeps vs = res_fold (\<lambda>dep acc. res_bind (dict_get gendeps dep) (\<lambda>ds. Inr (set_union acc ds))) vs []"

fun close_vars :: "nat \<Rightarrow> (string, string list) dict \<Rightarrow> string list \<Rightarrow> string list \<Rightarrow> string list res" where
  "close_vars n gendeps [] seen = Inr seen"
| "close_vars 0 gendeps (v # vs) seen = Inl OutOfFuel"
| "close_vars (Suc n) gendeps (v # vs) seen =
     (let seen = set_union seen (v # vs)
      in res_bind (vars_below gendeps (v # vs)) (\<lambda>new. close_vars n gendeps (set_diff new seen) seen))"

definition var_data :: "(string, string option) dict \<Rightarrow> string \<Rightarrow> string res" where
  "var_data vals dep = res_bind (dict_get vals dep) (\<lambda>v. Inr (dep @ (case v of None \<Rightarrow> [] | Some x \<Rightarrow> x)))"

definition task_basehash ::
  "(string \<Rightarrow> string) \<Rightarrow> (string, string list) dict \<Rightarrow> (string, string option) dict \<Rightarrow> string \<Rightarrow>
   (string list \<times> string) res" where
  "task_basehash sha gendeps vals task =
     res_bind (dict_get vals task) (\<lambda>v.
     res_bind (dict_get gendeps task) (\<lambda>newdeps.
     res_bind (close_vars (Suc (length gendeps)) gendeps newdeps []) (\<lambda>seen.
     res_bind (res_map (var_data vals) (sort seen)) (\<lambda>rows.
     Inr (seen, sha ((case v of None \<Rightarrow> [] | Some x \<Rightarrow> x) @ List.concat rows))))))"

definition generate_dependency_hash ::
  "(string \<Rightarrow> string) \<Rightarrow> string list \<Rightarrow> (string, string list) dict \<Rightarrow> (string, string option) dict \<Rightarrow> string \<Rightarrow>
   ((string, string list) dict \<times> (string, string) dict) res" where
  "generate_dependency_hash sha tasklist gendeps vals fn =
     res_fold (\<lambda>task (taskdeps, basehash). res_bind (task_basehash sha gendeps vals task) (\<lambda>(seen, h).
       Inr (AList.update task seen taskdeps, AList.update (fn @ '':'' @ task) h basehash))) tasklist ([], [])"

text \<open>What \<open>dump_sigtask\<close> writes of a task that was hashed, and the two hashes computed from it\<close>

record sig_data =
  sd_task :: string
  sd_taskdeps :: "string list"
  sd_basehash :: string
  sd_varvals :: "(string, string option) dict"
  sd_runtaskdeps :: "string list"
  sd_files :: "(string \<times> string) list"
  sd_runtaskhashes :: "(string, string) dict"
  sd_taskhash :: string
  sd_unihash :: string
  sd_taint :: "string option"

definition dump_taint :: "string \<Rightarrow> string option \<Rightarrow> 'v sig_state \<Rightarrow> string option" where
  "dump_taint tid taint s = (case map_of (sg_taints s) tid of
       Some t \<Rightarrow> if contains t ''nostamp:'' then Some t else taint
     | None \<Rightarrow> taint)"

definition dump_varvals ::
  "string list \<Rightarrow> (string, string option) dict \<Rightarrow> string \<Rightarrow> string list \<Rightarrow> (string, string option) dict res" where
  "dump_varvals ignore vals task taskdeps =
     res_fold (\<lambda>dep d. res_bind (dict_get vals dep) (\<lambda>v. Inr (AList.update dep v d)))
       (task # filter (\<lambda>dep. dep \<notin> set ignore) taskdeps) []"

definition task_sigdata ::
  "(string \<Rightarrow> ('v sig_state, string) act) \<Rightarrow> string \<Rightarrow> string \<Rightarrow> string \<Rightarrow> string list \<Rightarrow> string list \<Rightarrow>
   (string, string option) dict \<Rightarrow> ('v sig_state, sig_data) act" where
  "task_sigdata get_unihash tid task stamp ignore taskdeps vals =
     act_bind (act_read (\<lambda>s. dict_get (sg_basehash s) tid)) (\<lambda>base.
     act_bind (act_lift (dump_varvals ignore vals task taskdeps)) (\<lambda>varvals.
     act_bind (act_read (\<lambda>s. dict_get (sg_runtaskdeps s) tid)) (\<lambda>deps.
     act_bind (act_read (\<lambda>s. dict_get (sg_files s) tid)) (\<lambda>sums.
     act_bind (act_map (\<lambda>(pnid, dep). act_bind (get_unihash dep) (\<lambda>u. act_return (pnid, u))) deps) (\<lambda>hashes.
     act_bind (act_read (\<lambda>s. dict_get (sg_hashes s) tid)) (\<lambda>h.
     act_bind (get_unihash tid) (\<lambda>u.
     act_gets (\<lambda>s. \<lparr>sd_task = task, sd_taskdeps = taskdeps, sd_basehash = base, sd_varvals = varvals,
       sd_runtaskdeps = List.map fst (sort_deps deps),
       sd_files = List.map (\<lambda>(f, cs). (clean_checksum_file_path f, cs)) (sort_files sums),
       sd_runtaskhashes = fold (\<lambda>(p, x). AList.update p x) hashes [], sd_taskhash = h, sd_unihash = u,
       sd_taint = dump_taint tid (case read_taint task stamp s of Some (c # cs) \<Rightarrow> Some (c # cs) | _ \<Rightarrow> None) s\<rparr>))))))))"

definition calc_basehash :: "(string \<Rightarrow> string) \<Rightarrow> sig_data \<Rightarrow> string res" where
  "calc_basehash sha d =
     res_bind (dict_get (sd_varvals d) (sd_task d)) (\<lambda>v.
     res_bind (res_map (var_data (sd_varvals d)) (sort (sd_taskdeps d))) (\<lambda>rows.
     Inr (sha ((case v of None \<Rightarrow> [] | Some x \<Rightarrow> x) @ List.concat rows))))"

definition calc_file_data :: "string \<times> string \<Rightarrow> string" where
  "calc_file_data = (\<lambda>(f, cs). if cs = [] then [] else (if contains f ''./'' then f else []) @ cs)"

definition calc_taint_data :: "string option \<Rightarrow> string" where
  "calc_taint_data t = (case t of None \<Rightarrow> [] | Some x \<Rightarrow> if contains x ''nostamp:'' then drop 8 x else x)"

definition calc_taskhash :: "(string \<Rightarrow> string) \<Rightarrow> sig_data \<Rightarrow> string res" where
  "calc_taskhash sha d =
     res_bind (res_map (dict_get (sd_runtaskhashes d)) (sd_runtaskdeps d)) (\<lambda>hashes.
     Inr (sha (sd_basehash d @ List.concat hashes @ List.concat (List.map calc_file_data (sd_files d)) @
       calc_taint_data (sd_taint d))))"

section \<open>Comparing signature files\<close>

definition dict_diff :: "(string, 'x) dict \<Rightarrow> (string, 'x) dict \<Rightarrow> string list \<Rightarrow> string list \<times> string list \<times> string list" where
  "dict_diff a b ignored =
     (filter (\<lambda>i. has_key b i \<and> map_of a i \<noteq> map_of b i \<and> i \<notin> set ignored) (dict_keys a),
      filter (\<lambda>i. \<not> has_key a i) (dict_keys b),
      filter (\<lambda>i. \<not> has_key b i) (dict_keys a))"

text \<open>\<open>file_checksums_diff\<close> over lists that may name a file more than once: the occurrences that
  are only in one of the lists, paired by name where both have some\<close>

definition surplus :: "'x list \<Rightarrow> 'x list \<Rightarrow> 'x list" where
  "surplus xs ys = rev (snd (fold (\<lambda>x (count, out).
     if count x > 0 then (count(x := count x - 1), x # out) else (count, out)) xs
     (\<lambda>x. int (count_list xs x) - int (count_list ys x), [])))"

definition pair_change ::
  "string \<times> string \<Rightarrow> (string \<times> string) list \<times> (string \<times> string \<times> string) list \<times> (string \<times> string) list \<Rightarrow>
   (string \<times> string) list \<times> (string \<times> string \<times> string) list \<times> (string \<times> string) list" where
  "pair_change x = (\<lambda>(added, changed, removed).
     case List.find (\<lambda>y. fst y = fst x) added of
       Some y \<Rightarrow> (remove1 y added, changed @ [(fst x, snd x, snd y)], removed)
     | None \<Rightarrow> (added, changed, removed @ [x]))"

definition file_checksums_diff ::
  "(string \<times> string) list \<Rightarrow> (string \<times> string) list \<Rightarrow> (string \<times> string \<times> string) list \<times> string list \<times> string list" where
  "file_checksums_diff a b =
     (case fold pair_change (surplus a b) (surplus b a, [], []) of
        (added, changed, removed) \<Rightarrow> (changed, List.map fst added, List.map fst removed))"

end
