(* ===== verification/Task_Hashes.thy ===== *)
theory Task_Hashes
  imports RunQueue_Graph
begin

text \<open>
  The hashes of the tasks, over any signature generator: \<open>compute_hashes\<close> asks the generator for
  the hash of a task once those of its dependencies are there. The locale states what the run
  queue relies on of a generator; \<open>Sig_Facts\<close> discharges it for the generators of \<open>siggen.py\<close>.
\<close>

section \<open>The graph while hashes are entered\<close>

lemma map_of_update_entry: "map_of (update_entry t f G) u = (if u = t then map_option f (map_of G t) else map_of G u)"
  by (auto simp: update_entry_def split: option.split)

lemma key_of_map: "map_of d k = Some v \<Longrightarrow> k \<in> set (dict_keys d)"
  by (force dest: map_of_SomeD)

lemma dict_keys_update_entry [simp]: "dict_keys (update_entry t f G) = dict_keys G"
  unfolding update_entry_def by (cases "map_of G t") (simp_all only: option.case dict_keys_update_old[OF key_of_map])

lemma entry_depends_update:
  "(\<And>e. rt_depends (f e) = rt_depends e) \<Longrightarrow> entry_depends (update_entry t f G) u = entry_depends G u"
  unfolding entry_depends_def map_of_update_entry by (cases "map_of G t") auto

lemma minimal_task:
  assumes "closed_graph G" and "acyclic (dep_rel G)" and "t \<in> T" and "T \<subseteq> set (dict_keys G)"
  shows "\<exists>u \<in> T. set (entry_depends G u) \<inter> T = {}"
proof -
  have "dep_rel G \<subseteq> set (dict_keys G) \<times> set (dict_keys G)"
  proof
    fix p assume "p \<in> dep_rel G"
    then obtain u d where p: "p = (u, d)" "d \<in> set (entry_depends G u)" by (auto simp: dep_rel_def)
    then have "map_of G u \<noteq> None" by (cases "map_of G u") (auto simp: entry_depends_def)
    then have "u \<in> set (dict_keys G)" using key_of_map[of G u] by auto
    with p assms(1) show "p \<in> set (dict_keys G) \<times> set (dict_keys G)" by (auto simp: closed_graph_def)
  qed
  then have "finite (dep_rel G)" by (rule finite_subset) simp
  with assms(2) have "wf ((dep_rel G)\<inverse>)" by (rule finite_acyclic_wf_converse[rotated])
  from wfE_min[OF this assms(3)] obtain u where "u \<in> T" "\<And>d. (d, u) \<in> (dep_rel G)\<inverse> \<Longrightarrow> d \<notin> T" by blast
  then show ?thesis by (auto simp: dep_rel_def)
qed

section \<open>A signature generator\<close>

text \<open>\<open>hash_of\<close> is the hash a generator has recorded, \<open>covers g t ds\<close> says that it was made for the
  dependencies \<open>ds\<close>, \<open>uni_ok h u\<close> relates a hash and the unihash the generator gives for it, \<open>ok\<close> is
  its invariant, and \<open>known\<close> holds of the tasks of the caches.\<close>

locale signature_generator =
  fixes sg :: "'s siggen" and hash_of :: "'s \<Rightarrow> string \<Rightarrow> string option" and covers :: "'s \<Rightarrow> string \<Rightarrow> string list \<Rightarrow> bool"
    and uni_ok :: "string \<Rightarrow> string \<Rightarrow> bool" and ok :: "'s \<Rightarrow> bool" and known :: "string \<Rightarrow> bool"
  assumes hashes: "ok g \<Longrightarrow> known t \<Longrightarrow> hash_of g t = None \<Longrightarrow> (\<And>d. d \<in> set ds \<Longrightarrow> known d \<and> hash_of g d \<noteq> None) \<Longrightarrow>
      \<exists>hdeps h g1 g'. sg_prep sg t ds g = (Inr hdeps, g1) \<and> sg_taskhash sg t ds g1 = (Inr h, g') \<and> ok g' \<and>
        hash_of g' = (hash_of g)(t \<mapsto> h) \<and> covers g' t ds \<and> (\<forall>u x. u \<noteq> t \<longrightarrow> covers g u x \<longrightarrow> covers g' u x)"
    and unihashes: "ok g \<Longrightarrow> (\<And>t. t \<in> set ts \<Longrightarrow> hash_of g t \<noteq> None \<and> known t) \<Longrightarrow>
      \<exists>unis g'. sg_unihashes sg ts g = (Inr unis, g') \<and> ok g' \<and> hash_of g' = hash_of g \<and>
        (\<forall>u x. covers g u x \<longrightarrow> covers g' u x) \<and>
        (\<forall>t \<in> set ts. \<exists>h u. hash_of g t = Some h \<and> map_of unis t = Some u \<and> uni_ok h u)"
begin

text \<open>The invariant: the tasks in \<open>D\<close> are dealt with, those in \<open>H\<close> have a hash.\<close>

definition hashed :: "'s prep_state \<Rightarrow> string \<Rightarrow> bool" where
  "hashed s t \<longleftrightarrow> (\<exists>e h. map_of (pp_entries s) t = Some e \<and> rt_hash e = Some h \<and>
     hash_of (pp_siggen s) t = Some h \<and> covers (pp_siggen s) t (rt_depends e))"

definition dealt_with :: "'s prep_state \<Rightarrow> string \<Rightarrow> bool" where
  "dealt_with s t \<longleftrightarrow> (\<exists>e h u. map_of (pp_entries s) t = Some e \<and> rt_hash e = Some h \<and> rt_unihash e = Some u \<and>
     hash_of (pp_siggen s) t = Some h \<and> covers (pp_siggen s) t (rt_depends e) \<and> uni_ok h u)"

definition hash_inv :: "graph \<Rightarrow> string set \<Rightarrow> string set \<Rightarrow> 's prep_state \<Rightarrow> bool" where
  "hash_inv G D H s \<longleftrightarrow> ok (pp_siggen s) \<and> dict_keys (pp_entries s) = dict_keys G \<and>
     (\<forall>t. entry_depends (pp_entries s) t = entry_depends G t) \<and>
     (\<forall>t \<in> D. dealt_with s t) \<and> (\<forall>t \<in> H. hashed s t) \<and>
     (\<forall>t \<in> set (dict_keys G) - D - H. hash_of (pp_siggen s) t = None)"

lemma hash_invI:
  "ok (pp_siggen s) \<Longrightarrow> dict_keys (pp_entries s) = dict_keys G \<Longrightarrow> (\<And>t. entry_depends (pp_entries s) t = entry_depends G t) \<Longrightarrow>
   (\<And>t. t \<in> D \<Longrightarrow> dealt_with s t) \<Longrightarrow> (\<And>t. t \<in> H \<Longrightarrow> hashed s t) \<Longrightarrow>
   (\<And>t. t \<in> set (dict_keys G) - D - H \<Longrightarrow> hash_of (pp_siggen s) t = None) \<Longrightarrow> hash_inv G D H s"
  unfolding hash_inv_def by blast

lemma dealt_hashed: "dealt_with s t \<Longrightarrow> hashed s t"
  by (auto simp: dealt_with_def hashed_def)

lemma hashed_hash: "hashed s t \<Longrightarrow> hash_of (pp_siggen s) t \<noteq> None"
  by (auto simp: hashed_def)

lemma hash_inv_task:
  assumes inv: "hash_inv G D H s" and t: "t \<in> set (dict_keys G) - D - H" and deps: "set (entry_depends G t) \<subseteq> D"
    and known: "\<And>t. t \<in> set (dict_keys G) \<Longrightarrow> known t" and D: "D \<subseteq> set (dict_keys G)"
  shows "\<exists>s'. hash_task sg t s = (Inr (), s') \<and> hash_inv G D (insert t H) s'"
proof -
  let ?g = "pp_siggen s"
  have ds: "entry_depends (pp_entries s) t = entry_depends G t" using inv by (simp add: hash_inv_def)
  have "ok ?g" "hash_of ?g t = None" using inv t by (auto simp: hash_inv_def)
  moreover have "known d \<and> hash_of ?g d \<noteq> None" if "d \<in> set (entry_depends G t)" for d
  proof -
    have "d \<in> D" using deps that by blast
    with inv have "hash_of ?g d \<noteq> None" by (auto simp: hash_inv_def dest!: dealt_hashed hashed_hash bspec)
    with \<open>d \<in> D\<close> D known show ?thesis by blast
  qed
  ultimately obtain hdeps h g1 g' where run: "sg_prep sg t (entry_depends G t) ?g = (Inr hdeps, g1)"
      "sg_taskhash sg t (entry_depends G t) g1 = (Inr h, g')" "ok g'" "hash_of g' = (hash_of ?g)(t \<mapsto> h)"
      and covers: "covers g' t (entry_depends G t)" "\<And>u x. u \<noteq> t \<Longrightarrow> covers ?g u x \<Longrightarrow> covers g' u x"
    using hashes[of ?g t "entry_depends G t"] known t by blast
  let ?f = "\<lambda>e. e\<lparr>rt_taskhash_deps := hdeps, rt_hash := Some h\<rparr>"
  let ?s' = "s\<lparr>pp_siggen := g', pp_entries := update_entry t ?f (pp_entries s)\<rparr>"
  have "hash_task sg t s = (Inr (), ?s')"
    unfolding hash_task_def on_siggen_def act_zoom_def act_bind_def act_gets_def act_modify_def by (simp add: run(1,2) ds)
  moreover have "hash_inv G D (insert t H) ?s'"
  proof -
    have "t \<in> set (dict_keys (pp_entries s))" using inv t unfolding hash_inv_def by simp
    from map_of_key[OF this] obtain e where e: "map_of (pp_entries s) t = Some e" ..
    have "entry_depends (pp_entries ?s') u = entry_depends G u" for u
      using inv entry_depends_update[of ?f t "pp_entries s" u] by (simp add: hash_inv_def)
    moreover have same: "map_of (pp_entries ?s') x = map_of (pp_entries s) x" "hash_of (pp_siggen ?s') x = hash_of ?g x" if "x \<noteq> t" for x
      using that run(4) by (simp_all add: map_of_update_entry)
    have "dealt_with ?s' x" if "x \<in> D" for x
    proof -
      have "x \<noteq> t" using that t by blast
      moreover have "dealt_with s x" using inv that by (simp add: hash_inv_def)
      ultimately show ?thesis using same[of x] covers(2)[of x] unfolding dealt_with_def by auto
    qed
    moreover have "hashed ?s' x" if "x \<in> insert t H" for x
    proof (cases "x = t")
      case True
      have "rt_depends e = entry_depends G t" using e ds by (simp add: entry_depends_def)
      with True e run(4) covers(1) show ?thesis by (simp add: hashed_def map_of_update_entry)
    next
      case False
      moreover from False that inv have "hashed s x" by (simp add: hash_inv_def)
      ultimately show ?thesis using same[of x] covers(2)[of x] unfolding hashed_def by auto
    qed
    moreover have "hash_of (pp_siggen ?s') x = None" if "x \<in> set (dict_keys G) - D - insert t H" for x
      using inv that same(2)[of x] by (simp add: hash_inv_def)
    moreover have "ok (pp_siggen ?s')" "dict_keys (pp_entries ?s') = dict_keys G"
      using inv run(3) by (simp_all add: hash_inv_def del: list.map)
    ultimately show ?thesis by (intro hash_invI)
  qed
  ultimately show ?thesis by blast
qed

lemma hash_inv_tasks:
  assumes "hash_inv G D H s" and "set ts \<subseteq> set (dict_keys G) - D - H" and "distinct ts"
    and "\<And>t. t \<in> set ts \<Longrightarrow> set (entry_depends G t) \<subseteq> D"
    and "\<And>t. t \<in> set (dict_keys G) \<Longrightarrow> known t" and "D \<subseteq> set (dict_keys G)"
  shows "\<exists>s'. act_for ts (hash_task sg) s = (Inr (), s') \<and> hash_inv G D (H \<union> set ts) s'"
  using assms(1-4)
proof (induction ts arbitrary: H s)
  case (Cons t ts)
  from hash_inv_task[OF Cons.prems(1) _ Cons.prems(4) assms(5,6), of t] Cons.prems(2) obtain s1 where
    s1: "hash_task sg t s = (Inr (), s1)" "hash_inv G D (insert t H) s1" by auto
  have "set ts \<subseteq> set (dict_keys G) - D - insert t H" using Cons.prems(2,3) by auto
  from Cons.IH[OF s1(2) this] Cons.prems(3,4) obtain s' where
    "act_for ts (hash_task sg) s1 = (Inr (), s')" "hash_inv G D (insert t H \<union> set ts) s'" by auto
  with s1(1) show ?case by (simp add: act_simps)
qed (simp add: act_simps)

lemma hash_inv_unihash:
  assumes "hash_inv G D H s" and "t \<in> H" and "hash_of (pp_siggen s) t = Some h" and "uni_ok h u"
  shows "hash_inv G (insert t D) (H - {t}) (s\<lparr>pp_entries := update_entry t (\<lambda>e. e\<lparr>rt_unihash := Some u\<rparr>) (pp_entries s)\<rparr>)"
proof -
  let ?E = "update_entry t (\<lambda>e. e\<lparr>rt_unihash := Some u\<rparr>) (pp_entries s)"
  let ?s' = "s\<lparr>pp_entries := ?E\<rparr>"
  have "entry_depends (pp_entries ?s') x = entry_depends G x" for x
    using assms(1) entry_depends_update[of "\<lambda>e. e\<lparr>rt_unihash := Some u\<rparr>" t "pp_entries s" x] by (simp add: hash_inv_def)
  moreover have same: "map_of ?E x = map_of (pp_entries s) x" if "x \<noteq> t" for x
    using that by (simp add: map_of_update_entry)
  have "dealt_with (s\<lparr>pp_entries := ?E\<rparr>) x" if "x \<in> insert t D" for x
  proof (cases "x = t")
    case True
    from assms(1,2) have "hashed s t" by (simp add: hash_inv_def)
    with assms(3) obtain e where "map_of (pp_entries s) t = Some e" "rt_hash e = Some h" "covers (pp_siggen s) t (rt_depends e)"
      by (auto simp: hashed_def)
    with True assms(3,4) show ?thesis by (simp add: dealt_with_def map_of_update_entry)
  next
    case False
    with that assms(1) have "dealt_with s x" by (simp add: hash_inv_def)
    with same[OF False] show ?thesis by (simp add: dealt_with_def)
  qed
  moreover have "hashed (s\<lparr>pp_entries := ?E\<rparr>) x" if "x \<in> H - {t}" for x
  proof -
    from that assms(1) have "hashed s x" by (simp add: hash_inv_def)
    with same[of x] that show ?thesis by (simp add: hashed_def)
  qed
  moreover have "set (dict_keys G) - insert t D - (H - {t}) \<subseteq> set (dict_keys G) - D - H" by blast
  then have "hash_of (pp_siggen ?s') x = None" if "x \<in> set (dict_keys G) - insert t D - (H - {t})" for x
    using assms(1) that unfolding hash_inv_def by auto
  moreover have "ok (pp_siggen ?s')" "dict_keys (pp_entries ?s') = dict_keys G" using assms(1) by (simp_all add: hash_inv_def)
  ultimately show ?thesis by (intro hash_invI)
qed

lemma hash_inv_unihashes:
  assumes "hash_inv G D H s" and "set ts \<subseteq> H" and "distinct ts"
    and "\<And>t. t \<in> set ts \<Longrightarrow> \<exists>h u. hash_of (pp_siggen s) t = Some h \<and> map_of unis t = Some u \<and> uni_ok h u"
  shows "\<exists>s'. act_for ts (enter_unihash_of unis) s = (Inr (), s') \<and>
      hash_inv G (D \<union> set ts) (H - set ts) s'"
  using assms
proof (induction ts arbitrary: D H s)
  case (Cons t ts)
  from Cons.prems(4)[of t] obtain h u where u: "hash_of (pp_siggen s) t = Some h" "map_of unis t = Some u" "uni_ok h u" by auto
  let ?s1 = "s\<lparr>pp_entries := update_entry t (\<lambda>e. e\<lparr>rt_unihash := Some u\<rparr>) (pp_entries s)\<rparr>"
  have inv: "hash_inv G (insert t D) (H - {t}) ?s1" using hash_inv_unihash[OF Cons.prems(1) _ u(1,3)] Cons.prems(2) by simp
  have "set ts \<subseteq> H - {t}" using Cons.prems(2,3) by auto
  from Cons.IH[OF inv this] Cons.prems(3,4) obtain s' where s': "act_for ts (enter_unihash_of unis) ?s1 = (Inr (), s')"
      "hash_inv G (insert t D \<union> set ts) (H - {t} - set ts) s'" by auto
  have "H - {t} - set ts = H - set (t # ts)" by auto
  moreover have "enter_unihash_of unis t s = (Inr (), ?s1)" using u(2) by (simp add: enter_unihash_of_def act_simps)
  ultimately show ?case using s' by (simp add: act_then_def act_bind_def)
qed (simp add: act_simps)

lemma hash_round_inv:
  assumes inv: "hash_inv G D {} s" and todeal: "set todeal \<subseteq> set (dict_keys G) - D" "distinct todeal"
    and known: "\<And>t. t \<in> set (dict_keys G) \<Longrightarrow> known t" and D: "set dealt = D" "D \<subseteq> set (dict_keys G)"
  shows "\<exists>s' ready. hash_round sg dealt todeal s = (Inr ready, s') \<and>
    ready = filter (\<lambda>t. set (entry_depends G t) \<subseteq> D) todeal \<and> hash_inv G (D \<union> set ready) {} s'"
proof -
  let ?ready = "filter (\<lambda>t. set (entry_depends G t) \<subseteq> D) todeal"
  have ready: "filter (\<lambda>tid. set (entry_depends (pp_entries s) tid) \<subseteq> set dealt) todeal = ?ready"
    using inv D(1) by (simp add: hash_inv_def)
  have "set ?ready \<subseteq> set (dict_keys G) - D - {}" "distinct ?ready" using todeal by auto
  from hash_inv_tasks[OF inv this _ known D(2)] obtain s1 where
    s1: "act_for ?ready (hash_task sg) s = (Inr (), s1)" "hash_inv G D (set ?ready) s1" by auto
  have "ok (pp_siggen s1)" using s1(2) by (simp add: hash_inv_def)
  moreover have "hash_of (pp_siggen s1) t \<noteq> None \<and> known t" if "t \<in> set ?ready" for t
  proof -
    from s1(2) that have "hashed s1 t" by (simp add: hash_inv_def)
    then have "hash_of (pp_siggen s1) t \<noteq> None" by (rule hashed_hash)
    with that todeal(1) known show ?thesis by auto
  qed
  ultimately obtain unis g' where g': "sg_unihashes sg ?ready (pp_siggen s1) = (Inr unis, g')" "ok g'"
      "hash_of g' = hash_of (pp_siggen s1)" and covers: "\<forall>u x. covers (pp_siggen s1) u x \<longrightarrow> covers g' u x"
      and unis: "\<forall>t \<in> set ?ready. \<exists>h u. hash_of (pp_siggen s1) t = Some h \<and> map_of unis t = Some u \<and> uni_ok h u"
    using unihashes[of "pp_siggen s1" ?ready] by blast
  let ?s2 = "s1\<lparr>pp_siggen := g'\<rparr>"
  have "dealt_with ?s2 t" if "dealt_with s1 t" for t using that covers g'(3) by (fastforce simp: dealt_with_def)
  moreover have "hashed ?s2 t" if "hashed s1 t" for t using that covers g'(3) by (fastforce simp: hashed_def)
  ultimately have "hash_inv G D (set ?ready) ?s2" using s1(2) g'(2,3) unfolding hash_inv_def by simp
  from hash_inv_unihashes[OF this subset_refl, of unis] todeal(2) g'(3) unis obtain s' where
    s': "act_for ?ready (enter_unihash_of unis) ?s2 = (Inr (), s')"
      "hash_inv G (D \<union> set ?ready) (set ?ready - set ?ready) s'" by auto
  have "hash_round sg dealt todeal s = (Inr ?ready, s')"
    unfolding hash_round_def act_bind_def act_then_def act_gets_def on_siggen_def act_zoom_def
    by (simp add: ready s1(1) g'(1) s'(1) act_return_def del: set_filter)
  with s'(2) show ?thesis by (intro exI[of _ s'] exI[of _ ?ready]) simp
qed

lemma hash_loop_inv:
  assumes "hash_inv G (set dealt) {} s" and "set todeal = set (dict_keys G) - set dealt" and "distinct todeal"
    and "length todeal \<le> n" and "set dealt \<subseteq> set (dict_keys G)"
    and "closed_graph G" and "acyclic (dep_rel G)" and "\<And>t. t \<in> set (dict_keys G) \<Longrightarrow> known t"
  shows "\<exists>s'. hash_loop n sg dealt todeal s = (Inr (), s') \<and> hash_inv G (set (dict_keys G)) {} s'"
  using assms(1-5)
proof (induction n arbitrary: dealt todeal s)
  case 0
  then have "todeal = []" "set dealt = set (dict_keys G)" by auto
  with 0 show ?case by (simp add: act_simps)
next
  case (Suc n)
  show ?case
  proof (cases todeal)
    case Nil
    then have "set dealt = set (dict_keys G)" using Suc.prems(2,5) by auto
    with Suc.prems(1) Nil show ?thesis by (simp add: act_simps)
  next
    case (Cons t ts)
    have "set todeal \<subseteq> set (dict_keys G) - set dealt" using Suc.prems(2) by simp
    from hash_round_inv[OF Suc.prems(1) this Suc.prems(3) assms(8) refl Suc.prems(5)] obtain s1 where
      round: "hash_round sg dealt todeal s = (Inr (filter (\<lambda>t. set (entry_depends G t) \<subseteq> set dealt) todeal), s1)"
      and s1: "hash_inv G (set dealt \<union> set (filter (\<lambda>t. set (entry_depends G t) \<subseteq> set dealt) todeal)) {} s1" by blast
    let ?ready = "filter (\<lambda>t. set (entry_depends G t) \<subseteq> set dealt) todeal"
    let ?rest = "filter (\<lambda>x. x \<notin> set ?ready) todeal"
    have "set todeal \<subseteq> set (dict_keys G)" "t \<in> set todeal" using Suc.prems(2) Cons by auto
    from minimal_task[OF assms(6,7) this(2,1)] obtain u where u: "u \<in> set todeal" "set (entry_depends G u) \<inter> set todeal = {}" by blast
    have "set (entry_depends G u) \<subseteq> set dealt" using u(2) Suc.prems(2) assms(6) unfolding closed_graph_def by blast
    with u(1) have "u \<in> set ?ready" by simp
    then have "length ?rest < length todeal" using u(1) by (intro length_filter_less) auto
    then have "length ?rest \<le> n" using Suc.prems(4) by simp
    moreover have "set ?rest = set (dict_keys G) - set (dealt @ ?ready)" using Suc.prems(2) by auto
    moreover have "distinct ?rest" using Suc.prems(3) by simp
    moreover have "set (dealt @ ?ready) \<subseteq> set (dict_keys G)" using Suc.prems(2,5) by auto
    moreover have "hash_inv G (set (dealt @ ?ready)) {} s1" using s1 by simp
    ultimately obtain s' where "hash_loop n sg (dealt @ ?ready) ?rest s1 = (Inr (), s')" "hash_inv G (set (dict_keys G)) {} s'"
      using Suc.IH[of "dealt @ ?ready" s1 ?rest] by blast
    with round show ?thesis unfolding Cons by (simp add: act_bind_def)
  qed
qed

lemma compute_hashes_all:
  assumes "closed_graph (pp_entries s)" and "acyclic (dep_rel (pp_entries s))" and "ok (pp_siggen s)"
    and "\<And>t. t \<in> set (dict_keys (pp_entries s)) \<Longrightarrow> known t \<and> hash_of (pp_siggen s) t = None"
  shows "\<exists>s'. compute_hashes sg s = (Inr (), s') \<and> hash_inv (pp_entries s) (set (dict_keys (pp_entries s))) {} s'"
proof -
  have "hash_inv (pp_entries s) (set []) {} s" using assms(3,4) by (simp add: hash_inv_def)
  from hash_loop_inv[OF this _ _ order_refl _ assms(1,2), of "dict_keys (pp_entries s)"] assms(1,4) show ?thesis
    unfolding compute_hashes_def by (simp add: closed_graph_def act_simps)
qed

end

end
