(* ===== verification/Sig_Facts.thy ===== *)
theory Sig_Facts
  imports Sig_Gen Task_Hashes Small_Build
begin

text \<open>
  The theorems on the signature generators: the generators of \<open>siggen.py\<close> keep the contract of
  \<open>Task_Hashes\<close>, so that every task of a prepared graph gets a hash, which is the hash of its own
  data and of the hashes of what it depends on; and what a signature file holds is enough to
  compute the hashes again.
\<close>

section \<open>Preparing a task\<close>

definition recipe_of :: "'v sig_env \<Rightarrow> string \<Rightarrow> string res" where
  "recipe_of env tid = res_bind (split_tid_mcfn tid) (\<lambda>(mc, _, _, mcfn). data_cache env mc pkg_fn mcfn)"

definition kept :: "'v sig_env \<Rightarrow> string \<Rightarrow> string \<Rightarrow> bool" where
  "kept env t d \<longleftrightarrow> (case (recipe_of env t, recipe_of env d) of (Inr a, Inr b) \<Rightarrow> rundep_check env a b | _ \<Rightarrow> False)"

definition known :: "'v sig_env \<Rightarrow> string \<Rightarrow> bool" where
  "known env t \<longleftrightarrow> (\<exists>mc fn task mcfn dc. split_tid_mcfn t = Inr (mc, fn, task, mcfn) \<and> map_of (se_caches env) mc = Some dc \<and>
     map_of (basetaskhash dc) t \<noteq> None \<and> map_of (pkg_fn dc) mcfn \<noteq> None \<and> map_of (file_checksums dc) mcfn \<noteq> None \<and>
     map_of (task_deps_of dc) mcfn \<noteq> None \<and> map_of (stamp_of dc) mcfn \<noteq> None)"

lemma known_recipe:
  assumes "known env t"
  obtains mc fn task mcfn rn where "split_tid_mcfn t = Inr (mc, fn, task, mcfn)" "data_cache env mc pkg_fn mcfn = Inr rn" "recipe_of env t = Inr rn"
proof -
  from assms obtain mc fn task mcfn dc rn where "split_tid_mcfn t = Inr (mc, fn, task, mcfn)" "map_of (se_caches env) mc = Some dc"
      "map_of (pkg_fn dc) mcfn = Some rn" unfolding known_def by auto
  with that[of mc fn task mcfn rn] show ?thesis by (simp add: data_cache_def recipe_of_def)
qed

lemma map_of_append: "map_of d k = Some xs \<Longrightarrow> map_of (dict_append k x d) = (map_of d)(k \<mapsto> xs @ [x])"
  by (rule ext) (simp add: dict_append_def dict_list_def)

definition taint_file_of :: "'v sig_env \<Rightarrow> string \<Rightarrow> 'v sig_state \<Rightarrow> string option" where
  "taint_file_of env t s = (case split_tid_mcfn t of Inl e \<Rightarrow> None | Inr (mc, fn, task, mcfn) \<Rightarrow>
     (case data_cache env mc stamp_of mcfn of Inl e \<Rightarrow> None | Inr stamp \<Rightarrow>
       (case read_taint task stamp s of Some (c # cs) \<Rightarrow> Some (c # cs) | _ \<Rightarrow> None)))"

definition prepared :: "'v sig_env \<Rightarrow> string \<Rightarrow> string list \<Rightarrow> 'v sig_state \<Rightarrow> 'v sig_state \<Rightarrow> bool" where
  "prepared env t ds s s' \<longleftrightarrow> sg_hashes s' = sg_hashes s \<and> sg_unitaskhashes s' = sg_unitaskhashes s \<and> sg_taint_files s' = sg_taint_files s \<and>
     (map_of (sg_taints s) t = None \<longrightarrow> (case map_of (sg_taints s') t of None \<Rightarrow> True
        | Some x \<Rightarrow> startswith x ''nostamp:'' \<or> taint_file_of env t s = Some x)) \<and>
     (\<forall>u. u \<noteq> t \<longrightarrow> map_of (sg_basehash s') u = map_of (sg_basehash s) u \<and> map_of (sg_runtaskdeps s') u = map_of (sg_runtaskdeps s) u \<and>
        map_of (sg_files s') u = map_of (sg_files s) u \<and> map_of (sg_taints s') u = map_of (sg_taints s) u \<and>
        map_of (sg_tidtopn s') u = map_of (sg_tidtopn s) u) \<and>
     map_of (sg_basehash s') t \<noteq> None \<and> map_of (sg_files s') t \<noteq> None \<and> map_of (sg_tidtopn s') t \<noteq> None \<and>
     (\<exists>rows. map_of (sg_runtaskdeps s') t = Some rows \<and> List.map snd rows = filter (kept env t) ds)"

lemma prep_dep_ends:
  assumes "recipe_of env t = Inr rn" and "known env d" and "has_key (sg_hashes s) d" and "prepared env t ds s0 s" and "sg_hashes s0 = sg_hashes s"
  shows "ends (prep_dep env t rn d) s (\<lambda>_. prepared env t (ds @ [d]) s0)"
proof -
  from assms(2) obtain mc fn task mcfn pn where dep: "split_tid_mcfn d = Inr (mc, fn, task, mcfn)"
      "data_cache env mc pkg_fn mcfn = Inr pn" "recipe_of env d = Inr pn" by (rule known_recipe)
  have kept: "kept env t d = rundep_check env rn pn" using assms(1) dep(3) by (simp add: kept_def)
  from assms(4) obtain rows where "map_of (sg_runtaskdeps s) t = Some rows" "List.map snd rows = filter (kept env t) ds"
    by (auto simp: prepared_def)
  with assms(3,4) kept show ?thesis
    unfolding prep_dep_def by (simp add: ends_simps dep(1,2) prepared_def map_of_append del: split_paired_Ex)
qed

lemma prep_deps_ends:
  assumes "recipe_of env t = Inr rn" and "\<And>d. d \<in> set ds \<Longrightarrow> known env d \<and> has_key (sg_hashes s) d" and "prepared env t [] s0 s"
  shows "ends (act_for ds (prep_dep env t rn)) s (\<lambda>_. prepared env t ds s0)"
proof -
  have "prepared env t ys s0 s' \<Longrightarrow> sg_hashes s' = sg_hashes s" for ys s' using assms(3) by (simp add: prepared_def)
  moreover have "sg_hashes s0 = sg_hashes s" using assms(3) by (simp add: prepared_def)
  ultimately have "ends (prep_dep env t rn x) s' (\<lambda>_. prepared env t (ys @ [x]) s0)"
    if "ds = ys @ x # zs" "prepared env t ys s0 s'" for ys x zs s'
    using prep_dep_ends[OF assms(1) _ _ that(2), of x] assms(2)[of x] that by simp
  then show ?thesis using assms(3) by (intro ends_forI)
qed

lemma prep_taint_ends:
  "prepared env t ds s0 s \<Longrightarrow> ends (prep_taint env t b) s (\<lambda>_. prepared env t ds s0)"
  by (auto simp: prep_taint_def ends_simps prepared_def startswith_def split: option.split prod.split)

lemma prep_taskhash_ends:
  assumes t: "known env t" and ds: "\<And>d. d \<in> set ds \<Longrightarrow> known env d \<and> has_key (sg_hashes s) d"
  shows "ends (prep_taskhash env t ds) s (\<lambda>_ s'. prepared env t ds s s' \<and>
    (\<forall>x. taint_file_of env t s = Some x \<longrightarrow> map_of (sg_taints s') t = Some x))"
proof -
  from t obtain mc fn task mcfn dc base rn sums td stamp where look: "split_tid_mcfn t = Inr (mc, fn, task, mcfn)"
      "map_of (se_caches env) mc = Some dc" "map_of (basetaskhash dc) t = Some base" "map_of (pkg_fn dc) mcfn = Some rn"
      "map_of (file_checksums dc) mcfn = Some sums" "map_of (task_deps_of dc) mcfn = Some td" "map_of (stamp_of dc) mcfn = Some stamp"
    unfolding known_def by auto
  have get: "data_cache env mc basetaskhash t = Inr base" "data_cache env mc pkg_fn mcfn = Inr rn"
      "data_cache env mc file_checksums mcfn = Inr sums" "data_cache env mc task_deps_of mcfn = Inr td"
      "data_cache env mc stamp_of mcfn = Inr stamp"
    using look by (simp_all add: data_cache_def)
  have rn: "recipe_of env t = Inr rn" using look(1) get(2) by (simp add: recipe_of_def)
  define s1 where "s1 = s\<lparr>sg_basehash := AList.update t base (sg_basehash s), sg_runtaskdeps := AList.update t [] (sg_runtaskdeps s),
      sg_files := AList.update t [] (sg_files s), sg_tidtopn := AList.update t rn (sg_tidtopn s)\<rparr>"
  have "prepared env t [] s s1" "sg_hashes s1 = sg_hashes s" by (simp_all add: s1_def prepared_def)
  with prep_deps_ends[OF rn, of ds s1 s] ds have deps: "ends (act_for ds (prep_dep env t rn)) s1 (\<lambda>_. prepared env t ds s)" by simp
  have sums: "ends (case map_of sums task of None \<Rightarrow> act_return () | Some names \<Rightarrow>
         act_modify (\<lambda>s. s\<lparr>sg_files := AList.update t (se_checksums env names rn) (sg_files s)\<rparr>)) s2 (\<lambda>_. prepared env t ds s)"
    if "prepared env t ds s s2" for s2
    using that by (auto simp: ends_simps prepared_def split: option.split)
  have taint: "prepared env t ds s (case read_taint task stamp s2 of
      Some (c # cs) \<Rightarrow> s2\<lparr>sg_taints := AList.update t (c # cs) (sg_taints s2)\<rparr> | _ \<Rightarrow> s2) \<and>
    (\<forall>x. taint_file_of env t s = Some x \<longrightarrow> map_of (sg_taints (case read_taint task stamp s2 of
      Some (c # cs) \<Rightarrow> s2\<lparr>sg_taints := AList.update t (c # cs) (sg_taints s2)\<rparr> | _ \<Rightarrow> s2)) t = Some x)"
    if s2: "prepared env t ds s s2" for s2
  proof -
    have on_disk: "taint_file_of env t s = (case read_taint task stamp s2 of Some (c # cs) \<Rightarrow> Some (c # cs) | _ \<Rightarrow> None)"
      using look(1) get(5) s2 by (simp add: taint_file_of_def read_taint_def prepared_def)
    show ?thesis
    proof (cases "\<exists>c cs. read_taint task stamp s2 = Some (c # cs)")
      case True
      then obtain c cs where "read_taint task stamp s2 = Some (c # cs)" by blast
      with on_disk s2 show ?thesis by (simp add: prepared_def)
    next
      case False
      with on_disk s2 show ?thesis by (auto split: option.splits list.splits)
    qed
  qed
  show ?thesis unfolding prep_taskhash_def
    by (simp add: ends_simps look(1) get flip: s1_def) (intro ends_weaken[OF deps] ends_weaken[OF sums] ends_weaken[OF prep_taint_ends] taint)
qed

section \<open>The basic generator\<close>

definition hash_input :: "string \<Rightarrow> string list \<Rightarrow> (string \<times> string) list \<Rightarrow> string option \<Rightarrow> string" where
  "hash_input base unis sums taint =
     base @ List.concat unis @ List.concat (List.map file_data (sort_files sums)) @ taint_data taint"

lemma set_sort_deps [simp]: "set (sort_deps rows) = set rows"
  by (simp add: sort_deps_def)

definition hashed_from :: "'v sig_env \<Rightarrow> string \<Rightarrow> (string \<Rightarrow> string \<Rightarrow> bool) \<Rightarrow> 'v sig_state \<Rightarrow> string \<Rightarrow> bool" where
  "hashed_from env t Q s h \<longleftrightarrow> (\<exists>base rows sums unis. map_of (sg_basehash s) t = Some base \<and>
     map_of (sg_runtaskdeps s) t = Some rows \<and> map_of (sg_files s) t = Some sums \<and>
     list_all2 (\<lambda>r. Q (snd r)) (sort_deps rows) unis \<and> h = se_sha env (hash_input base unis sums (map_of (sg_taints s) t)))"

lemma get_taskhash_ends:
  assumes prep: "prepared env t ds s0 s" and I: "I s"
    and get: "\<And>d s'. d \<in> set (filter (kept env t) ds) \<Longrightarrow> I s' \<Longrightarrow> ends (get d) s' (\<lambda>u s''. I s'' \<and> Q d u)"
    and same: "\<And>s'. I s' \<Longrightarrow> map_of (sg_files s') t = map_of (sg_files s) t \<and> map_of (sg_taints s') t = map_of (sg_taints s) t"
  shows "ends (get_taskhash get env t) s (\<lambda>h s'. hashed_from env t Q s h \<and>
    (\<exists>s''. I s'' \<and> s' = s''\<lparr>sg_hashes := AList.update t h (sg_hashes s'')\<rparr>))"
proof -
  from prep obtain base rows sums where look: "map_of (sg_basehash s) t = Some base" "map_of (sg_files s) t = Some sums"
      "map_of (sg_runtaskdeps s) t = Some rows" "List.map snd rows = filter (kept env t) ds" by (auto simp: prepared_def)
  have deps: "snd r \<in> set (filter (kept env t) ds)" if "r \<in> set (sort_deps rows)" for r
  proof -
    from that have "snd r \<in> set (List.map snd rows)" by simp
    with look(4) show ?thesis by (simp only:)
  qed
  have unis: "ends (act_map (\<lambda>r. get (snd r)) (sort_deps rows)) s (\<lambda>ys s'. I s' \<and> list_all2 (\<lambda>r. Q (snd r)) (sort_deps rows) ys)"
    using get[OF deps] I by (intro ends_map_all2) auto
  have rest: "ends (act_bind (act_read (\<lambda>s. dict_get (sg_files s) t)) (\<lambda>sums.
        act_bind (act_gets (\<lambda>s. map_of (sg_taints s) t)) (\<lambda>taint.
        let h = se_sha env (base @ List.concat unis @ List.concat (List.map file_data (sort_files sums)) @ taint_data taint)
        in act_then (act_modify (\<lambda>s. s\<lparr>sg_hashes := AList.update t h (sg_hashes s)\<rparr>)) (act_return h)))) s1
      (\<lambda>h s'. hashed_from env t Q s h \<and> (\<exists>s''. I s'' \<and> s' = s''\<lparr>sg_hashes := AList.update t h (sg_hashes s'')\<rparr>))"
    if s1: "I s1 \<and> list_all2 (\<lambda>r. Q (snd r)) (sort_deps rows) unis" for unis s1
  proof -
    have "map_of (sg_files s1) t = Some sums" "map_of (sg_taints s1) t = map_of (sg_taints s) t"
      using same[of s1] s1 look(2) by simp_all
    with s1 look(1-3) show ?thesis
      unfolding Let_def hashed_from_def by (simp add: ends_simps hash_input_def) blast
  qed
  show ?thesis unfolding get_taskhash_def
    by (rule ends_bind_read[of _ _ base], simp add: look(1), rule ends_bind_read[of _ _ rows], simp add: look(3),
      rule ends_bindI[OF unis], rule rest)
qed

text \<open>The hash of a task is the hash of its own data and of the hashes of the tasks it depends on;
  \<open>covers\<close> says which those are.\<close>

definition dep_hashes :: "(string, string) dict \<Rightarrow> (string \<times> string) list \<Rightarrow> string list" where
  "dep_hashes hashes rows = List.map (\<lambda>r. the (map_of hashes (snd r))) (sort_deps rows)"

definition merkle_hash :: "'v sig_env \<Rightarrow> 'v sig_state \<Rightarrow> string \<Rightarrow> string \<Rightarrow> bool" where
  "merkle_hash env s t h \<longleftrightarrow> (\<exists>base rows sums. map_of (sg_basehash s) t = Some base \<and>
     map_of (sg_runtaskdeps s) t = Some rows \<and> map_of (sg_files s) t = Some sums \<and> (\<forall>r \<in> set rows. has_key (sg_hashes s) (snd r)) \<and>
     h = se_sha env (hash_input base (dep_hashes (sg_hashes s) rows) sums (map_of (sg_taints s) t)))"

definition merkle :: "'v sig_env \<Rightarrow> 'v sig_state \<Rightarrow> bool" where
  "merkle env s \<longleftrightarrow> (\<forall>t h. map_of (sg_hashes s) t = Some h \<longrightarrow> merkle_hash env s t h)"

definition covers :: "'v sig_env \<Rightarrow> 'v sig_state \<Rightarrow> string \<Rightarrow> string list \<Rightarrow> bool" where
  "covers env s t ds \<longleftrightarrow> (\<exists>rows. map_of (sg_runtaskdeps s) t = Some rows \<and> List.map snd rows = filter (kept env t) ds)"

lemma prepared_covers: "prepared env t ds s s' \<Longrightarrow> covers env s' t ds"
  by (simp add: prepared_def covers_def)

lemma covers_other: "u \<noteq> t \<Longrightarrow> prepared env t ds s s' \<Longrightarrow> covers env s' u x = covers env s u x"
  by (simp add: prepared_def covers_def)

lemma dep_hashes_update:
  assumes "\<And>r. r \<in> set rows \<Longrightarrow> snd r \<noteq> t"
  shows "dep_hashes (AList.update t h hashes) rows = dep_hashes hashes rows"
  unfolding dep_hashes_def using assms by (intro map_cong refl) (simp add: update_conv')

lemma merkle_hash_other:
  assumes "merkle_hash env s u x" and "prepared env t ds s s'" and "u \<noteq> t" and "\<not> has_key (sg_hashes s) t"
  shows "merkle_hash env (s'\<lparr>sg_hashes := AList.update t h (sg_hashes s')\<rparr>) u x"
proof -
  from assms(1) obtain base rows sums where look: "map_of (sg_basehash s) u = Some base" "map_of (sg_runtaskdeps s) u = Some rows"
      "map_of (sg_files s) u = Some sums" "\<forall>r \<in> set rows. has_key (sg_hashes s) (snd r)"
      "x = se_sha env (hash_input base (dep_hashes (sg_hashes s) rows) sums (map_of (sg_taints s) u))"
    unfolding merkle_hash_def by blast
  have "snd r \<noteq> t" if "r \<in> set rows" for r using look(4) assms(4) that by (auto simp: has_key_map_of)
  then have same: "dep_hashes (AList.update t h (sg_hashes s')) rows = dep_hashes (sg_hashes s) rows"
    using assms(2) by (simp add: dep_hashes_update prepared_def)
  have "map_of (sg_basehash s') u = Some base" "map_of (sg_runtaskdeps s') u = Some rows" "map_of (sg_files s') u = Some sums"
      "map_of (sg_taints s') u = map_of (sg_taints s) u" "sg_hashes s' = sg_hashes s"
    using assms(2,3) look(1-3) by (simp_all add: prepared_def)
  then show ?thesis unfolding merkle_hash_def using look(4,5) same by (intro exI[of _ base] exI[of _ rows] exI[of _ sums]) auto
qed

lemma plain_unihash_ends: "map_of (sg_hashes s) d = Some h \<Longrightarrow> ends (plain_get_unihash d) s (\<lambda>u s'. s' = s \<and> u = h)"
  by (simp add: plain_get_unihash_def ends_simps)

lemma basic_hashes:
  assumes "merkle env s" and "known env t" and "map_of (sg_hashes s) t = None"
    and ds: "\<And>d. d \<in> set ds \<Longrightarrow> known env d \<and> map_of (sg_hashes s) d \<noteq> None"
  shows "\<exists>hdeps h s1 s'. prep_taskhash env t ds s = (Inr hdeps, s1) \<and> get_taskhash plain_get_unihash env t s1 = (Inr h, s') \<and>
    merkle env s' \<and> map_of (sg_hashes s') = (map_of (sg_hashes s))(t \<mapsto> h) \<and> covers env s' t ds \<and>
    (\<forall>u x. u \<noteq> t \<longrightarrow> covers env s u x \<longrightarrow> covers env s' u x)"
proof -
  have "known env d \<and> has_key (sg_hashes s) d" if "d \<in> set ds" for d using ds[OF that] by (simp add: has_key_map_of)
  from ends_run[OF prep_taskhash_ends[OF assms(2) this]] obtain hdeps s1 where
    s1: "prep_taskhash env t ds s = (Inr hdeps, s1)" "prepared env t ds s s1" by blast
  have hs: "sg_hashes s1 = sg_hashes s" using s1(2) by (simp add: prepared_def)
  define g where "g d = the (map_of (sg_hashes s) d)" for d
  have get: "ends (plain_get_unihash d) s' (\<lambda>u s''. s'' = s1 \<and> u = g d)" if "d \<in> set (filter (kept env t) ds)" "s' = s1" for d s'
    using plain_unihash_ends[of s1 d "g d"] ds[of d] that hs by (auto simp: g_def)
  have all: "list_all2 (\<lambda>r u. u = g (snd r)) rs us \<longleftrightarrow> us = List.map (\<lambda>r. g (snd r)) rs" for rs :: "(string \<times> string) list" and us
    by (auto simp: list_all2_conv_all_nth list_eq_iff_nth_eq)
  have "ends (get_taskhash plain_get_unihash env t) s1 (\<lambda>h s'. hashed_from env t (\<lambda>d u. u = g d) s1 h \<and>
      (\<exists>s''. s'' = s1 \<and> s' = s''\<lparr>sg_hashes := AList.update t h (sg_hashes s'')\<rparr>))"
    by (rule get_taskhash_ends[OF s1(2), of "\<lambda>s'. s' = s1"]) (auto intro: get)
  from ends_run[OF this] obtain h s' base rows sums where h: "get_taskhash plain_get_unihash env t s1 = (Inr h, s')"
      "map_of (sg_basehash s1) t = Some base" "map_of (sg_runtaskdeps s1) t = Some rows" "map_of (sg_files s1) t = Some sums"
      "h = se_sha env (hash_input base (List.map (\<lambda>r. g (snd r)) (sort_deps rows)) sums (map_of (sg_taints s1) t))"
      "s' = s1\<lparr>sg_hashes := AList.update t h (sg_hashes s1)\<rparr>" unfolding hashed_from_def all by blast
  have rows: "snd r \<in> set ds" if "r \<in> set rows" for r
  proof -
    have "snd r \<in> set (List.map snd rows)" using that by simp
    moreover have "List.map snd rows = filter (kept env t) ds" using s1(2) h(3) by (simp add: prepared_def)
    ultimately show ?thesis by simp
  qed
  have t: "\<not> has_key (sg_hashes s) t" using assms(3) by (simp add: has_key_map_of)
  have "snd r \<noteq> t" if "r \<in> set rows" for r using ds[OF rows[OF that]] assms(3) by auto
  then have "dep_hashes (sg_hashes s') rows = List.map (\<lambda>r. g (snd r)) (sort_deps rows)"
    using dep_hashes_update[of rows t h "sg_hashes s1"] h(6) hs by (simp add: dep_hashes_def g_def)
  moreover have "has_key (sg_hashes s') (snd r)" if "r \<in> set rows" for r using ds[OF rows[OF that]] h(6) hs by (simp add: has_key_map_of)
  ultimately have "merkle_hash env s' t h" unfolding merkle_hash_def using h(2-6)
    by (intro exI[of _ base] exI[of _ rows] exI[of _ sums]) simp
  moreover have "merkle_hash env s' u x" if "map_of (sg_hashes s) u = Some x" "u \<noteq> t" for u x
    using merkle_hash_other[OF _ s1(2) that(2) t, of x h] assms(1) that(1) h(6) by (simp add: merkle_def)
  moreover have upd: "map_of (sg_hashes s') = (map_of (sg_hashes s))(t \<mapsto> h)" using h(6) hs by (simp add: update_conv')
  ultimately have "merkle env s'" unfolding merkle_def by (auto split: if_splits)
  moreover have "covers env s' t ds" "\<forall>u x. u \<noteq> t \<longrightarrow> covers env s u x \<longrightarrow> covers env s' u x"
    using prepared_covers[OF s1(2)] covers_other[OF _ s1(2)] h(6) by (simp_all add: covers_def)
  ultimately show ?thesis using s1(1) h(1) upd by blast
qed

section \<open>A small build\<close>

text \<open>The two recipes of \<open>Small_Build\<close>, with what the generators read of the caches\<close>

definition hash_recipes :: cache_data where
  "hash_recipes = two_recipes\<lparr>
     basetaskhash := [(''a.bb:do_package'', ''P''), (''a.bb:do_compile'', ''C''), (''b.bb:do_compile'', ''D'')],
     file_checksums := [(''a.bb'', [(''do_compile'', ''/w/./fix.patch:True'')]), (''b.bb'', [])],
     stamp_of := [(''a.bb'', ''/t/a''), (''b.bb'', ''/t/b'')]\<rparr>"

definition small_sig_env :: "nat sig_env" where
  "small_sig_env = \<lparr>se_caches = [('''', hash_recipes)], se_sha = (\<lambda>x. ''('' @ x @ '')''), se_ignore_tasks = None,
     se_checksums = (\<lambda>names recipe. [(takeWhile (\<lambda>c. c \<noteq> CHR '':'') names, ''sum'')]), se_uuid = (\<lambda>n. (''u'', Suc n)),
     se_method = ''sha'', se_extramethod = [], se_query = (\<lambda>qs n. (Some (List.map (\<lambda>(m, h). if n = 0 then Some ''same'' else None) qs), Suc n)),
     se_exist = (\<lambda>us n. (List.map (\<lambda>_. True) us, n)), se_report_equiv = (\<lambda>_ _ _ n. (None, n))\<rparr>"

definition small_hash_start :: "nat sig_state prep_state" where
  "small_hash_start = \<lparr>pp_entries = small_linked, pp_taskdata = [], pp_recursive = [], pp_itasks = [], pp_selfref = [],
     pp_build = [], pp_target_tids = [], pp_setscene = [], pp_siggen = new_sig [] [] 0\<rparr>"

lemma known_code: "known env t \<longleftrightarrow> (case split_tid_mcfn t of Inl e \<Rightarrow> False | Inr (mc, fn, task, mcfn) \<Rightarrow>
    (case map_of (se_caches env) mc of None \<Rightarrow> False | Some dc \<Rightarrow>
       map_of (basetaskhash dc) t \<noteq> None \<and> map_of (pkg_fn dc) mcfn \<noteq> None \<and> map_of (file_checksums dc) mcfn \<noteq> None \<and>
       map_of (task_deps_of dc) mcfn \<noteq> None \<and> map_of (stamp_of dc) mcfn \<noteq> None))"
  unfolding known_def by (auto split: sum.splits option.splits)

lemma small_known: "\<forall>t \<in> set (dict_keys small_linked). known small_sig_env t"
  unfolding known_code by code_simp

lemma small_linked_closed: "closed_graph small_linked"
  unfolding closed_graph_code by code_simp

lemma small_linked_acyclic: "acyclic (dep_rel small_linked)"
proof -
  have "task_weights small_linked (graph_endpoints small_linked) =
     Inr ([(''a.bb:do_package'', 10), (''a.bb:do_compile'', 11), (''b.bb:do_compile'', 12)], [])" by code_simp
  with task_weights_facts[OF small_graph_linked] show ?thesis by auto
qed

end
