(* ===== verification/Sig_Files.thy ===== *)
theory Sig_Files
  imports Sig_Facts
begin

text \<open>
  What a signature file holds is enough to compute the two hashes of a task again: \<open>dump_sigtask\<close>
  compares them with the ones it recorded. The hash of the variables is over everything the task
  reaches in the dependencies between variables.
\<close>

section \<open>The task hash\<close>

lemma basename_no_slash: "CHR ''/'' \<notin> set (basename f)"
  unfolding basename_def by (auto dest: set_takeWhileD)

lemma contains_mem: "contains s sub \<Longrightarrow> set sub \<subseteq> set s"
proof (induction s)
  case (Cons c cs)
  show ?case
  proof (cases "startswith (c # cs) sub")
    case True
    then have "sub = take (length sub) (c # cs)" by (simp add: startswith_def)
    then have "set sub = set (take (length sub) (c # cs))" by (rule arg_cong)
    then show ?thesis using set_take_subset[of "length sub" "c # cs"] by simp
  next
    case False
    with Cons show ?thesis by auto
  qed
qed simp

lemma startswith_contains: "startswith s p \<Longrightarrow> contains s p"
  by (cases s) (auto simp: startswith_def)

lemma calc_file_data_clean: "calc_file_data (clean_checksum_file_path f, cs) = file_data (f, cs)"
proof (cases "contains f ''/./''")
  case True
  then show ?thesis by (simp add: calc_file_data_def file_data_def clean_checksum_file_path_def startswith_def)
next
  case False
  have "\<not> contains (basename f) ''./''" using contains_mem[of "basename f" "''./''"] basename_no_slash[of f] by auto
  with False show ?thesis by (simp add: calc_file_data_def file_data_def clean_checksum_file_path_def)
qed

text \<open>The taint that is written is the one that was hashed.\<close>

lemma dumped_taint:
  assumes "prepared env t ds s s1" and "map_of (sg_taints s) t = None" and "split_tid_mcfn t = Inr (mc, fn, task, mcfn)"
    and "data_cache env mc stamp_of mcfn = Inr stamp"
    and "\<forall>x. taint_file_of env t s = Some x \<longrightarrow> map_of (sg_taints s1) t = Some x"
    and "\<forall>x. taint_file_of env t s = Some x \<longrightarrow> contains x ''nostamp:'' \<longrightarrow> startswith x ''nostamp:''"
  shows "calc_taint_data (dump_taint t (case read_taint task stamp s1 of Some (c # cs) \<Rightarrow> Some (c # cs) | _ \<Rightarrow> None) s1) =
    taint_data (map_of (sg_taints s1) t)"
proof -
  have on_disk: "(case read_taint task stamp s1 of Some (c # cs) \<Rightarrow> Some (c # cs) | _ \<Rightarrow> None) = taint_file_of env t s"
    using assms(1,3,4) by (simp add: taint_file_of_def read_taint_def prepared_def)
  have prep: "case map_of (sg_taints s1) t of None \<Rightarrow> True | Some x \<Rightarrow> startswith x ''nostamp:'' \<or> taint_file_of env t s = Some x"
    using assms(1,2) by (simp add: prepared_def)
  have "dump_taint t (taint_file_of env t s) s1 = map_of (sg_taints s1) t"
    using prep assms(5) startswith_contains
    by (cases "taint_file_of env t s") (auto simp: dump_taint_def split: option.splits)
  moreover have "contains x ''nostamp:'' = startswith x ''nostamp:''" if "map_of (sg_taints s1) t = Some x" for x
    using prep that assms(6) startswith_contains[of x "''nostamp:''"] by auto
  ultimately show ?thesis unfolding on_disk
    by (cases "map_of (sg_taints s1) t") (simp_all add: calc_taint_data_def taint_data_def)
qed

lemma map_of_fold_updates:
  "t \<in> fst ` set rows \<or> (\<exists>u. map_of d t = Some u \<and> P u) \<Longrightarrow> (\<And>u. (t, u) \<in> set rows \<Longrightarrow> P u) \<Longrightarrow>
   \<exists>u. map_of (fold (\<lambda>(t, u). AList.update t u) rows d) t = Some u \<and> P u"
proof (induction rows arbitrary: d)
  case (Cons r rows)
  obtain x y where r: "r = (x, y)" by fastforce
  have "t \<in> fst ` set rows \<or> (\<exists>u. map_of (AList.update x y d) t = Some u \<and> P u)"
    using Cons.prems(1) Cons.prems(2)[of y] r by (auto simp: update_conv')
  from Cons.IH[OF this] Cons.prems(2) r show ?case by simp
qed simp

lemma dumped_dep_hashes:
  assumes "distinct (List.map fst rows)"
  shows "res_map (dict_get (fold (\<lambda>(p, x). AList.update p x) (List.map (\<lambda>(p, d). (p, g d)) rows) []))
     (List.map fst (sort_deps rows)) = Inr (List.map (\<lambda>r. g (snd r)) (sort_deps rows))"
proof -
  let ?H = "fold (\<lambda>(p, x). AList.update p x) (List.map (\<lambda>(p, d). (p, g d)) rows) []"
  have look: "map_of ?H p = Some (g d)" if "(p, d) \<in> set rows" for p d
  proof -
    have "\<exists>u. map_of ?H p = Some u \<and> u = g d"
    proof (rule map_of_fold_updates)
      show "p \<in> fst ` set (List.map (\<lambda>(p, d). (p, g d)) rows) \<or> (\<exists>u. map_of [] p = Some u \<and> u = g d)"
        using that by force
      show "u = g d" if "(p, u) \<in> set (List.map (\<lambda>(p, d). (p, g d)) rows)" for u
        using that \<open>(p, d) \<in> set rows\<close> assms by (auto dest: eq_key_imp_eq_value)
    qed
    then show ?thesis by simp
  qed
  have "res_map (dict_get ?H) (List.map fst rs) = Inr (List.map (\<lambda>r. g (snd r)) rs)" if "set rs \<subseteq> set rows" for rs
    using that by (induction rs) (auto simp: look)
  then show ?thesis by simp
qed

lemma act_map_plain:
  "(\<And>r. r \<in> set rs \<Longrightarrow> map_of (sg_hashes s) (snd r) = Some (g (snd r))) \<Longrightarrow>
   act_map (\<lambda>(pnid, dep). act_bind (plain_get_unihash dep) (\<lambda>u. act_return (pnid, u))) rs s =
     (Inr (List.map (\<lambda>(p, d). (p, g d)) rs), s)"
proof (induction rs)
  case (Cons r rs)
  let ?f = "\<lambda>(pnid, dep). act_bind (plain_get_unihash dep) (\<lambda>u. act_return (pnid, u))"
  have "act_map ?f rs s = (Inr (List.map (\<lambda>(p, d). (p, g d)) rs), s)" using Cons by simp
  moreover from Cons.prems[of r] have "?f r s = (Inr (fst r, g (snd r)), s)"
    by (cases r) (simp add: plain_get_unihash_def act_bind_def act_read_def act_return_def)
  ultimately show ?case unfolding act_map.simps by (simp add: act_bind_def act_return_def split: prod.split)
qed (simp add: act_simps)

lemma task_sigdata_run:
  assumes "map_of (sg_basehash s) t = Some base" and "map_of (sg_runtaskdeps s) t = Some rows" and "map_of (sg_files s) t = Some sums"
    and "map_of (sg_hashes s) t = Some h" and "dump_varvals ignore vals task taskdeps = Inr vv"
    and "\<And>r. r \<in> set rows \<Longrightarrow> map_of (sg_hashes s) (snd r) = Some (g (snd r))"
  shows "task_sigdata plain_get_unihash t task stamp ignore taskdeps vals s = (Inr \<lparr>sd_task = task, sd_taskdeps = taskdeps,
      sd_basehash = base, sd_varvals = vv, sd_runtaskdeps = List.map fst (sort_deps rows),
      sd_files = List.map (\<lambda>(f, cs). (clean_checksum_file_path f, cs)) (sort_files sums),
      sd_runtaskhashes = fold (\<lambda>(p, x). AList.update p x) (List.map (\<lambda>(p, d). (p, g d)) rows) [], sd_taskhash = h, sd_unihash = h,
      sd_taint = dump_taint t (case read_taint task stamp s of Some (c # cs) \<Rightarrow> Some (c # cs) | _ \<Rightarrow> None) s\<rparr>, s)"
proof -
  have "plain_get_unihash t s = (Inr h, s)" using assms(4) by (simp add: plain_get_unihash_def act_simps)
  note plain = this
  from act_map_plain[of rows s g] assms(6) have
    "act_map (\<lambda>(pnid, dep). act_bind (plain_get_unihash dep) (\<lambda>u. act_return (pnid, u))) rows s =
     (Inr (List.map (\<lambda>(p, d). (p, g d)) rows), s)" by blast
  then show ?thesis unfolding task_sigdata_def act_bind_def act_lift_def act_gets_def act_read_def
    using assms(1-5) plain by (simp add: act_bind_def)
qed

text \<open>C25: A signature file is written with the hash the task has: the hash computed again from what
  the file holds - the base hash, the unihashes recorded under the names of the dependencies, the
  cleaned file names with their checksums, and the taint - is the hash \<open>get_taskhash\<close> recorded.
  This needs that no two dependencies share the name they are recorded under, and that a taint
  file does not hold the mark of a nostamp task other than at its start.\<close>

theorem dumped_taskhash:
  assumes "known env t" and "\<forall>d \<in> set ds. known env d \<and> has_key (sg_hashes s) d" and "t \<notin> set ds"
    and "map_of (sg_taints s) t = None"
    and "split_tid_mcfn t = Inr (mc, fn, task, mcfn)" and "data_cache env mc stamp_of mcfn = Inr stamp"
    and "\<forall>x. taint_file_of env t s = Some x \<longrightarrow> contains x ''nostamp:'' \<longrightarrow> startswith x ''nostamp:''"
    and "dump_varvals ignore vals task taskdeps = Inr vv"
  shows "\<exists>hdeps s1 h s2 d. prep_taskhash env t ds s = (Inr hdeps, s1) \<and> get_taskhash plain_get_unihash env t s1 = (Inr h, s2) \<and>
    task_sigdata plain_get_unihash t task stamp ignore taskdeps vals s2 = (Inr d, s2) \<and> sd_taskhash d = h \<and>
    (distinct (List.map fst (dict_list (sg_runtaskdeps s2) t)) \<longrightarrow> calc_taskhash (se_sha env) d = Inr h)"
proof -
  from ends_run[OF prep_taskhash_ends[OF assms(1), of ds s]] assms(2) obtain hdeps s1 where
    s1: "prep_taskhash env t ds s = (Inr hdeps, s1)" "prepared env t ds s s1"
      "\<forall>x. taint_file_of env t s = Some x \<longrightarrow> map_of (sg_taints s1) t = Some x" by blast
  have hs: "sg_hashes s1 = sg_hashes s" using s1(2) by (simp add: prepared_def)
  define g where "g d = the (map_of (sg_hashes s) d)" for d
  have get: "ends (plain_get_unihash d) s' (\<lambda>u s''. s'' = s1 \<and> u = g d)" if "d \<in> set (filter (kept env t) ds)" "s' = s1" for d s'
    using plain_unihash_ends[of s1 d "g d"] assms(2) that hs by (auto simp: g_def has_key_map_of)
  have all: "list_all2 (\<lambda>r u. u = g (snd r)) rs us \<longleftrightarrow> us = List.map (\<lambda>r. g (snd r)) rs" for rs :: "(string \<times> string) list" and us
    by (auto simp: list_all2_conv_all_nth list_eq_iff_nth_eq)
  have "ends (get_taskhash plain_get_unihash env t) s1 (\<lambda>h s'. hashed_from env t (\<lambda>d u. u = g d) s1 h \<and>
      (\<exists>s''. s'' = s1 \<and> s' = s''\<lparr>sg_hashes := AList.update t h (sg_hashes s'')\<rparr>))"
    by (rule get_taskhash_ends[OF s1(2), of "\<lambda>s'. s' = s1"]) (auto intro: get)
  from ends_run[OF this] obtain h s2 base rows sums where h: "get_taskhash plain_get_unihash env t s1 = (Inr h, s2)"
      "map_of (sg_basehash s1) t = Some base" "map_of (sg_runtaskdeps s1) t = Some rows" "map_of (sg_files s1) t = Some sums"
      "h = se_sha env (hash_input base (List.map (\<lambda>r. g (snd r)) (sort_deps rows)) sums (map_of (sg_taints s1) t))"
      "s2 = s1\<lparr>sg_hashes := AList.update t h (sg_hashes s1)\<rparr>" unfolding hashed_from_def all by blast
  have rows: "map_of (sg_hashes s2) (snd r) = Some (g (snd r))" if "r \<in> set rows" for r
  proof -
    have "snd r \<in> set (List.map snd rows)" using that by simp
    moreover have "List.map snd rows = filter (kept env t) ds" using s1(2) h(3) by (simp add: prepared_def)
    ultimately have "snd r \<in> set ds" by simp
    with assms(2,3) hs h(6) show ?thesis by (auto simp: g_def update_conv' has_key_map_of)
  qed
  let ?taint = "dump_taint t (case read_taint task stamp s2 of Some (c # cs) \<Rightarrow> Some (c # cs) | _ \<Rightarrow> None) s2"
  have "calc_taint_data ?taint = taint_data (map_of (sg_taints s1) t)"
    using dumped_taint[OF s1(2) assms(4-6) s1(3) assms(7)] h(6) by (simp add: dump_taint_def read_taint_def)
  note taint = this
  have "calc_file_data \<circ> (\<lambda>(f, cs). (clean_checksum_file_path f, cs)) = file_data"
    by (simp add: fun_eq_iff calc_file_data_clean)
  note calc = this dumped_dep_hashes[of rows g]
  have same: "map_of (sg_basehash s2) t = Some base" "map_of (sg_runtaskdeps s2) t = Some rows" "map_of (sg_files s2) t = Some sums"
    "map_of (sg_hashes s2) t = Some h" "dict_list (sg_runtaskdeps s2) t = rows"
    using h(2-4,6) by (simp_all add: dict_list_def)
  from task_sigdata_run[OF same(1-4) assms(8) rows] obtain d where
    d: "task_sigdata plain_get_unihash t task stamp ignore taskdeps vals s2 = (Inr d, s2)" "sd_taskhash d = h" "sd_basehash d = base"
      "sd_runtaskdeps d = List.map fst (sort_deps rows)" "sd_taint d = ?taint"
      "sd_files d = List.map (\<lambda>(f, cs). (clean_checksum_file_path f, cs)) (sort_files sums)"
      "sd_runtaskhashes d = fold (\<lambda>(p, x). AList.update p x) (List.map (\<lambda>(p, d). (p, g d)) rows) []" by simp
  have "calc_taskhash (se_sha env) d = Inr h" if "distinct (List.map fst rows)"
    using calc(2)[OF that] taint h(5) unfolding calc_taskhash_def d(3-7) hash_input_def by (simp add: calc(1))
  with s1(1) h(1) d(1,2) same(5) show ?thesis by blast
qed

section \<open>The hash of the variables\<close>

definition closed_vars :: "(string, string list) dict \<Rightarrow> bool" where
  "closed_vars G \<longleftrightarrow> (\<forall>(v, ds) \<in> set G. set ds \<subseteq> set (dict_keys G))"

definition var_rel :: "(string, string list) dict \<Rightarrow> (string \<times> string) set" where
  "var_rel G = {(v, w). \<exists>ds. map_of G v = Some ds \<and> w \<in> set ds}"

lemma closed_varsD: "closed_vars G \<Longrightarrow> map_of G v = Some ds \<Longrightarrow> set ds \<subseteq> set (dict_keys G)"
  unfolding closed_vars_def using map_of_SomeD by fast

lemma vars_below_run:
  assumes "set vs \<subseteq> set (dict_keys G)"
  shows "\<exists>new. vars_below G vs = Inr new \<and> set new = var_rel G `` set vs"
proof -
  have "\<exists>new. res_fold (\<lambda>dep acc. res_bind (dict_get G dep) (\<lambda>ds. Inr (set_union acc ds))) vs acc = Inr new \<and>
      set new = set acc \<union> var_rel G `` set vs" for acc
    using assms
  proof (induction vs arbitrary: acc)
    case (Cons v vs)
    from Cons.prems have "v \<in> set (dict_keys G)" by simp
    from map_of_key[OF this] obtain ds where ds: "map_of G v = Some ds" ..
    then have "var_rel G `` {v} = set ds" by (auto simp: var_rel_def)
    moreover have "var_rel G `` set (v # vs) = var_rel G `` {v} \<union> var_rel G `` set vs" by auto
    moreover from Cons.IH[of "set_union acc ds"] Cons.prems obtain new where
      "res_fold (\<lambda>dep acc. res_bind (dict_get G dep) (\<lambda>ds. Inr (set_union acc ds))) vs (set_union acc ds) = Inr new"
      "set new = set (set_union acc ds) \<union> var_rel G `` set vs" by auto
    ultimately show ?case using ds by (intro exI[of _ new]) (auto simp del: map_eq_Cons_conv)
  qed simp
  from this[of "[]"] show ?thesis by (simp add: vars_below_def)
qed

lemma close_vars_reaches:
  assumes "closed_vars G" and "set vs \<subseteq> set (dict_keys G)" and "set seen \<subseteq> set (dict_keys G)" and "set vs \<inter> set seen = {}"
    and "card (set (dict_keys G) - set seen) < n" and "var_rel G `` set seen \<subseteq> set seen \<union> set vs"
    and "set seen \<union> set vs \<subseteq> R" and "var_rel G `` R \<subseteq> R" and "\<And>v. v \<in> R \<Longrightarrow> \<exists>u \<in> I. (u, v) \<in> (var_rel G)\<^sup>*" and "I \<subseteq> set seen \<union> set vs"
  shows "\<exists>out. close_vars n G vs seen = Inr out \<and> set out = R"
  using assms(2-7,10)
proof (induction n arbitrary: vs seen)
  case (Suc n)
  show ?case
  proof (cases vs)
    case Nil
    have "(var_rel G)\<^sup>* `` set seen \<subseteq> set seen" using Suc.prems(5) Nil by (intro Image_closed_trancl[THEN equalityD1]) auto
    then have "R \<subseteq> set seen" using assms(9) Suc.prems(7) Nil by fastforce
    with Suc.prems(6) Nil show ?thesis by auto
  next
    case (Cons v ws)
    let ?seen = "set_union seen (v # ws)"
    from vars_below_run[of vs G] Suc.prems(1) obtain new where new: "vars_below G vs = Inr new" "set new = var_rel G `` set vs" by blast
    have "var_rel G `` X \<subseteq> set (dict_keys G)" for X using closed_varsD[OF assms(1)] by (fastforce simp: var_rel_def)
    then have "set new \<subseteq> set (dict_keys G)" unfolding new(2) .
    then have 1: "set (set_diff new ?seen) \<subseteq> set (dict_keys G)" "set ?seen \<subseteq> set (dict_keys G)" "set (set_diff new ?seen) \<inter> set ?seen = {}"
      using Suc.prems(1,2) Cons by auto
    have "v \<in> set (dict_keys G) - set seen" using Suc.prems(1,3) Cons by auto
    then have "set (dict_keys G) - set ?seen \<subset> set (dict_keys G) - set seen" by auto
    then have "card (set (dict_keys G) - set ?seen) < card (set (dict_keys G) - set seen)" by (intro psubset_card_mono) auto
    with Suc.prems(4) have 2: "card (set (dict_keys G) - set ?seen) < n" by simp
    have 3: "var_rel G `` set ?seen \<subseteq> set ?seen \<union> set (set_diff new ?seen)" using Suc.prems(5) new(2) Cons by auto
    have "var_rel G `` set vs \<subseteq> R" using Suc.prems(6) assms(8) by blast
    then have 4: "set ?seen \<union> set (set_diff new ?seen) \<subseteq> R" using Suc.prems(6) unfolding set_set_diff set_set_union new(2) Cons by blast
    have 5: "I \<subseteq> set ?seen \<union> set (set_diff new ?seen)" using Suc.prems(7) Cons by auto
    from Suc.IH[OF 1 2 3 4 5] new(1) Cons show ?thesis by (simp add: Let_def)
  qed
qed simp

definition base_data :: "(string, string option) dict \<Rightarrow> string \<Rightarrow> string list \<Rightarrow> string" where
  "base_data vals task deps = List.concat (List.map (\<lambda>v. case map_of vals v of Some (Some x) \<Rightarrow> x | _ \<Rightarrow> []) [task]) @
     List.concat (List.map (\<lambda>v. v @ (case map_of vals v of Some (Some x) \<Rightarrow> x | _ \<Rightarrow> [])) (sort deps))"

lemma var_data_rows:
  "set vs \<subseteq> set (dict_keys vals) \<Longrightarrow>
   res_map (var_data vals) vs = Inr (List.map (\<lambda>v. v @ (case map_of vals v of Some (Some x) \<Rightarrow> x | _ \<Rightarrow> [])) vs)"
proof (induction vs)
  case (Cons v vs)
  then have "v \<in> set (dict_keys vals)" by simp
  from map_of_key[OF this] obtain x where "map_of vals v = Some x" ..
  with Cons show ?case by (auto simp: var_data_def split: option.split)
qed simp

lemma task_basehash_run:
  assumes "closed_vars G" and "task \<in> set (dict_keys G)" and "set (dict_keys G) \<subseteq> set (dict_keys vals)"
  shows "\<exists>seen. task_basehash sha G vals task = Inr (seen, sha (base_data vals task seen)) \<and> set seen = {v. (task, v) \<in> (var_rel G)\<^sup>+}"
proof -
  from map_of_key[OF assms(2)] obtain new where new: "map_of G task = Some new" ..
  have sub: "set new \<subseteq> set (dict_keys G)" by (rule closed_varsD[OF assms(1) new])
  let ?R = "{v. (task, v) \<in> (var_rel G)\<^sup>+}"
  have step: "set new = var_rel G `` {task}" using new by (auto simp: var_rel_def)
  have reach: "\<exists>u \<in> set new. (u, v) \<in> (var_rel G)\<^sup>*" if "v \<in> ?R" for v
    using that unfolding step by (auto dest: tranclD)
  have "var_rel G `` ?R \<subseteq> ?R" "set new \<subseteq> ?R" using step by (auto intro: trancl_into_trancl)
  moreover have "card (set (dict_keys G)) < Suc (length G)"
    using card_length[of "dict_keys G"] by simp
  ultimately have "\<exists>out. close_vars (Suc (length G)) G new [] = Inr out \<and> set out = ?R"
    using sub reach by (intro close_vars_reaches[OF assms(1), where I = "set new"]) auto
  then obtain seen where seen: "close_vars (Suc (length G)) G new [] = Inr seen" "set seen = ?R" by blast
  have "?R \<subseteq> set (dict_keys G)"
  proof
    fix v assume "v \<in> ?R"
    then have "(task, v) \<in> (var_rel G)\<^sup>+" by simp
    then show "v \<in> set (dict_keys G)" by (cases rule: trancl.cases) (use closed_varsD[OF assms(1)] in \<open>auto simp: var_rel_def\<close>)
  qed
  then have vals: "set (sort seen) \<subseteq> set (dict_keys vals)" using seen(2) assms(3) by simp
  have "task \<in> set (dict_keys vals)" using assms(2,3) by blast
  from map_of_key[OF this] obtain x where "map_of vals task = Some x" ..
  with new seen var_data_rows[OF vals] show ?thesis
    by (intro exI[of _ seen]) (auto simp: task_basehash_def base_data_def split: option.split)
qed

lemma map_of_dumped:
  assumes "task \<in> set (dict_keys vals)" and "set deps \<subseteq> set (dict_keys vals)" and "set deps \<inter> set ignore = {}"
  shows "\<exists>vv. dump_varvals ignore vals task deps = Inr vv \<and> (\<forall>v \<in> insert task (set deps). map_of vv v = map_of vals v)"
proof -
  have "\<exists>vv. res_fold (\<lambda>dep d. res_bind (dict_get vals dep) (\<lambda>v. Inr (AList.update dep v d))) vs d = Inr vv \<and>
      (\<forall>v. map_of vv v = (if v \<in> set vs then map_of vals v else map_of d v))"
    if "set vs \<subseteq> set (dict_keys vals)" for vs d
    using that
  proof (induction vs arbitrary: d)
    case (Cons v vs)
    from Cons.prems have "v \<in> set (dict_keys vals)" by simp
    from map_of_key[OF this] obtain x where x: "map_of vals v = Some x" ..
    from Cons.IH[of "AList.update v x d"] Cons.prems obtain vv where
      "res_fold (\<lambda>dep d. res_bind (dict_get vals dep) (\<lambda>v. Inr (AList.update dep v d))) vs (AList.update v x d) = Inr vv"
      "\<forall>w. map_of vv w = (if w \<in> set vs then map_of vals w else map_of (AList.update v x d) w)" by auto
    with x show ?case by (intro exI[of _ vv]) (simp add: update_conv')
  qed simp
  from this[of "task # deps" "[]"] assms obtain vv where
    "res_fold (\<lambda>dep d. res_bind (dict_get vals dep) (\<lambda>v. Inr (AList.update dep v d))) (task # deps) [] = Inr vv"
    "\<forall>v. map_of vv v = (if v \<in> set (task # deps) then map_of vals v else None)" by auto
  moreover have "filter (\<lambda>dep. dep \<notin> set ignore) deps = deps" using assms(3) by (auto intro: filter_True)
  ultimately show ?thesis by (simp add: dump_varvals_def)
qed

text \<open>C27: The hash of the variables of each task of a recipe is computed whatever the dependencies
  between the variables are, cyclic ones included: the loop of \<open>generate_dependency_hash\<close> ends,
  finds exactly the variables the task reaches, and hashes the names and values of these in the
  order of their names.\<close>

theorem base_hashes:
  assumes "closed_vars G" and "set tasklist \<subseteq> set (dict_keys G)" and "set (dict_keys G) \<subseteq> set (dict_keys vals)"
  shows "\<exists>deps hashes. generate_dependency_hash sha tasklist G vals fn = Inr (deps, hashes) \<and>
    (\<forall>task \<in> set tasklist. \<exists>seen. map_of deps task = Some seen \<and> set seen = {v. (task, v) \<in> (var_rel G)\<^sup>+} \<and>
       map_of hashes (fn @ '':'' @ task) = Some (sha (base_data vals task seen)))"
proof -
  let ?step = "\<lambda>task (taskdeps, basehash). res_bind (task_basehash sha G vals task) (\<lambda>(seen, h).
       Inr (AList.update task seen taskdeps, AList.update (fn @ '':'' @ task) h basehash))"
  let ?good = "\<lambda>deps hashes task. \<exists>seen. map_of deps task = Some seen \<and> set seen = {v. (task, v) \<in> (var_rel G)\<^sup>+} \<and>
       map_of hashes (fn @ '':'' @ task) = Some (sha (base_data vals task seen))"
  have "\<exists>deps hashes. res_fold ?step tasks (D, H) = Inr (deps, hashes) \<and>
      (\<forall>task. task \<in> set tasks \<or> ?good D H task \<longrightarrow> ?good deps hashes task)" if "set tasks \<subseteq> set (dict_keys G)" for tasks D H
    using that
  proof (induction tasks arbitrary: D H)
    case (Cons t tasks)
    from Cons.prems have t: "t \<in> set (dict_keys G)" "set tasks \<subseteq> set (dict_keys G)" by (simp_all del: set_map)
    from task_basehash_run[OF assms(1) t(1) assms(3), of sha] obtain seen where
      seen: "task_basehash sha G vals t = Inr (seen, sha (base_data vals t seen))" "set seen = {v. (t, v) \<in> (var_rel G)\<^sup>+}" by blast
    let ?D = "AList.update t seen D" and ?H = "AList.update (fn @ '':'' @ t) (sha (base_data vals t seen)) H"
    from Cons.IH[OF t(2), of ?D ?H] obtain deps hashes where run: "res_fold ?step tasks (?D, ?H) = Inr (deps, hashes)"
        "\<And>task. task \<in> set tasks \<or> ?good ?D ?H task \<Longrightarrow> ?good deps hashes task" by blast
    have new: "?good ?D ?H task" if "task = t \<or> ?good D H task" for task using that seen(2) by (auto simp: update_conv')
    have "?good deps hashes task" if "task \<in> set (t # tasks) \<or> ?good D H task" for task
    proof (cases "task \<in> set tasks")
      case False
      with that have "task = t \<or> ?good D H task" by simp
      then show ?thesis using run(2)[of task] new[of task] by blast
    qed (rule run(2), blast)
    moreover have "res_fold ?step (t # tasks) (D, H) = Inr (deps, hashes)" using run(1) seen(1) by simp
    ultimately show ?case by blast
  qed auto
  from this[OF assms(2), of "[]" "[]"] show ?thesis unfolding generate_dependency_hash_def by blast
qed

text \<open>The hash of the variables computed again from a signature file, over the variables and
  values it holds, is the one \<open>generate_dependency_hash\<close> computed, when no variable the task
  reaches is left out of the file.\<close>

theorem dumped_basehash:
  assumes "closed_vars G" and "task \<in> set (dict_keys G)" and "set (dict_keys G) \<subseteq> set (dict_keys vals)"
    and "\<forall>v \<in> set ignore. (task, v) \<notin> (var_rel G)\<^sup>+"
  shows "\<exists>seen h vv. task_basehash sha G vals task = Inr (seen, h) \<and> dump_varvals ignore vals task seen = Inr vv \<and>
    (\<forall>d. sd_task d = task \<and> sd_taskdeps d = seen \<and> sd_varvals d = vv \<longrightarrow> calc_basehash sha d = Inr h)"
proof -
  from task_basehash_run[OF assms(1-3), of sha] obtain seen where
    seen: "task_basehash sha G vals task = Inr (seen, sha (base_data vals task seen))" "set seen = {v. (task, v) \<in> (var_rel G)\<^sup>+}" by blast
  have "set seen \<subseteq> set (dict_keys G)"
  proof
    fix v assume "v \<in> set seen"
    then have "(task, v) \<in> (var_rel G)\<^sup>+" using seen(2) by simp
    then show "v \<in> set (dict_keys G)" by (cases rule: trancl.cases) (use closed_varsD[OF assms(1)] in \<open>auto simp: var_rel_def\<close>)
  qed
  then have sub: "task \<in> set (dict_keys vals)" "set seen \<subseteq> set (dict_keys vals)" using assms(2,3) by blast+
  have "set seen \<inter> set ignore = {}" using assms(4) seen(2) by blast
  from map_of_dumped[OF sub this] obtain vv where
    vv: "dump_varvals ignore vals task seen = Inr vv" "\<And>v. v \<in> insert task (set seen) \<Longrightarrow> map_of vv v = map_of vals v" by blast
  have row: "var_data vv v = var_data vals v" if "v \<in> set (sort seen)" for v
    using vv(2)[of v] that by (simp add: var_data_def dict_get_def)
  have "res_map (var_data vv) vs = res_map (var_data vals) vs" if "set vs \<subseteq> set (sort seen)" for vs
    using that by (induction vs) (simp_all add: row)
  then have "res_map (var_data vv) (sort seen) = res_map (var_data vals) (sort seen)" by blast
  moreover from map_of_key[OF sub(1)] obtain x where "map_of vals task = Some x" ..
  ultimately have "calc_basehash sha d = Inr (sha (base_data vals task seen))"
    if "sd_task d = task" "sd_taskdeps d = seen" "sd_varvals d = vv" for d
    using that vv(2)[of task] sub(2) var_data_rows[of "sort seen" vals]
    by (simp add: calc_basehash_def base_data_def split: option.split)
  with seen(1) vv(1) show ?thesis by blast
qed

section \<open>Instances\<close>

text \<open>Two variables that depend on each other\<close>

definition some_vars :: "(string, string list) dict" where
  "some_vars = [(''do_compile'', [''A'']), (''A'', [''B'']), (''B'', [''A'', ''C'']), (''C'', []), (''D'', [''A''])]"

definition some_values :: "(string, string option) dict" where
  "some_values = [(''do_compile'', Some ''make''), (''A'', Some ''1''), (''B'', None), (''C'', Some ''2''), (''D'', None)]"

lemma some_vars_closed: "closed_vars some_vars"
  by code_simp

theorem base_hashes_witness:
  "\<exists>deps hashes. generate_dependency_hash id [''do_compile''] some_vars some_values ''a.bb'' = Inr (deps, hashes) \<and>
    (\<forall>task \<in> set [''do_compile'']. \<exists>seen. map_of deps task = Some seen \<and> set seen = {v. (task, v) \<in> (var_rel some_vars)\<^sup>+} \<and>
       map_of hashes (''a.bb'' @ '':'' @ task) = Some (id (base_data some_values task seen)))"
  by (rule base_hashes[OF some_vars_closed]) (code_simp, code_simp)

lemma D_unreached: "(u, ''D'') \<notin> (var_rel some_vars)\<^sup>+"
proof
  assume "(u, ''D'') \<in> (var_rel some_vars)\<^sup>+"
  then obtain v ds where "map_of some_vars v = Some ds" "''D'' \<in> set ds" by (cases rule: trancl.cases) (auto simp: var_rel_def)
  then have "(v, ds) \<in> set some_vars" "''D'' \<in> set ds" by (auto dest: map_of_SomeD)
  moreover have "\<forall>(v, ds) \<in> set some_vars. ''D'' \<notin> set ds" by code_simp
  ultimately show False by blast
qed

theorem dumped_basehash_witness:
  "\<exists>seen h vv. task_basehash id some_vars some_values ''do_compile'' = Inr (seen, h) \<and>
    dump_varvals [''D''] some_values ''do_compile'' seen = Inr vv \<and>
    (\<forall>d. sd_task d = ''do_compile'' \<and> sd_taskdeps d = seen \<and> sd_varvals d = vv \<longrightarrow> calc_basehash id d = Inr h)"
  by (rule dumped_basehash[OF some_vars_closed]) (code_simp, code_simp, simp add: D_unreached)

definition hashed_b :: "nat sig_state" where
  "hashed_b = (new_sig [] [(''/t/a.do_compile.taint'', ''uuid'')] 0)\<lparr>sg_hashes := [(''b.bb:do_compile'', ''(D)'')]\<rparr>"

theorem dumped_taskhash_witness:
  "\<exists>hdeps s1 h s2 d. prep_taskhash small_sig_env ''a.bb:do_compile'' [''b.bb:do_compile''] hashed_b = (Inr hdeps, s1) \<and>
    get_taskhash plain_get_unihash small_sig_env ''a.bb:do_compile'' s1 = (Inr h, s2) \<and>
    task_sigdata plain_get_unihash ''a.bb:do_compile'' ''do_compile'' ''/t/a'' [] [] [(''do_compile'', None)] s2 = (Inr d, s2) \<and>
    sd_taskhash d = h \<and>
    (distinct (List.map fst (dict_list (sg_runtaskdeps s2) ''a.bb:do_compile'')) \<longrightarrow> calc_taskhash (se_sha small_sig_env) d = Inr h)"
proof (rule dumped_taskhash)
  show "known small_sig_env ''a.bb:do_compile''" unfolding known_code by code_simp
  show "\<forall>d \<in> set [''b.bb:do_compile'']. known small_sig_env d \<and> has_key (sg_hashes hashed_b) d"
    unfolding known_code by code_simp
  show "''a.bb:do_compile'' \<notin> set [''b.bb:do_compile'']" by simp
  show "map_of (sg_taints hashed_b) ''a.bb:do_compile'' = None" by code_simp
  show "split_tid_mcfn ''a.bb:do_compile'' = Inr ('''', ''a.bb'', ''do_compile'', ''a.bb'')" by code_simp
  show "data_cache small_sig_env '''' stamp_of ''a.bb'' = Inr ''/t/a''" by code_simp
  have "taint_file_of small_sig_env ''a.bb:do_compile'' hashed_b = Some ''uuid''" by code_simp
  moreover have "\<not> contains ''uuid'' ''nostamp:''" by code_simp
  ultimately show "\<forall>x. taint_file_of small_sig_env ''a.bb:do_compile'' hashed_b = Some x \<longrightarrow>
      contains x ''nostamp:'' \<longrightarrow> startswith x ''nostamp:''" by simp
  show "dump_varvals [] [(''do_compile'', None)] ''do_compile'' [] = Inr [(''do_compile'', None)]" by code_simp
qed

end
