(* ===== verification/Hash_Equivalence.thy ===== *)
theory Hash_Equivalence
  imports Sig_Files
begin

text \<open>
  The generator with hash equivalence asks a server for the unihashes it has not cached. Both
  generators keep the contract of \<open>Task_Hashes\<close>, here as interpretations of its locale, and so every
  task of a prepared graph gets its hash.
\<close>

section \<open>Hash equivalence\<close>

text \<open>The server answers every query of a batch, or none.\<close>

definition answers_all :: "'v sig_env \<Rightarrow> bool" where
  "answers_all env \<longleftrightarrow> (\<forall>qs v. case fst (se_query env qs v) of None \<Rightarrow> True | Some us \<Rightarrow> length us = length qs)"

definition has_recipes :: "'v sig_state \<Rightarrow> bool" where
  "has_recipes s \<longleftrightarrow> (\<forall>t. has_key (sg_hashes s) t \<longrightarrow> has_key (sg_tidtopn s) t)"

definition same_tasks :: "'v sig_state \<Rightarrow> 'v sig_state \<Rightarrow> bool" where
  "same_tasks s s' \<longleftrightarrow> sg_basehash s' = sg_basehash s \<and> sg_hashes s' = sg_hashes s \<and> sg_runtaskdeps s' = sg_runtaskdeps s \<and>
     sg_files s' = sg_files s \<and> sg_taints s' = sg_taints s \<and> sg_tidtopn s' = sg_tidtopn s \<and>
     sg_setscenetasks s' = sg_setscenetasks s"

definition unihash_for :: "'v sig_state \<Rightarrow> string \<Rightarrow> string \<Rightarrow> bool" where
  "unihash_for s t u \<longleftrightarrow> u \<noteq> [] \<or> map_of (sg_hashes s) t = Some u"

definition good_tid :: "'v sig_state \<Rightarrow> string \<Rightarrow> bool" where
  "good_tid s t \<longleftrightarrow> has_key (sg_hashes s) t \<and> has_key (sg_tidtopn s) t \<and> (\<exists>x. split_tid_mcfn t = Inr x)"

lemma good_tidE:
  assumes "good_tid s t"
  obtains h key where "map_of (sg_hashes s) t = Some h" "unihash_key t s = Inr key" "has_key (sg_tidtopn s) t"
proof -
  from assms obtain h mc fn task mcfn pn where "map_of (sg_hashes s) t = Some h" "split_tid_mcfn t = Inr (mc, fn, task, mcfn)"
      "map_of (sg_tidtopn s) t = Some pn" unfolding good_tid_def has_key_map_of by (metis prod_cases4 not_None_eq)
  with that show thesis by (simp add: unihash_key_def has_key_map_of)
qed

lemma same_good: "same_tasks s s' \<Longrightarrow> good_tid s' t = good_tid s t"
  by (simp add: same_tasks_def good_tid_def)

lemma same_tasks_refl [simp]: "same_tasks s s"
  by (simp add: same_tasks_def)

lemma same_tasks_trans: "same_tasks s s' \<Longrightarrow> same_tasks s' s'' \<Longrightarrow> same_tasks s s''"
  by (simp add: same_tasks_def)

lemma cached_or_query_ends:
  assumes "good_tid s t"
  shows "ends (cached_or_query t) s (\<lambda>row s'. same_tasks s s' \<and> (row = ([], [t]) \<or> (\<exists>c cs. row = ([(t, c # cs)], []))))"
proof -
  from assms obtain h key where look: "map_of (sg_hashes s) t = Some h" "unihash_key t s = Inr key" "has_key (sg_tidtopn s) t"
    by (rule good_tidE)
  have "\<exists>u. priv_get_unihash t None s = Inr u"
    using look by (simp add: priv_get_unihash_def split: option.split)
  then obtain u where u: "priv_get_unihash t None s = Inr u" ..
  show ?thesis unfolding cached_or_query_def get_cached_unihash_def
    by (cases u rule: option.exhaust) (auto simp: ends_simps look(1) u same_tasks_def split: list.split)
qed

lemma ask_server_ends:
  assumes "answers_all env" and "\<And>t. t \<in> set ts \<Longrightarrow> good_tid s t"
  shows "ends (ask_server env ts) s (\<lambda>us s'. same_tasks s s' \<and> (us = [] \<or> length us = length ts))"
proof -
  have "\<exists>qs. res_map (\<lambda>tid. res_bind (dict_get (sg_hashes s) tid) (\<lambda>h. Inr (get_method env tid, h))) ts = Inr qs \<and> length qs = length ts"
    using assms(2)
  proof (induction ts)
    case (Cons t ts)
    from Cons.prems[of t] obtain h where "map_of (sg_hashes s) t = Some h" by (auto simp: good_tid_def has_key_map_of)
    with Cons show ?case by auto
  qed simp
  then obtain qs where qs: "res_map (\<lambda>tid. res_bind (dict_get (sg_hashes s) tid) (\<lambda>h. Inr (get_method env tid, h))) ts = Inr qs"
    "length qs = length ts" by blast
  obtain answer v where v: "se_query env qs (sg_world s) = (answer, v)" by fastforce
  have "case fst (se_query env qs (sg_world s)) of None \<Rightarrow> True | Some us \<Rightarrow> length us = length qs"
    using assms(1) by (simp add: answers_all_def)
  then show ?thesis using qs(2) unfolding ask_server_def
    by (cases "ts = []") (simp_all add: ends_simps qs(1) v same_tasks_def split: option.splits)
qed

lemma enter_unihash_ends:
  assumes "good_tid s t" and "us = [] \<or> i < length us"
  shows "ends (enter_unihash us (i, t)) s (\<lambda>r s'. same_tasks s s' \<and> fst r = t \<and> unihash_for s t (snd r))"
proof -
  from assms obtain h key where look: "map_of (sg_hashes s) t = Some h" "unihash_key t s = Inr key" by (auto elim: good_tidE)
  have set: "ends (sig_set_unihash t x) s (\<lambda>_ s'. same_tasks s s')" for x
    by (simp add: sig_set_unihash_def ends_simps look same_tasks_def)
  define o' where "o' = (if us = [] then None else us ! i)"
  have o': "(if us = [] then act_return None else act_lift (list_get us i)) = (act_lift (Inr o') :: ('a sig_state, string option) act)"
    using assms(2) by (auto simp: o'_def act_return_def act_lift_def list_get_def)
  let ?u = "case o' of Some (c # cs) \<Rightarrow> c # cs | _ \<Rightarrow> h"
  have "unihash_for s t ?u" using look(1) by (auto simp: unihash_for_def split: option.split list.split)
  then show ?thesis using set[of ?u] unfolding enter_unihash_def o' Let_def prod.case
    by (simp add: ends_simps look(1))
qed

lemma query_rows:
  assumes "list_all2 (\<lambda>t row. row = ([], [t]) \<or> (\<exists>c cs. row = ([(t, c # cs)], []))) ts rows"
  shows "set (List.concat (List.map snd rows)) \<subseteq> set ts"
    and "t \<in> set ts \<Longrightarrow> t \<in> fst ` set (List.concat (List.map fst rows)) \<or> t \<in> set (List.concat (List.map snd rows))"
    and "(t, u) \<in> set (List.concat (List.map fst rows)) \<Longrightarrow> u \<noteq> []"
proof -
  have "set (List.concat (List.map snd rows)) \<subseteq> set ts \<and>
    (t \<in> set ts \<longrightarrow> t \<in> fst ` set (List.concat (List.map fst rows)) \<or> t \<in> set (List.concat (List.map snd rows))) \<and>
    ((t, u) \<in> set (List.concat (List.map fst rows)) \<longrightarrow> u \<noteq> [])"
    using assms by (induction rule: list_all2_induct) auto
  then show "set (List.concat (List.map snd rows)) \<subseteq> set ts"
    and "t \<in> set ts \<Longrightarrow> t \<in> fst ` set (List.concat (List.map fst rows)) \<or> t \<in> set (List.concat (List.map snd rows))"
    and "(t, u) \<in> set (List.concat (List.map fst rows)) \<Longrightarrow> u \<noteq> []" by blast+
qed

lemma enter_rows:
  assumes "list_all2 (\<lambda>(i, t) r. fst r = t \<and> unihash_for s t (snd r)) (List.enumerate n qs) found"
  shows "List.map fst found = qs" and "(t, u) \<in> set found \<Longrightarrow> unihash_for s t u"
proof -
  have "List.map fst found = qs \<and> (\<forall>r \<in> set found. unihash_for s (fst r) (snd r))"
    using assms
  proof (induction qs arbitrary: n found)
    case (Cons q qs)
    from Cons.prems obtain r rs where "found = r # rs" "fst r = q" "unihash_for s q (snd r)"
        "list_all2 (\<lambda>(i, t) r. fst r = t \<and> unihash_for s t (snd r)) (List.enumerate (Suc n) qs) rs"
      by (auto simp: list_all2_Cons1)
    with Cons.IH[of "Suc n" rs] show ?case by simp
  qed simp
  then show "List.map fst found = qs" and "(t, u) \<in> set found \<Longrightarrow> unihash_for s t u" by auto
qed

lemma uni_get_unihashes_ends:
  assumes "answers_all env" and ts: "\<And>t. t \<in> set ts \<Longrightarrow> good_tid s t"
  shows "ends (uni_get_unihashes env ts) s
    (\<lambda>d s'. same_tasks s s' \<and> (\<forall>t \<in> set ts. \<exists>u. map_of d t = Some u \<and> unihash_for s t u))"
proof -
  let ?row = "\<lambda>t row. row = ([], [t]) \<or> (\<exists>c cs. row = ([(t, c # cs)], []))"
  have "ends (act_map cached_or_query ts) s (\<lambda>rows s'. same_tasks s s' \<and> list_all2 ?row ts rows)"
  proof (rule ends_map_all2)
    fix t s' assume "t \<in> set ts" "same_tasks s s'"
    with ts[of t] same_good[of s s' t] cached_or_query_ends[of s' t] show
      "ends (cached_or_query t) s' (\<lambda>row s'. same_tasks s s' \<and> ?row t row)"
      by (auto elim!: ends_weaken intro: same_tasks_trans)
  qed simp
  note first = this
  have second: "ends (act_bind (ask_server env (List.concat (List.map snd rows))) (\<lambda>unihashes.
        act_bind (act_map (enter_unihash unihashes) (List.enumerate 0 (List.concat (List.map snd rows)))) (\<lambda>found.
        act_return (fold (\<lambda>(t, u). AList.update t u) (List.concat (List.map fst rows) @ found) [])))) s'
      (\<lambda>d s'. same_tasks s s' \<and> (\<forall>t \<in> set ts. \<exists>u. map_of d t = Some u \<and> unihash_for s t u))"
    if s': "same_tasks s s' \<and> list_all2 ?row ts rows" for rows s'
  proof -
    let ?cached = "List.concat (List.map fst rows)" and ?qs = "List.concat (List.map snd rows)"
    have good: "good_tid s' q" if "q \<in> set ?qs" for q
      using query_rows(1)[of ts rows] s' that ts same_good[of s s' q] by auto
    have ask: "ends (ask_server env ?qs) s' (\<lambda>us s2. same_tasks s' s2 \<and> (us = [] \<or> length us = length ?qs))"
      by (rule ask_server_ends[OF assms(1) good])
    have enter: "ends (act_map (enter_unihash us) (List.enumerate 0 ?qs)) s2
       (\<lambda>found s3. same_tasks s s3 \<and> list_all2 (\<lambda>(i, t) r. fst r = t \<and> unihash_for s t (snd r)) (List.enumerate 0 ?qs) found)"
      if s2: "same_tasks s' s2 \<and> (us = [] \<or> length us = length ?qs)" for us s2
    proof (rule ends_map_all2)
      show "same_tasks s s2" using s2 s' by (auto intro: same_tasks_trans)
    next
      fix x t assume x: "x \<in> set (List.enumerate 0 ?qs)" and t: "same_tasks s t"
      obtain i q where q: "x = (i, q)" by fastforce
      with x have "i < length ?qs" "q = ?qs ! i" by (simp_all add: in_set_enumerate_eq)
      then have i: "i < length ?qs" "q \<in> set ?qs" using nth_mem by blast+
      have "good_tid t q" using good[OF i(2)] s' t same_good[of s s' q] same_good[of s t q] by simp
      moreover have "us = [] \<or> i < length us" using s2 i(1) by auto
      ultimately have "ends (enter_unihash us (i, q)) t (\<lambda>r s'. same_tasks t s' \<and> fst r = q \<and> unihash_for t q (snd r))"
        by (rule enter_unihash_ends)
      moreover have "unihash_for t q u = unihash_for s q u" for u using t by (simp add: unihash_for_def same_tasks_def)
      ultimately show "ends (enter_unihash us x) t (\<lambda>r s3. same_tasks s s3 \<and> (\<lambda>(i, t) r. fst r = t \<and> unihash_for s t (snd r)) x r)"
        unfolding q using t by (auto elim!: ends_weaken intro: same_tasks_trans)
    qed
    have last: "\<exists>u. map_of (fold (\<lambda>(t, u). AList.update t u) (?cached @ found) []) t = Some u \<and> unihash_for s t u"
      if found: "list_all2 (\<lambda>(i, t) r. fst r = t \<and> unihash_for s t (snd r)) (List.enumerate 0 ?qs) found" and t: "t \<in> set ts" for t found
    proof (rule map_of_fold_updates)
      show "t \<in> fst ` set (?cached @ found) \<or> (\<exists>u. map_of [] t = Some u \<and> unihash_for s t u)"
        using query_rows(2)[OF conjunct2[OF s'] t] arg_cong[OF enter_rows(1)[OF found], of set]
        unfolding set_append image_Un set_map by blast
      show "unihash_for s t u" if "(t, u) \<in> set (?cached @ found)" for u
        using query_rows(3)[of ts rows t u] s' that enter_rows(2)[OF found] by (auto simp: unihash_for_def)
    qed
    show ?thesis
      by (rule ends_bindI[OF ask], rule ends_bindI[OF enter], assumption) (simp add: ends_simps last del: fold_append)
  qed
  show ?thesis unfolding uni_get_unihashes_def Let_def by (rule ends_bindI[OF first second])
qed

lemma uni_get_unihash_ends:
  "answers_all env \<Longrightarrow> good_tid s t \<Longrightarrow> ends (uni_get_unihash env t) s (\<lambda>u s'. same_tasks s s' \<and> unihash_for s t u)"
  unfolding uni_get_unihash_def ends_steps
  by (rule ends_weaken[OF uni_get_unihashes_ends[of env "[t]" s]]) (auto simp: ends_simps)

text \<open>The invariant and the relation of a hash and its unihash\<close>

definition uni_inv :: "'v sig_env \<Rightarrow> 'v sig_state \<Rightarrow> bool" where
  "uni_inv env s \<longleftrightarrow> answers_all env \<and> has_recipes s"

definition uni_of :: "string \<Rightarrow> string \<Rightarrow> bool" where
  "uni_of h u \<longleftrightarrow> u \<noteq> [] \<or> u = h"

lemma known_split: "known env t \<Longrightarrow> \<exists>x. split_tid_mcfn t = Inr x"
  by (auto simp: known_def)

lemma uni_hashes:
  assumes inv: "uni_inv env s" and t: "known env t" and "map_of (sg_hashes s) t = None"
    and ds: "\<And>d. d \<in> set ds \<Longrightarrow> known env d \<and> map_of (sg_hashes s) d \<noteq> None"
  shows "\<exists>hdeps h s1 s'. prep_taskhash env t ds s = (Inr hdeps, s1) \<and> get_taskhash (uni_get_unihash env) env t s1 = (Inr h, s') \<and>
    uni_inv env s' \<and> map_of (sg_hashes s') = (map_of (sg_hashes s))(t \<mapsto> h) \<and> covers env s' t ds \<and>
    (\<forall>u x. u \<noteq> t \<longrightarrow> covers env s u x \<longrightarrow> covers env s' u x)"
proof -
  have "known env d \<and> has_key (sg_hashes s) d" if "d \<in> set ds" for d using ds[OF that] by (simp add: has_key_map_of)
  from ends_run[OF prep_taskhash_ends[OF t this]] obtain hdeps s1 where
    s1: "prep_taskhash env t ds s = (Inr hdeps, s1)" "prepared env t ds s s1" by blast
  have hs: "sg_hashes s1 = sg_hashes s" and topn: "has_key (sg_tidtopn s1) u = (u = t \<or> has_key (sg_tidtopn s) u)" for u
    using s1(2) by (auto simp: prepared_def has_key_map_of)
  have good: "good_tid s1 d" if "d \<in> set ds" for d
    using ds[OF that] inv known_split[of env d] hs topn by (simp add: good_tid_def has_key_map_of uni_inv_def has_recipes_def)
  have get: "ends (uni_get_unihash env d) s' (\<lambda>u s''. same_tasks s1 s'' \<and> True)"
    if d: "d \<in> set (filter (kept env t) ds)" and s': "same_tasks s1 s'" for d s'
  proof -
    have "good_tid s' d" using good[of d] d same_good[OF s'] by simp
    with inv have "ends (uni_get_unihash env d) s' (\<lambda>u s''. same_tasks s' s'' \<and> unihash_for s' d u)"
      by (intro uni_get_unihash_ends) (simp_all add: uni_inv_def)
    then show ?thesis by (rule ends_weaken) (auto intro: same_tasks_trans[OF s'])
  qed
  have "ends (get_taskhash (uni_get_unihash env) env t) s1 (\<lambda>h s'. hashed_from env t (\<lambda>_ _. True) s1 h \<and>
      (\<exists>s''. same_tasks s1 s'' \<and> s' = s''\<lparr>sg_hashes := AList.update t h (sg_hashes s'')\<rparr>))"
    by (rule get_taskhash_ends[OF s1(2) same_tasks_refl get]) (simp_all add: same_tasks_def)
  from ends_run[OF this] obtain h s' s'' where h: "get_taskhash (uni_get_unihash env) env t s1 = (Inr h, s')"
      "same_tasks s1 s''" "s' = s''\<lparr>sg_hashes := AList.update t h (sg_hashes s'')\<rparr>" by blast
  have upd: "map_of (sg_hashes s') = (map_of (sg_hashes s))(t \<mapsto> h)" using h hs by (simp add: same_tasks_def update_conv')
  have "has_recipes s'" using inv h hs topn
    by (auto simp: uni_inv_def has_recipes_def same_tasks_def)
  moreover have "covers env s' u x = covers env s1 u x" for u x using h by (simp add: covers_def same_tasks_def)
  ultimately show ?thesis
    using s1(1) h(1) upd inv prepared_covers[OF s1(2)] covers_other[OF _ s1(2)] by (simp add: uni_inv_def)
qed

section \<open>The contract\<close>

lemma plain_get_unihashes_run:
  "(\<And>t. t \<in> set ts \<Longrightarrow> map_of (sg_hashes s) t \<noteq> None) \<Longrightarrow>
   plain_get_unihashes ts s = (Inr (List.map (\<lambda>t. (t, the (map_of (sg_hashes s) t))) ts), s)"
proof (induction ts)
  case (Cons t ts)
  from Cons.prems[of t] obtain h where "map_of (sg_hashes s) t = Some h" by auto
  with Cons show ?case by (simp add: plain_get_unihashes_def plain_get_unihash_def act_simps)
qed (simp add: plain_get_unihashes_def act_simps)

lemma uni_siggen_methods:
  "sg_prep (uni_siggen env) = prep_taskhash env"
  "sg_taskhash (uni_siggen env) = (\<lambda>t ds. get_taskhash (uni_get_unihash env) env t)"
  "sg_unihashes (uni_siggen env) = uni_get_unihashes env"
  by (simp_all add: uni_siggen_def basichash_siggen_def)

lemma map_of_graph: "t \<in> set ts \<Longrightarrow> map_of (List.map (\<lambda>t. (t, f t)) ts) t = Some (f t)"
  by (induction ts) auto

interpretation basichash: signature_generator "basichash_siggen env" "\<lambda>s. map_of (sg_hashes s)" "covers env" "(=)" "merkle env" "known env"
  for env :: "'v sig_env"
proof unfold_locales
  fix g t ds assume "merkle env g" "known env t" "map_of (sg_hashes g) t = None"
    "\<And>d. d \<in> set ds \<Longrightarrow> known env d \<and> map_of (sg_hashes g) d \<noteq> None"
  then show "\<exists>hdeps h g1 g'. sg_prep (basichash_siggen env) t ds g = (Inr hdeps, g1) \<and>
      sg_taskhash (basichash_siggen env) t ds g1 = (Inr h, g') \<and> merkle env g' \<and> map_of (sg_hashes g') = (map_of (sg_hashes g))(t \<mapsto> h) \<and>
      covers env g' t ds \<and> (\<forall>u x. u \<noteq> t \<longrightarrow> covers env g u x \<longrightarrow> covers env g' u x)"
    unfolding basichash_siggen_def siggen.select_convs by (rule basic_hashes)
next
  fix g ts assume g: "merkle env g" "\<And>t. t \<in> set ts \<Longrightarrow> map_of (sg_hashes g) t \<noteq> None \<and> known env t"
  let ?unis = "List.map (\<lambda>t. (t, the (map_of (sg_hashes g) t))) ts"
  have "sg_unihashes (basichash_siggen env) ts g = (Inr ?unis, g)"
    using plain_get_unihashes_run[of ts g] g(2) by (simp add: basichash_siggen_def)
  moreover have "\<exists>h u. map_of (sg_hashes g) t = Some h \<and> map_of ?unis t = Some u \<and> h = u" if "t \<in> set ts" for t
    using g(2)[OF that] map_of_graph[OF that, of "\<lambda>t. the (map_of (sg_hashes g) t)"] by auto
  ultimately show "\<exists>unis g'. sg_unihashes (basichash_siggen env) ts g = (Inr unis, g') \<and> merkle env g' \<and>
      map_of (sg_hashes g') = map_of (sg_hashes g) \<and> (\<forall>u x. covers env g u x \<longrightarrow> covers env g' u x) \<and>
      (\<forall>t \<in> set ts. \<exists>h u. map_of (sg_hashes g) t = Some h \<and> map_of unis t = Some u \<and> h = u)"
    using g(1) by blast
qed

interpretation unihash: signature_generator "uni_siggen env" "\<lambda>s. map_of (sg_hashes s)" "covers env" uni_of "uni_inv env" "known env"
  for env :: "'v sig_env"
proof unfold_locales
  fix g t ds assume "uni_inv env g" "known env t" "map_of (sg_hashes g) t = None"
    "\<And>d. d \<in> set ds \<Longrightarrow> known env d \<and> map_of (sg_hashes g) d \<noteq> None"
  then show "\<exists>hdeps h g1 g'. sg_prep (uni_siggen env) t ds g = (Inr hdeps, g1) \<and>
      sg_taskhash (uni_siggen env) t ds g1 = (Inr h, g') \<and> uni_inv env g' \<and> map_of (sg_hashes g') = (map_of (sg_hashes g))(t \<mapsto> h) \<and>
      covers env g' t ds \<and> (\<forall>u x. u \<noteq> t \<longrightarrow> covers env g u x \<longrightarrow> covers env g' u x)"
    unfolding uni_siggen_methods by (rule uni_hashes)
next
  fix g ts assume g: "uni_inv env g" "\<And>t. t \<in> set ts \<Longrightarrow> map_of (sg_hashes g) t \<noteq> None \<and> known env t"
  have good: "good_tid g t" if "t \<in> set ts" for t
    using g(1) g(2)[OF that] known_split[of env t] by (simp add: good_tid_def has_key_map_of uni_inv_def has_recipes_def)
  have "answers_all env" using g(1) by (simp add: uni_inv_def)
  from ends_run[OF uni_get_unihashes_ends[OF this good]] obtain unis g' where
    run: "uni_get_unihashes env ts g = (Inr unis, g')" "same_tasks g g'"
      "\<forall>t \<in> set ts. \<exists>u. map_of unis t = Some u \<and> unihash_for g t u" by blast
  have "\<exists>h u. map_of (sg_hashes g) t = Some h \<and> map_of unis t = Some u \<and> uni_of h u" if "t \<in> set ts" for t
    using g(2)[OF that] run(3) that by (auto simp: unihash_for_def uni_of_def)
  moreover have "uni_inv env g'" "map_of (sg_hashes g') = map_of (sg_hashes g)" "\<forall>u x. covers env g u x \<longrightarrow> covers env g' u x"
    using g(1) run(2) by (simp_all add: uni_inv_def has_recipes_def same_tasks_def covers_def)
  ultimately show "\<exists>unis g'. sg_unihashes (uni_siggen env) ts g = (Inr unis, g') \<and> uni_inv env g' \<and>
      map_of (sg_hashes g') = map_of (sg_hashes g) \<and> (\<forall>u x. covers env g u x \<longrightarrow> covers env g' u x) \<and>
      (\<forall>t \<in> set ts. \<exists>h u. map_of (sg_hashes g) t = Some h \<and> map_of unis t = Some u \<and> uni_of h u)"
    using run(1) uni_siggen_methods(3)[of env] by auto
qed

section \<open>Every task of a prepared graph gets its hash\<close>

text \<open>C22: On a closed graph without cycles, whose tasks are in the caches, \<open>compute_hashes\<close> with the
  hashing generator succeeds and gives every task a hash, which is its unihash, too. It is the hash
  of the task's base hash, the hashes of the dependencies the configuration does not exclude, its
  file checksums and its taint: a Merkle tree over the task graph. The graph is not changed
  otherwise.\<close>

theorem task_hashes_merkle:
  assumes "closed_graph (pp_entries s)" and "acyclic (dep_rel (pp_entries s))" and "sg_hashes (pp_siggen s) = []"
    and "\<forall>t \<in> set (dict_keys (pp_entries s)). known env t"
  shows "\<exists>s'. compute_hashes (basichash_siggen env) s = (Inr (), s') \<and> dict_keys (pp_entries s') = dict_keys (pp_entries s) \<and>
    (\<forall>t \<in> set (dict_keys (pp_entries s)). \<exists>e h. map_of (pp_entries s') t = Some e \<and> rt_depends e = entry_depends (pp_entries s) t \<and>
       rt_hash e = Some h \<and> rt_unihash e = Some h \<and> map_of (sg_hashes (pp_siggen s')) t = Some h \<and>
       covers env (pp_siggen s') t (rt_depends e) \<and> merkle_hash env (pp_siggen s') t h)"
proof -
  have "merkle env (pp_siggen s)" using assms(3) by (simp add: merkle_def)
  from basichash.compute_hashes_all[OF assms(1,2) this] assms(3,4) obtain s' where s': "compute_hashes (basichash_siggen env) s = (Inr (), s')"
    "basichash.hash_inv env (pp_entries s) (set (dict_keys (pp_entries s))) {} s'" by (auto simp del: set_map)
  have "\<exists>e h. map_of (pp_entries s') t = Some e \<and> rt_depends e = entry_depends (pp_entries s) t \<and>
       rt_hash e = Some h \<and> rt_unihash e = Some h \<and> map_of (sg_hashes (pp_siggen s')) t = Some h \<and>
       covers env (pp_siggen s') t (rt_depends e) \<and> merkle_hash env (pp_siggen s') t h" if "t \<in> set (dict_keys (pp_entries s))" for t
  proof -
    from s'(2) that have "basichash.dealt_with env s' t" "entry_depends (pp_entries s') t = entry_depends (pp_entries s) t" "merkle env (pp_siggen s')"
      unfolding basichash.hash_inv_def by blast+
    then show ?thesis unfolding basichash.dealt_with_def by (auto simp: entry_depends_def merkle_def)
  qed
  with s' show ?thesis unfolding basichash.hash_inv_def by blast
qed

theorem task_hashes_merkle_witness:
  "\<exists>s'. compute_hashes (basichash_siggen small_sig_env) small_hash_start = (Inr (), s') \<and>
    dict_keys (pp_entries s') = dict_keys (pp_entries small_hash_start) \<and>
    (\<forall>t \<in> set (dict_keys (pp_entries small_hash_start)). \<exists>e h. map_of (pp_entries s') t = Some e \<and>
       rt_depends e = entry_depends (pp_entries small_hash_start) t \<and>
       rt_hash e = Some h \<and> rt_unihash e = Some h \<and> map_of (sg_hashes (pp_siggen s')) t = Some h \<and>
       covers small_sig_env (pp_siggen s') t (rt_depends e) \<and> merkle_hash small_sig_env (pp_siggen s') t h)"
  by (rule task_hashes_merkle)
    (unfold small_hash_start_def prep_state.select_convs new_sig_def sig_state.select_convs, (rule small_linked_closed small_linked_acyclic small_known refl)+)

lemma small_hash_values:
  "(case compute_hashes (basichash_siggen small_sig_env) small_hash_start of (r, s') \<Rightarrow>
     (r, sg_hashes (pp_siggen s'))) =
   (Inr (), [(''b.bb:do_compile'', ''(D)''), (''a.bb:do_compile'', ''(C(D)./fix.patchsum)''), (''a.bb:do_package'', ''(P(C(D)./fix.patchsum))'')])"
  by code_simp

text \<open>C26: With hash equivalence the hashes never fail to be computed, whether the server answers,
  cannot be reached, or knows none of the hashes: each task gets a hash and a unihash, which is
  never empty unless the hash is. The server is only relied on to answer every query of a batch it
  answers.\<close>

theorem unihashes_for_all:
  assumes "closed_graph (pp_entries s)" and "acyclic (dep_rel (pp_entries s))" and "sg_hashes (pp_siggen s) = []"
    and "\<forall>t \<in> set (dict_keys (pp_entries s)). known env t" and "answers_all env"
  shows "\<exists>s'. compute_hashes (uni_siggen env) s = (Inr (), s') \<and>
    (\<forall>t \<in> set (dict_keys (pp_entries s)). \<exists>e h u. map_of (pp_entries s') t = Some e \<and> rt_hash e = Some h \<and> rt_unihash e = Some u \<and>
       map_of (sg_hashes (pp_siggen s')) t = Some h \<and> covers env (pp_siggen s') t (rt_depends e) \<and> (u = [] \<longrightarrow> h = []))"
proof -
  have "uni_inv env (pp_siggen s)" using assms(3,5) by (simp add: uni_inv_def has_recipes_def has_key_def)
  from unihash.compute_hashes_all[OF assms(1,2) this] assms(3,4) obtain s' where s': "compute_hashes (uni_siggen env) s = (Inr (), s')"
    "unihash.hash_inv env (pp_entries s) (set (dict_keys (pp_entries s))) {} s'" by (auto simp del: set_map)
  have "\<exists>e h u. map_of (pp_entries s') t = Some e \<and> rt_hash e = Some h \<and> rt_unihash e = Some u \<and>
       map_of (sg_hashes (pp_siggen s')) t = Some h \<and> covers env (pp_siggen s') t (rt_depends e) \<and> (u = [] \<longrightarrow> h = [])"
    if "t \<in> set (dict_keys (pp_entries s))" for t
  proof -
    from s'(2) that have "unihash.dealt_with env s' t" unfolding unihash.hash_inv_def by blast
    then show ?thesis unfolding unihash.dealt_with_def by (auto simp: uni_of_def)
  qed
  with s'(1) show ?thesis by blast
qed

theorem unihashes_for_all_witness:
  "\<exists>s'. compute_hashes (uni_siggen small_sig_env) small_hash_start = (Inr (), s') \<and>
    (\<forall>t \<in> set (dict_keys (pp_entries small_hash_start)). \<exists>e h u. map_of (pp_entries s') t = Some e \<and> rt_hash e = Some h \<and>
       rt_unihash e = Some u \<and> map_of (sg_hashes (pp_siggen s')) t = Some h \<and>
       covers small_sig_env (pp_siggen s') t (rt_depends e) \<and> (u = [] \<longrightarrow> h = []))"
proof (rule unihashes_for_all)
  show "answers_all small_sig_env" by (simp add: answers_all_def small_sig_env_def)
qed (unfold small_hash_start_def prep_state.select_convs new_sig_def sig_state.select_convs, (rule small_linked_closed small_linked_acyclic small_known refl)+)

end
