(* ===== verification/Py_Url.thy ===== *)
theory Py_Url
  imports Py_Prelude
begin

text \<open>
  What the camera programs use of Python's \<open>urllib.parse\<close> and \<open>ipaddress\<close>, as they are in the
  Python 3.13 of the image: \<open>urlparse\<close> with the host and the port of its result, \<open>urlunparse\<close>,
  \<open>quote\<close>, \<open>unquote\<close> and \<open>parse_qs\<close>.

  A percent escape of a byte that is not the UTF-8 encoding of a code point below 256 is decoded
  to \<open>replacement\<close>; what Python gives there is no character of this model.
\<close>

section \<open>Parts of a URL\<close>

record url =
  u_scheme :: string
  u_netloc :: string
  u_path :: string
  u_params :: string
  u_query :: string
  u_fragment :: string

definition scheme_char :: "char \<Rightarrow> bool" where
  "scheme_char c \<longleftrightarrow> is_alpha c \<or> is_digit c \<or> c \<in> set ''+-.''"

definition c0_or_space :: "char \<Rightarrow> bool" where
  "c0_or_space c \<longleftrightarrow> (of_char c :: nat) \<le> 32"

definition unsafe_char :: "char \<Rightarrow> bool" where
  "unsafe_char c \<longleftrightarrow> (of_char c :: nat) \<in> {9, 10, 13}"

definition split_scheme :: "string \<Rightarrow> string \<times> string" where
  "split_scheme s = (case partition_at CHR '':'' s of (front, rest) \<Rightarrow>
     if CHR '':'' \<in> set s \<and> front \<noteq> [] \<and> is_alpha (hd front) \<and> list_all scheme_char front
     then (lower front, rest) else ([], s))"

definition netloc_end :: "char \<Rightarrow> bool" where
  "netloc_end c \<longleftrightarrow> c \<in> set ''/?#''"

definition split_netloc :: "string \<Rightarrow> string \<times> string" where
  "split_netloc s = (if startswith s ''//''
     then (takeWhile (\<lambda>c. \<not> netloc_end c) (drop 2 s), dropWhile (\<lambda>c. \<not> netloc_end c) (drop 2 s)) else ([], s))"

definition hex_digit :: "char \<Rightarrow> bool" where
  "hex_digit c \<longleftrightarrow> (let n = (of_char c :: nat) in is_digit c \<or> (65 \<le> n \<and> n \<le> 70) \<or> (97 \<le> n \<and> n \<le> 102))"

definition hex_val :: "char \<Rightarrow> nat" where
  "hex_val c = (let n = of_char c in if n \<le> 57 then n - 48 else if n \<le> 70 then n - 55 else n - 87)"

section \<open>Addresses in brackets\<close>

definition ipv4_octet :: "string \<Rightarrow> bool" where
  "ipv4_octet s \<longleftrightarrow> s \<noteq> [] \<and> list_all is_digit s \<and> length s \<le> 3 \<and> (s = ''0'' \<or> hd s \<noteq> CHR ''0'') \<and> nat_of_digits s \<le> 255"

definition ipv4_ok :: "string \<Rightarrow> bool" where
  "ipv4_ok s \<longleftrightarrow> (let ps = split_on CHR ''.'' s in length ps = 4 \<and> list_all ipv4_octet ps)"

definition hextet :: "string \<Rightarrow> bool" where
  "hextet s \<longleftrightarrow> s \<noteq> [] \<and> list_all hex_digit s \<and> length s \<le> 4"

text \<open>The groups of an address, an IPv4 tail counting as two; one run of groups may be left out.\<close>

definition ipv6_groups :: "string list \<Rightarrow> bool" where
  "ipv6_groups ps \<longleftrightarrow> 3 \<le> length ps \<and> length ps \<le> 9 \<and>
     (case filter (\<lambda>i. ps ! i = []) [1 ..< length ps - 1] of
        [] \<Rightarrow> length ps = 8 \<and> list_all hextet ps
      | [i] \<Rightarrow>
          (let hi = (if hd ps = [] then i - 1 else i);
               lo = (if last ps = [] then length ps - i - 2 else length ps - i - 1)
           in (hd ps = [] \<longrightarrow> hi = 0) \<and> (last ps = [] \<longrightarrow> lo = 0) \<and> hi + lo < 8 \<and>
              list_all hextet (take hi ps) \<and> list_all hextet (drop (length ps - lo) ps))
      | _ \<Rightarrow> False)"

definition ipv6_ok :: "string \<Rightarrow> bool" where
  "ipv6_ok s \<longleftrightarrow>
     (case partition_at CHR ''%'' s of (addr, zone) \<Rightarrow>
        (CHR ''%'' \<in> set s \<longrightarrow> zone \<noteq> [] \<and> CHR ''%'' \<notin> set zone) \<and> CHR ''/'' \<notin> set s \<and>
        (let ps = split_on CHR '':'' addr
         in 3 \<le> length ps \<and>
            (if CHR ''.'' \<in> set (last ps) then ipv4_ok (last ps) \<and> ipv6_groups (butlast ps @ [''0'', ''0''])
             else ipv6_groups ps)))"

text \<open>\<open>_check_bracketed_netloc\<close> and \<open>_check_bracketed_host\<close>\<close>

definition future_ok :: "string \<Rightarrow> bool" where
  "future_ok s \<longleftrightarrow> (case partition_at CHR ''.'' (tl s) of (version, rest) \<Rightarrow>
     version \<noteq> [] \<and> list_all hex_digit version \<and> rest \<noteq> [] \<and> CHR ''\<newline>'' \<notin> set rest)"

definition bracketed_ok :: "string \<Rightarrow> bool" where
  "bracketed_ok netloc \<longleftrightarrow>
     (let hp = after_last CHR ''@'' netloc;
          ok = (\<lambda>host. if startswith host ''v'' then future_ok host else ipv6_ok host)
      in if CHR ''['' \<in> set hp then
           (case partition_at CHR ''['' hp of (front, bracketed) \<Rightarrow>
            case partition_at CHR '']'' bracketed of (host, port) \<Rightarrow>
              front = [] \<and> (port = [] \<or> startswith port '':'') \<and> ok host)
         else ok (fst (partition_at CHR '':'' hp)))"

definition netloc_ok :: "string \<Rightarrow> bool" where
  "netloc_ok netloc \<longleftrightarrow> (CHR ''['' \<in> set netloc \<longleftrightarrow> CHR '']'' \<in> set netloc) \<and>
     (CHR ''['' \<in> set netloc \<longrightarrow> bracketed_ok netloc)"

section \<open>Parsing\<close>

definition uses_params :: "string list" where
  "uses_params = ['''', ''ftp'', ''hdl'', ''prospero'', ''http'', ''imap'', ''https'', ''shttp'', ''rtsp'', ''rtsps'',
     ''rtspu'', ''sip'', ''sips'', ''mms'', ''sftp'', ''tel'']"

text \<open>The parameters of the last segment of a path\<close>

definition split_params :: "string \<Rightarrow> string \<times> string" where
  "split_params s =
     (let seg = after_last CHR ''/'' s; front = take (length s - length seg) s
      in if CHR '';'' \<in> set seg then (case partition_at CHR '';'' seg of (p, ps) \<Rightarrow> (front @ p, ps)) else (s, []))"

definition urlparse :: "string \<Rightarrow> url res" where
  "urlparse url =
     (case split_scheme (filter (\<lambda>c. \<not> unsafe_char c) (lstrip_chars c0_or_space url)) of (scheme, s) \<Rightarrow>
      case split_netloc s of (netloc, s) \<Rightarrow>
      if \<not> netloc_ok netloc then Inl ValueError
      else case partition_at CHR ''#'' s of (s, fragment) \<Rightarrow>
        case partition_at CHR ''?'' s of (s, query) \<Rightarrow>
        case (if scheme \<in> set uses_params \<and> CHR '';'' \<in> set s then split_params s else (s, [])) of (path, params) \<Rightarrow>
          Inr \<lparr>u_scheme = scheme, u_netloc = netloc, u_path = path, u_params = params, u_query = query, u_fragment = fragment\<rparr>)"

text \<open>\<open>hostname\<close> and \<open>port\<close> of the result; the port is None if it is empty.\<close>

definition hostinfo :: "string \<Rightarrow> string \<times> string" where
  "hostinfo netloc =
     (let hp = after_last CHR ''@'' netloc
      in if CHR ''['' \<in> set hp then
           (case partition_at CHR '']'' (snd (partition_at CHR ''['' hp)) of (host, port) \<Rightarrow> (host, snd (partition_at CHR '':'' port)))
         else partition_at CHR '':'' hp)"

definition hostname :: "url \<Rightarrow> string option" where
  "hostname u = (let h = fst (hostinfo (u_netloc u)) in
     if h = [] then None
     else Some (lower (takeWhile (\<lambda>c. c \<noteq> CHR ''%'') h) @ dropWhile (\<lambda>c. c \<noteq> CHR ''%'') h))"

definition port_of :: "url \<Rightarrow> nat option res" where
  "port_of u = (let p = snd (hostinfo (u_netloc u)) in
     if p = [] then Inr None
     else if list_all is_digit p \<and> nat_of_digits p \<le> 65535 then Inr (Some (nat_of_digits p))
     else Inl ValueError)"

section \<open>Putting a URL together\<close>

definition uses_netloc :: "string list" where
  "uses_netloc = ['''', ''ftp'', ''http'', ''gopher'', ''nntp'', ''telnet'', ''imap'', ''wais'', ''file'', ''mms'', ''https'',
     ''shttp'', ''snews'', ''prospero'', ''rtsp'', ''rtsps'', ''rtspu'', ''rsync'', ''svn'', ''svn+ssh'', ''sftp'', ''nfs'', ''git'',
     ''git+ssh'', ''ws'', ''wss'', ''itms-services'']"

definition urlunparse :: "url \<Rightarrow> string" where
  "urlunparse u =
     (let path = (if u_params u \<noteq> [] then u_path u @ '';'' @ u_params u else u_path u);
          s = (if u_netloc u \<noteq> [] then ''//'' @ u_netloc u @ (if path \<noteq> [] \<and> hd path \<noteq> CHR ''/'' then ''/'' @ path else path)
               else if startswith path ''//'' then ''//'' @ path
               else if u_scheme u \<noteq> [] \<and> u_scheme u \<in> set uses_netloc \<and> (path = [] \<or> hd path = CHR ''/'') then ''//'' @ path
               else path)
      in (if u_scheme u \<noteq> [] then u_scheme u @ '':'' else []) @ s @
         (if u_query u \<noteq> [] then ''?'' @ u_query u else []) @ (if u_fragment u \<noteq> [] then ''#'' @ u_fragment u else []))"

section \<open>Escapes\<close>

definition hex_char :: "nat \<Rightarrow> char" where
  "hex_char n = char_of (if n < 10 then 48 + n else 55 + n)"

definition percent :: "nat \<Rightarrow> string" where
  "percent n = [CHR ''%'', hex_char (n div 16), hex_char (n mod 16)]"

definition unreserved :: "char \<Rightarrow> bool" where
  "unreserved c \<longleftrightarrow> is_alpha c \<or> is_digit c \<or> c \<in> set ''_.-~''"

text \<open>\<open>quote(s, safe="")\<close>\<close>

definition quote_char :: "char \<Rightarrow> string" where
  "quote_char c = (let n = of_char c in
     if unreserved c then [c] else if n < 128 then percent n else percent (192 + n div 64) @ percent (128 + n mod 64))"

definition quote :: "string \<Rightarrow> string" where
  "quote s = List.concat (List.map quote_char s)"

definition replacement :: char where
  "replacement = CHR ''?''"

definition escape :: "string \<Rightarrow> (nat \<times> string) option" where
  "escape s = (case s of p # a # b # r \<Rightarrow>
       if p = CHR ''%'' \<and> hex_digit a \<and> hex_digit b then Some (16 * hex_val a + hex_val b, r) else None
     | _ \<Rightarrow> None)"

lemma escape_shorter: "escape s = Some (v, r) \<Longrightarrow> length r < length s"
  by (auto simp: escape_def split: list.splits if_splits)

function unquote :: "string \<Rightarrow> string" where
  "unquote s = (case s of [] \<Rightarrow> [] | c # cs \<Rightarrow>
     (case escape s of
        None \<Rightarrow> c # unquote cs
      | Some (v, r) \<Rightarrow>
          if v < 128 then char_of v # unquote r
          else (case escape r of
              None \<Rightarrow> replacement # unquote r
            | Some (w, r') \<Rightarrow>
                if (v = 194 \<or> v = 195) \<and> 128 \<le> w \<and> w < 192 then char_of (64 * (v - 192) + (w - 128)) # unquote r'
                else replacement # unquote r)))"
  by pat_completeness auto
termination
  by (relation "measure length") (auto dest!: escape_shorter)

declare unquote.simps [simp del]

definition unquote_plus :: "string \<Rightarrow> string" where
  "unquote_plus s = unquote (List.map (\<lambda>c. if c = CHR ''+'' then CHR '' '' else c) s)"

definition query_pair :: "string \<Rightarrow> (string \<times> string) list" where
  "query_pair s = (case partition_at CHR ''='' s of (name, v) \<Rightarrow>
     if v = [] then [] else [(unquote_plus name, unquote_plus v)])"

definition parse_qs :: "string \<Rightarrow> (string, string list) dict" where
  "parse_qs q = fold (\<lambda>(name, v). dict_append name v) (List.concat (List.map query_pair (split_on CHR ''&'' q))) []"

end
