(* ===== verification/Camera_Names.thy ===== *)
theory Camera_Names
  imports Py_Url
begin

text \<open>
  How \<open>dbus-ip-camera\<close> and \<open>go2rtc-discovery.py\<close> name cameras and streams, and how they take the
  credentials out of a URL and put them in.
\<close>

section \<open>Names\<close>

definition slug_char :: "char \<Rightarrow> bool" where
  "slug_char c \<longleftrightarrow> (let n = (of_char c :: nat) in (97 \<le> n \<and> n \<le> 122) \<or> (48 \<le> n \<and> n \<le> 57))"

text \<open>\<open>re.sub("[^a-z0-9]+", sep, s)\<close>\<close>

function sub_runs :: "char \<Rightarrow> string \<Rightarrow> string" where
  "sub_runs sep [] = []"
| "sub_runs sep (c # cs) =
     (if slug_char c then c # sub_runs sep cs else sep # sub_runs sep (dropWhile (\<lambda>c. \<not> slug_char c) cs))"
  by pat_completeness auto
termination by (relation "measure (length \<circ> snd)") (auto simp: le_imp_less_Suc length_dropWhile_le)

definition sanitize_with :: "char \<Rightarrow> string \<Rightarrow> string \<Rightarrow> string" where
  "sanitize_with sep s fallback =
     (let cleaned = strip_chars (\<lambda>c. c = sep) (sub_runs sep (lower s)) in if cleaned = [] then fallback else cleaned)"

definition sanitize_fragment :: "string \<Rightarrow> string \<Rightarrow> string" where
  "sanitize_fragment = sanitize_with CHR ''_''"

text \<open>The manufacturer and the model in the name of a camera\<close>

definition split_name :: "string \<Rightarrow> string \<times> string" where
  "split_name s = (case split_ws s of [] \<Rightarrow> ([], []) | [p] \<Rightarrow> ([], p) | p # ps \<Rightarrow> (p, join '' '' ps))"

section \<open>URLs\<close>

definition host_port :: "url \<Rightarrow> string res" where
  "host_port u =
     (let h = (case hostname u of None \<Rightarrow> [] | Some h \<Rightarrow> h);
          h = (if CHR '':'' \<in> set h \<and> \<not> startswith h ''['' then ''['' @ h @ '']'' else h)
      in res_bind (port_of u) (\<lambda>p. Inr (case p of None \<Rightarrow> h | Some n \<Rightarrow> h @ '':'' @ str_nat n)))"

definition strip_credentials :: "string \<Rightarrow> string res" where
  "strip_credentials s = res_bind (urlparse s) (\<lambda>u. res_bind (host_port u) (\<lambda>netloc. Inr (urlunparse (u\<lparr>u_netloc := netloc\<rparr>))))"

definition build_url :: "url \<Rightarrow> string option \<Rightarrow> string option \<Rightarrow> string res" where
  "build_url u username password =
     res_bind (host_port u) (\<lambda>netloc.
     Inr (urlunparse (u\<lparr>u_netloc := (case username of None \<Rightarrow> netloc
       | Some name \<Rightarrow> quote name @ '':'' @ quote (case password of None \<Rightarrow> [] | Some p \<Rightarrow> p) @ ''@'' @ netloc)\<rparr>)))"

definition ensure_onvif_url :: "string \<Rightarrow> string res" where
  "ensure_onvif_url address =
     res_bind (urlparse address) (\<lambda>u.
     if u_scheme u \<noteq> [] then Inr address
     else let host = strip_chars py_space address
       in if host = [] then Inl ValueError else Inr (''onvif://'' @ host @ ''/onvif/device_service''))"

definition extract_address :: "string \<Rightarrow> string res" where
  "extract_address s = res_bind (urlparse s) (\<lambda>u. Inr (case hostname u of None \<Rightarrow> s | Some h \<Rightarrow> h))"

text \<open>The first value of \<open>subtype\<close>, which names a profile, or its index\<close>

definition profile_token_of :: "(string, string list) dict \<Rightarrow> nat \<Rightarrow> string" where
  "profile_token_of query index = (case map_of query ''subtype'' of Some (t # ts) \<Rightarrow> t | _ \<Rightarrow> str_nat index)"

definition stream_name_with :: "char \<Rightarrow> string \<Rightarrow> string \<Rightarrow> string \<Rightarrow> nat \<Rightarrow> string res" where
  "stream_name_with sep default_prefix stream_prefix source_url index =
     res_bind (urlparse source_url) (\<lambda>u.
     let host = sanitize_with sep (case hostname u of None \<Rightarrow> ''camera'' | Some h \<Rightarrow> h) ''camera'';
         token = sanitize_with sep (profile_token_of (parse_qs (u_query u)) index) (str_nat index);
         prefix = sanitize_with sep stream_prefix default_prefix
     in Inr (prefix @ [sep] @ host @ [sep] @ token))"

definition make_stream_name :: "string \<Rightarrow> string \<Rightarrow> nat \<Rightarrow> string res" where
  "make_stream_name = stream_name_with CHR ''_'' ''ipcam''"

section \<open>Sanitized names\<close>

lemma lower_char_slug: "slug_char c \<Longrightarrow> lower_char c = c"
  by (auto simp: slug_char_def lower_char_def Let_def)

lemma sub_runs_chars: "c \<in> set (sub_runs sep s) \<Longrightarrow> slug_char c \<or> c = sep"
  by (induction sep s rule: sub_runs.induct) (auto split: if_splits)

lemma set_strip_chars: "set (strip_chars p s) \<subseteq> set s"
proof -
  have "set (dropWhile p xs) \<subseteq> set xs" for xs by (metis set_dropWhileD subsetI)
  then show ?thesis unfolding strip_chars_def rstrip_chars_def lstrip_chars_def by (metis set_rev subset_trans)
qed

lemma sanitize_chars:
  assumes "c \<in> set (sanitize_with sep s fallback)" and "\<forall>c \<in> set fallback. slug_char c \<or> c = sep"
  shows "slug_char c \<or> c = sep"
  using assms sub_runs_chars[of c sep "lower s"] set_strip_chars[of "\<lambda>c. c = sep" "sub_runs sep (lower s)"]
  by (auto simp: sanitize_with_def Let_def split: if_splits)

lemma sanitize_nonempty: "fallback \<noteq> [] \<Longrightarrow> sanitize_with sep s fallback \<noteq> []"
  by (simp add: sanitize_with_def Let_def)

end
