(* ===== verification/Camera_Service.thy ===== *)
theory Camera_Service
  imports Camera_Names Py_Action
begin

text \<open>
  The service \<open>dbus-ip-camera\<close>: it keeps the cameras that were discovered or added, asks go2rtc for
  their profiles, hands their streams to go2rtc and publishes them on D-Bus.

  The state is what \<open>CameraService\<close> keeps; \<open>sv_signals\<close> are the property changes it has emitted and
  \<open>sv_world\<close> what lies outside: go2rtc, the clock, the state file and the message bus, reached
  through the fields of \<open>cam_env\<close>. A key a camera may lack is an optional field. Every operation
  holds the service's lock, so an operation is one action.
\<close>

section \<open>Cameras\<close>

record stream =
  st_profile_name :: string
  st_profile_token :: string
  st_snapshot :: bool
  st_stream_name :: string
  st_stream_url :: string

record camera =
  ca_managed :: "bool option"
  ca_address :: "string option"
  ca_endpoint :: "string option"
  ca_name :: "string option"
  ca_raw_info :: "string option"
  ca_location :: "string option"
  ca_username :: "string option"
  ca_password :: "string option"
  ca_manufacturer :: "string option"
  ca_model :: "string option"
  ca_hardware_id :: "string option"
  ca_serial_number :: "string option"
  ca_build_date :: "string option"
  ca_firmware_version :: "string option"
  ca_present :: "bool option"
  ca_functional :: "bool option"
  ca_snapshot_support :: "bool option"
  ca_auth_status :: "string option"
  ca_last_error :: "string option"
  ca_last_refresh :: "int option"
  ca_last_seen :: "int option"
  ca_streams :: "(string, stream) dict option"

definition empty_camera :: camera where
  "empty_camera = \<lparr>ca_managed = None, ca_address = None, ca_endpoint = None, ca_name = None, ca_raw_info = None, ca_location = None,
     ca_username = None, ca_password = None, ca_manufacturer = None, ca_model = None, ca_hardware_id = None,
     ca_serial_number = None, ca_build_date = None, ca_firmware_version = None, ca_present = None, ca_functional = None,
     ca_snapshot_support = None, ca_auth_status = None, ca_last_error = None, ca_last_refresh = None, ca_last_seen = None,
     ca_streams = None\<rparr>"

definition new_camera :: camera where
  "new_camera = empty_camera\<lparr>ca_managed := Some True, ca_streams := Some []\<rparr>"

definition streams_of :: "camera \<Rightarrow> (string, stream) dict" where
  "streams_of c = (case ca_streams c of None \<Rightarrow> [] | Some d \<Rightarrow> d)"

text \<open>\<open>d.get(k) or default\<close> of a text\<close>

definition text_or :: "string option \<Rightarrow> string \<Rightarrow> string" where
  "text_or a b = (case a of Some (c # cs) \<Rightarrow> c # cs | _ \<Rightarrow> b)"

section \<open>What is published\<close>

datatype pval = PString string | PBool bool | PInt int | PList "string list"

type_synonym props = "(string, pval) dict"

definition upper_char :: "char \<Rightarrow> char" where
  "upper_char c = (let n = (of_char c :: nat) in if 97 \<le> n \<and> n \<le> 122 then char_of (n - 32) else c)"

definition capitalize :: "string \<Rightarrow> string" where
  "capitalize s = (case s of [] \<Rightarrow> [] | c # cs \<Rightarrow> upper_char c # lower cs)"

definition prop_name :: "string \<Rightarrow> string" where
  "prop_name k = List.concat (List.map capitalize (split_on CHR ''_'' (tl k)))"

text \<open>The \<open>update\<close> methods: the attributes that differ are set, and their changes collected.\<close>

definition update_prop :: "string \<times> pval \<Rightarrow> props \<times> props \<Rightarrow> props \<times> props" where
  "update_prop = (\<lambda>(k, v) (attrs, changed).
     if map_of attrs k = Some v then (attrs, changed) else (AList.update k v attrs, AList.update (prop_name k) v changed))"

definition update_props :: "props \<Rightarrow> props \<Rightarrow> props \<times> props" where
  "update_props mapping attrs = fold update_prop mapping (attrs, [])"

definition new_inventory :: props where
  "new_inventory = [(''_present'', PBool False)]"

definition new_operational :: props where
  "new_operational = [(''_functional'', PBool False)]"

definition new_asset :: props where
  "new_asset = [(''_manufacturer'', PString []), (''_model'', PString []), (''_part_number'', PString []),
     (''_serial_number'', PString []), (''_build_date'', PString [])]"

definition new_stream_props :: props where
  "new_stream_props = [(''_profile_token'', PString []), (''_stream_name'', PString []), (''_stream_url'', PString []),
     (''_snapshot'', PBool False), (''_profile_name'', PString [])]"

definition new_device :: props where
  "new_device = [(''_address'', PString []), (''_endpoint'', PString []), (''_name'', PString []),
     (''_auth_status'', PString ''unknown''), (''_managed'', PBool True), (''_last_seen_usec'', PInt 0),
     (''_last_refresh_usec'', PInt 0), (''_last_error'', PString []), (''_profiles'', PList []), (''_stream_names'', PList []),
     (''_snapshot_support'', PBool False), (''_raw_info'', PString []), (''_firmware_version'', PString []),
     (''_hardware_id'', PString [])]"

definition new_manager :: props where
  "new_manager = [(''_cameras'', PList []), (''_discovery_enabled'', PBool True), (''_poll_interval_sec'', PInt 60)]"

definition stream_mapping :: "stream \<Rightarrow> props" where
  "stream_mapping st = [(''_profile_token'', PString (st_profile_token st)), (''_stream_name'', PString (st_stream_name st)),
     (''_stream_url'', PString (st_stream_url st)), (''_snapshot'', PBool (st_snapshot st)), (''_profile_name'', PString (st_profile_name st))]"

definition device_mapping :: "camera \<Rightarrow> string list \<Rightarrow> props" where
  "device_mapping c paths = [(''_address'', PString (get_or (ca_address c) [])), (''_endpoint'', PString (get_or (ca_endpoint c) [])),
     (''_name'', PString (get_or (ca_name c) [])), (''_auth_status'', PString (get_or (ca_auth_status c) ''unknown'')),
     (''_managed'', PBool (get_or (ca_managed c) True)), (''_last_seen_usec'', PInt (get_or (ca_last_seen c) 0)),
     (''_last_refresh_usec'', PInt (get_or (ca_last_refresh c) 0)), (''_last_error'', PString (get_or (ca_last_error c) [])),
     (''_profiles'', PList paths), (''_stream_names'', PList (List.map (st_stream_name \<circ> snd) (streams_of c))),
     (''_snapshot_support'', PBool (get_or (ca_snapshot_support c) False)), (''_raw_info'', PString (get_or (ca_raw_info c) [])),
     (''_firmware_version'', PString (get_or (ca_firmware_version c) [])), (''_hardware_id'', PString (get_or (ca_hardware_id c) []))]"

definition asset_mapping :: "camera \<Rightarrow> string \<Rightarrow> props" where
  "asset_mapping c name = (case split_name name of (manufacturer, model) \<Rightarrow>
     [(''_manufacturer'', PString (text_or (ca_manufacturer c) manufacturer)), (''_model'', PString (text_or (ca_model c) model)),
      (''_part_number'', PString (get_or (ca_hardware_id c) [])), (''_serial_number'', PString (get_or (ca_serial_number c) [])),
      (''_build_date'', PString (get_or (ca_build_date c) []))])"

record camera_object =
  co_inventory :: props
  co_operational :: props
  co_asset :: props
  co_device :: props
  co_streams :: "(string, props) dict"

definition new_object :: camera_object where
  "new_object = \<lparr>co_inventory = new_inventory, co_operational = new_operational, co_asset = new_asset, co_device = new_device, co_streams = []\<rparr>"

section \<open>The service\<close>

record 'w svc =
  sv_cameras :: "(string, camera) dict"
  sv_objects :: "(string, camera_object) dict"
  sv_manager :: props
  sv_signals :: "(string \<times> string \<times> props) list"
  sv_world :: 'w

record source =
  so_url :: "string option"
  so_name :: "string option"
  so_info :: "string option"
  so_location :: "string option"

text \<open>What go2rtc answers: an object, with its \<open>sources\<close> if it has any, or something else\<close>

datatype reply = Sources "source list option" | Other_Reply

record 'w cam_env =
  ce_root :: string
  ce_auto_add :: bool
  ce_auto_import :: bool
  ce_poll :: int
  ce_prefix :: string
  ce_request :: "string \<Rightarrow> string \<Rightarrow> (string \<times> string) list \<Rightarrow> ('w, reply) act"
  ce_clock :: "'w \<Rightarrow> int \<times> 'w"
  ce_save :: "(string, camera) dict \<Rightarrow> ('w, unit) act"
  ce_export :: "string \<Rightarrow> string \<Rightarrow> ('w, unit) act"
  ce_unexport :: "string \<Rightarrow> string \<Rightarrow> ('w, unit) act"

definition manager_path :: string where "manager_path = ''/xyz/openbmc_project/ip_camera''"
definition manager_iface :: string where "manager_iface = ''xyz.openbmc_project.IpCamera.Manager''"
definition item_iface :: string where "item_iface = ''xyz.openbmc_project.Inventory.Item''"
definition status_iface :: string where "status_iface = ''xyz.openbmc_project.State.Decorator.OperationalStatus''"
definition asset_iface :: string where "asset_iface = ''xyz.openbmc_project.Inventory.Decorator.Asset''"
definition device_iface :: string where "device_iface = ''xyz.openbmc_project.IpCamera.Device''"
definition stream_iface :: string where "stream_iface = ''xyz.openbmc_project.IpCamera.Stream''"

definition on_world :: "('w, 'a) act \<Rightarrow> ('w svc, 'a) act" where
  "on_world = act_zoom sv_world (\<lambda>w s. s\<lparr>sv_world := w\<rparr>)"

definition camera_path :: "'w cam_env \<Rightarrow> string \<Rightarrow> string" where
  "camera_path env slug = ce_root env @ ''/'' @ slug"

definition stream_path :: "'w cam_env \<Rightarrow> string \<Rightarrow> string \<Rightarrow> string" where
  "stream_path env slug stream_slug = camera_path env slug @ ''/stream/'' @ stream_slug"

definition camera_paths :: "'w cam_env \<Rightarrow> 'w svc \<Rightarrow> string list" where
  "camera_paths env s = List.map (camera_path env) (sort (dict_keys (sv_cameras s)))"

definition emit :: "string \<Rightarrow> string \<Rightarrow> props \<Rightarrow> 'w svc \<Rightarrow> 'w svc" where
  "emit path iface changed s = (if changed = [] then s else s\<lparr>sv_signals := sv_signals s @ [(path, iface, changed)]\<rparr>)"

definition on_camera :: "string \<Rightarrow> (camera \<Rightarrow> camera) \<Rightarrow> ('w svc, unit) act" where
  "on_camera slug f = act_modify (\<lambda>s. s\<lparr>sv_cameras := AList.map_entry slug f (sv_cameras s)\<rparr>)"

definition sync_manager :: "'w cam_env \<Rightarrow> ('w svc, unit) act" where
  "sync_manager env = act_modify (\<lambda>s.
     case update_props [(''_cameras'', PList (camera_paths env s)), (''_discovery_enabled'', PBool (ce_auto_add env)),
         (''_poll_interval_sec'', PInt (ce_poll env))] (sv_manager s) of
       (attrs, changed) \<Rightarrow> emit manager_path manager_iface changed (s\<lparr>sv_manager := attrs\<rparr>))"

definition save_state :: "'w cam_env \<Rightarrow> ('w svc, unit) act" where
  "save_state env = act_bind (act_gets sv_cameras) (\<lambda>cs. on_world (ce_save env cs))"

definition now_usec :: "'w cam_env \<Rightarrow> ('w svc, int) act" where
  "now_usec env = on_world (\<lambda>w. case ce_clock env w of (t, w') \<Rightarrow> (Inr t, w'))"

section \<open>Objects on the bus\<close>

definition camera_ifaces :: "string list" where
  "camera_ifaces = [item_iface, status_iface, asset_iface, device_iface]"

definition export_camera :: "'w cam_env \<Rightarrow> string \<Rightarrow> ('w svc, unit) act" where
  "export_camera env slug =
     act_bind (act_gets (\<lambda>s. has_key (sv_objects s) slug)) (\<lambda>there.
     if there then act_return ()
     else act_then (act_modify (\<lambda>s. s\<lparr>sv_objects := AList.update slug new_object (sv_objects s)\<rparr>))
       (act_for camera_ifaces (\<lambda>iface. on_world (ce_export env (camera_path env slug) iface))))"

definition unexport_camera :: "'w cam_env \<Rightarrow> string \<Rightarrow> ('w svc, unit) act" where
  "unexport_camera env slug =
     act_bind (act_gets (\<lambda>s. map_of (sv_objects s) slug)) (\<lambda>obj. case obj of
       None \<Rightarrow> act_return ()
     | Some obj \<Rightarrow>
         act_then (act_modify (\<lambda>s. s\<lparr>sv_objects := AList.delete slug (sv_objects s)\<rparr>))
        (act_then (act_for (dict_keys (co_streams obj)) (\<lambda>st. on_world (ce_unexport env (stream_path env slug st) stream_iface)))
          (act_for camera_ifaces (\<lambda>iface. on_world (ce_unexport env (camera_path env slug) iface)))))"

definition on_object :: "string \<Rightarrow> (camera_object \<Rightarrow> camera_object) \<Rightarrow> ('w svc, unit) act" where
  "on_object slug f = act_modify (\<lambda>s. s\<lparr>sv_objects := AList.map_entry slug f (sv_objects s)\<rparr>)"

text \<open>\<open>update\<close> of one interface of a camera, chosen by its field\<close>

definition publish ::
  "string \<Rightarrow> string \<Rightarrow> string \<Rightarrow> (camera_object \<Rightarrow> props) \<Rightarrow> (props \<Rightarrow> camera_object \<Rightarrow> camera_object) \<Rightarrow> props \<Rightarrow>
   ('w svc, unit) act" where
  "publish slug path iface get put mapping =
     act_bind (act_read (\<lambda>s. dict_get (sv_objects s) slug)) (\<lambda>obj.
     case update_props mapping (get obj) of (attrs, changed) \<Rightarrow>
       act_then (on_object slug (put attrs)) (act_modify (emit path iface changed)))"

definition unexport_stream :: "'w cam_env \<Rightarrow> string \<Rightarrow> string \<Rightarrow> ('w svc, unit) act" where
  "unexport_stream env slug removed =
     act_then (on_object slug (\<lambda>obj. obj\<lparr>co_streams := AList.delete removed (co_streams obj)\<rparr>))
       (on_world (ce_unexport env (stream_path env slug removed) stream_iface))"

definition export_stream :: "'w cam_env \<Rightarrow> string \<Rightarrow> string \<Rightarrow> ('w svc, unit) act" where
  "export_stream env slug st =
     act_bind (act_read (\<lambda>s. dict_get (sv_objects s) slug)) (\<lambda>obj.
     if has_key (co_streams obj) st then act_return ()
     else act_then (on_world (ce_export env (stream_path env slug st) stream_iface))
       (on_object slug (\<lambda>obj. obj\<lparr>co_streams := AList.update st new_stream_props (co_streams obj)\<rparr>)))"

definition publish_stream :: "'w cam_env \<Rightarrow> string \<Rightarrow> (string, stream) dict \<Rightarrow> string \<Rightarrow> ('w svc, unit) act" where
  "publish_stream env slug streams st =
     act_then (export_stream env slug st)
    (act_bind (act_lift (dict_get streams st)) (\<lambda>stream.
     publish slug (stream_path env slug st) stream_iface (\<lambda>obj. dict_list (co_streams obj) st)
       (\<lambda>attrs obj. obj\<lparr>co_streams := AList.update st attrs (co_streams obj)\<rparr>) (stream_mapping stream)))"


definition camera_name :: "camera \<Rightarrow> string res" where
  "camera_name c = (case ca_name c of Some (x # xs) \<Rightarrow> Inr (x # xs) | _ \<Rightarrow> extract_address (get_or (ca_endpoint c) []))"

definition publish_asset :: "'w cam_env \<Rightarrow> string \<Rightarrow> camera \<Rightarrow> string \<Rightarrow> ('w svc, unit) act" where
  "publish_asset env slug c name =
     act_then (publish slug (camera_path env slug) item_iface co_inventory (\<lambda>a obj. obj\<lparr>co_inventory := a\<rparr>)
         [(''_present'', PBool (get_or (ca_present c) False))])
    (act_then (publish slug (camera_path env slug) status_iface co_operational (\<lambda>a obj. obj\<lparr>co_operational := a\<rparr>)
         [(''_functional'', PBool (get_or (ca_functional c) False))])
      (publish slug (camera_path env slug) asset_iface co_asset (\<lambda>a obj. obj\<lparr>co_asset := a\<rparr>) (asset_mapping c name)))"

definition sync_streams :: "'w cam_env \<Rightarrow> string \<Rightarrow> (string, stream) dict \<Rightarrow> ('w svc, string list) act" where
  "sync_streams env slug streams =
     act_bind (act_read (\<lambda>s. dict_get (sv_objects s) slug)) (\<lambda>obj.
     act_then (act_for (set_diff (dict_keys (co_streams obj)) (dict_keys streams)) (unexport_stream env slug))
    (act_then (act_for (sort (dict_keys streams)) (publish_stream env slug streams))
      (act_return (List.map (stream_path env slug) (sort (dict_keys streams))))))"

definition sync_camera :: "'w cam_env \<Rightarrow> string \<Rightarrow> ('w svc, unit) act" where
  "sync_camera env slug =
     act_bind (act_read (\<lambda>s. dict_get (sv_cameras s) slug)) (\<lambda>c.
     act_then (export_camera env slug)
    (act_bind (act_lift (camera_name c)) (\<lambda>name.
     act_then (publish_asset env slug c name)
    (act_bind (sync_streams env slug (streams_of c)) (\<lambda>paths.
     act_then (publish slug (camera_path env slug) device_iface co_device (\<lambda>a obj. obj\<lparr>co_device := a\<rparr>) (device_mapping c paths))
       (sync_manager env))))))"

section \<open>Requests\<close>

definition http_failed :: "exn \<Rightarrow> bool" where
  "http_failed e = (case e of HTTPError _ _ \<Rightarrow> True | URLError _ \<Rightarrow> True | _ \<Rightarrow> False)"

definition error_text :: "exn \<Rightarrow> string" where
  "error_text e = (case e of
       HTTPError code msg \<Rightarrow> ''HTTP Error '' @ str_nat code @ '': '' @ msg
     | URLError reason \<Rightarrow> ''<urlopen error '' @ reason @ ''>''
     | _ \<Rightarrow> [])"

definition request_json :: "'w cam_env \<Rightarrow> string \<Rightarrow> string \<Rightarrow> (string \<times> string) list \<Rightarrow> ('w svc, reply) act" where
  "request_json env m path query = on_world (ce_request env m path query)"

definition request_sources :: "'w cam_env \<Rightarrow> string \<Rightarrow> (string \<times> string) list \<Rightarrow> ('w svc, source list) act" where
  "request_sources env path query =
     act_catch (act_bind (request_json env ''GET'' path query) (\<lambda>r.
         act_return (case r of Sources (Some l) \<Rightarrow> l | _ \<Rightarrow> [])))
       (\<lambda>e. case e of HTTPError code msg \<Rightarrow> if code = 404 then act_return [] else act_raise e | _ \<Rightarrow> act_raise e)"

text \<open>A request whose failure is only logged\<close>

definition quietly :: "('w svc, 'a) act \<Rightarrow> ('w svc, unit) act" where
  "quietly m = act_catch (act_then m (act_return ())) (\<lambda>e. if http_failed e then act_return () else act_raise e)"

definition put_stream :: "'w cam_env \<Rightarrow> string \<times> string \<Rightarrow> ('w svc, reply) act" where
  "put_stream env = (\<lambda>(name, url). request_json env ''PUT'' ''api/streams'' [(''name'', name), (''src'', url)])"

definition delete_stream :: "'w cam_env \<Rightarrow> string \<Rightarrow> ('w svc, reply) act" where
  "delete_stream env name = request_json env ''DELETE'' ''api/streams'' [(''src'', name)]"

definition stream_urls :: "(string, stream) dict \<Rightarrow> (string, string) dict" where
  "stream_urls streams = fold (\<lambda>(_, st). AList.update (st_stream_name st) (st_stream_url st)) streams []"

definition reconcile :: "'w cam_env \<Rightarrow> (string, string) dict \<Rightarrow> (string, stream) dict \<Rightarrow> ('w svc, unit) act" where
  "reconcile env previous streams =
     (let desired = stream_urls streams
      in act_then (act_for (sort (set_diff (dict_keys previous) (dict_keys desired))) (\<lambda>name. quietly (delete_stream env name)))
           (act_for desired (\<lambda>entry. quietly (put_stream env entry))))"

section \<open>Refreshing a camera\<close>

definition camera_credentials :: "camera \<Rightarrow> (string option \<times> string option) list" where
  "camera_credentials c =
     (let name = get_or (ca_username c) []; password = get_or (ca_password c) []
      in (if name \<noteq> [] \<or> password \<noteq> [] then [(Some name, Some password)] else []) @ [(None, None)])"

text \<open>The profiles the first usable credentials give, and the last error\<close>

fun probe ::
  "'w cam_env \<Rightarrow> string \<Rightarrow> (string option \<times> string option) list \<Rightarrow> string \<Rightarrow> ('w svc, source list \<times> string) act" where
  "probe env endpoint [] err = act_return ([], err)"
| "probe env endpoint ((name, password) # cs) err =
     act_bind (act_lift (res_bind (urlparse endpoint) (\<lambda>u. build_url u name password))) (\<lambda>candidate.
     act_bind (act_catch (act_bind (request_sources env ''api/onvif'' [(''src'', candidate)]) (\<lambda>l. act_return (Inr l)))
         (\<lambda>e. if http_failed e then act_return (Inl (error_text e)) else act_raise e)) (\<lambda>r.
     case r of
       Inl msg \<Rightarrow> probe env endpoint cs msg
     | Inr [] \<Rightarrow> probe env endpoint cs err
     | Inr (p # ps) \<Rightarrow> act_return (p # ps, err)))"

text \<open>One profile: a snapshot is only noted\<close>

definition add_profile :: "string \<Rightarrow> nat \<times> source \<Rightarrow> (string, stream) dict \<times> bool \<Rightarrow> ((string, stream) dict \<times> bool) res" where
  "add_profile stream_prefix = (\<lambda>(index, profile) (streams, snapshots).
     let url = get_or (so_url profile) []
     in if url = [] then Inr (streams, snapshots)
        else res_bind (urlparse url) (\<lambda>u.
          let query = parse_qs (u_query u)
          in if has_key query ''snapshot'' then Inr (streams, True)
             else res_bind (make_stream_name stream_prefix url index) (\<lambda>name.
               let slug = sanitize_fragment name (''stream_'' @ str_nat index)
               in Inr (AList.update slug \<lparr>st_profile_name = get_or (so_name profile) [], st_profile_token = profile_token_of query index,
                    st_snapshot = False, st_stream_name = name, st_stream_url = url\<rparr> streams, snapshots))))"

definition streams_from :: "string \<Rightarrow> source list \<Rightarrow> ((string, stream) dict \<times> bool) res" where
  "streams_from stream_prefix profiles = res_fold (add_profile stream_prefix) (List.enumerate 0 profiles) ([], False)"

definition locate_camera :: "'w cam_env \<Rightarrow> string \<Rightarrow> camera \<Rightarrow> ('w svc, string) act" where
  "locate_camera env slug c =
     act_bind (act_lift (ensure_onvif_url (text_or (ca_endpoint c) (text_or (ca_address c) [])))) (\<lambda>endpoint.
     act_bind (act_lift (strip_credentials endpoint)) (\<lambda>stripped.
     act_then (on_camera slug (\<lambda>c. c\<lparr>ca_endpoint := Some stripped\<rparr>))
    (act_bind (act_lift (extract_address endpoint)) (\<lambda>address.
     act_then (on_camera slug (\<lambda>c. c\<lparr>ca_address := Some address\<rparr>))
    (act_bind (now_usec env) (\<lambda>t.
     act_then (on_camera slug (\<lambda>c. c\<lparr>ca_last_refresh := Some t\<rparr>)) (act_return endpoint)))))))"

definition mark_unusable :: "string \<Rightarrow> string \<Rightarrow> ('w svc, unit) act" where
  "mark_unusable slug err = on_camera slug (\<lambda>c. c\<lparr>ca_present := Some False, ca_functional := Some False, ca_auth_status := Some ''failed'',
     ca_last_error := Some (if err = [] then ''unable to enumerate profiles'' else err)\<rparr>)"

definition accept_profiles :: "'w cam_env \<Rightarrow> string \<Rightarrow> camera \<Rightarrow> bool \<Rightarrow> source list \<Rightarrow> ('w svc, unit) act" where
  "accept_profiles env slug c import profiles =
     act_bind (act_lift (streams_from (ce_prefix env) profiles)) (\<lambda>(streams, snapshots).
     act_then (on_camera slug (\<lambda>c. c\<lparr>ca_streams := Some streams, ca_present := Some True, ca_functional := Some True,
         ca_auth_status := Some ''ok'', ca_snapshot_support := Some snapshots\<rparr>))
    (act_bind (now_usec env) (\<lambda>seen.
     act_then (on_camera slug (\<lambda>c. c\<lparr>ca_last_seen := Some seen, ca_last_error := Some []\<rparr>))
       (act_when import (reconcile env (filter (\<lambda>(n, _). n \<noteq> []) (stream_urls (streams_of c))) streams)))))"

definition refresh_camera :: "'w cam_env \<Rightarrow> string \<Rightarrow> bool \<Rightarrow> ('w svc, unit) act" where
  "refresh_camera env slug import =
     act_bind (act_gets (\<lambda>s. map_of (sv_cameras s) slug)) (\<lambda>found. case found of
       None \<Rightarrow> act_raise ValueError
     | Some c \<Rightarrow>
         if c = empty_camera then act_raise ValueError
         else act_bind (locate_camera env slug c) (\<lambda>endpoint.
              act_bind (probe env endpoint (camera_credentials c) []) (\<lambda>(profiles, err).
              if profiles = [] then mark_unusable slug err else accept_profiles env slug c import profiles)))"

definition for_cameras :: "(string \<Rightarrow> ('w svc, unit) act) \<Rightarrow> ('w svc, unit) act" where
  "for_cameras f = act_bind (act_gets (\<lambda>s. dict_keys (sv_cameras s))) (\<lambda>slugs. act_for slugs f)"

section \<open>The operations\<close>

definition set_default :: "string \<Rightarrow> ('w svc, unit) act" where
  "set_default slug = act_modify (\<lambda>s. if has_key (sv_cameras s) slug then s
     else s\<lparr>sv_cameras := AList.update slug new_camera (sv_cameras s)\<rparr>)"

definition discover_item :: "'w cam_env \<Rightarrow> source \<Rightarrow> ('w svc, unit) act" where
  "discover_item env item =
     act_bind (act_lift (strip_credentials (get_or (so_url item) []))) (\<lambda>endpoint.
     if endpoint = [] then act_return ()
     else act_bind (act_lift (extract_address endpoint)) (\<lambda>address.
       let slug = sanitize_fragment address ''camera''
       in act_bind (act_gets (\<lambda>s. has_key (sv_cameras s) slug)) (\<lambda>there.
          if \<not> there \<and> \<not> ce_auto_add env then act_return ()
          else act_then (set_default slug)
         (act_then (on_camera slug (\<lambda>c. c\<lparr>ca_address := Some address, ca_endpoint := Some endpoint,
              ca_name := Some (get_or (so_name item) address), ca_raw_info := Some (get_or (so_info item) []),
              ca_location := Some (get_or (so_location item) [])\<rparr>))
           (export_camera env slug)))))"

definition refresh_all :: "'w cam_env \<Rightarrow> ('w svc, unit) act" where
  "refresh_all env =
     act_then (for_cameras (\<lambda>slug. refresh_camera env slug (ce_auto_import env)))
    (act_then (save_state env) (for_cameras (sync_camera env)))"

definition discover_and_refresh :: "'w cam_env \<Rightarrow> ('w svc, unit) act" where
  "discover_and_refresh env =
     act_bind (act_catch (request_sources env ''api/onvif'' []) (\<lambda>e. if http_failed e then act_return [] else act_raise e)) (\<lambda>discovered.
     act_then (act_for discovered (discover_item env)) (refresh_all env))"

definition refresh_one :: "'w cam_env \<Rightarrow> string \<Rightarrow> bool \<Rightarrow> ('w svc, unit) act" where
  "refresh_one env slug import =
     act_then (refresh_camera env slug import) (act_then (save_state env) (sync_camera env slug))"

definition import_streams :: "'w cam_env \<Rightarrow> string \<Rightarrow> ('w svc, unit) act" where
  "import_streams env slug =
     act_bind (act_read (\<lambda>s. dict_get (sv_cameras s) slug)) (\<lambda>c. reconcile env [] (streams_of c))"

definition delete_all :: "'w cam_env \<Rightarrow> camera \<Rightarrow> ('w svc, unit) act" where
  "delete_all env c = act_for (streams_of c) (\<lambda>(_, st).
     act_when (st_stream_name st \<noteq> []) (quietly (delete_stream env (st_stream_name st))))"

definition delete_streams :: "'w cam_env \<Rightarrow> string \<Rightarrow> ('w svc, unit) act" where
  "delete_streams env slug = act_bind (act_read (\<lambda>s. dict_get (sv_cameras s) slug)) (delete_all env)"

definition the_stream :: "string \<Rightarrow> string \<Rightarrow> ('w svc, stream) act" where
  "the_stream slug st =
     act_bind (act_read (\<lambda>s. dict_get (sv_cameras s) slug)) (\<lambda>c.
     case map_of (streams_of c) st of None \<Rightarrow> act_raise ValueError | Some x \<Rightarrow> act_return x)"

definition import_camera_stream :: "'w cam_env \<Rightarrow> string \<Rightarrow> string \<Rightarrow> ('w svc, unit) act" where
  "import_camera_stream env slug st =
     act_bind (the_stream slug st) (\<lambda>x. act_then (put_stream env (st_stream_name x, st_stream_url x)) (act_return ()))"

definition remove_camera_stream :: "'w cam_env \<Rightarrow> string \<Rightarrow> string \<Rightarrow> ('w svc, unit) act" where
  "remove_camera_stream env slug st =
     act_bind (the_stream slug st) (\<lambda>x. act_then (delete_stream env (st_stream_name x)) (act_return ()))"

definition set_camera_credentials :: "'w cam_env \<Rightarrow> string \<Rightarrow> string \<Rightarrow> string \<Rightarrow> ('w svc, unit) act" where
  "set_camera_credentials env slug name password =
     act_bind (act_read (\<lambda>s. dict_get (sv_cameras s) slug)) (\<lambda>_.
     act_then (on_camera slug (\<lambda>c. c\<lparr>ca_username := Some name, ca_password := Some password\<rparr>))
       (refresh_one env slug (ce_auto_import env)))"

definition add_camera :: "'w cam_env \<Rightarrow> string \<Rightarrow> string \<Rightarrow> string \<Rightarrow> bool \<Rightarrow> ('w svc, string) act" where
  "add_camera env address name password import =
     act_bind (act_lift (ensure_onvif_url address)) (\<lambda>endpoint.
     act_bind (act_lift (extract_address endpoint)) (\<lambda>host.
     let slug = sanitize_fragment host ''camera''
     in act_then (set_default slug)
       (act_then (on_camera slug (\<lambda>c. c\<lparr>ca_address := Some host\<rparr>))
       (act_bind (act_lift (strip_credentials endpoint)) (\<lambda>stripped.
        act_then (on_camera slug (\<lambda>c. c\<lparr>ca_endpoint := Some stripped, ca_username := Some name, ca_password := Some password,
            ca_managed := Some True, ca_name := Some (text_or (ca_name c) host)\<rparr>))
       (act_then (export_camera env slug)
       (act_then (refresh_one env slug import)
         (act_return (camera_path env slug)))))))))"

definition remove_camera_by_path :: "'w cam_env \<Rightarrow> string \<Rightarrow> ('w svc, unit) act" where
  "remove_camera_by_path env path =
     act_bind (act_gets (\<lambda>s. List.find (\<lambda>slug. camera_path env slug = path) (dict_keys (sv_cameras s)))) (\<lambda>found. case found of
       None \<Rightarrow> act_raise ValueError
     | Some slug \<Rightarrow>
         act_bind (act_read (\<lambda>s. dict_get (sv_cameras s) slug)) (\<lambda>c.
         act_then (delete_all env c)
        (act_then (act_modify (\<lambda>s. s\<lparr>sv_cameras := AList.delete slug (sv_cameras s)\<rparr>))
        (act_then (unexport_camera env slug)
        (act_then (save_state env) (sync_manager env))))))"

text \<open>The start of the service, with the cameras of the state file, and one round of its loop\<close>

definition new_service :: "(string, camera) dict \<Rightarrow> 'w \<Rightarrow> 'w svc" where
  "new_service cameras w = \<lparr>sv_cameras = cameras, sv_objects = [], sv_manager = new_manager, sv_signals = [], sv_world = w\<rparr>"

definition publish_saved :: "'w cam_env \<Rightarrow> ('w svc, unit) act" where
  "publish_saved env =
     act_then (on_world (ce_export env manager_path manager_iface))
    (act_then (for_cameras (\<lambda>slug. act_then (export_camera env slug) (sync_camera env slug))) (sync_manager env))"

definition start_service :: "'w cam_env \<Rightarrow> ('w svc, unit) act" where
  "start_service env = act_then (publish_saved env) (discover_and_refresh env)"

definition periodic_round :: "'w cam_env \<Rightarrow> ('w svc, unit) act" where
  "periodic_round env = act_catch (discover_and_refresh env) (\<lambda>_. act_return ())"

end
