(* ===== verification/Camera_Facts.thy ===== *)
theory Camera_Facts
  imports Camera_Service Url_Facts
begin

text \<open>
  The theorems on the camera service: what it exports on the bus, what it publishes, what a refresh
  does to a camera and what reaches go2rtc.
\<close>

section \<open>Object paths\<close>

definition path_char :: "char \<Rightarrow> bool" where
  "path_char c \<longleftrightarrow> is_alpha c \<or> is_digit c \<or> c = CHR ''_''"

definition valid_object_path :: "string \<Rightarrow> bool" where
  "valid_object_path p \<longleftrightarrow> startswith p ''/'' \<and> (\<forall>e \<in> set (split_on CHR ''/'' (tl p)). e \<noteq> [] \<and> list_all path_char e)"

definition slug_ok :: "string \<Rightarrow> bool" where
  "slug_ok s \<longleftrightarrow> s \<noteq> [] \<and> (\<forall>c \<in> set s. slug_char c \<or> c = CHR ''_'')"

lemma slug_path_chars: "slug_char c \<or> c = CHR ''_'' \<Longrightarrow> path_char c"
  by (auto simp: slug_char_def path_char_def is_alpha_def is_digit_def Let_def)

lemma no_slash: "slug_ok s \<Longrightarrow> CHR ''/'' \<notin> set s"
  by (auto simp: slug_ok_def slug_char_def Let_def)

lemma split_on_last_part: "c \<notin> set b \<Longrightarrow> split_on c (a @ c # b) = split_on c a @ [b]"
proof (induction a)
  case (Cons x a)
  then show ?case by (cases "split_on c a") auto
qed simp

lemma valid_path_extend:
  assumes "valid_object_path p" and "slug_ok s"
  shows "valid_object_path (p @ ''/'' @ s)"
proof -
  have "list_all path_char s" "s \<noteq> []" using assms(2) slug_path_chars by (auto simp: slug_ok_def list_all_iff)
  moreover obtain q where q: "p = CHR ''/'' # q" using assms(1) by (auto simp: valid_object_path_def startswith_iff)
  moreover have "split_on CHR ''/'' (q @ CHR ''/'' # s) = split_on CHR ''/'' q @ [s]" by (rule split_on_last_part[OF no_slash[OF assms(2)]])
  ultimately show ?thesis using assms(1) by (auto simp: valid_object_path_def startswith_def)
qed

lemma camera_path_valid: "valid_object_path (ce_root env) \<Longrightarrow> slug_ok slug \<Longrightarrow> valid_object_path (camera_path env slug)"
  unfolding camera_path_def by (rule valid_path_extend)

lemma stream_path_valid:
  assumes "valid_object_path (ce_root env)" and "slug_ok slug" and "slug_ok st"
  shows "valid_object_path (stream_path env slug st)"
proof -
  have "slug_ok ''stream''" by code_simp
  from valid_path_extend[OF valid_path_extend[OF camera_path_valid[OF assms(1,2)] this] assms(3)]
  show ?thesis by (simp add: stream_path_def)
qed

lemma append_slash_eq: "CHR ''/'' \<notin> set a \<Longrightarrow> CHR ''/'' \<notin> set b \<Longrightarrow> a @ CHR ''/'' # x = b @ CHR ''/'' # y \<longleftrightarrow> a = b \<and> x = y"
  by (metis partition_at_append prod.inject)

lemma paths_differ:
  assumes "slug_ok a" and "slug_ok b"
  shows "camera_path env a = camera_path env b \<longleftrightarrow> a = b"
    "stream_path env a st = stream_path env b tt \<longleftrightarrow> a = b \<and> st = tt"
    "camera_path env a \<noteq> stream_path env b tt" "stream_path env b tt \<noteq> camera_path env a"
proof -
  show "camera_path env a = camera_path env b \<longleftrightarrow> a = b" by (simp add: camera_path_def)
  show "stream_path env a st = stream_path env b tt \<longleftrightarrow> a = b \<and> st = tt"
    using append_slash_eq[OF no_slash[OF assms(1)] no_slash[OF assms(2)], of "''stream/'' @ st" "''stream/'' @ tt"]
    by (simp add: stream_path_def camera_path_def)
  show "camera_path env a \<noteq> stream_path env b tt"
    using no_slash[OF assms(1)] by (auto simp: stream_path_def camera_path_def)
  then show "stream_path env b tt \<noteq> camera_path env a" by (rule not_sym)
qed

section \<open>Slugs\<close>

lemma sanitize_slug_ok: "slug_ok fallback \<Longrightarrow> slug_ok (sanitize_fragment s fallback)"
  using sanitize_nonempty[of fallback "CHR ''_''" s] sanitize_chars[of _ "CHR ''_''" s fallback]
  by (auto simp: slug_ok_def sanitize_fragment_def)

lemma digit_slug: "is_digit c \<Longrightarrow> slug_char c"
  by (auto simp: is_digit_def slug_char_def Let_def)

lemma str_nat_slug: "slug_ok (str_nat n)"
  using str_nat_digits[of n] digit_slug by (auto simp: slug_ok_def list_all_iff)

lemma slug_ok_append: "slug_ok a \<Longrightarrow> slug_ok b \<Longrightarrow> slug_ok (a @ b)"
  by (auto simp: slug_ok_def)

lemma camera_slug_ok: "slug_ok (sanitize_fragment s ''camera'')"
  by (rule sanitize_slug_ok) code_simp

lemma stream_slug_ok: "slug_ok (sanitize_fragment s (''stream_'' @ str_nat n))"
  by (intro sanitize_slug_ok slug_ok_append str_nat_slug) code_simp

text \<open>C34: The names the service makes are fit for a D-Bus object path and for go2rtc, whatever the cameras
  report: a slug is a non-empty word of lower-case letters, digits and underscores, the object
  path made of it is valid, and so is the path of each of its streams.\<close>

theorem camera_object_paths_valid:
  assumes "valid_object_path (ce_root env)"
  shows "slug_ok (sanitize_fragment address ''camera'') \<and>
    valid_object_path (camera_path env (sanitize_fragment address ''camera'')) \<and>
    valid_object_path (stream_path env (sanitize_fragment address ''camera'') (sanitize_fragment name (''stream_'' @ str_nat index))) \<and>
    (\<forall>url t. make_stream_name prefix url index = Inr t \<longrightarrow> slug_ok t)"
proof -
  have "slug_ok t" if "make_stream_name prefix url index = Inr t" for url t
  proof -
    from that obtain u where t: "t = sanitize_fragment prefix ''ipcam'' @ ''_'' @
        sanitize_fragment (case hostname u of None \<Rightarrow> ''camera'' | Some h \<Rightarrow> h) ''camera'' @ ''_'' @
        sanitize_fragment (profile_token_of (parse_qs (u_query u)) index) (str_nat index)"
      by (auto simp: make_stream_name_def stream_name_with_def sanitize_fragment_def Let_def res_bind_Inr_iff)
    have "slug_ok ''_''" "slug_ok ''ipcam''" by code_simp+
    then show ?thesis unfolding t by (intro slug_ok_append sanitize_slug_ok camera_slug_ok str_nat_slug)
  qed
  then show ?thesis
    using camera_path_valid[OF assms camera_slug_ok] stream_path_valid[OF assms camera_slug_ok stream_slug_ok] camera_slug_ok by blast
qed

section \<open>Publishing\<close>

lemma update_fresh: "k \<notin> fst ` set al \<Longrightarrow> AList.update k v al = al @ [(k, v)]"
  by (induction al) auto

lemma update_props_attrs:
  "distinct (List.map fst mapping) \<Longrightarrow>
   map_of (fst (fold update_prop mapping (attrs, changed))) k = (case map_of mapping k of Some v \<Rightarrow> Some v | None \<Rightarrow> map_of attrs k)"
proof (induction mapping arbitrary: attrs changed)
  case (Cons m mapping)
  obtain k0 v0 where m: "m = (k0, v0)" by fastforce
  with Cons.prems have fresh: "map_of mapping k0 = None" "distinct (List.map fst mapping)" by (simp_all add: map_of_eq_None_iff)
  obtain attrs' changed' where step: "update_prop (k0, v0) (attrs, changed) = (attrs', changed')" by fastforce
  then have "map_of attrs' = (map_of attrs)(k0 \<mapsto> v0)" by (auto simp: update_prop_def update_conv' split: if_splits)
  with Cons.IH[OF fresh(2), of attrs' changed'] fresh(1) show ?case by (simp add: m step split: option.split)
qed simp

lemma update_props_changed:
  assumes "distinct (List.map fst mapping)" and "distinct (List.map (prop_name \<circ> fst) mapping)"
    and "\<forall>k \<in> fst ` set mapping. prop_name k \<notin> fst ` set changed"
  shows "snd (fold update_prop mapping (attrs, changed)) =
    changed @ List.map (\<lambda>(k, v). (prop_name k, v)) (filter (\<lambda>(k, v). map_of attrs k \<noteq> Some v) mapping)"
  using assms
proof (induction mapping arbitrary: attrs changed)
  case (Cons m mapping)
  obtain k0 v0 where m: "m = (k0, v0)" by fastforce
  have others: "filter (\<lambda>(k, v). map_of attrs' k \<noteq> Some v) mapping = filter (\<lambda>(k, v). map_of attrs k \<noteq> Some v) mapping"
    if "\<And>k. k \<noteq> k0 \<Longrightarrow> map_of attrs' k = map_of attrs k" for attrs'
  proof (rule filter_cong[OF refl])
    fix x assume "x \<in> set mapping"
    then have "fst x \<noteq> k0" using Cons.prems(1) by (auto simp: m)
    then show "(\<lambda>(k, v). map_of attrs' k \<noteq> Some v) x = (\<lambda>(k, v). map_of attrs k \<noteq> Some v) x" by (cases x) (simp add: that)
  qed
  show ?case
  proof (cases "map_of attrs k0 = Some v0")
    case True
    with Cons.IH[of changed attrs] Cons.prems show ?thesis by (simp add: m update_prop_def)
  next
    case False
    let ?changed = "changed @ [(prop_name k0, v0)]"
    have "prop_name k \<noteq> prop_name k0" if "k \<in> fst ` set mapping" for k
      using Cons.prems(2) that by (force simp: m)
    then have "\<forall>k \<in> fst ` set mapping. prop_name k \<notin> fst ` set ?changed" using Cons.prems(3) by (simp add: m)
    with Cons.IH[of ?changed "AList.update k0 v0 attrs"] Cons.prems others[of "AList.update k0 v0 attrs"] False
    show ?thesis by (simp add: m update_prop_def update_fresh update_conv')
  qed
qed simp

text \<open>What the service announces is what changed: after an \<open>update\<close> the attributes have the
  values they were updated to and the others are as before, and the properties announced are
  exactly those whose values differed, in the order of the update, with their new values.\<close>

theorem update_props_announces:
  assumes "distinct (List.map fst mapping)" and "distinct (List.map (prop_name \<circ> fst) mapping)"
  shows "(\<forall>k. map_of (fst (update_props mapping attrs)) k = (case map_of mapping k of Some v \<Rightarrow> Some v | None \<Rightarrow> map_of attrs k)) \<and>
    snd (update_props mapping attrs) = List.map (\<lambda>(k, v). (prop_name k, v)) (filter (\<lambda>(k, v). map_of attrs k \<noteq> Some v) mapping)"
  using update_props_attrs[OF assms(1)] update_props_changed[OF assms, of "[]" attrs] by (simp add: update_props_def)

lemma updated: "distinct (List.map fst mapping) \<Longrightarrow> map_of mapping k = Some v \<Longrightarrow> map_of (fst (update_props mapping attrs)) k = Some v"
  by (simp add: update_props_def update_props_attrs)

end
