(* ===== verification/Camera_Invariant.thy ===== *)
theory Camera_Invariant
  imports Camera_Facts
begin

text \<open>
  What the service keeps true whatever it is asked to do and whatever go2rtc, the cameras and the
  bus answer: the object tree on the bus is exactly the tree of its camera objects.

  \<open>cam_call\<close> are the D-Bus methods of the service and one round of its loop, \<open>cam_reach\<close> the states
  any sequence of them leads to. What is known of the bus is \<open>bus_contract\<close>: a valid path that is
  not exported can be exported, and removing an export cannot fail; nothing else exports or
  removes objects of the service. \<open>ex\<close> are the interfaces exported in a state of the world.
\<close>

section \<open>Calls and reachable states\<close>

datatype cam_call =
    Discover | RefreshAll | AddCamera string string string bool | RemoveCamera string
  | Refresh string | ImportStreams string | DeleteStreams string | SetCredentials string string string
  | StreamImport string string | StreamRemove string string
  | PeriodicRound

fun run_call :: "'w cam_env \<Rightarrow> cam_call \<Rightarrow> ('w svc, unit) act" where
  "run_call env Discover = discover_and_refresh env"
| "run_call env RefreshAll = refresh_all env"
| "run_call env (AddCamera address name password import) = act_then (add_camera env address name password import) (act_return ())"
| "run_call env (RemoveCamera path) = remove_camera_by_path env path"
| "run_call env (Refresh slug) = refresh_one env slug (ce_auto_import env)"
| "run_call env (ImportStreams slug) = import_streams env slug"
| "run_call env (DeleteStreams slug) = delete_streams env slug"
| "run_call env (SetCredentials slug name password) = set_camera_credentials env slug name password"
| "run_call env (StreamImport slug st) = import_camera_stream env slug st"
| "run_call env (StreamRemove slug st) = remove_camera_stream env slug st"
| "run_call env PeriodicRound = periodic_round env"

type_synonym exports = "(string \<times> string) set"

inductive cam_reach :: "'w cam_env \<Rightarrow> ('w \<Rightarrow> exports) \<Rightarrow> (string, camera) dict \<Rightarrow> 'w svc \<Rightarrow> bool"
  for env ex saved where
  start: "ex w = {} \<Longrightarrow> publish_saved env (new_service saved w) = (Inr (), s) \<Longrightarrow> cam_reach env ex saved s"
| call: "cam_reach env ex saved s \<Longrightarrow> run_call env c s = (r, t) \<Longrightarrow> cam_reach env ex saved t"
| elsewhere: "cam_reach env ex saved s \<Longrightarrow> ex w = ex (sv_world s) \<Longrightarrow> cam_reach env ex saved (s\<lparr>sv_world := w\<rparr>)"

definition bus_contract :: "'w cam_env \<Rightarrow> ('w \<Rightarrow> exports) \<Rightarrow> bool" where
  "bus_contract env ex \<longleftrightarrow>
     (\<forall>w p i. valid_object_path p \<and> (p, i) \<notin> ex w \<longrightarrow>
        fst (ce_export env p i w) = Inr () \<and> ex (snd (ce_export env p i w)) = insert (p, i) (ex w)) \<and>
     (\<forall>w p i. fst (ce_unexport env p i w) = Inr () \<and> ex (snd (ce_unexport env p i w)) = ex w - {(p, i)}) \<and>
     (\<forall>w m p q. ex (snd (ce_request env m p q w)) = ex w) \<and>
     (\<forall>w cs. ex (snd (ce_save env cs w)) = ex w) \<and>
     (\<forall>w. ex (snd (ce_clock env w)) = ex w)"

lemma bus_contractD:
  assumes "bus_contract env ex"
  shows "valid_object_path p \<Longrightarrow> (p, i) \<notin> ex w \<Longrightarrow> \<exists>w'. ce_export env p i w = (Inr (), w') \<and> ex w' = insert (p, i) (ex w)"
    and "\<exists>w'. ce_unexport env p i w = (Inr (), w') \<and> ex w' = ex w - {(p, i)}"
    and "ex (snd (ce_request env m p q w)) = ex w"
    and "ex (snd (ce_save env cs w)) = ex w"
    and "ex (snd (ce_clock env w)) = ex w"
  using assms unfolding bus_contract_def by (metis prod.collapse)+

section \<open>The invariant\<close>

definition streams_ok :: "camera \<Rightarrow> bool" where
  "streams_ok c \<longleftrightarrow> wf_dict (streams_of c) \<and> list_all slug_ok (dict_keys (streams_of c))"

definition cameras_ok :: "(string, camera) dict \<Rightarrow> bool" where
  "cameras_ok cs \<longleftrightarrow> wf_dict cs \<and> list_all slug_ok (dict_keys cs) \<and> list_all streams_ok (List.map snd cs)"

definition objects_ok :: "(string, camera_object) dict \<Rightarrow> bool" where
  "objects_ok os \<longleftrightarrow> wf_dict os \<and> list_all (\<lambda>obj. wf_dict (co_streams obj) \<and> list_all slug_ok (dict_keys (co_streams obj))) (List.map snd os)"

text \<open>The objects the service has exported\<close>

definition camera_exports :: "'w cam_env \<Rightarrow> string \<Rightarrow> exports" where
  "camera_exports env slug = {(camera_path env slug, i) |i. i \<in> set camera_ifaces}"

definition stream_exports :: "'w cam_env \<Rightarrow> string \<Rightarrow> camera_object \<Rightarrow> exports" where
  "stream_exports env slug obj = {(stream_path env slug st, stream_iface) |st. has_key (co_streams obj) st}"

definition object_tree :: "'w cam_env \<Rightarrow> (string \<rightharpoonup> camera_object) \<Rightarrow> exports" where
  "object_tree env objs = insert (manager_path, manager_iface)
     (\<Union>(slug, obj) \<in> Map.graph objs. camera_exports env slug \<union> stream_exports env slug obj)"

definition svc_inv :: "'w cam_env \<Rightarrow> ('w \<Rightarrow> exports) \<Rightarrow> 'w svc \<Rightarrow> bool" where
  "svc_inv env ex s \<longleftrightarrow> cameras_ok (sv_cameras s) \<and> objects_ok (sv_objects s) \<and>
     set (dict_keys (sv_objects s)) \<subseteq> set (dict_keys (sv_cameras s)) \<and>
     ex (sv_world s) = object_tree env (map_of (sv_objects s))"

text \<open>\<open>svc_with\<close> also knows some cameras, which a call has looked up or made.\<close>

definition svc_with :: "'w cam_env \<Rightarrow> ('w \<Rightarrow> exports) \<Rightarrow> string set \<Rightarrow> 'w svc \<Rightarrow> bool" where
  "svc_with env ex K s \<longleftrightarrow> svc_inv env ex s \<and> K \<subseteq> set (dict_keys (sv_cameras s))"

lemma svc_withD:
  assumes "svc_with env ex K s"
  shows "cameras_ok (sv_cameras s)" "objects_ok (sv_objects s)" "set (dict_keys (sv_objects s)) \<subseteq> set (dict_keys (sv_cameras s))"
    "ex (sv_world s) = object_tree env (map_of (sv_objects s))" "K \<subseteq> set (dict_keys (sv_cameras s))"
  using assms by (simp_all add: svc_with_def svc_inv_def)

lemma svc_withI:
  assumes "cameras_ok (sv_cameras s)" "objects_ok (sv_objects s)" "set (dict_keys (sv_objects s)) \<subseteq> set (dict_keys (sv_cameras s))"
    "ex (sv_world s) = object_tree env (map_of (sv_objects s))" "K \<subseteq> set (dict_keys (sv_cameras s))"
  shows "svc_with env ex K s"
  using assms by (simp add: svc_with_def svc_inv_def)

lemma svc_with_empty: "svc_with env ex {} s = svc_inv env ex s"
  by (simp add: svc_with_def)

lemma cameras_okD:
  assumes "cameras_ok cs"
  shows "wf_dict cs" "has_key cs slug \<Longrightarrow> slug_ok slug" "map_of cs slug = Some c \<Longrightarrow> streams_ok c"
proof -
  show "wf_dict cs" "has_key cs slug \<Longrightarrow> slug_ok slug" using assms by (auto simp: cameras_ok_def list_all_iff has_key_def)
  show "streams_ok c" if "map_of cs slug = Some c"
    using assms map_of_SomeD[OF that] by (auto simp: cameras_ok_def list_all_iff)
qed

lemma objects_okD:
  assumes "objects_ok os"
  shows "wf_dict os" "map_of os slug = Some obj \<Longrightarrow> wf_dict (co_streams obj)"
    "map_of os slug = Some obj \<Longrightarrow> has_key (co_streams obj) st \<Longrightarrow> slug_ok st"
proof -
  show "wf_dict os" using assms by (simp add: objects_ok_def)
  have "wf_dict (co_streams obj) \<and> list_all slug_ok (dict_keys (co_streams obj))" if "map_of os slug = Some obj"
    using assms map_of_SomeD[OF that] by (auto simp: objects_ok_def list_all_iff)
  then show "map_of os slug = Some obj \<Longrightarrow> wf_dict (co_streams obj)"
    "map_of os slug = Some obj \<Longrightarrow> has_key (co_streams obj) st \<Longrightarrow> slug_ok st"
    by (auto simp: list_all_iff has_key_def)
qed

section \<open>The object tree\<close>

lemma object_tree_iff:
  "x \<in> object_tree env objs \<longleftrightarrow> x = (manager_path, manager_iface) \<or>
    (\<exists>slug obj. objs slug = Some obj \<and> x \<in> camera_exports env slug \<union> stream_exports env slug obj)"
  by (auto simp: object_tree_def Map.graph_def)

lemma ex_map_update:
  "(\<exists>a y. (m(k \<mapsto> v)) a = Some y \<and> Q a y) \<longleftrightarrow> (\<exists>a y. (m(k := None)) a = Some y \<and> Q a y) \<or> Q k v"
proof
  assume "\<exists>a y. (m(k \<mapsto> v)) a = Some y \<and> Q a y"
  then obtain a y where "(m(k \<mapsto> v)) a = Some y" "Q a y" by blast
  then show "(\<exists>a y. (m(k := None)) a = Some y \<and> Q a y) \<or> Q k v" by (cases "a = k") auto
next
  assume "(\<exists>a y. (m(k := None)) a = Some y \<and> Q a y) \<or> Q k v"
  then show "\<exists>a y. (m(k \<mapsto> v)) a = Some y \<and> Q a y"
  proof
    assume "\<exists>a y. (m(k := None)) a = Some y \<and> Q a y"
    then obtain a y where "(m(k := None)) a = Some y" "Q a y" by blast
    then have "(m(k \<mapsto> v)) a = Some y" by (cases "a = k") auto
    with \<open>Q a y\<close> show ?thesis by blast
  next
    assume "Q k v"
    then show ?thesis by (intro exI[of _ k] exI[of _ v]) simp
  qed
qed

lemma object_tree_update:
  "object_tree env (objs(slug \<mapsto> obj)) = object_tree env (objs(slug := None)) \<union> camera_exports env slug \<union> stream_exports env slug obj"
proof (rule set_eqI)
  fix x
  show "x \<in> object_tree env (objs(slug \<mapsto> obj)) \<longleftrightarrow>
    x \<in> object_tree env (objs(slug := None)) \<union> camera_exports env slug \<union> stream_exports env slug obj"
    using ex_map_update[of objs slug obj "\<lambda>a y. x \<in> camera_exports env a \<union> stream_exports env a y"]
    unfolding object_tree_iff Un_iff by blast
qed

lemma object_tree_known:
  "objs slug = Some obj \<Longrightarrow>
   object_tree env objs = object_tree env (objs(slug := None)) \<union> camera_exports env slug \<union> stream_exports env slug obj"
  using object_tree_update[of env objs slug obj] by (simp add: fun_upd_idem)

lemma object_tree_fresh:
  assumes "slug_ok slug" and "\<And>a. a \<in> dom objs \<Longrightarrow> slug_ok a"
  shows "object_tree env (objs(slug := None)) \<inter> (camera_exports env slug \<union> {(stream_path env slug st, stream_iface) |st. True}) = {}"
proof -
  have "(p, i) \<notin> camera_exports env slug \<union> {(stream_path env slug st, stream_iface) |st. True}"
    if tree: "(p, i) \<in> object_tree env (objs(slug := None))" for p i
  proof -
    have ifaces: "manager_iface \<notin> set camera_ifaces" "manager_iface \<noteq> stream_iface"
      by (simp_all add: camera_ifaces_def manager_iface_def item_iface_def status_iface_def asset_iface_def device_iface_def stream_iface_def)
    from tree consider "(p, i) = (manager_path, manager_iface)"
      | a obj where "a \<noteq> slug" "objs a = Some obj" "(p, i) \<in> camera_exports env a \<union> stream_exports env a obj"
      unfolding object_tree_iff by (auto split: if_splits)
    then show ?thesis
    proof cases
      case 1
      with ifaces show ?thesis by (auto simp: camera_exports_def)
    next
      case 2
      then have "slug_ok a" using assms(2) by blast
      from 2 paths_differ[OF this assms(1), where env = env] paths_differ[OF assms(1) this, where env = env] show ?thesis by (auto simp: camera_exports_def stream_exports_def)
    qed
  qed
  then show ?thesis by auto
qed

lemma stream_not_camera:
  assumes "slug_ok slug"
  shows "(stream_path env slug st, stream_iface) \<notin> camera_exports env slug"
    "(stream_path env slug st, stream_iface) \<in> stream_exports env slug obj \<longleftrightarrow> has_key (co_streams obj) st"
  using paths_differ[OF assms assms, where env = env] by (auto simp: camera_exports_def stream_exports_def)

lemma object_slugs:
  assumes "svc_with env ex K s" and "map_of (sv_objects s) slug = Some obj"
  shows "slug_ok slug"
proof -
  have "slug \<in> set (dict_keys (sv_objects s))" using map_of_SomeD[OF assms(2)] by force
  then have "has_key (sv_cameras s) slug" using svc_withD(3)[OF assms(1)] by (auto simp: has_key_def)
  then show ?thesis by (rule cameras_okD(2)[OF svc_withD(1)[OF assms(1)]])
qed

lemma tree_fresh_camera:
  assumes "svc_with env ex K s" and "slug_ok slug"
  shows "object_tree env ((map_of (sv_objects s))(slug := None)) \<inter>
    (camera_exports env slug \<union> {(stream_path env slug st, stream_iface) |st. True}) = {}"
  using object_slugs[OF assms(1)] by (intro object_tree_fresh[OF assms(2)]) blast

section \<open>Steps that keep it\<close>

lemma triple_endsI: "(\<And>s. P s \<Longrightarrow> ends m s Q) \<Longrightarrow> triple P m Q E"
  unfolding triple_def ends_def by (fastforce split: prod.splits sum.splits)

lemma keeps_endsI: "(\<And>s. I s \<Longrightarrow> ends m s (\<lambda>_. I)) \<Longrightarrow> keeps I m"
  unfolding keeps_def by (rule triple_endsI)

lemma keeps_bind_lift: "(\<And>x. r = Inr x \<Longrightarrow> keeps I (f x)) \<Longrightarrow> keeps I (act_bind (act_lift r) f)"
  unfolding keeps_def by (rule triple_bind_liftI) auto

lemma keeps_bind_read:
  "(\<And>x s. I s \<Longrightarrow> q s = Inr x \<Longrightarrow> I (snd (f x s))) \<Longrightarrow> keeps I (act_bind (act_read q) f)"
  by (rule keepsI) (auto simp: act_simps split: prod.splits sum.splits)

lemma keeps_gets_run: "(\<And>s. I s \<Longrightarrow> I (snd (f (g s) s))) \<Longrightarrow> keeps I (act_bind (act_gets g) f)"
  by (rule keepsI) (simp add: act_simps)

lemma keeps_world:
  fixes m :: "('w, 'a) act"
  assumes "\<And>w. ex (snd (m w)) = ex w"
  shows "keeps (svc_with env ex K) (on_world m)"
proof (rule keepsI)
  fix s :: "'w svc"
  assume "svc_with env ex K s"
  with assms[of "sv_world s"] show "svc_with env ex K (snd (on_world m s))"
    by (cases "m (sv_world s)") (simp add: on_world_def act_zoom_def svc_with_def svc_inv_def)
qed

lemma keeps_signals: "keeps (svc_with env ex K) (act_modify (emit path iface changed))"
  by (rule keeps_modify) (auto simp: emit_def svc_with_def svc_inv_def)

lemma keeps_sync_manager: "keeps (svc_with env ex K) (sync_manager env)"
  unfolding sync_manager_def by (rule keeps_modify) (auto simp: emit_def svc_with_def svc_inv_def split: prod.split)

lemma dict_keys_map_entry [simp]: "dict_keys (AList.map_entry k f d) = dict_keys d"
  by (induction d) auto

lemma map_of_map_entry: "map_of (AList.map_entry k f d) k' = (if k' = k then map_option f (map_of d k) else map_of d k')"
  by (induction d) auto

lemma keeps_on_camera:
  assumes "\<And>c. streams_ok c \<Longrightarrow> streams_ok (f c)"
  shows "keeps (svc_with env ex K) (on_camera slug f)"
proof -
  have "cameras_ok (AList.map_entry slug f cs)" if "cameras_ok cs" for cs
  proof -
    have "list_all streams_ok (List.map snd cs) \<Longrightarrow> list_all streams_ok (List.map snd (AList.map_entry slug f cs))"
      using assms by (induction cs) auto
    then show ?thesis using that by (simp add: cameras_ok_def)
  qed
  then show ?thesis unfolding on_camera_def
    by (intro keeps_modify) (auto simp: svc_with_def svc_inv_def simp flip: set_map)
qed

section \<open>Exporting and removing objects\<close>

lemma on_world_ends: "ends (on_world m) s Q = ends m (sv_world s) (\<lambda>x w. Q x (s\<lparr>sv_world := w\<rparr>))"
  by (simp add: on_world_def ends_zoom)

lemma export_loop:
  assumes "bus_contract env ex" and "valid_object_path p" and "distinct ifaces" and "\<And>i. i \<in> set ifaces \<Longrightarrow> (p, i) \<notin> ex (sv_world s)"
  shows "ends (act_for ifaces (\<lambda>i. on_world (ce_export env p i))) s
    (\<lambda>_ t. \<exists>w. t = s\<lparr>sv_world := w\<rparr> \<and> ex w = ex (sv_world s) \<union> {(p, i) |i. i \<in> set ifaces})"
  using assms(3,4)
proof (induction ifaces arbitrary: s)
  case Nil
  show ?case by (auto simp: ends_simps intro: exI[of _ "sv_world s"])
next
  case (Cons i ifaces)
  from bus_contractD(1)[OF assms(1,2) Cons.prems(2)[of i]] obtain w
    where w: "ce_export env p i (sv_world s) = (Inr (), w)" "ex w = insert (p, i) (ex (sv_world s))" by auto
  have "ends (act_for ifaces (\<lambda>i. on_world (ce_export env p i))) (s\<lparr>sv_world := w\<rparr>)
      (\<lambda>_ t. \<exists>w. t = s\<lparr>sv_world := w\<rparr> \<and> ex w = ex (sv_world s) \<union> {(p, j) |j. j \<in> set (i # ifaces)})"
    using Cons.prems w(2) by (intro ends_weaken[OF Cons.IH]) auto
  note rest = this
  show ?case unfolding act_for.simps ends_simps on_world_ends by (rule endsI, rule w(1), rule rest)
qed

lemma unexport_loop:
  assumes "bus_contract env ex"
  shows "ends (act_for xs (\<lambda>x. on_world (ce_unexport env (p x) (i x)))) s
    (\<lambda>_ t. \<exists>w. t = s\<lparr>sv_world := w\<rparr> \<and> ex w = ex (sv_world s) - {(p x, i x) |x. x \<in> set xs})"
proof (induction xs arbitrary: s)
  case Nil
  show ?case by (auto simp: ends_simps intro: exI[of _ "sv_world s"])
next
  case (Cons x xs)
  from bus_contractD(2)[OF assms] obtain w
    where w: "ce_unexport env (p x) (i x) (sv_world s) = (Inr (), w)" "ex w = ex (sv_world s) - {(p x, i x)}" by blast
  have "ends (act_for xs (\<lambda>x. on_world (ce_unexport env (p x) (i x)))) (s\<lparr>sv_world := w\<rparr>)
      (\<lambda>_ t. \<exists>w. t = s\<lparr>sv_world := w\<rparr> \<and> ex w = ex (sv_world s) - {(p y, i y) |y. y \<in> set (x # xs)})"
  proof (rule ends_weaken[OF Cons.IH])
    fix y :: unit and t
    have "ex w - {(p y, i y) |y. y \<in> set xs} = ex (sv_world s) - {(p y, i y) |y. y \<in> set (x # xs)}" using w(2) by auto
    moreover assume "\<exists>v. t = s\<lparr>sv_world := w, sv_world := v\<rparr> \<and> ex v = ex (sv_world (s\<lparr>sv_world := w\<rparr>)) - {(p y, i y) |y. y \<in> set xs}"
    ultimately show "\<exists>v. t = s\<lparr>sv_world := v\<rparr> \<and> ex v = ex (sv_world s) - {(p y, i y) |y. y \<in> set (x # xs)}" by auto
  qed
  note rest = this
  show ?case unfolding act_for.simps ends_simps on_world_ends by (rule endsI, rule w(1), rule rest)
qed

lemma camera_ifaces_distinct: "distinct camera_ifaces"
  by code_simp

lemma objects_ok_update:
  assumes "objects_ok os" and "wf_dict (co_streams obj)" and "list_all slug_ok (dict_keys (co_streams obj))"
  shows "objects_ok (AList.update slug obj os)"
proof -
  have "list_all Q (List.map snd os) \<Longrightarrow> Q obj \<Longrightarrow> list_all Q (List.map snd (AList.update slug obj os))" for Q
    by (induction os) auto
  then show ?thesis using assms by (simp add: objects_ok_def)
qed

lemma export_camera_ends:
  assumes "bus_contract env ex" and "valid_object_path (ce_root env)" and inv: "svc_with env ex K s" and "slug \<in> K"
  shows "ends (export_camera env slug) s (\<lambda>_ t. svc_with env ex K t \<and>
    sv_cameras t = sv_cameras s \<and>
    sv_objects t = (if has_key (sv_objects s) slug then sv_objects s else AList.update slug new_object (sv_objects s)))"
proof (cases "has_key (sv_objects s) slug")
  case True
  with inv show ?thesis by (simp add: export_camera_def ends_simps)
next
  case False
  note D = svc_withD[OF inv]
  have slug: "slug_ok slug" using D(5) assms(4) by (intro cameras_okD(2)[OF D(1)]) (auto simp: has_key_def)
  define u where "u = s\<lparr>sv_objects := AList.update slug new_object (sv_objects s)\<rparr>"
  have none: "map_of (sv_objects s) slug = None" using False by (simp add: has_key_map_of)
  then have tree: "(map_of (sv_objects s))(slug := None) = map_of (sv_objects s)" by (simp add: fun_upd_idem)
  have fresh: "(camera_path env slug, i) \<notin> ex (sv_world u)" if "i \<in> set camera_ifaces" for i
    using tree_fresh_camera[OF inv slug] that unfolding tree D(4)[symmetric] by (auto simp: u_def camera_exports_def)
  have "svc_with env ex K (u\<lparr>sv_world := w\<rparr>)" if "ex w = ex (sv_world u) \<union> {(camera_path env slug, i) |i. i \<in> set camera_ifaces}" for w
  proof (rule svc_withI)
    show "objects_ok (sv_objects (u\<lparr>sv_world := w\<rparr>))"
      using objects_ok_update[OF D(2), of new_object slug] by (simp add: u_def new_object_def)
    have "stream_exports env slug new_object = {}" by (simp add: stream_exports_def new_object_def has_key_def)
    then show "ex (sv_world (u\<lparr>sv_world := w\<rparr>)) = object_tree env (map_of (sv_objects (u\<lparr>sv_world := w\<rparr>)))"
      using that D(4) object_tree_update[of env "map_of (sv_objects s)" slug new_object]
      by (simp add: u_def tree update_conv' camera_exports_def)
    show "set (dict_keys (sv_objects (u\<lparr>sv_world := w\<rparr>))) \<subseteq> set (dict_keys (sv_cameras (u\<lparr>sv_world := w\<rparr>)))"
      using D(3,5) assms(4) by (auto simp: u_def)
  qed (use D in \<open>simp_all add: u_def\<close>)
  then have "ends (act_for camera_ifaces (\<lambda>i. on_world (ce_export env (camera_path env slug) i))) u (\<lambda>_ t. svc_with env ex K t \<and>
      sv_cameras t = sv_cameras s \<and> sv_objects t = AList.update slug new_object (sv_objects s))"
    by (intro ends_weaken[OF export_loop[OF assms(1) camera_path_valid[OF assms(2) slug] camera_ifaces_distinct fresh]]) (auto simp: u_def)
  then show ?thesis using False by (simp add: export_camera_def ends_simps u_def)
qed

lemma ends_object: "map_of (sv_objects s) slug = Some obj \<Longrightarrow> ends (act_read (\<lambda>s. dict_get (sv_objects s) slug)) s P = P obj s"
  by (simp add: ends_def act_simps)

lemma ends_camera: "map_of (sv_cameras s) slug = Some c \<Longrightarrow> ends (act_read (\<lambda>s. dict_get (sv_cameras s) slug)) s P = P c s"
  by (simp add: ends_def act_simps)

lemma map_entry_none: "map_of d k = None \<Longrightarrow> AList.map_entry k f d = d"
  by (induction d) (auto split: if_splits)

lemma map_entry_upd: "map_of d k = Some x \<Longrightarrow> map_of (AList.map_entry k f d) = (map_of d)(k \<mapsto> f x)"
  by (rule ext) (simp add: map_of_map_entry)

lemma objects_ok_entry:
  assumes "objects_ok os" and "\<And>obj. map_of os slug = Some obj \<Longrightarrow> wf_dict (co_streams (f obj)) \<and> list_all slug_ok (dict_keys (co_streams (f obj)))"
  shows "objects_ok (AList.map_entry slug f os)"
proof -
  let ?Q = "\<lambda>obj. wf_dict (co_streams obj) \<and> list_all slug_ok (dict_keys (co_streams obj))"
  have "wf_dict os \<Longrightarrow> list_all ?Q (List.map snd os) \<Longrightarrow> (\<And>obj. map_of os slug = Some obj \<Longrightarrow> ?Q (f obj)) \<Longrightarrow>
      list_all ?Q (List.map snd (AList.map_entry slug f os))"
  proof (induction os)
    case (Cons x os)
    have "slug \<notin> fst ` set os \<Longrightarrow> AList.map_entry slug f os = os" by (rule map_entry_none) (simp add: map_of_eq_None_iff)
    with Cons show ?case by (cases x) auto
  qed simp
  with assms show ?thesis by (simp add: objects_ok_def)
qed

text \<open>An object is replaced, and the world changes to export its new tree.\<close>

lemma set_object:
  assumes inv: "svc_with env ex K s" and obj: "map_of (sv_objects s) slug = Some obj"
    and "wf_dict (co_streams (f obj))" and "list_all slug_ok (dict_keys (co_streams (f obj)))"
    and "ex w = object_tree env ((map_of (sv_objects s))(slug \<mapsto> f obj))"
  shows "svc_with env ex K (s\<lparr>sv_objects := AList.map_entry slug f (sv_objects s), sv_world := w\<rparr>)"
proof (rule svc_withI)
  show "objects_ok (sv_objects (s\<lparr>sv_objects := AList.map_entry slug f (sv_objects s), sv_world := w\<rparr>))"
    using assms(3,4) obj objects_ok_entry[of "sv_objects s" slug f, OF svc_withD(2)[OF inv]] by simp
qed (use svc_withD[OF inv] assms(5) obj in \<open>simp_all add: map_entry_upd\<close>)

lemma set_object_same:
  assumes inv: "svc_with env ex K s" and keys: "\<And>obj. map_of (sv_objects s) slug = Some obj \<Longrightarrow> dict_keys (co_streams (f obj)) = dict_keys (co_streams obj)"
  shows "svc_with env ex K (s\<lparr>sv_objects := AList.map_entry slug f (sv_objects s)\<rparr>)"
proof (cases "map_of (sv_objects s) slug")
  case None
  then have "AList.map_entry slug f (sv_objects s) = sv_objects s" by (rule map_entry_none)
  with inv show ?thesis by simp
next
  case (Some obj)
  note D = svc_withD[OF inv]
  have ok: "wf_dict (co_streams obj)" "list_all slug_ok (dict_keys (co_streams obj))"
    using objects_okD(2,3)[OF D(2) Some] by (auto simp: list_all_iff has_key_def)
  have "stream_exports env slug (f obj) = stream_exports env slug obj" by (simp add: stream_exports_def has_key_def keys[OF Some])
  then have "ex (sv_world s) = object_tree env ((map_of (sv_objects s))(slug \<mapsto> f obj))"
    using object_tree_known[of "map_of (sv_objects s)", OF Some, of env] object_tree_update[of env "map_of (sv_objects s)" slug "f obj"] D(4) by simp
  moreover have "wf_dict (co_streams (f obj))" "list_all slug_ok (dict_keys (co_streams (f obj)))" using ok by (simp_all add: keys[OF Some] del: list_all_iff)
  ultimately have "svc_with env ex K (s\<lparr>sv_objects := AList.map_entry slug f (sv_objects s), sv_world := sv_world s\<rparr>)"
    by (intro set_object[OF inv Some])
  then show ?thesis by simp
qed

lemma keeps_publish:
  assumes "\<And>a obj. dict_keys (co_streams (put a obj)) = dict_keys (co_streams obj)"
  shows "keeps (svc_with env ex K) (publish slug path iface get put mapping)"
  unfolding publish_def on_object_def
  by (intro keeps_bind keeps_read keeps_then keeps_signals keeps_modify set_object_same) (auto split: prod.split intro!: keeps_then keeps_signals keeps_modify set_object_same simp: assms)

lemma unexport_stream_ends:
  assumes "bus_contract env ex" and inv: "svc_with env ex K s" and obj: "map_of (sv_objects s) slug = Some obj"
  shows "ends (unexport_stream env slug st) s (\<lambda>_ t. svc_with env ex K t \<and>
    sv_cameras t = sv_cameras s \<and> sv_objects t = AList.map_entry slug (\<lambda>obj. obj\<lparr>co_streams := AList.delete st (co_streams obj)\<rparr>) (sv_objects s))"
proof -
  let ?f = "\<lambda>obj. obj\<lparr>co_streams := AList.delete st (co_streams obj)\<rparr>"
  from bus_contractD(2)[OF assms(1)] obtain w where
    w: "ce_unexport env (stream_path env slug st) stream_iface (sv_world s) = (Inr (), w)"
      "ex w = ex (sv_world s) - {(stream_path env slug st, stream_iface)}" by blast
  note D = svc_withD[OF inv]
  have slug: "slug_ok slug" by (rule object_slugs[OF inv obj])
  have "stream_exports env slug (?f obj) = stream_exports env slug obj - {(stream_path env slug st, stream_iface)}"
    using paths_differ(2)[OF slug slug] by (auto simp: stream_exports_def has_key_map_of)
  then have "ex w = object_tree env ((map_of (sv_objects s))(slug \<mapsto> ?f obj))"
    using tree_fresh_camera[OF inv slug] stream_not_camera(1)[OF slug, of env st] object_tree_known[of "map_of (sv_objects s)", OF obj, of env]
    unfolding w(2) D(4) object_tree_update[of env "map_of (sv_objects s)" slug "?f obj"] by blast
  moreover have "wf_dict (co_streams (?f obj))" "list_all slug_ok (dict_keys (co_streams (?f obj)))"
    using objects_okD(2,3)[OF D(2) obj] wf_dict_delete[of "co_streams obj" st] dom_delete_subset[of st "co_streams obj"]
    by (auto simp: list_all_iff has_key_def image_subset_iff)
  ultimately have inv': "svc_with env ex K (s\<lparr>sv_objects := AList.map_entry slug ?f (sv_objects s), sv_world := w\<rparr>)"
    by (intro set_object[OF inv obj])
  show ?thesis unfolding unexport_stream_def on_object_def ends_simps on_world_ends
    by (rule endsI, simp add: w(1), use inv' in simp)
qed

definition with_stream :: "string \<Rightarrow> camera_object \<Rightarrow> camera_object" where
  "with_stream st obj = (if has_key (co_streams obj) st then obj else obj\<lparr>co_streams := AList.update st new_stream_props (co_streams obj)\<rparr>)"

lemma export_stream_ends:
  assumes bus: "bus_contract env ex" and root: "valid_object_path (ce_root env)" and inv: "svc_with env ex K s"
    and obj: "map_of (sv_objects s) slug = Some obj" and st: "slug_ok st"
  shows "ends (export_stream env slug st) s (\<lambda>_ t. svc_with env ex K t \<and>
    map_of (sv_objects t) = (map_of (sv_objects s))(slug \<mapsto> with_stream st obj) \<and>
    sv_cameras t = sv_cameras s)"
proof (cases "has_key (co_streams obj) st")
  case True
  with inv obj show ?thesis by (simp add: export_stream_def ends_simps ends_object[OF obj] with_stream_def fun_upd_idem)
next
  case False
  let ?f = "\<lambda>obj. obj\<lparr>co_streams := AList.update st new_stream_props (co_streams obj)\<rparr>"
  note D = svc_withD[OF inv]
  have slug: "slug_ok slug" by (rule object_slugs[OF inv obj])
  have known: "object_tree env (map_of (sv_objects s)) = object_tree env ((map_of (sv_objects s))(slug := None)) \<union> camera_exports env slug \<union> stream_exports env slug obj"
    by (rule object_tree_known) (rule obj)
  have "(stream_path env slug st, stream_iface) \<notin> ex (sv_world s)"
    using tree_fresh_camera[OF inv slug] stream_not_camera[OF slug, of env st] False unfolding D(4) known by blast
  from bus_contractD(1)[OF bus stream_path_valid[OF root slug st] this] obtain w where
    w: "ce_export env (stream_path env slug st) stream_iface (sv_world s) = (Inr (), w)"
      "ex w = insert (stream_path env slug st, stream_iface) (ex (sv_world s))" by blast
  have "stream_exports env slug (?f obj) = insert (stream_path env slug st, stream_iface) (stream_exports env slug obj)"
    by (auto simp: stream_exports_def has_key_map_of)
  then have "ex w = object_tree env ((map_of (sv_objects s))(slug \<mapsto> ?f obj))"
    unfolding w(2) D(4) known object_tree_update[of env "map_of (sv_objects s)" slug "?f obj"] by blast
  moreover have "wf_dict (co_streams (?f obj))" "list_all slug_ok (dict_keys (co_streams (?f obj)))"
    using objects_okD(2,3)[OF D(2) obj] st by (auto simp: list_all_iff has_key_def)
  ultimately have "svc_with env ex K (s\<lparr>sv_objects := AList.map_entry slug ?f (sv_objects s), sv_world := w\<rparr>)"
    by (intro set_object[OF inv obj])
  then have inv': "svc_with env ex K (s\<lparr>sv_world := w, sv_objects := AList.map_entry slug ?f (sv_objects s)\<rparr>)"
    by (simp add: svc_with_def svc_inv_def)
  have "ends (on_world (ce_export env (stream_path env slug st) stream_iface)) s (\<lambda>_ t. t = s\<lparr>sv_world := w\<rparr>)"
    unfolding on_world_ends by (rule endsI, rule w(1)) simp
  then have "ends (export_stream env slug st) s (\<lambda>_ t. t = s\<lparr>sv_world := w, sv_objects := AList.map_entry slug ?f (sv_objects s)\<rparr>)"
    using False by (simp add: export_stream_def on_object_def ends_simps ends_object[OF obj]) (elim ends_weaken, simp)
  then show ?thesis
    using inv' False by (elim ends_weaken) (simp add: map_entry_upd[OF obj] with_stream_def)
qed

lemma keeps_publish_stream:
  assumes bus: "bus_contract env ex" and root: "valid_object_path (ce_root env)" and st: "slug_ok st"
  shows "keeps (svc_with env ex K) (publish_stream env slug streams st)"
proof (rule keepsI)
  fix s :: "'a svc"
  assume inv: "svc_with env ex K s"
  show "svc_with env ex K (snd (publish_stream env slug streams st s))"
  proof (cases "map_of (sv_objects s) slug")
    case None
    with inv show ?thesis by (simp add: publish_stream_def export_stream_def act_simps)
  next
    case (Some obj)
    from ends_run[OF export_stream_ends[OF bus root inv Some st]] obtain t where
      t: "export_stream env slug st s = (Inr (), t)" "svc_with env ex K t"
        "map_of (sv_objects t) = (map_of (sv_objects s))(slug \<mapsto> with_stream st obj)" by auto
    have "has_key (co_streams (with_stream st obj)) st" by (simp add: with_stream_def)
    then have keys: "dict_keys (AList.update st a (co_streams (with_stream st obj))) = dict_keys (co_streams (with_stream st obj))" for a
      by (simp add: dict_keys_update has_key_def)
    show ?thesis
    proof (cases "map_of streams st")
      case None
      with t show ?thesis by (simp add: publish_stream_def act_simps)
    next
      case (Some stream)
      obtain attrs changed where u: "update_props (stream_mapping stream) (dict_list (co_streams (with_stream st obj)) st) = (attrs, changed)" by fastforce
      have obj': "map_of (sv_objects t) slug = Some (with_stream st obj)" by (simp add: t(3))
      have "svc_with env ex K (t\<lparr>sv_objects := AList.map_entry slug (\<lambda>obj. obj\<lparr>co_streams := AList.update st attrs (co_streams obj)\<rparr>) (sv_objects t)\<rparr>)"
        by (rule set_object_same[OF t(2)]) (simp add: obj' keys)
      from keepsD[OF keeps_signals this, of "stream_path env slug st" stream_iface changed]
      show ?thesis by (simp add: publish_stream_def publish_def on_object_def act_simps t(1) Some u dict_get_Some[OF obj'])
    qed
  qed
qed

lemma keeps_unexport_stream:
  assumes "bus_contract env ex"
  shows "triple (\<lambda>s. svc_with env ex K s \<and> has_key (sv_objects s) slug) (unexport_stream env slug st)
    (\<lambda>_ s. svc_with env ex K s \<and> has_key (sv_objects s) slug) (\<lambda>_ s. svc_with env ex K s)"
proof -
  have "svc_with env ex K s \<and> has_key (sv_objects s) slug \<Longrightarrow>
      ends (unexport_stream env slug st) s (\<lambda>_ s. svc_with env ex K s \<and> has_key (sv_objects s) slug)" for s
  proof -
    assume s: "svc_with env ex K s \<and> has_key (sv_objects s) slug"
    then obtain obj where "map_of (sv_objects s) slug = Some obj" by (auto simp: has_key_map_of)
    from unexport_stream_ends[OF assms(1) conjunct1[OF s] this] show ?thesis
      by (rule ends_weaken) (use s in \<open>simp add: has_key_def\<close>)
  qed
  then show ?thesis by (rule triple_endsI)
qed

section \<open>The operations\<close>

lemma keeps_sync_streams:
  assumes bus: "bus_contract env ex" and root: "valid_object_path (ce_root env)" and streams: "list_all slug_ok (dict_keys streams)"
  shows "keeps (svc_with env ex K) (sync_streams env slug streams)"
  unfolding keeps_def
proof -
  let ?I = "svc_with env ex K" and ?J = "\<lambda>s. svc_with env ex K s \<and> has_key (sv_objects s) slug"
  have rest: "triple ?I (act_then (act_for (sort (dict_keys streams)) (publish_stream env slug streams))
      (act_return (List.map (stream_path env slug) (sort (dict_keys streams))))) (\<lambda>_. ?I) (\<lambda>_. ?I)"
    unfolding keeps_def[symmetric] using streams
    by (intro keeps_then keeps_for keeps_return keeps_publish_stream[OF bus root]) (auto simp: list_all_iff)
  show "triple ?I (sync_streams env slug streams) (\<lambda>_. ?I) (\<lambda>_. ?I)"
    unfolding sync_streams_def
  proof (rule triple_bindI)
    show "triple ?I (act_read (\<lambda>s. dict_get (sv_objects s) slug)) (\<lambda>_. ?J) (\<lambda>_. ?I)"
      by (rule triple_readI) (auto simp: has_key_map_of)
    show "triple ?J (act_then (act_for (set_diff (dict_keys (co_streams obj)) (dict_keys streams)) (unexport_stream env slug))
        (act_then (act_for (sort (dict_keys streams)) (publish_stream env slug streams))
          (act_return (List.map (stream_path env slug) (sort (dict_keys streams)))))) (\<lambda>_. ?I) (\<lambda>_. ?I)" for obj
      by (intro triple_thenI[OF triple_forI triple_weaken[OF rest]] keeps_unexport_stream[OF bus]) simp_all
  qed
qed

lemma keeps_export_camera:
  assumes "bus_contract env ex" and "valid_object_path (ce_root env)" and "slug \<in> K"
  shows "keeps (svc_with env ex K) (export_camera env slug)"
  by (rule keeps_endsI) (rule ends_weaken[OF export_camera_ends[OF assms(1,2) _ assms(3)]], simp_all)

lemma keeps_sync_camera:
  assumes bus: "bus_contract env ex" and root: "valid_object_path (ce_root env)"
  shows "keeps (svc_with env ex K) (sync_camera env slug)"
  unfolding sync_camera_def
proof (rule keeps_bind_read)
  fix c and s :: "'a svc"
  assume inv: "svc_with env ex K s" and "dict_get (sv_cameras s) slug = Inr c"
  then have c: "map_of (sv_cameras s) slug = Some c" by simp
  have "streams_ok c" by (rule cameras_okD(3)[OF svc_withD(1)[OF inv] c])
  then have streams: "list_all slug_ok (dict_keys (streams_of c))" by (simp add: streams_ok_def)
  have inv': "svc_with env ex (insert slug K) s" using inv map_of_SomeD[OF c] by (force simp: svc_with_def)
  let ?rest = "act_then (export_camera env slug)
    (act_bind (act_lift (camera_name c)) (\<lambda>name.
     act_then (publish_asset env slug c name)
    (act_bind (sync_streams env slug (streams_of c)) (\<lambda>paths.
     act_then (publish slug (camera_path env slug) device_iface co_device (\<lambda>a obj. obj\<lparr>co_device := a\<rparr>) (device_mapping c paths))
       (sync_manager env)))))"
  have "keeps (svc_with env ex (insert slug K)) ?rest"
    unfolding publish_asset_def
    by (intro keeps_then keeps_bind keeps_lift keeps_export_camera[OF bus root] keeps_publish
        keeps_sync_streams[OF bus root streams] keeps_sync_manager) simp_all
  from keepsD[OF this inv'] show "svc_with env ex K (snd (?rest s))" by (auto simp: svc_with_def)
qed

lemma keeps_requests:
  assumes "bus_contract env ex"
  shows "keeps (svc_with env ex K) (request_json env m path query)" "keeps (svc_with env ex K) (save_state env)"
    "keeps (svc_with env ex K) (now_usec env)"
proof -
  have "ex (snd (case ce_clock env w of (t, w') \<Rightarrow> (Inr t :: int res, w'))) = ex w" for w
    using bus_contractD(5)[OF assms, of w] by (cases "ce_clock env w") simp
  then show "keeps (svc_with env ex K) (request_json env m path query)" "keeps (svc_with env ex K) (save_state env)"
    "keeps (svc_with env ex K) (now_usec env)"
    unfolding request_json_def save_state_def now_usec_def
    by (intro keeps_world keeps_bind keeps_gets bus_contractD[OF assms]; assumption)+
qed

lemma keeps_request_sources: "bus_contract env ex \<Longrightarrow> keeps (svc_with env ex K) (request_sources env path query)"
  unfolding request_sources_def
  by (intro keeps_catch keeps_bind keeps_return keeps_requests) (auto split: exn.split intro!: keeps_return keeps_raise keeps_if)

lemma keeps_quietly: "keeps I m \<Longrightarrow> keeps I (quietly m)"
  unfolding quietly_def by (intro keeps_catch keeps_then keeps_return keeps_if keeps_raise)

lemma keeps_go2rtc:
  assumes "bus_contract env ex"
  shows "keeps (svc_with env ex K) (put_stream env entry)" "keeps (svc_with env ex K) (delete_stream env name)"
  unfolding put_stream_def delete_stream_def by (cases entry) (simp_all add: keeps_requests[OF assms])

lemma keeps_reconcile: "bus_contract env ex \<Longrightarrow> keeps (svc_with env ex K) (reconcile env previous streams)"
  unfolding reconcile_def Let_def by (intro keeps_then keeps_for keeps_quietly keeps_go2rtc)

lemma keeps_delete_all: "bus_contract env ex \<Longrightarrow> keeps (svc_with env ex K) (delete_all env c)"
  unfolding delete_all_def by (intro keeps_for) (auto intro!: keeps_when keeps_quietly keeps_go2rtc)

lemma keeps_probe: "bus_contract env ex \<Longrightarrow> keeps (svc_with env ex K) (probe env endpoint creds err)"
proof (induction creds arbitrary: err)
  case (Cons c creds)
  then show ?case
    by (cases c) (auto intro!: keeps_bind keeps_lift keeps_catch keeps_return keeps_raise keeps_if keeps_request_sources
        split: sum.split list.split)
qed (simp add: keeps_return)

text \<open>The streams a refresh finds have good names.\<close>

lemma update_keys: "list_all P (dict_keys d) \<Longrightarrow> P k \<Longrightarrow> list_all P (dict_keys (AList.update k v d))"
  by (simp add: dict_keys_update)

lemma add_profile_slugs:
  assumes "add_profile stream_prefix p (sts, b) = Inr r" and "wf_dict sts \<and> list_all slug_ok (dict_keys sts)"
  shows "wf_dict (fst r) \<and> list_all slug_ok (dict_keys (fst r))"
proof (cases p)
  case (Pair index profile)
  have "wf_dict (AList.update (sanitize_fragment name (''stream_'' @ str_nat index)) st sts) \<and>
      list_all slug_ok (dict_keys (AList.update (sanitize_fragment name (''stream_'' @ str_nat index)) st sts))" for name st
    using assms(2) by (intro conjI wf_dict_update update_keys stream_slug_ok) simp_all
  with assms Pair show ?thesis
    by (auto simp: add_profile_def Let_def res_bind_Inr_iff simp del: list_all_iff append_Cons append_Nil split: if_splits)
qed

lemma streams_from_ok:
  assumes "streams_from stream_prefix profiles = Inr (streams, snapshots)"
  shows "wf_dict streams \<and> list_all slug_ok (dict_keys streams)"
proof -
  have "wf_dict (fst (streams, snapshots)) \<and> list_all slug_ok (dict_keys (fst (streams, snapshots)))"
    by (rule res_fold_invariant[OF assms[unfolded streams_from_def], where I = "\<lambda>r. wf_dict (fst r) \<and> list_all slug_ok (dict_keys (fst r))"])
      (simp, metis add_profile_slugs prod.collapse)
  then show ?thesis by simp
qed

lemma keeps_refresh_camera:
  assumes bus: "bus_contract env ex"
  shows "keeps (svc_with env ex K) (refresh_camera env slug import)"
proof -
  have same: "streams_ok c \<Longrightarrow> streams_ok (c\<lparr>ca_endpoint := a\<rparr>)" "streams_ok c \<Longrightarrow> streams_ok (c\<lparr>ca_address := a\<rparr>)"
    "streams_ok c \<Longrightarrow> streams_ok (c\<lparr>ca_last_refresh := i\<rparr>)" "streams_ok c \<Longrightarrow> streams_ok (c\<lparr>ca_last_seen := i, ca_last_error := a\<rparr>)"
    "streams_ok c \<Longrightarrow> streams_ok (c\<lparr>ca_present := b, ca_functional := b, ca_auth_status := a, ca_last_error := a'\<rparr>)" for c a a' b i
    by (simp_all add: streams_ok_def streams_of_def)
  have locate: "keeps (svc_with env ex K) (locate_camera env slug c)" for c
    unfolding locate_camera_def
    by (intro keeps_bind keeps_lift keeps_then keeps_on_camera keeps_return keeps_requests[OF bus] same)
  have unusable: "keeps (svc_with env ex K) (mark_unusable slug err)" for err
    unfolding mark_unusable_def by (intro keeps_on_camera same)
  have "keeps (svc_with env ex K) (accept_profiles env slug c import profiles)" for c profiles
    unfolding accept_profiles_def
  proof (rule keeps_bind_lift)
    fix x
    assume x: "streams_from (ce_prefix env) profiles = Inr x"
    obtain streams snapshots where split: "x = (streams, snapshots)" by fastforce
    have "streams_ok (c\<lparr>ca_streams := Some streams, ca_present := Some True, ca_functional := Some True,
         ca_auth_status := Some ''ok'', ca_snapshot_support := Some snapshots\<rparr>)" for c
      using streams_from_ok[OF x[unfolded split]] by (simp add: streams_ok_def streams_of_def)
    then show "keeps (svc_with env ex K) (case x of (streams, snapshots) \<Rightarrow>
       act_then (on_camera slug (\<lambda>c. c\<lparr>ca_streams := Some streams, ca_present := Some True, ca_functional := Some True,
           ca_auth_status := Some ''ok'', ca_snapshot_support := Some snapshots\<rparr>))
      (act_bind (now_usec env) (\<lambda>seen.
       act_then (on_camera slug (\<lambda>c. c\<lparr>ca_last_seen := Some seen, ca_last_error := Some []\<rparr>))
         (act_when import (reconcile env (filter (\<lambda>(n, _). n \<noteq> []) (stream_urls (streams_of c))) streams)))))"
      unfolding split prod.case
      by (intro keeps_then keeps_bind keeps_on_camera keeps_requests[OF bus] keeps_when keeps_reconcile[OF bus] same)
  qed
  then show ?thesis
    unfolding refresh_camera_def
    by (auto intro!: keeps_bind keeps_gets keeps_raise keeps_if keeps_probe[OF bus] locate unusable split: option.split)
qed

lemma keeps_for_cameras:
  assumes "\<And>K slug. slug \<in> K \<Longrightarrow> keeps (svc_with env ex K) (f slug)"
  shows "keeps (svc_with env ex K) (for_cameras f)"
  unfolding for_cameras_def
proof (rule keeps_gets_run)
  fix s :: "'a svc"
  let ?K = "set (dict_keys (sv_cameras s)) \<union> K"
  assume inv: "svc_with env ex K s"
  then have "svc_with env ex ?K s" by (auto simp: svc_with_def)
  moreover have "keeps (svc_with env ex ?K) (act_for (dict_keys (sv_cameras s)) f)" by (rule keeps_for, rule assms) simp
  ultimately have "svc_with env ex ?K (snd (act_for (dict_keys (sv_cameras s)) f s))" by (rule keepsD[rotated])
  then show "svc_with env ex K (snd (act_for (dict_keys (sv_cameras s)) f s))" by (auto simp: svc_with_def)
qed

lemma cameras_ok_update:
  assumes "cameras_ok cs" and "slug_ok slug" and "streams_ok c"
  shows "cameras_ok (AList.update slug c cs)"
proof -
  have "list_all Q (List.map snd cs) \<Longrightarrow> Q c \<Longrightarrow> list_all Q (List.map snd (AList.update slug c cs))" for Q
    by (induction cs) auto
  then show ?thesis using assms update_keys[of slug_ok cs slug c] by (simp add: cameras_ok_def del: list_all_iff)
qed

lemma set_default_keeps:
  assumes "slug_ok slug"
  shows "triple (svc_with env ex K) (set_default slug) (\<lambda>_. svc_with env ex (insert slug K)) (\<lambda>_. svc_with env ex K)"
  unfolding set_default_def
proof (rule triple_modifyI)
  fix s :: "'a svc"
  assume inv: "svc_with env ex K s"
  have "streams_ok new_camera" by (simp add: streams_ok_def streams_of_def new_camera_def)
  then show "svc_with env ex (insert slug K) (if has_key (sv_cameras s) slug then s
      else s\<lparr>sv_cameras := AList.update slug new_camera (sv_cameras s)\<rparr>)"
    using inv cameras_ok_update[OF svc_withD(1)[OF inv] assms] by (auto simp: svc_with_def svc_inv_def has_key_def)
qed

text \<open>A step that makes sure of a camera, and then keeps what is known with it\<close>

lemma keeps_default_then:
  assumes "slug_ok slug" and "keeps (svc_with env ex (insert slug K)) m"
  shows "keeps (svc_with env ex K) (act_then (set_default slug) m)"
  unfolding keeps_def
  by (rule triple_thenI[OF set_default_keeps[OF assms(1)]], rule triple_weaken[OF assms(2)[unfolded keeps_def]])
    (auto simp: svc_with_def)

lemma keeps_discover_item:
  assumes "bus_contract env ex" and "valid_object_path (ce_root env)"
  shows "keeps (svc_with env ex K) (discover_item env item)"
  unfolding discover_item_def Let_def
  by (intro keeps_bind keeps_lift keeps_if keeps_return keeps_gets keeps_default_then camera_slug_ok keeps_then keeps_on_camera
      keeps_export_camera[OF assms]) (simp_all add: streams_ok_def streams_of_def)

lemma keeps_refresh:
  assumes "bus_contract env ex" and "valid_object_path (ce_root env)"
  shows "keeps (svc_with env ex K) (refresh_all env)" "keeps (svc_with env ex K) (refresh_one env slug import)"
    "keeps (svc_with env ex K) (discover_and_refresh env)"
proof -
  show all: "keeps (svc_with env ex K) (refresh_all env)" unfolding refresh_all_def
    by (intro keeps_then keeps_for_cameras keeps_refresh_camera keeps_requests keeps_sync_camera assms)
  show "keeps (svc_with env ex K) (refresh_one env slug import)" unfolding refresh_one_def
    by (intro keeps_then keeps_refresh_camera keeps_requests keeps_sync_camera assms)
  show "keeps (svc_with env ex K) (discover_and_refresh env)" unfolding discover_and_refresh_def
    by (intro keeps_bind keeps_catch keeps_request_sources keeps_if keeps_return keeps_raise keeps_then keeps_for
        keeps_discover_item all assms)
qed

lemma keeps_add_camera:
  assumes "bus_contract env ex" and "valid_object_path (ce_root env)"
  shows "keeps (svc_with env ex K) (add_camera env address name password import)"
  unfolding add_camera_def Let_def
  by (intro keeps_bind keeps_lift keeps_return keeps_default_then camera_slug_ok keeps_then keeps_on_camera
      keeps_export_camera[OF assms] keeps_refresh[OF assms]) (simp_all add: streams_ok_def streams_of_def)

section \<open>Removing a camera\<close>

lemma delete_keys_subset: "set (dict_keys (AList.delete k d)) = set (dict_keys d) - {k}"
  by (simp add: delete_keys set_removeAll)

lemma cameras_ok_delete: "cameras_ok cs \<Longrightarrow> cameras_ok (AList.delete slug cs)"
proof -
  have "list_all Q cs \<Longrightarrow> list_all Q (AList.delete slug cs)" for Q by (induction cs) (auto simp: AList.delete_eq)
  from this[of "slug_ok \<circ> fst"] this[of "streams_ok \<circ> snd"] show "cameras_ok cs \<Longrightarrow> cameras_ok (AList.delete slug cs)"
    by (simp add: cameras_ok_def list_all_iff)
qed

lemma objects_ok_delete: "objects_ok os \<Longrightarrow> objects_ok (AList.delete slug os)"
proof -
  have "list_all Q os \<Longrightarrow> list_all Q (AList.delete slug os)" for Q by (induction os) (auto simp: AList.delete_eq)
  from this[of "(\<lambda>obj. wf_dict (co_streams obj) \<and> list_all slug_ok (dict_keys (co_streams obj))) \<circ> snd"]
  show "objects_ok os \<Longrightarrow> objects_ok (AList.delete slug os)"
    by (simp add: objects_ok_def list_all_iff)
qed

lemma unexport_camera_ends:
  assumes bus: "bus_contract env ex" and inv: "svc_inv env ex s"
    and s': "s' = s\<lparr>sv_cameras := AList.delete slug (sv_cameras s)\<rparr>"
  shows "ends (unexport_camera env slug) s' (\<lambda>_. svc_inv env ex)"
proof -
  have "svc_with env ex {} s" using inv by (simp add: svc_with_empty)
  note inv = this and D = svc_withD[OF this]
  have cameras: "cameras_ok (AList.delete slug (sv_cameras s))" by (rule cameras_ok_delete[OF D(1)])
  show ?thesis
  proof (cases "map_of (sv_objects s) slug")
    case None
    then have "slug \<notin> set (dict_keys (sv_objects s))" by (simp add: map_of_eq_None_iff)
    then have "svc_inv env ex s'"
      using D cameras delete_keys_subset[of slug "sv_cameras s"] by (auto simp: s' svc_inv_def simp del: set_map)
    with None show ?thesis by (simp add: unexport_camera_def ends_simps s')
  next
    case (Some obj)
    have slug: "slug_ok slug" by (rule object_slugs[OF inv Some])
    define u where "u = s'\<lparr>sv_objects := AList.delete slug (sv_objects s)\<rparr>"
    let ?streams = "act_for (dict_keys (co_streams obj)) (\<lambda>st. on_world (ce_unexport env (stream_path env slug st) stream_iface))"
    let ?camera = "act_for camera_ifaces (\<lambda>iface. on_world (ce_unexport env (camera_path env slug) iface))"
    have removed: "svc_inv env ex (u\<lparr>sv_world := w\<rparr>)" if "ex w = ex (sv_world s) - stream_exports env slug obj - camera_exports env slug" for w
    proof -
      have "ex (sv_world s) = object_tree env ((map_of (sv_objects s))(slug := None)) \<union> camera_exports env slug \<union> stream_exports env slug obj"
        unfolding D(4) by (rule object_tree_known) (rule Some)
      moreover have "object_tree env ((map_of (sv_objects s))(slug := None)) \<inter> (camera_exports env slug \<union> stream_exports env slug obj) = {}"
        using tree_fresh_camera[OF inv slug] by (auto simp: stream_exports_def)
      ultimately have "ex w = object_tree env ((map_of (sv_objects s))(slug := None))" unfolding that by blast
      moreover have "set (dict_keys (AList.delete slug (sv_objects s))) \<subseteq> set (dict_keys (AList.delete slug (sv_cameras s)))"
        using D(3) by (auto simp: delete_keys_subset simp del: set_map)
      ultimately show ?thesis using cameras objects_ok_delete[OF D(2), of slug]
        by (simp add: svc_inv_def u_def s' delete_conv')
    qed
    have "ends ?streams u (\<lambda>_ t. \<exists>w. t = u\<lparr>sv_world := w\<rparr> \<and> ex w = ex (sv_world s) - stream_exports env slug obj)"
      using unexport_loop[OF bus, of "dict_keys (co_streams obj)" "stream_path env slug" "\<lambda>_. stream_iface" u]
      by (rule ends_weaken) (simp add: stream_exports_def u_def s' has_key_def)
    moreover have "ends ?camera t (\<lambda>_. svc_inv env ex)" if t: "\<exists>w. t = u\<lparr>sv_world := w\<rparr> \<and> ex w = ex (sv_world s) - stream_exports env slug obj" for t
    proof -
      from t obtain w where w: "t = u\<lparr>sv_world := w\<rparr>" "ex w = ex (sv_world s) - stream_exports env slug obj" by blast
      show ?thesis
        using unexport_loop[OF bus, of camera_ifaces "\<lambda>_. camera_path env slug" "\<lambda>i. i" t]
        by (rule ends_weaken) (use removed w in \<open>auto simp: camera_exports_def\<close>)
    qed
    ultimately have "ends (act_then ?streams ?camera) u (\<lambda>_. svc_inv env ex)"
      unfolding ends_simps by (rule ends_weaken)
    with Some show ?thesis by (simp add: unexport_camera_def ends_simps s' u_def)
  qed
qed

lemma act_then_assoc: "act_then (act_then m n) k = act_then m (act_then n k)"
  by (rule ext) (simp add: act_simps split: prod.split sum.split)

lemma keeps_remove_camera:
  assumes bus: "bus_contract env ex"
  shows "keeps (svc_inv env ex) (remove_camera_by_path env path)"
proof -
  note K = svc_with_empty[of env ex, abs_def]
  have "keeps (svc_inv env ex) (act_then (act_modify (\<lambda>s. s\<lparr>sv_cameras := AList.delete slug (sv_cameras s)\<rparr>)) (unexport_camera env slug))" for slug
    by (rule keeps_endsI) (simp add: ends_simps unexport_camera_ends[OF bus])
  then have "keeps (svc_inv env ex) (act_then (act_then (act_modify (\<lambda>s. s\<lparr>sv_cameras := AList.delete slug (sv_cameras s)\<rparr>))
      (unexport_camera env slug)) m)" if "keeps (svc_inv env ex) m" for slug and m :: "('a svc, unit) act"
    using that by (rule keeps_then)
  then have removed: "keeps (svc_inv env ex) (act_then (act_modify (\<lambda>s. s\<lparr>sv_cameras := AList.delete slug (sv_cameras s)\<rparr>))
      (act_then (unexport_camera env slug) m))" if "keeps (svc_inv env ex) m" for slug and m :: "('a svc, unit) act"
    using that by (simp add: act_then_assoc)
  have "keeps (svc_with env ex {}) (act_then (save_state env) (sync_manager env))" "keeps (svc_with env ex {}) (delete_all env c)" for c
    by (intro keeps_then keeps_requests[OF bus] keeps_sync_manager keeps_delete_all[OF bus])+
  then show ?thesis unfolding K remove_camera_by_path_def
    by (intro keeps_bind keeps_gets) (auto intro!: keeps_bind keeps_read keeps_raise keeps_then removed split: option.split)
qed

section \<open>Every reachable state\<close>

lemma keeps_run_call:
  assumes bus: "bus_contract env ex" and root: "valid_object_path (ce_root env)"
  shows "keeps (svc_inv env ex) (run_call env c)"
proof -
  note K = svc_with_empty[of env ex, abs_def, symmetric]
  have stream: "keeps (svc_with env ex {}) (the_stream slug st)" for slug st
    unfolding the_stream_def by (auto intro!: keeps_bind keeps_read keeps_raise keeps_return split: option.split)
  show ?thesis
  proof (cases c)
    case (RemoveCamera path)
    then show ?thesis by (simp add: keeps_remove_camera[OF bus])
  next
    case (SetCredentials slug name password)
    then show ?thesis unfolding K
      by (simp add: set_camera_credentials_def)
        (intro keeps_bind keeps_read keeps_then keeps_on_camera keeps_refresh[OF bus root], simp add: streams_ok_def streams_of_def)
  next
    case PeriodicRound
    then show ?thesis unfolding K by (simp add: periodic_round_def) (intro keeps_catch keeps_return keeps_refresh[OF bus root])
  next
    case (StreamImport slug st)
    then show ?thesis unfolding K
      by (simp add: import_camera_stream_def) (intro keeps_bind keeps_then keeps_return stream keeps_go2rtc[OF bus])
  next
    case (StreamRemove slug st)
    then show ?thesis unfolding K
      by (simp add: remove_camera_stream_def) (intro keeps_bind keeps_then keeps_return stream keeps_go2rtc[OF bus])
  qed (simp_all add: K import_streams_def delete_streams_def keeps_refresh[OF bus root] keeps_then keeps_return keeps_bind keeps_read
      keeps_add_camera[OF bus root] keeps_reconcile[OF bus] keeps_delete_all[OF bus])
qed

lemma manager_exported:
  assumes bus: "bus_contract env ex" and saved: "cameras_ok saved" and w: "ex w = {}"
  shows "ends (on_world (ce_export env manager_path manager_iface)) (new_service saved w) (\<lambda>_ t. svc_with env ex {} t \<and> sv_cameras t = saved)"
proof -
  have "valid_object_path manager_path" by code_simp
  from bus_contractD(1)[OF bus this, of manager_iface w] w obtain w'
    where w': "ce_export env manager_path manager_iface w = (Inr (), w')" "ex w' = {(manager_path, manager_iface)}" by auto
  have "object_tree env (map_of []) = {(manager_path, manager_iface)}" by (auto simp: object_tree_iff)
  then have "svc_with env ex {} (new_service saved w')"
    using saved w'(2) by (simp add: svc_with_def svc_inv_def new_service_def objects_ok_def)
  then show ?thesis by (simp add: ends_def act_simps on_world_def act_zoom_def w'(1) new_service_def)
qed

lemma publish_saved_keeps:
  assumes bus: "bus_contract env ex" and root: "valid_object_path (ce_root env)" and saved: "cameras_ok saved" and w: "ex w = {}"
  shows "svc_inv env ex (snd (publish_saved env (new_service saved w)))"
proof -
  let ?rest = "act_then (for_cameras (\<lambda>slug. act_then (export_camera env slug) (sync_camera env slug))) (sync_manager env)"
  from ends_run[OF manager_exported[OF bus saved w]] obtain t
    where t: "on_world (ce_export env manager_path manager_iface) (new_service saved w) = (Inr (), t)" "svc_with env ex {} t" by auto
  have "keeps (svc_with env ex {}) ?rest"
    by (intro keeps_then keeps_for_cameras keeps_export_camera[OF bus root] keeps_sync_camera[OF bus root] keeps_sync_manager)
  from keepsD[OF this t(2)] show ?thesis by (simp add: publish_saved_def act_simps t(1) svc_with_empty)
qed

lemma cam_reach_inv:
  assumes bus: "bus_contract env ex" and root: "valid_object_path (ce_root env)" and saved: "cameras_ok saved"
    and "cam_reach env ex saved s"
  shows "svc_inv env ex s"
  using assms(4)
proof induction
  case (start w s)
  then show ?case using publish_saved_keeps[OF bus root saved, of w] by simp
next
  case (call s c r t)
  then show ?case using keeps_run[OF keeps_run_call[OF bus root]] by blast
next
  case (elsewhere s w)
  then show ?case by (simp add: svc_inv_def)
qed

text \<open>C7: Whatever sequence of calls and rounds the service goes through, with whatever answers and errors of
  go2rtc and the cameras in between, what it has on the bus is exactly the tree of its camera
  objects: the manager, four interfaces for each object and one for each stream, all at valid
  paths; every object belongs to a camera it keeps, and the slugs of the cameras are distinct and
  well formed.\<close>

theorem exports_follow_state:
  assumes "bus_contract env ex" and "valid_object_path (ce_root env)" and "cameras_ok saved" and "cam_reach env ex saved s"
  shows "ex (sv_world s) = object_tree env (map_of (sv_objects s)) \<and> (\<forall>(p, i) \<in> ex (sv_world s). valid_object_path p) \<and>
    set (dict_keys (sv_objects s)) \<subseteq> set (dict_keys (sv_cameras s)) \<and> wf_dict (sv_cameras s) \<and> list_all slug_ok (dict_keys (sv_cameras s))"
proof -
  have inv: "svc_inv env ex s" by (rule cam_reach_inv[OF assms])
  then have inv0: "svc_with env ex {} s" by (simp add: svc_with_empty)
  note D = svc_withD[OF inv0]
  have valid: "valid_object_path p" if tree: "(p, i) \<in> object_tree env (map_of (sv_objects s))" for p i
  proof -
    have manager: "valid_object_path manager_path" by code_simp
    from tree consider "p = manager_path"
      | slug obj where "map_of (sv_objects s) slug = Some obj" "(p, i) \<in> camera_exports env slug \<union> stream_exports env slug obj"
      unfolding object_tree_iff by blast
    then show ?thesis
    proof cases
      case 2
      with object_slugs[OF inv0] objects_okD(3)[OF D(2)] show ?thesis
        by (auto simp: camera_exports_def stream_exports_def intro: camera_path_valid stream_path_valid assms(2))
    qed (simp add: manager)
  qed
  have "wf_dict (sv_cameras s)" "list_all slug_ok (dict_keys (sv_cameras s))" using D(1) by (simp_all add: cameras_ok_def del: list_all_iff)
  with D(3,4) valid show ?thesis by auto
qed

end
