(* ===== verification/Camera_Publish.thy ===== *)
theory Camera_Publish
  imports Camera_Invariant
begin

text \<open>
  Publishing refines the state: \<open>published\<close> says what a camera object shows of a camera, \<open>bus_shows\<close>
  that every camera is shown, and \<open>sync_camera\<close> establishes it, whatever the object showed before.
\<close>

section \<open>What the bus shows\<close>

definition agrees :: "props \<Rightarrow> props \<Rightarrow> bool" where
  "agrees mapping attrs \<longleftrightarrow> list_all (\<lambda>(k, v). map_of attrs k = Some v) mapping"

definition stream_paths :: "'w cam_env \<Rightarrow> string \<Rightarrow> camera \<Rightarrow> string list" where
  "stream_paths env slug c = List.map (stream_path env slug) (sort (dict_keys (streams_of c)))"

definition asset_shown :: "camera \<Rightarrow> string \<Rightarrow> camera_object \<Rightarrow> bool" where
  "asset_shown c name obj \<longleftrightarrow> agrees [(''_present'', PBool (get_or (ca_present c) False))] (co_inventory obj) \<and>
     agrees [(''_functional'', PBool (get_or (ca_functional c) False))] (co_operational obj) \<and>
     agrees (asset_mapping c name) (co_asset obj)"

definition streams_shown :: "camera \<Rightarrow> camera_object \<Rightarrow> bool" where
  "streams_shown c obj \<longleftrightarrow> set (dict_keys (co_streams obj)) = set (dict_keys (streams_of c)) \<and>
     list_all (\<lambda>(st, stream). agrees (stream_mapping stream) (dict_list (co_streams obj) st)) (streams_of c)"

definition published :: "'w cam_env \<Rightarrow> string \<Rightarrow> camera \<Rightarrow> camera_object \<Rightarrow> bool" where
  "published env slug c obj \<longleftrightarrow> (case camera_name c of Inl e \<Rightarrow> False | Inr name \<Rightarrow>
     asset_shown c name obj \<and> streams_shown c obj \<and> agrees (device_mapping c (stream_paths env slug c)) (co_device obj))"

definition manager_shows :: "'w cam_env \<Rightarrow> 'w svc \<Rightarrow> bool" where
  "manager_shows env s \<longleftrightarrow> agrees [(''_cameras'', PList (camera_paths env s)), (''_discovery_enabled'', PBool (ce_auto_add env)),
     (''_poll_interval_sec'', PInt (ce_poll env))] (sv_manager s)"

definition shown :: "'w cam_env \<Rightarrow> 'w svc \<Rightarrow> string \<Rightarrow> bool" where
  "shown env s slug \<longleftrightarrow> (case (map_of (sv_cameras s) slug, map_of (sv_objects s) slug) of
     (Some c, Some obj) \<Rightarrow> published env slug c obj | _ \<Rightarrow> False)"

definition bus_shows :: "'w cam_env \<Rightarrow> 'w svc \<Rightarrow> bool" where
  "bus_shows env s \<longleftrightarrow> list_all (shown env s) (dict_keys (sv_cameras s)) \<and>
     set (dict_keys (sv_objects s)) = set (dict_keys (sv_cameras s)) \<and> (sv_cameras s \<noteq> [] \<longrightarrow> manager_shows env s)"

lemma agrees_iff: "agrees mapping attrs \<longleftrightarrow> (\<forall>(k, v) \<in> set mapping. map_of attrs k = Some v)"
  by (simp add: agrees_def list_all_iff)

lemma agrees_updated: "distinct (List.map fst mapping) \<Longrightarrow> agrees mapping (fst (update_props mapping attrs))"
  unfolding agrees_iff by (auto intro: updated)

lemma mappings_distinct:
  "distinct (List.map fst (asset_mapping c name))" "distinct (List.map fst (device_mapping c paths))"
  "distinct (List.map fst (stream_mapping stream))"
  by (simp_all add: asset_mapping_def device_mapping_def stream_mapping_def split: prod.split)

section \<open>Steps\<close>

text \<open>The object of one camera changes from what \<open>s\<close> has to \<open>obj\<close>; cameras and other objects stay.\<close>

definition became :: "'w cam_env \<Rightarrow> ('w \<Rightarrow> exports) \<Rightarrow> string \<Rightarrow> 'w svc \<Rightarrow> camera_object \<Rightarrow> 'w svc \<Rightarrow> bool" where
  "became env ex slug s obj t \<longleftrightarrow> svc_with env ex {} t \<and> sv_cameras t = sv_cameras s \<and>
     map_of (sv_objects t) = (map_of (sv_objects s))(slug \<mapsto> obj)"

lemma becameD:
  assumes "became env ex slug s obj t"
  shows "svc_with env ex {} t" "sv_cameras t = sv_cameras s" "map_of (sv_objects t) = (map_of (sv_objects s))(slug \<mapsto> obj)"
    "map_of (sv_objects t) slug = Some obj"
  using assms by (simp_all add: became_def)

lemma became_again: "became env ex slug s obj t \<Longrightarrow> became env ex slug t obj' u \<Longrightarrow> became env ex slug s obj' u"
  by (simp add: became_def)

lemma ends_became:
  assumes "became env ex slug s obj t" and "ends m t (\<lambda>x u. became env ex slug t obj' u \<and> Q x)"
  shows "ends m t (\<lambda>x u. became env ex slug s obj' u \<and> Q x)"
  using assms(2) by (rule ends_weaken) (simp add: became_again[OF assms(1)])

lemma publish_becomes:
  assumes inv: "svc_with env ex {} s" and obj: "map_of (sv_objects s) slug = Some obj"
    and keys: "dict_keys (co_streams (put (fst (update_props mapping (get obj))) obj)) = dict_keys (co_streams obj)"
  shows "ends (publish slug path iface get put mapping) s
    (\<lambda>_. became env ex slug s (put (fst (update_props mapping (get obj))) obj))"
proof -
  obtain attrs changed where u: "update_props mapping (get obj) = (attrs, changed)" by fastforce
  let ?t = "s\<lparr>sv_objects := AList.map_entry slug (put attrs) (sv_objects s)\<rparr>"
  have "svc_with env ex {} ?t" using keys by (intro set_object_same[OF inv]) (simp add: obj u)
  from keepsD[OF keeps_signals this, of path iface changed] have "svc_with env ex {} (emit path iface changed ?t)" by (simp add: act_simps)
  then have "became env ex slug s (put attrs obj) (emit path iface changed ?t)"
    by (simp add: became_def emit_def map_entry_upd[OF obj])
  then show ?thesis by (simp add: publish_def on_object_def ends_simps ends_object[OF obj] u)
qed

lemma publish_stream_becomes:
  assumes bus: "bus_contract env ex" and root: "valid_object_path (ce_root env)" and inv: "svc_with env ex {} s"
    and obj: "map_of (sv_objects s) slug = Some obj" and st: "slug_ok st" and stream: "map_of streams st = Some stream"
  shows "ends (publish_stream env slug streams st) s (\<lambda>_ t. \<exists>attrs. agrees (stream_mapping stream) attrs \<and>
    became env ex slug s (obj\<lparr>co_streams := AList.update st attrs (co_streams obj)\<rparr>) t)"
proof -
  let ?obj = "with_stream st obj"
  let ?put = "\<lambda>attrs obj. obj\<lparr>co_streams := AList.update st attrs (co_streams obj)\<rparr>"
  let ?attrs = "fst (update_props (stream_mapping stream) (dict_list (co_streams ?obj) st))"
  have export: "ends (export_stream env slug st) s (\<lambda>_. became env ex slug s ?obj)"
    using export_stream_ends[OF bus root inv obj st] by (rule ends_weaken) (simp add: became_def)
  have "has_key (co_streams ?obj) st" by (simp add: with_stream_def)
  then have keys: "dict_keys (co_streams (?put ?attrs ?obj)) = dict_keys (co_streams ?obj)" by (simp add: dict_keys_update has_key_def)
  have put: "?put ?attrs ?obj = ?put ?attrs obj" by (simp add: with_stream_def)
  have "ends (publish slug (stream_path env slug st) stream_iface (\<lambda>obj. dict_list (co_streams obj) st) ?put (stream_mapping stream)) t
      (\<lambda>_ t. \<exists>attrs. agrees (stream_mapping stream) attrs \<and> became env ex slug s (?put attrs obj) t)"
    if t: "became env ex slug s ?obj t" for t
    using publish_becomes[OF becameD(1,4)[OF t], of ?put "stream_mapping stream" "\<lambda>obj. dict_list (co_streams obj) st", OF keys]
  proof (rule ends_weaken)
    fix x :: unit and u
    assume "became env ex slug t (?put ?attrs ?obj) u"
    from became_again[OF t this] have "became env ex slug s (?put ?attrs obj) u" unfolding put .
    with agrees_updated[OF mappings_distinct(3)]
    show "\<exists>attrs. agrees (stream_mapping stream) attrs \<and> became env ex slug s (?put attrs obj) u" by blast
  qed
  with ends_weaken[OF export] show ?thesis
    by (simp add: publish_stream_def ends_simps stream ends_lift[OF dict_get_Some[OF stream]])
qed

section \<open>Streams\<close>

definition only_streams :: "camera_object \<Rightarrow> camera_object \<Rightarrow> bool" where
  "only_streams obj obj' \<longleftrightarrow> obj' = obj\<lparr>co_streams := co_streams obj'\<rparr>"

lemma remove_streams:
  assumes bus: "bus_contract env ex" and inv: "svc_with env ex {} s" and obj: "map_of (sv_objects s) slug = Some obj"
  shows "ends (act_for xs (unexport_stream env slug)) s (\<lambda>_ t. \<exists>obj'. became env ex slug s obj' t \<and> only_streams obj obj' \<and>
    (\<forall>st. map_of (co_streams obj') st = (if st \<in> set xs then None else map_of (co_streams obj) st)))"
proof (rule ends_forI)
  show "\<exists>obj'. became env ex slug s obj' s \<and> only_streams obj obj' \<and>
      (\<forall>st. map_of (co_streams obj') st = (if st \<in> set [] then None else map_of (co_streams obj) st))"
    using inv obj by (intro exI[of _ obj]) (simp add: became_def only_streams_def fun_upd_idem)
  fix ys x zs t
  assume "\<exists>obj'. became env ex slug s obj' t \<and> only_streams obj obj' \<and>
      (\<forall>st. map_of (co_streams obj') st = (if st \<in> set ys then None else map_of (co_streams obj) st))"
  then obtain obj' where t: "became env ex slug s obj' t" "only_streams obj obj'"
    "\<And>st. map_of (co_streams obj') st = (if st \<in> set ys then None else map_of (co_streams obj) st)" by blast
  let ?new = "obj'\<lparr>co_streams := AList.delete x (co_streams obj')\<rparr>"
  have "only_streams obj ?new" using t(2) unfolding only_streams_def by (cases obj; cases obj') simp
  moreover have "map_of (co_streams ?new) st = (if st \<in> set (ys @ [x]) then None else map_of (co_streams obj) st)" for st
    by (auto simp: t(3))
  moreover have "ends (unexport_stream env slug x) t (\<lambda>_. became env ex slug s ?new)"
    using unexport_stream_ends[OF bus becameD(1,4)[OF t(1)], of x]
    by (rule ends_weaken) (simp add: became_def map_entry_upd[OF becameD(4)[OF t(1)]] becameD(2,3)[OF t(1)])
  ultimately show "ends (unexport_stream env slug x) t (\<lambda>_ t. \<exists>obj'. became env ex slug s obj' t \<and> only_streams obj obj' \<and>
      (\<forall>st. map_of (co_streams obj') st = (if st \<in> set (ys @ [x]) then None else map_of (co_streams obj) st)))"
    by (elim ends_weaken) blast
qed

lemma add_streams:
  assumes bus: "bus_contract env ex" and root: "valid_object_path (ce_root env)" and inv: "svc_with env ex {} s"
    and obj: "map_of (sv_objects s) slug = Some obj" and streams: "list_all slug_ok (dict_keys streams)"
    and xs: "set xs \<subseteq> set (dict_keys streams)"
  shows "ends (act_for xs (publish_stream env slug streams)) s (\<lambda>_ t. \<exists>obj'. became env ex slug s obj' t \<and> only_streams obj obj' \<and>
    (\<forall>st. (st \<notin> set xs \<longrightarrow> map_of (co_streams obj') st = map_of (co_streams obj) st) \<and>
      (st \<in> set xs \<longrightarrow> (\<exists>attrs. map_of (co_streams obj') st = Some attrs \<and> agrees (stream_mapping (the (map_of streams st))) attrs))))"
    (is "ends _ s (\<lambda>_ t. ?I xs t)")
proof (rule ends_forI)
  show "?I [] s"
    using inv obj by (intro exI[of _ obj]) (simp add: became_def only_streams_def fun_upd_idem)
  fix ys x zs t
  assume split: "xs = ys @ x # zs" and "?I ys t"
  then obtain obj' where t: "became env ex slug s obj' t" "only_streams obj obj'"
    "\<And>st. st \<notin> set ys \<Longrightarrow> map_of (co_streams obj') st = map_of (co_streams obj) st"
    "\<And>st. st \<in> set ys \<Longrightarrow> \<exists>attrs. map_of (co_streams obj') st = Some attrs \<and> agrees (stream_mapping (the (map_of streams st))) attrs" by blast
  have "x \<in> set (dict_keys streams)" using split xs by auto
  then obtain stream where stream: "map_of streams x = Some stream" "slug_ok x"
    using streams by (metis (no_types, lifting) list_all_iff map_of_eq_None_iff not_None_eq set_map)
  have step: "?I (ys @ [x]) u" if u: "\<exists>attrs. agrees (stream_mapping stream) attrs \<and>
      became env ex slug t (obj'\<lparr>co_streams := AList.update x attrs (co_streams obj')\<rparr>) u" for u
  proof -
    from u obtain attrs where a: "agrees (stream_mapping stream) attrs"
      "became env ex slug t (obj'\<lparr>co_streams := AList.update x attrs (co_streams obj')\<rparr>) u" by blast
    let ?new = "obj'\<lparr>co_streams := AList.update x attrs (co_streams obj')\<rparr>"
    have "only_streams obj ?new" using t(2) unfolding only_streams_def by (cases obj; cases obj') simp
    moreover have "st \<notin> set (ys @ [x]) \<Longrightarrow> map_of (co_streams ?new) st = map_of (co_streams obj) st" for st by (simp add: t(3))
    moreover have "\<exists>a. map_of (co_streams ?new) st = Some a \<and> agrees (stream_mapping (the (map_of streams st))) a"
      if "st \<in> set (ys @ [x])" for st
      using that a(1) stream(1) t(4)[of st] by (cases "st = x") auto
    ultimately show ?thesis using became_again[OF t(1) a(2)] by blast
  qed
  show "ends (publish_stream env slug streams x) t (\<lambda>_. ?I (ys @ [x]))"
    by (rule ends_weaken[OF publish_stream_becomes[OF bus root becameD(1,4)[OF t(1)] stream(2,1)]]) (rule step)
qed

lemma sync_streams_shows:
  assumes bus: "bus_contract env ex" and root: "valid_object_path (ce_root env)" and inv: "svc_with env ex {} s"
    and obj: "map_of (sv_objects s) slug = Some obj" and c: "streams_ok c"
  shows "ends (sync_streams env slug (streams_of c)) s (\<lambda>paths t. paths = stream_paths env slug c \<and> (\<exists>obj'. became env ex slug s obj' t \<and>
    only_streams obj obj' \<and> streams_shown c obj'))"
proof -
  let ?d = "streams_of c" and ?old = "set_diff (dict_keys (co_streams obj)) (dict_keys (streams_of c))"
  have d: "wf_dict ?d" "list_all slug_ok (dict_keys ?d)" using c by (simp_all add: streams_ok_def)
  let ?P = "\<lambda>obj' t. became env ex slug s obj' t \<and> only_streams obj obj' \<and> streams_shown c obj'"
  have second: "ends (act_for (sort (dict_keys ?d)) (publish_stream env slug ?d)) t (\<lambda>_ t. \<exists>obj'. ?P obj' t)"
    if t: "became env ex slug s obj1 t" "only_streams obj obj1"
      "\<And>st. map_of (co_streams obj1) st = (if st \<in> set ?old then None else map_of (co_streams obj) st)" for obj1 t
  proof (rule ends_weaken[OF add_streams[OF bus root becameD(1,4)[OF t(1)] d(2)]])
    fix x :: unit and u
    assume "\<exists>obj'. became env ex slug t obj' u \<and> only_streams obj1 obj' \<and>
      (\<forall>st. (st \<notin> set (sort (dict_keys ?d)) \<longrightarrow> map_of (co_streams obj') st = map_of (co_streams obj1) st) \<and>
        (st \<in> set (sort (dict_keys ?d)) \<longrightarrow> (\<exists>attrs. map_of (co_streams obj') st = Some attrs \<and> agrees (stream_mapping (the (map_of ?d st))) attrs)))"
    then obtain obj' where u: "became env ex slug t obj' u" "only_streams obj1 obj'"
      "\<And>st. st \<notin> set (dict_keys ?d) \<Longrightarrow> map_of (co_streams obj') st = map_of (co_streams obj1) st"
      "\<And>st. st \<in> set (dict_keys ?d) \<Longrightarrow> \<exists>attrs. map_of (co_streams obj') st = Some attrs \<and> agrees (stream_mapping (the (map_of ?d st))) attrs"
      by auto
    have only: "only_streams obj obj'" using t(2) u(2) unfolding only_streams_def by (cases obj; cases obj1; cases obj') simp
    have keys: "st \<in> set (dict_keys (co_streams obj')) \<longleftrightarrow> st \<in> set (dict_keys ?d)" for st
    proof (cases "st \<in> set (dict_keys ?d)")
      case True
      with u(4) show ?thesis by (metis (no_types, lifting) map_of_eq_None_iff option.distinct(1) set_map)
    next
      case False
      then have "map_of (co_streams obj') st = None"
        using u(3)[OF False] t(3)[of st] by (auto simp: map_of_eq_None_iff simp flip: set_map)
      with False show ?thesis by (simp add: map_of_eq_None_iff)
    qed
    have "agrees (stream_mapping stream) (dict_list (co_streams obj') st)" if "(st, stream) \<in> set ?d" for st stream
    proof -
      have "map_of ?d st = Some stream" using d(1) that by simp
      moreover have "st \<in> set (dict_keys ?d)" using that by force
      ultimately show ?thesis using u(4)[of st] by (auto simp: dict_list_def)
    qed
    then have "streams_shown c obj'" unfolding streams_shown_def using keys by (auto simp: list_all_iff simp del: set_map)
    with only show "\<exists>obj'. ?P obj' u" using became_again[OF t(1) u(1)] by blast
  qed simp
  have "ends (act_for ?old (unexport_stream env slug)) s (\<lambda>_ t. ends (act_for (sort (dict_keys ?d)) (publish_stream env slug ?d)) t (\<lambda>_ t. \<exists>obj'. ?P obj' t))"
    using remove_streams[OF bus inv obj, of ?old] by (rule ends_weaken) (use second in blast)
  then show ?thesis unfolding sync_streams_def by (simp add: ends_simps ends_object[OF obj] stream_paths_def)
qed

section \<open>A camera, and all of them\<close>

definition new_or_old :: "'w svc \<Rightarrow> string \<Rightarrow> camera_object" where
  "new_or_old s slug = (case map_of (sv_objects s) slug of None \<Rightarrow> new_object | Some obj \<Rightarrow> obj)"

lemma export_becomes:
  assumes bus: "bus_contract env ex" and root: "valid_object_path (ce_root env)" and inv: "svc_with env ex {} s"
    and c: "map_of (sv_cameras s) slug = Some c"
  shows "ends (export_camera env slug) s (\<lambda>_. became env ex slug s (new_or_old s slug))"
proof -
  have "svc_with env ex {slug} s" using inv map_of_SomeD[OF c] by (force simp: svc_with_def)
  from export_camera_ends[OF bus root this, of slug] have "ends (export_camera env slug) s (\<lambda>_ t. svc_with env ex {slug} t \<and>
      sv_cameras t = sv_cameras s \<and>
      sv_objects t = (if has_key (sv_objects s) slug then sv_objects s else AList.update slug new_object (sv_objects s)))" by simp
  then show ?thesis
    by (rule ends_weaken)
      (auto simp: became_def new_or_old_def svc_with_def has_key_map_of update_conv' fun_upd_idem split: option.split)
qed

lemma asset_becomes:
  assumes t: "became env ex slug s obj t"
  shows "ends (publish_asset env slug c name) t (\<lambda>_ u. \<exists>obj'. became env ex slug s obj' u \<and>
    asset_shown c name obj')"
proof -
  define o1 where "o1 = obj\<lparr>co_inventory := fst (update_props [(''_present'', PBool (get_or (ca_present c) False))] (co_inventory obj))\<rparr>"
  define o2 where "o2 = o1\<lparr>co_operational := fst (update_props [(''_functional'', PBool (get_or (ca_functional c) False))] (co_operational o1))\<rparr>"
  define o3 where "o3 = o2\<lparr>co_asset := fst (update_props (asset_mapping c name) (co_asset o2))\<rparr>"
  have p1: "ends (publish slug (camera_path env slug) item_iface co_inventory (\<lambda>a obj. obj\<lparr>co_inventory := a\<rparr>)
      [(''_present'', PBool (get_or (ca_present c) False))]) t (\<lambda>_. became env ex slug t o1)"
    unfolding o1_def by (rule publish_becomes[OF becameD(1,4)[OF t]]) simp
  have p2: "ends (publish slug (camera_path env slug) status_iface co_operational (\<lambda>a obj. obj\<lparr>co_operational := a\<rparr>)
      [(''_functional'', PBool (get_or (ca_functional c) False))]) u (\<lambda>_. became env ex slug u o2)" if "became env ex slug t o1 u" for u
    unfolding o2_def by (rule publish_becomes[OF becameD(1,4)[OF that]]) simp
  have p3: "ends (publish slug (camera_path env slug) asset_iface co_asset (\<lambda>a obj. obj\<lparr>co_asset := a\<rparr>) (asset_mapping c name)) u
      (\<lambda>_. became env ex slug u o3)" if "became env ex slug t o2 u" for u
    unfolding o3_def by (rule publish_becomes[OF becameD(1,4)[OF that]]) simp
  have "ends (publish_asset env slug c name) t (\<lambda>_. became env ex slug s o3)"
    unfolding publish_asset_def ends_simps
    by (rule ends_weaken[OF p1], rule ends_weaken[OF p2], assumption, rule ends_weaken[OF p3])
      (blast intro: became_again, blast intro: became_again t)
  moreover have "asset_shown c name o3"
    using agrees_updated mappings_distinct(1) by (simp add: asset_shown_def o1_def o2_def o3_def)
  ultimately show ?thesis by (elim ends_weaken) blast
qed

lemma manager_becomes:
  assumes t: "became env ex slug s obj t"
  shows "ends (sync_manager env) t (\<lambda>_ u. became env ex slug s obj u \<and> manager_shows env u)"
proof -
  let ?m = "[(''_cameras'', PList (camera_paths env t)), (''_discovery_enabled'', PBool (ce_auto_add env)), (''_poll_interval_sec'', PInt (ce_poll env))]"
  obtain attrs changed where u: "update_props ?m (sv_manager t) = (attrs, changed)" by fastforce
  let ?u = "emit manager_path manager_iface changed (t\<lparr>sv_manager := attrs\<rparr>)"
  have "agrees ?m attrs" using agrees_updated[of ?m "sv_manager t"] u by simp
  then have "manager_shows env ?u" by (simp add: manager_shows_def emit_def camera_paths_def)
  moreover have run: "sync_manager env t = (Inr (), ?u)" by (simp add: sync_manager_def act_simps u)
  moreover have "svc_with env ex {} ?u" using keeps_run[OF keeps_sync_manager becameD(1)[OF t] run] .
  then have "became env ex slug s obj ?u" using t by (simp add: became_def emit_def)
  ultimately show ?thesis by (intro endsI) auto
qed

lemma device_becomes:
  assumes t: "became env ex slug s obj t" and shown: "asset_shown c name obj" "streams_shown c obj" and name: "camera_name c = Inr name"
  shows "ends (publish slug (camera_path env slug) device_iface co_device (\<lambda>a obj. obj\<lparr>co_device := a\<rparr>) (device_mapping c (stream_paths env slug c))) t
    (\<lambda>_ t. \<exists>obj. became env ex slug s obj t \<and> published env slug c obj)"
proof (rule ends_weaken[OF publish_becomes[OF becameD(1,4)[OF t]]])
  let ?obj = "obj\<lparr>co_device := fst (update_props (device_mapping c (stream_paths env slug c)) (co_device obj))\<rparr>"
  fix x :: unit and u
  assume "became env ex slug t ?obj u"
  from became_again[OF t this] have "became env ex slug s ?obj u" .
  moreover have "published env slug c ?obj"
    using shown agrees_updated[OF mappings_distinct(2)] by (simp add: published_def asset_shown_def streams_shown_def name)
  ultimately show "\<exists>obj. became env ex slug s obj u \<and> published env slug c obj" by blast
qed simp

lemma streams_become:
  assumes bus: "bus_contract env ex" and root: "valid_object_path (ce_root env)" and c: "streams_ok c"
    and t: "became env ex slug s obj t" and shown: "asset_shown c name obj"
  shows "ends (sync_streams env slug (streams_of c)) t
    (\<lambda>paths t. paths = stream_paths env slug c \<and> (\<exists>obj. became env ex slug s obj t \<and> asset_shown c name obj \<and> streams_shown c obj))"
proof (rule ends_weaken[OF sync_streams_shows[OF bus root becameD(1,4)[OF t] c]])
  fix paths u
  assume "paths = stream_paths env slug c \<and> (\<exists>obj'. became env ex slug t obj' u \<and> only_streams obj obj' \<and> streams_shown c obj')"
  then obtain obj' where u: "paths = stream_paths env slug c" "became env ex slug t obj' u" "only_streams obj obj'" "streams_shown c obj'" by blast
  have "co_inventory obj' = co_inventory obj" "co_operational obj' = co_operational obj" "co_asset obj' = co_asset obj"
    using u(3) unfolding only_streams_def by (cases obj; cases obj'; simp)+
  with shown have "asset_shown c name obj'" by (simp add: asset_shown_def)
  with u became_again[OF t u(2)]
  show "paths = stream_paths env slug c \<and> (\<exists>obj. became env ex slug s obj u \<and> asset_shown c name obj \<and> streams_shown c obj)" by blast
qed

lemma sync_camera_shows:
  assumes bus: "bus_contract env ex" and root: "valid_object_path (ce_root env)" and inv: "svc_inv env ex s"
    and c: "map_of (sv_cameras s) slug = Some c" and name: "camera_name c = Inr name"
  shows "ends (sync_camera env slug) s (\<lambda>_ t. \<exists>obj. became env ex slug s obj t \<and> published env slug c obj \<and> manager_shows env t)"
proof -
  have inv0: "svc_with env ex {} s" using inv by (simp add: svc_with_empty)
  have ok: "streams_ok c" by (rule cameras_okD(3)[OF svc_withD(1)[OF inv0] c])
  let ?last = "\<lambda>paths. act_then (publish slug (camera_path env slug) device_iface co_device (\<lambda>a obj. obj\<lparr>co_device := a\<rparr>) (device_mapping c paths))
       (sync_manager env)"
  let ?goal = "\<lambda>_ t. \<exists>obj. became env ex slug s obj t \<and> published env slug c obj \<and> manager_shows env t"
  have manager: "ends (sync_manager env) t ?goal" if "\<exists>obj. became env ex slug s obj t \<and> published env slug c obj" for t
    using that by (auto intro!: ends_weaken[OF manager_becomes])
  have last: "ends (?last paths) t ?goal"
    if "paths = stream_paths env slug c \<and> (\<exists>obj. became env ex slug s obj t \<and> asset_shown c name obj \<and> streams_shown c obj)" for paths t
    using that unfolding ends_simps by (auto intro!: ends_weaken[OF device_becomes[OF _ _ _ name]] manager)
  have middle: "ends (act_bind (sync_streams env slug (streams_of c)) ?last) t ?goal"
    if "\<exists>obj. became env ex slug s obj t \<and> asset_shown c name obj" for t
    using that by (auto intro!: ends_bindI[OF streams_become[OF bus root ok] last])
  have first: "ends (act_then (publish_asset env slug c name) (act_bind (sync_streams env slug (streams_of c)) ?last)) t ?goal"
    if "became env ex slug s (new_or_old s slug) t" for t
    unfolding ends_steps(5) by (rule ends_weaken[OF asset_becomes[OF that]]) (rule middle)
  have "ends (act_then (export_camera env slug) (act_then (publish_asset env slug c name) (act_bind (sync_streams env slug (streams_of c)) ?last))) s ?goal"
    unfolding ends_steps(5)[of "export_camera env slug"] by (rule ends_weaken[OF export_becomes[OF bus root inv0 c]]) (rule first)
  then show ?thesis unfolding sync_camera_def by (simp add: ends_steps ends_camera[OF c] ends_lift[OF name])
qed

lemma for_returns:
  assumes "act_for xs f s = (Inr (), t)" and "I [] s"
    and step: "\<And>ys x zs u v. xs = ys @ x # zs \<Longrightarrow> I ys u \<Longrightarrow> f x u = (Inr (), v) \<Longrightarrow> I (ys @ [x]) v"
  shows "I xs t"
proof -
  have "I xs t" if "xs = ys @ zs" "I ys u" "act_for zs f u = (Inr (), t)" for ys zs u
    using that
  proof (induction zs arbitrary: ys u)
    case (Cons z zs)
    from Cons.prems(3) obtain v where v: "f z u = (Inr (), v)" "act_for zs f v = (Inr (), t)"
      by (auto simp: act_simps split: prod.splits sum.splits)
    with step[OF Cons.prems(1,2)] Cons.prems(1) show ?case by (intro Cons.IH[of "ys @ [z]" v]) auto
  qed (simp add: act_simps)
  with assms(1,2) show ?thesis by (metis append_Nil)
qed

definition shown_up_to :: "'w cam_env \<Rightarrow> ('w \<Rightarrow> exports) \<Rightarrow> 'w svc \<Rightarrow> string list \<Rightarrow> 'w svc \<Rightarrow> bool" where
  "shown_up_to env ex s ys t \<longleftrightarrow> svc_inv env ex t \<and> sv_cameras t = sv_cameras s \<and> list_all (shown env t) ys \<and>
     (ys \<noteq> [] \<longrightarrow> manager_shows env t)"

lemma shown_other: "sv_cameras t = sv_cameras s \<Longrightarrow> map_of (sv_objects t) a = map_of (sv_objects s) a \<Longrightarrow> shown env t a = shown env s a"
  by (simp add: shown_def)

lemma sync_step:
  assumes bus: "bus_contract env ex" and root: "valid_object_path (ce_root env)" and t: "shown_up_to env ex s ys t"
    and c: "map_of (sv_cameras s) slug = Some c" and name: "camera_name c = Inr name"
  shows "ends (sync_camera env slug) t (\<lambda>_. shown_up_to env ex s (ys @ [slug]))"
proof -
  have cameras: "sv_cameras t = sv_cameras s" and inv: "svc_inv env ex t" using t by (simp_all add: shown_up_to_def)
  from c cameras have c': "map_of (sv_cameras t) slug = Some c" by simp
  show ?thesis
  proof (rule ends_weaken[OF sync_camera_shows[OF bus root inv c' name]])
    fix x :: unit and u
    assume "\<exists>obj. became env ex slug t obj u \<and> published env slug c obj \<and> manager_shows env u"
    then obtain obj where u: "became env ex slug t obj u" "published env slug c obj" "manager_shows env u" by blast
    have "shown env u slug" using u(2) c becameD(2,4)[OF u(1)] cameras by (simp add: shown_def)
    moreover have "shown env u a" if "shown env t a" "a \<noteq> slug" for a
      using that becameD(2,3)[OF u(1)] shown_other[of u t a env] by simp
    ultimately have "list_all (shown env u) (ys @ [slug])" using t by (auto simp: shown_up_to_def list_all_iff)
    then show "shown_up_to env ex s (ys @ [slug]) u"
      using becameD(1,2)[OF u(1)] cameras u(3) by (simp add: shown_up_to_def svc_with_empty del: list_all_append)
  qed
qed

lemma all_shown:
  assumes "shown_up_to env ex s (dict_keys (sv_cameras s)) t"
  shows "bus_shows env t"
proof -
  have t: "sv_cameras t = sv_cameras s" "list_all (shown env t) (dict_keys (sv_cameras t))"
    "dict_keys (sv_cameras t) \<noteq> [] \<Longrightarrow> manager_shows env t" "set (dict_keys (sv_objects t)) \<subseteq> set (dict_keys (sv_cameras t))"
    using assms unfolding shown_up_to_def svc_inv_def by (metis, metis, metis list.map_disc_iff, metis)
  have "a \<in> set (dict_keys (sv_objects t))" if "a \<in> set (dict_keys (sv_cameras t))" for a
  proof -
    have "shown env t a" using t(2) that by (simp add: list_all_iff del: set_map)
    then have "map_of (sv_objects t) a \<noteq> None" by (auto simp: shown_def split: option.splits)
    then show ?thesis by (simp add: map_of_eq_None_iff)
  qed
  then have "set (dict_keys (sv_objects t)) = set (dict_keys (sv_cameras t))" using t(4) by blast
  with t(2,3) show ?thesis by (simp add: bus_shows_def)
qed

lemma sync_named:
  assumes "sync_camera env slug s = (Inr (), t)"
  obtains c name where "map_of (sv_cameras s) slug = Some c" "camera_name c = Inr name"
proof (cases "map_of (sv_cameras s) slug")
  case None
  with assms show thesis by (simp add: sync_camera_def act_simps)
next
  case (Some c)
  show thesis
  proof (cases "camera_name c")
    case (Inl e)
    with assms Some show thesis by (auto simp: sync_camera_def act_simps split: prod.splits sum.splits)
  qed (use Some that in blast)
qed

lemma sync_all_partial:
  assumes bus: "bus_contract env ex" and root: "valid_object_path (ce_root env)" and inv: "svc_inv env ex s"
    and run: "for_cameras (sync_camera env) s = (Inr (), t)"
  shows "bus_shows env t"
proof (rule all_shown)
  from run have "act_for (dict_keys (sv_cameras s)) (sync_camera env) s = (Inr (), t)" by (simp add: for_cameras_def act_simps)
  then show "shown_up_to env ex s (dict_keys (sv_cameras s)) t"
  proof (rule for_returns)
    show "shown_up_to env ex s [] s" using inv by (simp add: shown_up_to_def)
    fix ys slug zs u v
    assume u: "shown_up_to env ex s ys u" "sync_camera env slug u = (Inr (), v)"
    from sync_named[OF u(2)] obtain c name where c: "map_of (sv_cameras u) slug = Some c" "camera_name c = Inr name" by blast
    with u(1) have "map_of (sv_cameras s) slug = Some c" by (simp add: shown_up_to_def)
    from ends_run[OF sync_step[OF bus root u(1) this c(2)]] u(2) show "shown_up_to env ex s (ys @ [slug]) v" by auto
  qed
qed

lemma sync_all_total:
  assumes bus: "bus_contract env ex" and root: "valid_object_path (ce_root env)" and inv: "svc_inv env ex s"
    and named: "\<forall>c \<in> snd ` set (sv_cameras s). \<exists>name. camera_name c = Inr name"
  shows "\<exists>t. for_cameras (sync_camera env) s = (Inr (), t) \<and> sv_cameras t = sv_cameras s \<and> bus_shows env t"
proof -
  have "ends (act_for (dict_keys (sv_cameras s)) (sync_camera env)) s (\<lambda>_. shown_up_to env ex s (dict_keys (sv_cameras s)))"
  proof (rule ends_forI)
    show "shown_up_to env ex s [] s" using inv by (simp add: shown_up_to_def)
    fix ys slug zs t
    assume keys: "dict_keys (sv_cameras s) = ys @ slug # zs" and t: "shown_up_to env ex s ys t"
    then have "slug \<in> set (dict_keys (sv_cameras s))" by simp
    then obtain c where c: "map_of (sv_cameras s) slug = Some c" by (metis map_of_eq_None_iff not_None_eq set_map)
    then have "c \<in> snd ` set (sv_cameras s)" using map_of_SomeD by force
    with named obtain name where "camera_name c = Inr name" by blast
    with sync_step[OF bus root t c] show "ends (sync_camera env slug) t (\<lambda>_. shown_up_to env ex s (ys @ [slug]))" by blast
  qed
  from ends_run[OF this] obtain t where t: "act_for (dict_keys (sv_cameras s)) (sync_camera env) s = (Inr (), t)"
    "shown_up_to env ex s (dict_keys (sv_cameras s)) t" by auto
  moreover have "sv_cameras t = sv_cameras s" using t(2) by (simp add: shown_up_to_def)
  ultimately show ?thesis using all_shown by (auto simp: for_cameras_def act_simps)
qed

text \<open>C16: When a discovery or a refresh of all cameras returns, the bus shows the state: every camera has an
  object with its presence, its state, its asset data, its device data and exactly its streams,
  and the manager lists the cameras. Publishing itself returns whenever every camera has a name or
  an endpoint with a host.\<close>

theorem refresh_publishes:
  assumes "bus_contract env ex" and "valid_object_path (ce_root env)" and "cameras_ok saved" and "cam_reach env ex saved s"
  shows "(\<forall>t. refresh_all env s = (Inr (), t) \<longrightarrow> bus_shows env t) \<and>
    (\<forall>t. discover_and_refresh env s = (Inr (), t) \<longrightarrow> bus_shows env t) \<and>
    ((\<forall>c \<in> snd ` set (sv_cameras s). \<exists>name. camera_name c = Inr name) \<longrightarrow>
      (\<exists>t. for_cameras (sync_camera env) s = (Inr (), t) \<and> sv_cameras t = sv_cameras s \<and> bus_shows env t))"
proof -
  note bus = assms(1) and root = assms(2)
  have inv: "svc_inv env ex s" by (rule cam_reach_inv[OF assms])
  have all: "bus_shows env t" if "svc_inv env ex s'" "refresh_all env s' = (Inr (), t)" for s' t
  proof -
    let ?first = "act_then (for_cameras (\<lambda>slug. refresh_camera env slug (ce_auto_import env))) (save_state env)"
    have "refresh_all env s' = act_then ?first (for_cameras (sync_camera env)) s'" by (simp add: refresh_all_def act_then_assoc)
    with that(2) obtain u where u: "?first s' = (Inr (), u)" "for_cameras (sync_camera env) u = (Inr (), t)"
      by (auto simp: act_simps split: prod.splits sum.splits)
    have "keeps (svc_with env ex {}) ?first" by (intro keeps_then keeps_for_cameras keeps_refresh_camera[OF bus] keeps_requests[OF bus])
    from keeps_run[OF this _ u(1)] that(1) have "svc_inv env ex u" by (simp add: svc_with_empty)
    from sync_all_partial[OF bus root this u(2)] show ?thesis .
  qed
  have "bus_shows env t" if run: "discover_and_refresh env s = (Inr (), t)" for t
  proof -
    let ?m = "act_bind (act_catch (request_sources env ''api/onvif'' []) (\<lambda>e. if http_failed e then act_return [] else act_raise e))
        (\<lambda>discovered. act_for discovered (discover_item env))"
    from run obtain u where u: "?m s = (Inr (), u)" "refresh_all env u = (Inr (), t)"
      by (auto simp: discover_and_refresh_def act_simps split: prod.splits sum.splits if_splits)
    have "keeps (svc_with env ex {}) ?m"
      by (intro keeps_bind keeps_catch keeps_request_sources[OF bus] keeps_if keeps_return keeps_raise keeps_for keeps_discover_item[OF bus root])
    from keeps_run[OF this _ u(1)] inv have "svc_inv env ex u" by (simp add: svc_with_empty)
    from all[OF this u(2)] show ?thesis .
  qed
  with all[OF inv] sync_all_total[OF bus root inv] show ?thesis by blast
qed

end
