(* ===== verification/Camera_Streams.thy ===== *)
theory Camera_Streams
  imports Camera_Publish
begin

text \<open>
  What reaches go2rtc and what a refresh does to a camera. \<open>go\<close> are the streams go2rtc has in a state
  of the world; \<open>go2rtc_contract\<close> says that a PUT adds its stream and a DELETE removes it, or the
  request fails with an HTTP or connection error and changes nothing. \<open>count_contract\<close> counts the
  requests.
\<close>

section \<open>Reconciling the streams\<close>

definition obeys :: "('w \<Rightarrow> string \<rightharpoonup> string) \<Rightarrow> bool \<Rightarrow> string \<Rightarrow> string option \<Rightarrow> ('w, reply) act \<Rightarrow> bool" where
  "obeys go reliable name url m \<longleftrightarrow> (\<forall>w. case m w of
     (Inr r, w') \<Rightarrow> go w' = (go w)(name := url) | (Inl e, w') \<Rightarrow> http_failed e \<and> go w' = go w \<and> \<not> reliable)"

definition go2rtc_contract :: "'w cam_env \<Rightarrow> ('w \<Rightarrow> string \<rightharpoonup> string) \<Rightarrow> bool \<Rightarrow> bool" where
  "go2rtc_contract env go reliable \<longleftrightarrow>
     (\<forall>name url. obeys go reliable name (Some url) (ce_request env ''PUT'' ''api/streams'' [(''name'', name), (''src'', url)])) \<and>
     (\<forall>name. obeys go reliable name None (ce_request env ''DELETE'' ''api/streams'' [(''src'', name)]))"

text \<open>What go2rtc should have after a change from \<open>previous\<close> to \<open>desired\<close>\<close>

definition target_streams :: "string list \<Rightarrow> (string, string) dict \<Rightarrow> (string \<rightharpoonup> string) \<Rightarrow> (string \<rightharpoonup> string)" where
  "target_streams stale desired old = (\<lambda>n. case map_of desired n of Some url \<Rightarrow> Some url | None \<Rightarrow> if n \<in> set stale then None else old n)"

definition moved_towards :: "bool \<Rightarrow> (string \<rightharpoonup> string) \<Rightarrow> (string \<rightharpoonup> string) \<Rightarrow> (string \<rightharpoonup> string) \<Rightarrow> bool" where
  "moved_towards reliable goal old new \<longleftrightarrow> (\<forall>n. new n = goal n \<or> \<not> reliable \<and> new n = old n)"

definition requested :: "('w \<Rightarrow> string \<rightharpoonup> string) \<Rightarrow> bool \<Rightarrow> 'w svc \<Rightarrow> (string \<rightharpoonup> string) \<Rightarrow> 'w svc \<Rightarrow> bool" where
  "requested go reliable s goal t \<longleftrightarrow> moved_towards reliable goal (go (sv_world s)) (go (sv_world t)) \<and> t = s\<lparr>sv_world := sv_world t\<rparr>"

lemma world_update_id: "s = s\<lparr>sv_world := sv_world s\<rparr>"
  by simp

lemma quietly_requested:
  assumes m: "obeys go reliable name url m" and t: "requested go reliable s goal t" and fresh: "goal name = go (sv_world s) name"
  shows "ends (quietly (on_world m)) t (\<lambda>_. requested go reliable s (goal(name := url)))"
proof -
  obtain r w where w: "m (sv_world t) = (r, w)" by fastforce
  have t': "t = s\<lparr>sv_world := sv_world t\<rparr>" and moved: "\<And>n. go (sv_world t) n = goal n \<or> \<not> reliable \<and> go (sv_world t) n = go (sv_world s) n"
    using t by (simp_all add: requested_def moved_towards_def)
  have state: "t\<lparr>sv_world := w\<rparr> = s\<lparr>sv_world := w\<rparr>" by (subst t') simp
  show ?thesis
  proof (cases r)
    case (Inr x)
    with m w have "go w = (go (sv_world t))(name := url)" unfolding obeys_def by (metis (mono_tags, lifting) prod.case sum.case(2))
    with moved have "requested go reliable s (goal(name := url)) (s\<lparr>sv_world := w\<rparr>)" by (simp add: requested_def moved_towards_def)
    then show ?thesis by (simp add: ends_def quietly_def on_world_def act_zoom_def act_simps w Inr state)
  next
    case (Inl e)
    with m w have e: "http_failed e" "go w = go (sv_world t)" "\<not> reliable" unfolding obeys_def by (metis (mono_tags, lifting) prod.case sum.case(1))+
    have "go w n = (goal(name := url)) n \<or> go w n = go (sv_world s) n" for n
      using moved[of n] fresh e(2) by auto
    with e(3) have "requested go reliable s (goal(name := url)) (s\<lparr>sv_world := w\<rparr>)" by (simp add: requested_def moved_towards_def)
    then show ?thesis by (simp add: ends_def quietly_def on_world_def act_zoom_def act_simps w Inl e(1) state)
  qed
qed

lemma stream_urls_wf: "wf_dict (stream_urls streams)"
proof -
  have "wf_dict d \<Longrightarrow> wf_dict (fold (\<lambda>(_, st). AList.update (st_stream_name st) (st_stream_url st)) streams d)" for d
    by (induction streams arbitrary: d) auto
  then show ?thesis by (simp add: stream_urls_def)
qed

lemma target_step:
  "target_streams (ys @ [x]) [] old = (target_streams ys [] old)(x := None)"
  "map_of ds x = None \<Longrightarrow> x \<notin> set stale \<Longrightarrow> target_streams stale (ds @ [(x, url)]) old = (target_streams stale ds old)(x := Some url)"
  by (auto simp: target_streams_def fun_eq_iff map_add_def split: option.split)

lemma reconcile_moves:
  assumes go: "go2rtc_contract env go reliable" and prev: "wf_dict previous"
  shows "ends (reconcile env previous streams) s (\<lambda>_. requested go reliable s
    (target_streams (set_diff (dict_keys previous) (dict_keys (stream_urls streams))) (stream_urls streams) (go (sv_world s))))"
proof -
  let ?desired = "stream_urls streams" and ?old = "go (sv_world s)"
  define stale where "stale = sort (set_diff (dict_keys previous) (dict_keys ?desired))"
  have distinct: "distinct stale" and disjoint: "x \<in> set stale \<Longrightarrow> x \<notin> fst ` set ?desired" for x
    using prev by (auto simp: stale_def)
  have put: "obeys go reliable name (Some url) (ce_request env ''PUT'' ''api/streams'' [(''name'', name), (''src'', url)])"
    and delete: "obeys go reliable name None (ce_request env ''DELETE'' ''api/streams'' [(''src'', name)])" for name url
    using go by (simp_all add: go2rtc_contract_def)
  have first: "ends (act_for stale (\<lambda>name. quietly (delete_stream env name))) s (\<lambda>_. requested go reliable s (target_streams stale [] ?old))"
  proof (rule ends_forI)
    show "requested go reliable s (target_streams [] [] ?old) s" by (simp add: requested_def moved_towards_def target_streams_def)
    fix ys x zs t
    assume split: "stale = ys @ x # zs" and t: "requested go reliable s (target_streams ys [] ?old) t"
    have "target_streams ys [] ?old x = ?old x" using distinct split by (simp add: target_streams_def)
    from quietly_requested[OF delete t this] show "ends (quietly (delete_stream env x)) t (\<lambda>_. requested go reliable s (target_streams (ys @ [x]) [] ?old))"
      by (simp add: delete_stream_def request_json_def target_step)
  qed
  have second: "ends (act_for ?desired (\<lambda>entry. quietly (put_stream env entry))) u (\<lambda>_. requested go reliable s (target_streams stale ?desired ?old))"
    if u: "requested go reliable s (target_streams stale [] ?old) u" for u
  proof (rule ends_forI)
    show "requested go reliable s (target_streams stale [] ?old) u" by (rule u)
    fix ds e es t
    assume split: "?desired = ds @ e # es" and t: "requested go reliable s (target_streams stale ds ?old) t"
    obtain x url where e: "e = (x, url)" by fastforce
    have "x \<in> fst ` set ?desired" by (simp add: split e)
    then have x: "x \<notin> set stale" using disjoint by blast
    have "map_of ds x = None" using stream_urls_wf[of streams] unfolding split e by (simp add: map_of_eq_None_iff)
    note fresh = this x
    then have "target_streams stale ds ?old x = ?old x" by (simp add: target_streams_def)
    from quietly_requested[OF put t this] show "ends (quietly (put_stream env e)) t (\<lambda>_. requested go reliable s (target_streams stale (ds @ [e]) ?old))"
      by (simp add: put_stream_def request_json_def e target_step(2)[OF fresh])
  qed
  have "target_streams stale ?desired ?old = target_streams (set_diff (dict_keys previous) (dict_keys ?desired)) ?desired ?old"
    unfolding target_streams_def stale_def set_sort ..
  then show ?thesis unfolding reconcile_def Let_def ends_simps stale_def[symmetric]
    using ends_weaken[OF first second] by simp
qed


section \<open>Refreshing\<close>

definition count_contract :: "'w cam_env \<Rightarrow> ('w \<Rightarrow> nat) \<Rightarrow> bool" where
  "count_contract env cnt \<longleftrightarrow> (\<forall>w m p q. cnt (snd (ce_request env m p q w)) \<le> Suc (cnt w)) \<and> (\<forall>w. cnt (snd (ce_clock env w)) \<le> cnt w)"

definition same_but_camera :: "string \<Rightarrow> 'w svc \<Rightarrow> 'w svc \<Rightarrow> bool" where
  "same_but_camera slug s t \<longleftrightarrow> sv_objects t = sv_objects s \<and> sv_manager t = sv_manager s \<and> sv_signals t = sv_signals s \<and>
     dict_keys (sv_cameras t) = dict_keys (sv_cameras s) \<and> (\<forall>a. a \<noteq> slug \<longrightarrow> map_of (sv_cameras t) a = map_of (sv_cameras s) a)"

text \<open>\<open>s\<close> has become \<open>t\<close> in the course of a refresh: the camera is now \<open>c\<close>, after at most \<open>n\<close> requests.\<close>

definition at_camera :: "('w \<Rightarrow> nat) \<Rightarrow> string \<Rightarrow> 'w svc \<Rightarrow> nat \<Rightarrow> camera \<Rightarrow> 'w svc \<Rightarrow> bool" where
  "at_camera cnt slug s n c t \<longleftrightarrow> same_but_camera slug s t \<and> map_of (sv_cameras t) slug = Some c \<and> cnt (sv_world t) \<le> n"

lemma at_camera_mono: "at_camera cnt slug s n c t \<Longrightarrow> n \<le> m \<Longrightarrow> at_camera cnt slug s m c t"
  by (simp add: at_camera_def)

lemma triple_at_mono:
  assumes "triple (at_camera cnt slug s n c) m (\<lambda>_. at_camera cnt slug s k c) (\<lambda>_. at_camera cnt slug s k c)" and "k \<le> k'"
  shows "triple (at_camera cnt slug s n c) m (\<lambda>_. at_camera cnt slug s k' c) (\<lambda>_. at_camera cnt slug s k' c)"
  using assms by (auto intro: triple_weaken at_camera_mono)

definition costs :: "('w \<Rightarrow> nat) \<Rightarrow> string \<Rightarrow> nat \<Rightarrow> ('w svc, 'a) act \<Rightarrow> bool" where
  "costs cnt slug k m \<longleftrightarrow> (\<forall>s n c. triple (at_camera cnt slug s n c) m (\<lambda>_. at_camera cnt slug s (n + k) c) (\<lambda>_. at_camera cnt slug s (n + k) c))"

lemma costsI: "(\<And>s n c. triple (at_camera cnt slug s n c) m (\<lambda>_. at_camera cnt slug s (n + k) c) (\<lambda>_. at_camera cnt slug s (n + k) c)) \<Longrightarrow> costs cnt slug k m"
  by (simp add: costs_def)

lemma costsD: "costs cnt slug k m \<Longrightarrow> triple (at_camera cnt slug s n c) m (\<lambda>_. at_camera cnt slug s (n + k) c) (\<lambda>_. at_camera cnt slug s (n + k) c)"
  by (simp add: costs_def)

lemma costs_free: "costs cnt slug 0 m \<Longrightarrow> triple (at_camera cnt slug s n c) m (\<lambda>_. at_camera cnt slug s n c) (\<lambda>_. at_camera cnt slug s n c)"
  using costsD[of cnt slug 0 m s n c] by simp

lemma costs_mono: "costs cnt slug k m \<Longrightarrow> k \<le> k' \<Longrightarrow> costs cnt slug k' m"
  by (rule costsI, rule triple_at_mono[OF costsD[of cnt slug k m]]) auto

lemma costs_pure: "costs cnt slug 0 (act_return x)" "costs cnt slug 0 (act_raise e)" "costs cnt slug 0 (act_lift r)"
  by (auto intro!: costsI triple_returnI triple_raiseI triple_liftI)

lemma costs_bind:
  assumes "costs cnt slug j m" and "\<And>x. costs cnt slug k (f x)"
  shows "costs cnt slug (j + k) (act_bind m f)"
proof (rule costsI)
  fix s n c
  have raised: "triple (at_camera cnt slug s n c) m (\<lambda>_. at_camera cnt slug s (n + j) c) (\<lambda>_. at_camera cnt slug s (n + (j + k)) c)"
    by (rule triple_weaken[OF costsD[OF assms(1)]]) (auto intro: at_camera_mono)
  have "triple (at_camera cnt slug s (n + j) c) (f x) (\<lambda>_. at_camera cnt slug s (n + (j + k)) c) (\<lambda>_. at_camera cnt slug s (n + (j + k)) c)" for x
    using costsD[OF assms(2), of s "n + j" c] by (simp add: add.assoc)
  with raised show "triple (at_camera cnt slug s n c) (act_bind m f) (\<lambda>_. at_camera cnt slug s (n + (j + k)) c) (\<lambda>_. at_camera cnt slug s (n + (j + k)) c)"
    by (rule triple_bindI)
qed

lemma costs_then: "costs cnt slug j m \<Longrightarrow> costs cnt slug k n \<Longrightarrow> costs cnt slug (j + k) (act_then m n)"
  unfolding act_then_def by (rule costs_bind)

lemma costs_catch:
  assumes "costs cnt slug j m" and "\<And>e. costs cnt slug 0 (h e)"
  shows "costs cnt slug j (act_catch m h)"
proof (rule costsI)
  fix s n c
  have "triple (at_camera cnt slug s (n + j) c) (h e) (\<lambda>_. at_camera cnt slug s (n + j) c) (\<lambda>_. at_camera cnt slug s (n + j) c)" for e
    using costsD[OF assms(2), of s "n + j" c] by simp
  with costsD[OF assms(1)]
  show "triple (at_camera cnt slug s n c) (act_catch m h) (\<lambda>_. at_camera cnt slug s (n + j) c) (\<lambda>_. at_camera cnt slug s (n + j) c)"
    by (rule triple_catchI)
qed

lemma costs_for: "(\<And>x. x \<in> set xs \<Longrightarrow> costs cnt slug k (f x)) \<Longrightarrow> costs cnt slug (k * length xs) (act_for xs f)"
proof (induction xs)
  case (Cons x xs)
  then have "costs cnt slug (k + k * length xs) (act_then (f x) (act_for xs f))" by (intro costs_then) simp_all
  then show ?case by simp
qed (simp add: costs_pure)

lemma triple_endsI_any: "(\<And>s. P s \<Longrightarrow> Q (snd (m s))) \<Longrightarrow> triple P m (\<lambda>_. Q) (\<lambda>_. Q)"
  unfolding triple_def by (fastforce split: prod.splits sum.splits)

lemma triple_ex:
  assumes "\<And>x. A x \<Longrightarrow> triple (P x) m Q E"
  shows "triple (\<lambda>s. \<exists>x. P x s \<and> A x) m Q E"
  unfolding triple_def
proof (intro allI impI)
  fix s
  assume "\<exists>x. P x s \<and> A x"
  then obtain x where x: "A x" "P x s" by blast
  from triple_runE[OF assms[OF x(1)] x(2)] show "case m s of (Inl e, t) \<Rightarrow> E e t | (Inr y, t) \<Rightarrow> Q y t" by cases simp_all
qed

lemma costs_request:
  assumes "count_contract env cnt"
  shows "costs cnt slug 1 (request_json env m path query)"
proof (rule costsI, rule triple_endsI_any)
  fix s n c t
  assume "at_camera cnt slug s n c t"
  moreover have "cnt (snd (ce_request env m path query (sv_world t))) \<le> Suc (cnt (sv_world t))"
    using assms by (simp add: count_contract_def)
  ultimately show "at_camera cnt slug s (n + 1) c (snd (request_json env m path query t))"
    by (auto simp: at_camera_def same_but_camera_def request_json_def on_world_def act_zoom_def split: prod.split)
qed

lemma costs_now: "count_contract env cnt \<Longrightarrow> costs cnt slug 0 (now_usec env)"
proof (rule costsI, rule triple_endsI_any)
  fix s n c t
  assume "count_contract env cnt" and "at_camera cnt slug s n c t"
  then have "cnt (snd (ce_clock env (sv_world t))) \<le> n"
    unfolding count_contract_def at_camera_def by (meson le_trans)
  with \<open>at_camera cnt slug s n c t\<close> show "at_camera cnt slug s (n + 0) c (snd (now_usec env t))"
    by (auto simp: at_camera_def same_but_camera_def now_usec_def on_world_def act_zoom_def split: prod.splits)
qed

lemma costs_sources:
  assumes "count_contract env cnt"
  shows "costs cnt slug 1 (request_sources env path query)"
proof -
  have "costs cnt slug (1 + 0) (act_bind (request_json env ''GET'' path query) (\<lambda>r. act_return (case r of Sources (Some l) \<Rightarrow> l | _ \<Rightarrow> [])))"
    by (intro costs_bind costs_request[OF assms] costs_pure)
  then show ?thesis unfolding request_sources_def
    by (intro costs_catch) (auto split: exn.split intro: costs_pure)
qed

lemma costs_quietly: "costs cnt slug k m \<Longrightarrow> costs cnt slug k (quietly m)"
  unfolding quietly_def using costs_then[of cnt slug k m 0 "act_return ()"] by (intro costs_catch) (auto intro: costs_pure)

lemma length_stream_urls: "length (stream_urls streams) \<le> length streams"
proof -
  have "length (fold (\<lambda>(_, st). AList.update (st_stream_name st) (st_stream_url st)) streams d) \<le> length d + length streams"
    for d :: "(string, string) dict"
  proof (induction streams arbitrary: d)
    case (Cons x streams)
    have "length (AList.update k v d) \<le> Suc (length d)" for k and v :: string by (induction d) auto
    with Cons[of "AList.update (st_stream_name (snd x)) (st_stream_url (snd x)) d"] show ?case
      by (cases x) (auto intro: le_trans)
  qed simp
  from this[of "[]"] show ?thesis by (simp add: stream_urls_def)
qed

lemma costs_reconcile:
  assumes "count_contract env cnt"
  shows "costs cnt slug (length previous + length streams) (reconcile env previous streams)"
proof -
  let ?stale = "sort (set_diff (dict_keys previous) (dict_keys (stream_urls streams)))"
  note length_stream_urls[of streams]
  moreover have "length ?stale \<le> length previous" unfolding set_diff_def length_sort by (metis length_filter_le length_map)
  moreover have "costs cnt slug (1 * length ?stale + 1 * length (stream_urls streams)) (reconcile env previous streams)"
    unfolding reconcile_def Let_def
    by (intro costs_then costs_for costs_quietly) (auto simp: put_stream_def delete_stream_def intro: costs_request[OF assms, unfolded One_nat_def])
  ultimately show ?thesis by (auto intro: costs_mono)
qed

lemma costs_probe:
  assumes "count_contract env cnt"
  shows "costs cnt slug (length creds) (probe env endpoint creds err)"
proof (induction creds arbitrary: err)
  case (Cons cred creds)
  have again: "costs cnt slug (length creds) (case r of Inl msg \<Rightarrow> probe env endpoint creds msg | Inr [] \<Rightarrow> probe env endpoint creds err
       | Inr (p # ps) \<Rightarrow> act_return (p # ps, err))" for r
    using Cons.IH costs_mono[OF costs_pure(1), of "length creds"] by (auto split: sum.split list.split)
  have "costs cnt slug 1 (act_catch (act_bind (request_sources env ''api/onvif'' [(''src'', candidate)]) (\<lambda>l. act_return (Inr l)))
         (\<lambda>e. if http_failed e then act_return (Inl (error_text e)) else act_raise e))" for candidate
    using costs_bind[OF costs_sources[OF assms] costs_pure(1)] by (intro costs_catch) (auto intro: costs_pure)
  from costs_bind[OF costs_pure(3) costs_bind[OF this again]] show ?case by (cases cred) simp
qed (simp add: costs_pure)

lemma on_camera_at:
  "triple (at_camera cnt slug s n c) (on_camera slug f) (\<lambda>_. at_camera cnt slug s n (f c)) E"
  unfolding on_camera_def
  by (rule triple_modifyI) (auto simp: at_camera_def same_but_camera_def map_of_map_entry)

section \<open>The outcome of a refresh\<close>

definition refresh_failed :: "camera \<Rightarrow> camera \<Rightarrow> bool" where
  "refresh_failed c c' \<longleftrightarrow> ca_present c' = Some False \<and> ca_functional c' = Some False \<and> ca_auth_status c' = Some ''failed'' \<and>
     get_or (ca_last_error c') [] \<noteq> [] \<and> ca_streams c' = ca_streams c"

definition refresh_succeeded :: "'w cam_env \<Rightarrow> camera \<Rightarrow> source list \<Rightarrow> bool" where
  "refresh_succeeded env c' profiles \<longleftrightarrow> ca_present c' = Some True \<and> ca_functional c' = Some True \<and> ca_auth_status c' = Some ''ok'' \<and>
     ca_last_error c' = Some [] \<and> profiles \<noteq> [] \<and>
     streams_from (ce_prefix env) profiles = Inr (streams_of c', get_or (ca_snapshot_support c') False)"

definition same_settings :: "camera \<Rightarrow> camera \<Rightarrow> bool" where
  "same_settings c c' \<longleftrightarrow> ca_username c' = ca_username c \<and> ca_password c' = ca_password c \<and> ca_name c' = ca_name c \<and> ca_managed c' = ca_managed c"

text \<open>After locating the camera its streams and settings are as before.\<close>

definition located :: "camera \<Rightarrow> camera \<Rightarrow> bool" where
  "located c c' \<longleftrightarrow> same_settings c c' \<and> ca_streams c' = ca_streams c"

lemma locate_at:
  assumes "count_contract env cnt"
  shows "triple (at_camera cnt slug s n c) (locate_camera env slug c0)
    (\<lambda>_ t. \<exists>c'. at_camera cnt slug s n c' t \<and> located c c') (\<lambda>_ t. \<exists>c'. at_camera cnt slug s n c' t \<and> located c c')"
proof -
  let ?E = "\<lambda>_ t. \<exists>c'. at_camera cnt slug s n c' t \<and> located c c'"
  have same: "located c c" by (simp add: located_def same_settings_def)
  have last: "triple (at_camera cnt slug s n (c\<lparr>ca_endpoint := Some stripped, ca_address := Some address\<rparr>))
      (act_bind (now_usec env) (\<lambda>t. act_then (on_camera slug (\<lambda>c. c\<lparr>ca_last_refresh := Some t\<rparr>)) (act_return endpoint))) (\<lambda>_. ?E ()) ?E"
    for stripped address endpoint
  proof (rule triple_bindI)
    let ?c = "c\<lparr>ca_endpoint := Some stripped, ca_address := Some address\<rparr>"
    have "located c ?c" by (simp add: located_def same_settings_def)
    then show "triple (at_camera cnt slug s n ?c) (now_usec env) (\<lambda>_. at_camera cnt slug s n ?c) ?E"
      by (intro triple_weaken[OF costs_free[OF costs_now[OF assms]]]) auto
    show "triple (at_camera cnt slug s n ?c) (act_then (on_camera slug (\<lambda>c. c\<lparr>ca_last_refresh := Some t\<rparr>)) (act_return endpoint)) (\<lambda>_. ?E ()) ?E" for t
      by (rule triple_thenI[OF on_camera_at], rule triple_returnI) (auto simp: located_def same_settings_def)
  qed
  have "located c (c\<lparr>ca_endpoint := Some stripped\<rparr>)" for stripped by (simp add: located_def same_settings_def)
  then show ?thesis unfolding locate_camera_def using same
    by (intro triple_bind_liftI triple_thenI[OF on_camera_at] last[THEN triple_weaken]) auto
qed

definition request_bound :: "camera \<Rightarrow> camera \<Rightarrow> nat" where
  "request_bound c c' = 2 + length (streams_of c) + length (streams_of c')"

lemma accept_at:
  assumes "count_contract env cnt" and "profiles \<noteq> []" and "located c c1"
  shows "triple (at_camera cnt slug s (n + 2) c1) (accept_profiles env slug c import profiles)
    (\<lambda>_ t. \<exists>c'. at_camera cnt slug s (n + request_bound c c') c' t \<and> same_settings c c' \<and> refresh_succeeded env c' profiles)
    (\<lambda>_ t. \<exists>c'. at_camera cnt slug s (n + request_bound c c') c' t)"
  unfolding accept_profiles_def
proof (rule triple_bind_liftI)
  show "\<exists>c'. at_camera cnt slug s (n + request_bound c c') c' t" if "at_camera cnt slug s (n + 2) c1 t" for e t
    using at_camera_mono[OF that, of "n + request_bound c c1"] by (auto simp: request_bound_def)
  fix x
  assume x: "streams_from (ce_prefix env) profiles = Inr x"
  obtain streams snapshots where split: "x = (streams, snapshots)" by fastforce
  let ?f = "\<lambda>c. c\<lparr>ca_streams := Some streams, ca_present := Some True, ca_functional := Some True, ca_auth_status := Some ''ok'', ca_snapshot_support := Some snapshots\<rparr>"
  let ?g = "\<lambda>seen c. c\<lparr>ca_last_seen := Some seen, ca_last_error := Some []\<rparr>"
  let ?previous = "filter (\<lambda>(n, _). n \<noteq> []) (stream_urls (streams_of c))"
  let ?Q = "\<lambda>t. \<exists>c'. at_camera cnt slug s (n + request_bound c c') c' t \<and> same_settings c c' \<and> refresh_succeeded env c' profiles"
  let ?E = "\<lambda>t. \<exists>c'. at_camera cnt slug s (n + request_bound c c') c' t"
  have streams: "streams_of (?f c1) = streams" "streams_of (?g seen (?f c1)) = streams" for seen by (simp_all add: streams_of_def)
  have within: "?E t" if "at_camera cnt slug s (n + 2) (?f c1) t" for t
    using at_camera_mono[OF that, of "n + request_bound c (?f c1)"] by (auto simp: request_bound_def)
  have result: "?Q t" if "at_camera cnt slug s (n + 2 + (length (streams_of c) + length streams)) (?g seen (?f c1)) t" for seen t
  proof (intro exI conjI)
    show "at_camera cnt slug s (n + request_bound c (?g seen (?f c1))) (?g seen (?f c1)) t"
      using that by (simp add: request_bound_def streams add.assoc)
    show "same_settings c (?g seen (?f c1))" using assms(3) by (simp add: located_def same_settings_def)
    show "refresh_succeeded env (?g seen (?f c1)) profiles"
      using assms(2) x by (simp add: refresh_succeeded_def streams split get_or_def)
  qed
  have "length (filter (\<lambda>(n, _). n \<noteq> []) d) \<le> length d" for d :: "(string, string) dict" by (rule length_filter_le)
  with length_stream_urls[of "streams_of c"] have "length ?previous + length streams \<le> length (streams_of c) + length streams"
    by (metis add_le_mono1 le_trans)
  from costs_mono[OF costs_reconcile[OF assms(1)] this]
  have cost: "costs cnt slug (length (streams_of c) + length streams) (act_when import (reconcile env ?previous streams))"
    using costs_mono[OF costs_pure(1)[of cnt slug "()"], of "length (streams_of c) + length streams"] by (simp add: act_when_def)
  have recon: "triple (at_camera cnt slug s (n + 2) (?g seen (?f c1))) (act_when import (reconcile env ?previous streams)) (\<lambda>_. ?Q) (\<lambda>_. ?E)" for seen
    by (rule triple_weaken[OF costsD[OF cost]]) (use result in blast)+
  have rest: "triple (at_camera cnt slug s (n + 2) (?f c1)) (act_then (on_camera slug (?g seen)) (act_when import (reconcile env ?previous streams))) (\<lambda>_. ?Q) (\<lambda>_. ?E)" for seen
    by (rule triple_thenI, rule on_camera_at, rule recon)
  have now: "triple (at_camera cnt slug s (n + 2) (?f c1)) (now_usec env) (\<lambda>_. at_camera cnt slug s (n + 2) (?f c1)) (\<lambda>_. ?E)"
    by (rule triple_weaken[OF costs_free[OF costs_now[OF assms(1)]]]) (use within in blast)+
  show "triple (at_camera cnt slug s (n + 2) c1) (case x of (streams, snapshots) \<Rightarrow>
     act_then (on_camera slug (\<lambda>c. c\<lparr>ca_streams := Some streams, ca_present := Some True, ca_functional := Some True,
         ca_auth_status := Some ''ok'', ca_snapshot_support := Some snapshots\<rparr>))
    (act_bind (now_usec env) (\<lambda>seen.
     act_then (on_camera slug (\<lambda>c. c\<lparr>ca_last_seen := Some seen, ca_last_error := Some []\<rparr>))
       (act_when import (reconcile env ?previous streams))))) (\<lambda>_. ?Q) (\<lambda>_. ?E)"
    unfolding split prod.case by (rule triple_thenI, rule on_camera_at, rule triple_bindI, rule now, rule rest)
qed

lemma unusable_at:
  assumes "located c c1"
  shows "triple (at_camera cnt slug s (n + 2) c1) (mark_unusable slug err)
    (\<lambda>_ t. \<exists>c'. at_camera cnt slug s (n + request_bound c c') c' t \<and> same_settings c c' \<and> refresh_failed c c') E"
proof -
  let ?f = "\<lambda>c. c\<lparr>ca_present := Some False, ca_functional := Some False, ca_auth_status := Some ''failed'',
     ca_last_error := Some (if err = [] then ''unable to enumerate profiles'' else err)\<rparr>"
  have result: "\<exists>c'. at_camera cnt slug s (n + request_bound c c') c' t \<and> same_settings c c' \<and> refresh_failed c c'"
    if "at_camera cnt slug s (n + 2) (?f c1) t" for t
  proof (intro exI conjI)
    show "at_camera cnt slug s (n + request_bound c (?f c1)) (?f c1) t" by (rule at_camera_mono[OF that]) (simp add: request_bound_def)
    show "same_settings c (?f c1)" "refresh_failed c (?f c1)"
      using assms by (simp_all add: located_def same_settings_def refresh_failed_def get_or_def)
  qed
  show ?thesis unfolding mark_unusable_def by (rule triple_weaken[OF on_camera_at]) (use result in blast)+
qed

lemma refresh_at:
  assumes count: "count_contract env cnt" and c: "map_of (sv_cameras s) slug = Some c" and ne: "c \<noteq> empty_camera"
  shows "triple (\<lambda>t. t = s) (refresh_camera env slug import)
    (\<lambda>_ t. \<exists>c'. at_camera cnt slug s (cnt (sv_world s) + request_bound c c') c' t \<and> same_settings c c' \<and>
       (refresh_failed c c' \<or> (\<exists>profiles. refresh_succeeded env c' profiles)))
    (\<lambda>_ t. \<exists>c'. at_camera cnt slug s (cnt (sv_world s) + request_bound c c') c' t)" (is "triple _ _ (\<lambda>_. ?Q) (\<lambda>_. ?E)")
proof -
  let ?n = "cnt (sv_world s)"
  have start: "at_camera cnt slug s ?n c s" by (simp add: at_camera_def same_but_camera_def c)
  have early: "?E t" if "at_camera cnt slug s m c' t" "m \<le> ?n + 2" for m c' t
    using at_camera_mono[OF that(1), of "?n + request_bound c c'"] that(2) by (auto simp: request_bound_def)
  have finish: "triple (at_camera cnt slug s (?n + 2) c1) (case r of (profiles, err) \<Rightarrow>
      if profiles = [] then mark_unusable slug err else accept_profiles env slug c import profiles) (\<lambda>_. ?Q) (\<lambda>_. ?E)"
    if "located c c1" for c1 r
  proof (cases r)
    case (Pair profiles err)
    show ?thesis
    proof (cases "profiles = []")
      case True
      have "triple (at_camera cnt slug s (?n + 2) c1) (mark_unusable slug err) (\<lambda>_. ?Q) (\<lambda>_. ?E)"
        by (rule triple_weaken[OF unusable_at[OF that, where E = "\<lambda>_. ?E"]]) blast+
      then show ?thesis unfolding Pair prod.case if_P[OF True] .
    next
      case False
      have "triple (at_camera cnt slug s (?n + 2) c1) (accept_profiles env slug c import profiles) (\<lambda>_. ?Q) (\<lambda>_. ?E)"
        by (rule triple_weaken[OF accept_at[OF count False that]]) blast+
      then show ?thesis unfolding Pair prod.case if_not_P[OF False] .
    qed
  qed
  have creds: "length (camera_credentials c) \<le> 2" by (simp add: camera_credentials_def Let_def)
  have probe: "triple (at_camera cnt slug s ?n c1) (probe env endpoint (camera_credentials c) []) (\<lambda>_. at_camera cnt slug s (?n + 2) c1) (\<lambda>_. ?E)" for c1 endpoint
    by (rule triple_weaken[OF costsD[OF costs_mono[OF costs_probe[OF count] creds]]]) (auto intro: early)
  have after: "triple (\<lambda>t. \<exists>c1. at_camera cnt slug s ?n c1 t \<and> located c c1) (act_bind (probe env endpoint (camera_credentials c) [])
      (\<lambda>(profiles, err). if profiles = [] then mark_unusable slug err else accept_profiles env slug c import profiles)) (\<lambda>_. ?Q) (\<lambda>_. ?E)" for endpoint
    by (rule triple_ex, rule triple_bindI[OF probe], rule finish)
  have "triple (at_camera cnt slug s ?n c) (act_bind (locate_camera env slug c) (\<lambda>endpoint. act_bind (probe env endpoint (camera_credentials c) [])
      (\<lambda>(profiles, err). if profiles = [] then mark_unusable slug err else accept_profiles env slug c import profiles))) (\<lambda>_. ?Q) (\<lambda>_. ?E)"
    by (rule triple_bindI[OF triple_weaken[OF locate_at[OF count]] after]) (auto intro: early)
  then have "triple (\<lambda>t. t = s) (act_bind (locate_camera env slug c) (\<lambda>endpoint. act_bind (probe env endpoint (camera_credentials c) [])
      (\<lambda>(profiles, err). if profiles = [] then mark_unusable slug err else accept_profiles env slug c import profiles))) (\<lambda>_. ?Q) (\<lambda>_. ?E)"
    by (rule triple_weaken) (simp_all add: start)
  then show ?thesis unfolding triple_def by (simp add: refresh_camera_def act_simps c ne)
qed


text \<open>C36: A refresh of a camera asks go2rtc a bounded number of times, whether it returns or raises: at most
  twice for profiles, once for each stream the camera had and once for each it has then.\<close>

theorem refresh_requests_bounded:
  assumes "count_contract env cnt" and "map_of (sv_cameras s) slug = Some c" and "refresh_camera env slug import s = (r, t)"
  shows "\<exists>c'. map_of (sv_cameras t) slug = Some c' \<and>
    cnt (sv_world t) \<le> cnt (sv_world s) + 2 + length (streams_of c) + length (streams_of c')"
proof (cases "c = empty_camera")
  case True
  with assms(2,3) show ?thesis by (auto simp: refresh_camera_def act_simps)
next
  case False
  from triple_runE[OF refresh_at[OF assms(1,2) False, of import] refl]
  show ?thesis using assms(3) by cases (auto simp: at_camera_def request_bound_def add.assoc)
qed

section \<open>Rounds that fail\<close>

definition unrefreshed :: "'w svc \<Rightarrow> 'w svc \<Rightarrow> bool" where
  "unrefreshed s t \<longleftrightarrow> sv_signals t = sv_signals s \<and> sv_manager t = sv_manager s \<and>
     (\<forall>slug c. map_of (sv_cameras s) slug = Some c \<longrightarrow> (\<exists>c'. map_of (sv_cameras t) slug = Some c' \<and>
        ca_last_refresh c' = ca_last_refresh c \<and> ca_present c' = ca_present c \<and> ca_streams c' = ca_streams c))"

lemma unrefreshed_refl: "unrefreshed s s"
  by (simp add: unrefreshed_def)

lemma keeps_unrefreshed_world: "keeps (unrefreshed s) (on_world m)"
  by (rule keepsI) (simp add: on_world_def act_zoom_def unrefreshed_def split: prod.split)

lemma discover_item_unrefreshed: "keeps (unrefreshed s) (discover_item env item)"
proof -
  have entry: "keeps (unrefreshed s) (on_camera slug f)"
    if "\<And>c. ca_last_refresh (f c) = ca_last_refresh c" "\<And>c. ca_present (f c) = ca_present c" "\<And>c. ca_streams (f c) = ca_streams c" for slug f
    unfolding on_camera_def using that
    by (intro keeps_modify) (fastforce simp: unrefreshed_def map_of_map_entry)
  have "keeps (unrefreshed s) (set_default slug)" for slug
    unfolding set_default_def by (intro keeps_modify) (fastforce simp: unrefreshed_def has_key_map_of)
  moreover have "keeps (unrefreshed s) (export_camera env slug)" for slug
    unfolding export_camera_def
    by (intro keeps_bind keeps_gets keeps_if keeps_return keeps_then keeps_modify keeps_for keeps_unrefreshed_world) (simp add: unrefreshed_def)
  ultimately show ?thesis unfolding discover_item_def Let_def
    by (intro keeps_bind keeps_lift keeps_if keeps_return keeps_gets keeps_then entry) simp_all
qed

text \<open>C31: One malformed address ends a round for all cameras: when go2rtc discovers a device whose URL cannot be
  parsed, the discovery raises, and no camera has been refreshed and nothing announced; the loop
  of the service goes on, but every round ends like this while the device is there.\<close>

theorem malformed_discovery_ends_round:
  assumes "request_sources env ''api/onvif'' [] s = (Inr discovered, s1)"
    and "item \<in> set discovered" and "strip_credentials (get_or (so_url item) []) = Inl err"
  shows "\<exists>e t. discover_and_refresh env s = (Inl e, t) \<and> periodic_round env s = (Inr (), t) \<and> unrefreshed s t"
proof -
  have raised: "discover_item env item u = (Inl err, u)" for u by (simp add: discover_item_def act_simps assms(3))
  have "\<exists>e t. act_for items (discover_item env) u = (Inl e, t)" if "item \<in> set items" for items u
    using that
  proof (induction items arbitrary: u)
    case (Cons i items)
    obtain r v where v: "discover_item env i u = (r, v)" by fastforce
    show ?case
    proof (cases r)
      case (Inr x)
      with v raised have "i \<noteq> item" by auto
      with Cons show ?thesis by (simp add: act_simps v Inr)
    qed (simp add: act_simps v)
  qed simp
  then obtain e t where t: "act_for discovered (discover_item env) s1 = (Inl e, t)" using assms(2) by blast
  have "keeps (unrefreshed s) (request_sources env ''api/onvif'' [])"
    unfolding request_sources_def request_json_def
    by (intro keeps_catch keeps_bind keeps_unrefreshed_world keeps_return) (auto split: exn.split intro: keeps_return keeps_raise)
  from keeps_run[OF this unrefreshed_refl assms(1)] have "unrefreshed s s1" .
  from keeps_run[OF keeps_for[OF discover_item_unrefreshed] this t] have "unrefreshed s t" .
  then show ?thesis using t by (auto simp: periodic_round_def discover_and_refresh_def act_simps assms(1))
qed

text \<open>An AddCamera that is refused because its address has a malformed port has added the camera all the same:
  the call raises, but the camera is in the state, with the name the address gave it.\<close>

theorem refused_camera_is_added:
  assumes "ensure_onvif_url address = Inr endpoint" and "extract_address endpoint = Inr host" and "strip_credentials endpoint = Inl err"
    and "\<not> has_key (sv_cameras s) (sanitize_fragment host ''camera'')"
  shows "\<exists>t. add_camera env address name password import s = (Inl err, t) \<and>
    map_of (sv_cameras t) (sanitize_fragment host ''camera'') = Some (new_camera\<lparr>ca_address := Some host\<rparr>) \<and>
    sv_objects t = sv_objects s \<and> sv_signals t = sv_signals s"
  using assms by (simp add: add_camera_def set_default_def on_camera_def act_simps Let_def map_of_map_entry has_key_map_of)

end
