(* ===== verification/Camera_Demo.thy ===== *)
theory Camera_Demo
  imports Camera_Streams
begin

text \<open>
  The service beside a go2rtc that discovers one camera with one profile and does what it is asked:
  the theorems applied to it.
\<close>

record demo =
  dm_exports :: "(string \<times> string) list"
  dm_streams :: "(string, string) dict"
  dm_clock :: int
  dm_requests :: nat

definition demo_world :: demo where
  "demo_world = \<lparr>dm_exports = [], dm_streams = [(''other'', ''rtsp://o/'')], dm_clock = 0, dm_requests = 0\<rparr>"

definition demo_source :: "string \<Rightarrow> source" where
  "demo_source url = \<lparr>so_url = Some url, so_name = Some ''Acme Cam'', so_info = None, so_location = None\<rparr>"

definition demo_request :: "string \<Rightarrow> string \<Rightarrow> string \<Rightarrow> (string \<times> string) list \<Rightarrow> (demo, reply) act" where
  "demo_request device m path query w =
     (let w = w\<lparr>dm_requests := Suc (dm_requests w)\<rparr>
      in if m = ''PUT'' then (Inr Other_Reply, (case query of [a, b] \<Rightarrow> w\<lparr>dm_streams := AList.update (snd a) (snd b) (dm_streams w)\<rparr> | _ \<Rightarrow> w))
         else if m = ''DELETE'' then (Inr Other_Reply, (case query of [a] \<Rightarrow> w\<lparr>dm_streams := AList.delete (snd a) (dm_streams w)\<rparr> | _ \<Rightarrow> w))
         else (Inr (Sources (Some [demo_source (if query = [] then device else ''rtsp://h/'')])), w))"

definition demo_env :: "string \<Rightarrow> demo cam_env" where
  "demo_env device = \<lparr>ce_root = ''/xyz/camera'', ce_auto_add = True, ce_auto_import = True, ce_poll = 60, ce_prefix = ''i'',
     ce_request = demo_request device, ce_clock = (\<lambda>w. (dm_clock w, w\<lparr>dm_clock := dm_clock w + 1\<rparr>)), ce_save = (\<lambda>_ w. (Inr (), w)),
     ce_export = (\<lambda>p i w. if (p, i) \<in> set (dm_exports w) then (Inl ValueError, w) else (Inr (), w\<lparr>dm_exports := (p, i) # dm_exports w\<rparr>)),
     ce_unexport = (\<lambda>p i w. (Inr (), w\<lparr>dm_exports := removeAll (p, i) (dm_exports w)\<rparr>))\<rparr>"

definition good_device :: string where "good_device = ''onvif://h/''"
definition bad_device :: string where "bad_device = ''onvif://h:x/''"

abbreviation "good_env \<equiv> demo_env good_device"

abbreviation demo_exports :: "demo \<Rightarrow> exports" where
  "demo_exports w \<equiv> set (dm_exports w)"

lemma demo_bus: "bus_contract (demo_env d) (\<lambda>w. demo_exports w)"
  by (auto simp: bus_contract_def demo_env_def demo_request_def Let_def split: list.split)

lemma demo_go2rtc: "go2rtc_contract (demo_env d) (\<lambda>w. map_of (dm_streams w)) True"
  by (auto simp: go2rtc_contract_def obeys_def demo_env_def demo_request_def Let_def update_conv' delete_conv')

lemma demo_count: "count_contract (demo_env d) dm_requests"
  by (auto simp: count_contract_def demo_env_def demo_request_def Let_def split: list.split)

lemma demo_root: "valid_object_path (ce_root (demo_env d))"
proof -
  have "valid_object_path ''/xyz/camera''" by code_simp
  then show ?thesis by (simp add: demo_env_def)
qed

definition demo_start :: "demo svc" where
  "demo_start = snd (publish_saved good_env (new_service [] demo_world))"

lemma demo_started: "publish_saved good_env (new_service [] demo_world) = (Inr (), demo_start)"
proof -
  have "fst (publish_saved good_env (new_service [] demo_world)) = Inr ()"
    by (simp add: publish_saved_def for_cameras_def new_service_def sync_manager_def on_world_def act_zoom_def act_simps demo_env_def demo_world_def)
  then show ?thesis unfolding demo_start_def by (simp add: prod_eq_iff)
qed

text \<open>The service after a discovery and an attempt to remove a camera\<close>

definition demo_later :: "demo svc" where
  "demo_later = snd (run_call good_env (RemoveCamera ''/xyz/camera/h'') (snd (run_call good_env Discover demo_start)))"

lemma demo_reached: "cam_reach good_env (\<lambda>w. demo_exports w) [] demo_later"
proof -
  have "cam_reach good_env (\<lambda>w. demo_exports w) [] demo_start"
    by (rule cam_reach.start[OF _ demo_started]) (simp add: demo_world_def)
  then show ?thesis unfolding demo_later_def by (intro cam_reach.call[OF _ surjective_pairing])
qed

lemma no_cameras: "cameras_ok []"
  by (simp add: cameras_ok_def)

theorem exports_follow_state_witness:
  "demo_exports (sv_world demo_later) = object_tree good_env (map_of (sv_objects demo_later)) \<and>
    demo_exports (sv_world demo_later) \<subseteq> {(p, i). valid_object_path p} \<and>
    set (dict_keys (sv_objects demo_later)) \<subseteq> set (dict_keys (sv_cameras demo_later)) \<and> wf_dict (sv_cameras demo_later) \<and>
    list_all slug_ok (dict_keys (sv_cameras demo_later))"
  using exports_follow_state[OF demo_bus demo_root no_cameras demo_reached] by blast

text \<open>The service with one camera of an earlier run\<close>

definition demo_camera :: camera where
  "demo_camera = new_camera\<lparr>ca_endpoint := Some good_device, ca_name := Some ''Acme Cam''\<rparr>"

definition demo_one :: "demo svc" where
  "demo_one = new_service [(''h'', demo_camera)] demo_world"

definition demo_shown :: "demo svc" where
  "demo_shown = snd (publish_saved good_env demo_one)"

lemma demo_cameras: "cameras_ok [(''h'', demo_camera)]"
proof -
  have "slug_ok ''h''" by code_simp
  then show ?thesis by (simp add: cameras_ok_def streams_ok_def demo_camera_def new_camera_def empty_camera_def streams_of_def)
qed

lemma demo_published: "publish_saved good_env demo_one = (Inr (), demo_shown)" "sv_cameras demo_shown = [(''h'', demo_camera)]"
proof -
  let ?ex = "\<lambda>w. demo_exports w"
  have name: "camera_name demo_camera = Inr ''Acme Cam''" by (simp add: camera_name_def demo_camera_def)
  have publishing: "ends (act_then (act_then (export_camera good_env ''h'') (sync_camera good_env ''h'')) (sync_manager good_env)) t
      (\<lambda>_ u. sv_cameras u = [(''h'', demo_camera)])"
    if t: "svc_with good_env ?ex {} t" "sv_cameras t = [(''h'', demo_camera)]" for t
  proof -
    have c: "map_of (sv_cameras u) ''h'' = Some demo_camera" if "sv_cameras u = sv_cameras t" for u :: "demo svc" using that t(2) by simp
    have "ends (sync_manager good_env) u (\<lambda>_ v. sv_cameras v = [(''h'', demo_camera)])" if "became good_env ?ex ''h'' t obj u" for u obj
      by (rule ends_weaken[OF manager_becomes[OF that]]) (use t(2) in \<open>auto dest: becameD(2)\<close>)
    moreover have "ends (sync_camera good_env ''h'') u (\<lambda>_ v. \<exists>obj. became good_env ?ex ''h'' t obj v)" if u: "became good_env ?ex ''h'' t obj u" for u obj
    proof -
      have "svc_inv good_env ?ex u" using becameD(1)[OF u] by (simp add: svc_with_empty)
      from sync_camera_shows[OF demo_bus demo_root this c[OF becameD(2)[OF u]] name] show ?thesis
        by (rule ends_weaken) (use became_again[OF u] in blast)
    qed
    ultimately show ?thesis unfolding ends_steps(5)
      by (intro ends_weaken[OF export_becomes[OF demo_bus demo_root t(1) c[OF refl]]]) (blast intro: ends_weaken)
  qed
  have "ends (publish_saved good_env) demo_one (\<lambda>_ u. sv_cameras u = [(''h'', demo_camera)])"
    unfolding publish_saved_def ends_steps(5)[of "on_world _"] demo_one_def
    by (rule ends_weaken[OF manager_exported[OF demo_bus demo_cameras]])
      (simp_all add: demo_world_def for_cameras_def ends_simps publishing[unfolded ends_simps])
  from ends_run[OF this] show "publish_saved good_env demo_one = (Inr (), demo_shown)" "sv_cameras demo_shown = [(''h'', demo_camera)]"
    by (auto simp: demo_shown_def)
qed

theorem refresh_publishes_witness:
  "\<exists>t. for_cameras (sync_camera good_env) demo_shown = (Inr (), t) \<and> sv_cameras t = sv_cameras demo_shown \<and> bus_shows good_env t"
proof -
  have "cam_reach good_env (\<lambda>w. demo_exports w) [(''h'', demo_camera)] demo_shown"
    by (rule cam_reach.start[OF _ demo_published(1)[unfolded demo_one_def]]) (simp add: demo_world_def)
  note shown = refresh_publishes[OF demo_bus demo_root demo_cameras this]
  have "camera_name demo_camera = Inr ''Acme Cam''" by (simp add: camera_name_def demo_camera_def)
  with shown show ?thesis by (simp add: demo_published(2))
qed

section \<open>Paths and announcements\<close>

theorem camera_object_paths_valid_witness:
  "slug_ok (sanitize_fragment ''Cam 1'' ''camera'') \<and>
    valid_object_path (camera_path good_env (sanitize_fragment ''Cam 1'' ''camera'')) \<and>
    valid_object_path (stream_path good_env (sanitize_fragment ''Cam 1'' ''camera'') (sanitize_fragment ''!'' (''stream_'' @ str_nat 2))) \<and>
    slug_ok ''i_h_0''"
proof -
  have "make_stream_name ''i'' ''rtsp://h/'' 0 = Inr ''i_h_0''" by code_simp
  then show ?thesis
    using camera_object_paths_valid[OF demo_root, where prefix = "''i''" and index = 0]
      camera_object_paths_valid[OF demo_root, where name = "''!''" and index = 2] by blast
qed

definition front_stream :: stream where
  "front_stream = \<lparr>st_profile_name = ''Main'', st_profile_token = ''0'', st_snapshot = False, st_stream_name = ''a'', st_stream_url = ''b''\<rparr>"

theorem update_props_announces_witness:
  "(\<forall>k. map_of (fst (update_props (stream_mapping front_stream) new_stream_props)) k =
      (case map_of (stream_mapping front_stream) k of Some v \<Rightarrow> Some v | None \<Rightarrow> map_of new_stream_props k)) \<and>
    snd (update_props (stream_mapping front_stream) new_stream_props) =
      List.map (\<lambda>(k, v). (prop_name k, v)) (filter (\<lambda>(k, v). map_of new_stream_props k \<noteq> Some v) (stream_mapping front_stream))"
  by (rule update_props_announces; code_simp)

section \<open>Requests\<close>

definition wanted :: "(string, stream) dict" where
  "wanted = [(''a'', \<lparr>st_profile_name = [], st_profile_token = [], st_snapshot = False, st_stream_name = ''a'', st_stream_url = ''rtsp://a''\<rparr>)]"


lemma demo_urls:
  "ensure_onvif_url good_device = Inr good_device" "strip_credentials good_device = Inr good_device" "extract_address good_device = Inr ''h''"
  "res_bind (urlparse good_device) (\<lambda>u. build_url u None None) = Inr good_device"
  by code_simp+

lemma demo_profile:
  "streams_from ''i'' [demo_source ''rtsp://h/''] = Inr ([(''i_h_0'', \<lparr>st_profile_name = ''Acme Cam'', st_profile_token = ''0'', st_snapshot = False,
     st_stream_name = ''i_h_0'', st_stream_url = ''rtsp://h/''\<rparr>)], False)"
  by code_simp

lemma demo_refreshed: "fst (refresh_camera good_env ''h'' False demo_one) = Inr ()"
proof -
  have "demo_camera \<noteq> empty_camera" by (simp add: demo_camera_def new_camera_def empty_camera_def)
  moreover have "camera_credentials demo_camera = [(None, None)]"
    by (simp add: camera_credentials_def demo_camera_def new_camera_def empty_camera_def get_or_def)
  moreover have "text_or (ca_endpoint demo_camera) x = good_device" for x by (simp add: text_or_def demo_camera_def good_device_def)
  ultimately show ?thesis
    by (simp add: refresh_camera_def locate_camera_def accept_profiles_def request_sources_def request_json_def now_usec_def on_camera_def
        on_world_def act_zoom_def act_simps demo_one_def new_service_def demo_urls demo_profile demo_env_def demo_request_def Let_def)
qed


theorem refresh_requests_bounded_witness:
  "\<exists>c'. map_of (sv_cameras (snd (refresh_camera good_env ''h'' True demo_one))) ''h'' = Some c' \<and>
    dm_requests (sv_world (snd (refresh_camera good_env ''h'' True demo_one))) \<le>
      dm_requests (sv_world demo_one) + 2 + length (streams_of demo_camera) + length (streams_of c')"
  by (rule refresh_requests_bounded[OF demo_count _ surjective_pairing]) (simp add: demo_one_def new_service_def)

theorem malformed_discovery_ends_round_witness:
  "\<exists>e t. discover_and_refresh (demo_env bad_device) demo_one = (Inl e, t) \<and> periodic_round (demo_env bad_device) demo_one = (Inr (), t) \<and>
    unrefreshed demo_one t"
proof (rule malformed_discovery_ends_round)
  show "request_sources (demo_env bad_device) ''api/onvif'' [] demo_one =
      (Inr [demo_source bad_device], demo_one\<lparr>sv_world := demo_world\<lparr>dm_requests := 1\<rparr>\<rparr>)"
    by (simp add: request_sources_def request_json_def on_world_def act_zoom_def act_simps demo_env_def demo_request_def demo_one_def
        new_service_def demo_world_def)
  have "strip_credentials bad_device = Inl ValueError" by code_simp
  then show "strip_credentials (get_or (so_url (demo_source bad_device)) []) = Inl ValueError" by (simp add: demo_source_def get_or_def)
qed simp

theorem refused_camera_is_added_witness:
  "\<exists>t. add_camera good_env bad_device ''me'' ''pw'' True demo_start = (Inl ValueError, t) \<and>
    map_of (sv_cameras t) (sanitize_fragment ''h'' ''camera'') = Some (new_camera\<lparr>ca_address := Some ''h''\<rparr>) \<and>
    sv_objects t = sv_objects demo_start \<and> sv_signals t = sv_signals demo_start"
proof (rule refused_camera_is_added)
  show "ensure_onvif_url bad_device = Inr bad_device" "extract_address bad_device = Inr ''h''" "strip_credentials bad_device = Inl ValueError"
    by code_simp+
  show "\<not> has_key (sv_cameras demo_start) (sanitize_fragment ''h'' ''camera'')"
    by (simp add: demo_start_def publish_saved_def for_cameras_def new_service_def sync_manager_def on_world_def act_zoom_def act_simps
        demo_env_def demo_world_def emit_def has_key_def split: prod.split)
qed

end
