(* ===== verification/Go2rtc_Discovery.thy ===== *)
theory Go2rtc_Discovery
  imports Camera_Streams
begin

text \<open>
  The script \<open>go2rtc-discovery.py\<close>: it asks go2rtc for ONVIF devices, tries the configured
  credentials on each and imports the profiles of the first that work as streams. Its state is the
  world alone; the variables of the environment and the requests are the fields of \<open>disc_env\<close>.
\<close>

record 'w disc_env =
  de_vars :: "string \<Rightarrow> string option"
  de_request :: "string \<Rightarrow> string \<Rightarrow> (string \<times> string) list \<Rightarrow> ('w, reply) act"

type_synonym credential = "string option \<times> string option"

definition getenv :: "(string \<Rightarrow> string option) \<Rightarrow> string \<Rightarrow> string \<Rightarrow> string" where
  "getenv vars name fallback = get_or (vars name) fallback"

definition timeout_seconds :: "(string \<Rightarrow> string option) \<Rightarrow> int" where
  "timeout_seconds vars = (case py_int (getenv vars ''GO2RTC_DISCOVERY_TIMEOUT'' ''10'') of Inr n \<Rightarrow> n | Inl _ \<Rightarrow> 10)"

section \<open>Credentials\<close>

definition listed_credential :: "string \<Rightarrow> credential list" where
  "listed_credential item =
     (let entry = strip_chars py_space item
      in if CHR '':'' \<notin> set entry then [] else (case partition_at CHR '':'' entry of (name, password) \<Rightarrow> [(Some name, Some password)]))"

definition configured_credentials :: "(string \<Rightarrow> string option) \<Rightarrow> credential list" where
  "configured_credentials vars =
     (let name = getenv vars ''GO2RTC_ONVIF_USERNAME'' []; password = getenv vars ''GO2RTC_ONVIF_PASSWORD'' [];
          raw = strip_chars py_space (getenv vars ''GO2RTC_ONVIF_CREDENTIALS'' [])
      in (if name \<noteq> [] \<or> password \<noteq> [] then [(Some name, Some password)] else []) @
         (if raw \<noteq> [] then List.concat (List.map listed_credential (split_on CHR '','' raw)) else []) @ [(None, None)])"

definition read_credentials :: "(string \<Rightarrow> string option) \<Rightarrow> credential list" where
  "read_credentials vars = set_union [] (configured_credentials vars)"

section \<open>Importing\<close>

definition dash_sanitize :: "string \<Rightarrow> string \<Rightarrow> string" where
  "dash_sanitize = sanitize_with CHR ''-''"

definition discovery_sources :: "'w disc_env \<Rightarrow> (string \<times> string) list \<Rightarrow> ('w, source list) act" where
  "discovery_sources env query =
     act_catch (act_bind (de_request env ''GET'' ''api/onvif'' query) (\<lambda>r. act_return (case r of Sources (Some l) \<Rightarrow> l | _ \<Rightarrow> [])))
       (\<lambda>e. case e of HTTPError code msg \<Rightarrow> if code = 404 then act_return [] else act_raise e | _ \<Rightarrow> act_raise e)"

definition candidate_urls :: "string \<Rightarrow> credential list \<Rightarrow> string list res" where
  "candidate_urls discovered credentials = res_bind (urlparse discovered) (\<lambda>u. res_map (\<lambda>(name, password). build_url u name password) credentials)"

definition stream_name :: "(string \<Rightarrow> string option) \<Rightarrow> string \<Rightarrow> nat \<Rightarrow> string res" where
  "stream_name vars = stream_name_with CHR ''-'' ''onvif'' (getenv vars ''GO2RTC_STREAM_PREFIX'' ''onvif'')"

text \<open>The profiles of the first candidate that has any; an empty candidate does not count as a choice.\<close>

fun first_profiles :: "'w disc_env \<Rightarrow> string list \<Rightarrow> ('w, source list) act" where
  "first_profiles env [] = act_return []"
| "first_profiles env (candidate # rest) =
     act_bind (act_catch (discovery_sources env [(''src'', candidate)]) (\<lambda>e. if http_failed e then act_return [] else act_raise e)) (\<lambda>items.
     if items = [] then first_profiles env rest else act_return (if candidate = [] then [] else items))"

text \<open>One profile is a stream or nothing; its import counts if go2rtc accepts it.\<close>

definition profile_stream :: "(string \<Rightarrow> string option) \<Rightarrow> nat \<times> source \<Rightarrow> (string \<times> string) option res" where
  "profile_stream vars = (\<lambda>(index, profile).
     let url = get_or (so_url profile) []
     in if url = [] then Inr None
        else res_bind (urlparse url) (\<lambda>u.
          if has_key (parse_qs (u_query u)) ''snapshot'' then Inr None
          else res_bind (stream_name vars url index) (\<lambda>name. Inr (Some (name, url)))))"

definition import_profile :: "'w disc_env \<Rightarrow> nat \<times> source \<Rightarrow> ('w, nat) act" where
  "import_profile env profile =
     act_bind (act_lift (profile_stream (de_vars env) profile)) (\<lambda>found. case found of
       None \<Rightarrow> act_return 0
     | Some (name, url) \<Rightarrow>
         act_catch (act_then (de_request env ''PUT'' ''api/streams'' [(''name'', name), (''src'', url)]) (act_return 1))
           (\<lambda>e. if http_failed e then act_return 0 else act_raise e))"

definition import_profiles :: "'w disc_env \<Rightarrow> credential list \<Rightarrow> source \<Rightarrow> ('w, nat) act" where
  "import_profiles env credentials discovered =
     (let url = get_or (so_url discovered) []
      in if url = [] then act_return 0
         else act_bind (act_lift (candidate_urls url credentials)) (\<lambda>candidates.
              act_bind (first_profiles env candidates) (\<lambda>profiles.
              act_sum (import_profile env) (List.enumerate 0 profiles))))"

text \<open>The script's exit code and the number of streams it reports\<close>

definition discovery_main :: "'w disc_env \<Rightarrow> ('w, nat \<times> nat) act" where
  "discovery_main env =
     act_bind (act_catch (act_bind (discovery_sources env []) (\<lambda>l. act_return (Some l)))
         (\<lambda>e. if http_failed e then act_return None else act_raise e)) (\<lambda>discovered. case discovered of
       None \<Rightarrow> act_return (1, 0)
     | Some [] \<Rightarrow> act_return (0, 0)
     | Some (i # items) \<Rightarrow>
         act_bind (act_sum (import_profiles env (read_credentials (de_vars env))) (i # items)) (\<lambda>imported. act_return (0, imported)))"

section \<open>The credentials that are tried\<close>

lemma set_union_snoc: "set_union xs (ys @ [y]) = set_add y (set_union xs ys)"
  by (simp add: set_union_def)

lemma listed_credential_iff:
  "(Some name, Some password) \<in> set (listed_credential item) \<longleftrightarrow> strip_chars py_space item = name @ '':'' @ password \<and> CHR '':'' \<notin> set name"
proof (cases "CHR '':'' \<in> set (strip_chars py_space item)")
  case True
  then obtain a b where split: "strip_chars py_space item = a @ CHR '':'' # b" "CHR '':'' \<notin> set a" by (metis split_list_first)
  have "a @ CHR '':'' # b = name @ CHR '':'' # password \<and> CHR '':'' \<notin> set name \<longleftrightarrow> name = a \<and> password = b"
    using split(2) by (metis partition_at_append prod.inject)
  then show ?thesis using split partition_at_append[OF split(2), of b] by (simp add: listed_credential_def Let_def)
qed (auto simp: listed_credential_def Let_def)

lemma listed_credential_Nil: "listed_credential [] = []"
  by (simp add: listed_credential_def strip_chars_def lstrip_chars_def rstrip_chars_def)

lemma listed_credential_some: "cred \<in> set (listed_credential item) \<Longrightarrow> \<exists>name password. cred = (Some name, Some password)"
  by (auto simp: listed_credential_def Let_def split: if_splits prod.splits)

text \<open>The credentials the script tries are those that are configured, each once: the user name and
  password of the environment if either is set, every \<open>user:password\<close> of the list, where the
  password may contain colons, and access without credentials, which comes last.\<close>

theorem read_credentials_configured:
  "distinct (read_credentials vars) \<and> last (read_credentials vars) = (None, None) \<and>
   (\<forall>name password. (Some name, Some password) \<in> set (read_credentials vars) \<longleftrightarrow>
     (\<not> (name = [] \<and> password = []) \<and> name = getenv vars ''GO2RTC_ONVIF_USERNAME'' [] \<and> password = getenv vars ''GO2RTC_ONVIF_PASSWORD'' []) \<or>
     (\<exists>item \<in> set (split_on CHR '','' (strip_chars py_space (getenv vars ''GO2RTC_ONVIF_CREDENTIALS'' []))).
        strip_chars py_space item = name @ '':'' @ password \<and> CHR '':'' \<notin> set name))"
proof -
  let ?name = "getenv vars ''GO2RTC_ONVIF_USERNAME'' []" and ?password = "getenv vars ''GO2RTC_ONVIF_PASSWORD'' []"
  let ?raw = "strip_chars py_space (getenv vars ''GO2RTC_ONVIF_CREDENTIALS'' [])"
  let ?front = "(if ?name \<noteq> [] \<or> ?password \<noteq> [] then [(Some ?name, Some ?password)] else []) @
    (if ?raw \<noteq> [] then List.concat (List.map listed_credential (split_on CHR '','' ?raw)) else [])"
  have configured: "configured_credentials vars = ?front @ [(None, None)]" by (simp add: configured_credentials_def Let_def)
  have "(None, None) \<notin> set ?front" using listed_credential_some by fastforce
  then have split: "read_credentials vars = set_union [] ?front @ [(None, None)]"
    unfolding read_credentials_def configured set_union_snoc by (simp add: set_add_def)
  have "distinct (read_credentials vars)" by (simp add: read_credentials_def)
  moreover have "last (read_credentials vars) = (None, None)" by (simp add: split)
  moreover have "(Some name, Some password) \<in> set ?front \<longleftrightarrow>
     (\<not> (name = [] \<and> password = []) \<and> name = ?name \<and> password = ?password) \<or>
     (\<exists>item \<in> set (split_on CHR '','' ?raw). (Some name, Some password) \<in> set (listed_credential item))" for name password
    by (cases "?raw = []") (auto simp: listed_credential_Nil)
  then have "(Some name, Some password) \<in> set (read_credentials vars) \<longleftrightarrow>
     (\<not> (name = [] \<and> password = []) \<and> name = ?name \<and> password = ?password) \<or>
     (\<exists>item \<in> set (split_on CHR '','' ?raw). strip_chars py_space item = name @ '':'' @ password \<and> CHR '':'' \<notin> set name)" for name password
    unfolding split listed_credential_iff by simp
  ultimately show ?thesis by (intro conjI allI)
qed

section \<open>What is imported\<close>

text \<open>A go2rtc that does what it is asked: a PUT adds its stream to those it has, \<open>go\<close>.\<close>

definition accepts :: "'w disc_env \<Rightarrow> ('w \<Rightarrow> string \<rightharpoonup> string) \<Rightarrow> bool" where
  "accepts env go \<longleftrightarrow> (\<forall>name url. obeys go True name (Some url) (de_request env ''PUT'' ''api/streams'' [(''name'', name), (''src'', url)]))"

lemma obeys_ends: "obeys go True name url m \<Longrightarrow> ends m w (\<lambda>_ w'. go w' = (go w)(name := url))"
  unfolding obeys_def ends_def by (drule spec[of _ w]) (auto split: prod.splits sum.splits)

lemma import_profile_ends:
  assumes "accepts env go" and "profile_stream (de_vars env) p = Inr found"
  shows "ends (import_profile env p) w (\<lambda>n w'. n = length (case found of None \<Rightarrow> [] | Some e \<Rightarrow> [e]) \<and>
    go w' = (case found of None \<Rightarrow> go w | Some (name, url) \<Rightarrow> (go w)(name \<mapsto> url)))"
proof (cases found)
  case None
  with assms(2) show ?thesis by (simp add: import_profile_def ends_def act_simps)
next
  case (Some e)
  obtain name url where e: "e = (name, url)" by fastforce
  have "obeys go True name (Some url) (de_request env ''PUT'' ''api/streams'' [(''name'', name), (''src'', url)])"
    using assms(1) by (simp add: accepts_def)
  from ends_run[OF obeys_ends[OF this]] obtain r w'
    where "de_request env ''PUT'' ''api/streams'' [(''name'', name), (''src'', url)] w = (Inr r, w')" "go w' = (go w)(name \<mapsto> url)" by blast
  then show ?thesis using assms(2) Some by (simp add: import_profile_def ends_def act_simps e)
qed


section \<open>Instances\<close>

definition sample_disc :: "(string, string) dict disc_env" where
  "sample_disc = \<lparr>de_vars = (\<lambda>_. None),
     de_request = (\<lambda>m p q w. (Inr Other_Reply, case q of [a, b] \<Rightarrow> AList.update (snd a) (snd b) w | _ \<Rightarrow> w))\<rparr>"

definition sample_profiles :: "(nat \<times> source) list" where
  "sample_profiles = [(0, \<lparr>so_url = Some ''rtsp://h/'', so_name = None, so_info = None, so_location = None\<rparr>),
     (1, \<lparr>so_url = Some ''rtsp://h/?snapshot=1'', so_name = None, so_info = None, so_location = None\<rparr>)]"


end
