(* ===== verification/Data_Store.thy ===== *)
theory Data_Store
  imports Py_Action
begin

text \<open>
  The datastore of the metadata, \<open>DataSmart\<close> of \<open>data_smart.py\<close>: variables with flags, a chain of
  dictionaries that a copy shares with its origin, the operators \<open>:append\<close>, \<open>:prepend\<close> and \<open>:remove\<close>,
  overrides, the expansion of references, and the cache of expansions.

  A method is an action on \<open>dstore\<close>. \<open>getVarFlag\<close>, \<open>expandWithRefs\<close> and \<open>need_overrides\<close> call each other
  without a bound the text of the variables would give: \<open>get_var_flag\<close> takes fuel for the depth of
  the calls and for the rounds of the loops, and raises \<open>OutOfFuel\<close> without it. Inline Python is
  code of the metadata: \<open>py\<close> evaluates it in the datastore and returns its text with the names it
  refers to. The history of variables is kept only when tracking is enabled and is not modelled.
\<close>

section \<open>Values and variables\<close>

text \<open>\<open>Ops\<close> is the list of an operator flag, \<open>Names\<close> a list or set of names. The rest is what the parser and the
  task functions keep in variables: files with their times, deferred classes with the place they are
  named at, and the dictionary \<open>_task_deps\<close> with its lists and dictionaries.\<close>

datatype dvalue =
    NoneV
  | Truth bool
  | Num int
  | Text string
  | Ops "(dvalue \<times> string option) list"
  | Names "string list"
  | Stamps "(string \<times> nat) list"
  | Deferred "(string \<times> string \<times> nat) list"
  | Task_Deps "string list" "(string \<times> string list) list" "(string \<times> (string \<times> dvalue) list) list"

type_synonym flags = "(string, dvalue) dict"

definition truthy_value :: "dvalue \<Rightarrow> bool" where
  "truthy_value v = (case v of NoneV \<Rightarrow> False | Truth b \<Rightarrow> b | Num i \<Rightarrow> i \<noteq> 0 | Text s \<Rightarrow> s \<noteq> [] | Ops l \<Rightarrow> l \<noteq> [] | Names l \<Rightarrow> l \<noteq> []
     | Stamps l \<Rightarrow> l \<noteq> [] | Deferred l \<Rightarrow> l \<noteq> [] | Task_Deps tasks parents named \<Rightarrow> True)"

definition ops_of :: "dvalue \<Rightarrow> (dvalue \<times> string option) list" where
  "ops_of v = (case v of Ops l \<Rightarrow> l | _ \<Rightarrow> [])"

text \<open>What \<open>VariableParse\<close> keeps; \<open>removes\<close> is an attribute that may be missing.\<close>

record parse =
  vp_value :: dvalue
  vp_unexpanded :: dvalue
  vp_references :: "string list"
  vp_contains :: "string list"
  vp_removes :: "dvalue list option"

record dstore =
  ds_layers :: "(string, flags) dict list"
  ds_cache :: "(string, parse) dict"
  ds_overridedata :: "(string, (string \<times> string) list) dict"
  ds_overrides :: "string list option"
  ds_overridesset :: "string list"
  ds_overridevars :: "string list"
  ds_inoverride :: bool
  ds_renames :: "(string, dvalue) dict"

definition new_dstore :: "(string, dvalue) dict \<Rightarrow> dstore" where
  "new_dstore renames = \<lparr>ds_layers = [[]], ds_cache = [], ds_overridedata = [], ds_overrides = None, ds_overridesset = [],
     ds_overridevars = [''OVERRIDES'', ''FILE''], ds_inoverride = False, ds_renames = renames\<rparr>"

definition createCopy :: "dstore \<Rightarrow> dstore" where
  "createCopy s = (new_dstore (ds_renames s))\<lparr>ds_layers := [] # ds_layers s, ds_overridevars := ds_overridevars s,
     ds_overridedata := ds_overridedata s\<rparr>"

fun find_var :: "(string, flags) dict list \<Rightarrow> string \<Rightarrow> flags option" where
  "find_var [] var = None"
| "find_var (d # ds) var = (case map_of d var of None \<Rightarrow> find_var ds var | Some f \<Rightarrow> Some f)"

text \<open>\<open>self.dict\<close> is the first layer.\<close>

definition local_dict :: "dstore \<Rightarrow> (string, flags) dict" where
  "local_dict s = (case ds_layers s of [] \<Rightarrow> [] | d # ds \<Rightarrow> d)"

definition put_local :: "(string, flags) dict \<Rightarrow> dstore \<Rightarrow> dstore" where
  "put_local d s = s\<lparr>ds_layers := d # tl (ds_layers s)\<rparr>"

definition set_flags :: "string \<Rightarrow> flags \<Rightarrow> dstore \<Rightarrow> dstore" where
  "set_flags var f s = put_local (AList.update var f (local_dict s)) s"

definition local_flags :: "dstore \<Rightarrow> string \<Rightarrow> flags" where
  "local_flags s var = (case map_of (local_dict s) var of None \<Rightarrow> [] | Some f \<Rightarrow> f)"

definition clear_cache :: "dstore \<Rightarrow> dstore" where
  "clear_cache s = s\<lparr>ds_cache := []\<rparr>"

definition init_var :: "string \<Rightarrow> dstore \<Rightarrow> dstore" where
  "init_var var s = (let s = clear_cache s in if has_key (local_dict s) var then s else set_flags var [] s)"

definition make_shadow_copy :: "string \<Rightarrow> dstore \<Rightarrow> dstore" where
  "make_shadow_copy var s =
     (if has_key (local_dict s) var then s
      else case find_var (ds_layers s) var of
        Some (f # fs) \<Rightarrow> set_flags var (f # fs) s
      | _ \<Rightarrow> init_var var s)"

section \<open>References and inline Python in a text\<close>

datatype piece = Plain char | Ref string | Code string

definition key_char :: "char \<Rightarrow> bool" where
  "key_char c \<longleftrightarrow> is_alpha c \<or> is_digit c \<or> c \<in> set ''-_+./~:''"

text \<open>\<open>${key}\<close> at the head of a text: the key and the rest\<close>

definition ref_at :: "string \<Rightarrow> (string \<times> string) option" where
  "ref_at s =
     (if startswith s ''${'' then
        let key = takeWhile key_char (drop 2 s)
        in (case drop (2 + length key) s of c # rest \<Rightarrow> if key \<noteq> [] \<and> c = CHR ''}'' then Some (key, rest) else None | [] \<Rightarrow> None)
      else None)"

lemma ref_at_shorter: "ref_at s = Some (key, rest) \<Longrightarrow> length rest < length s"
proof -
  assume "ref_at s = Some (key, rest)"
  then obtain c where "drop (2 + length (takeWhile key_char (drop 2 s))) s = c # rest"
    by (auto simp: ref_at_def Let_def split: if_splits list.splits)
  from arg_cong[OF this, of length] show ?thesis by simp
qed

function var_pieces :: "string \<Rightarrow> piece list" where
  "var_pieces s =
     (case ref_at s of
        Some (key, rest) \<Rightarrow> Ref key # var_pieces rest
      | None \<Rightarrow> (case s of [] \<Rightarrow> [] | c # cs \<Rightarrow> Plain c # var_pieces cs))"
  by pat_completeness auto
termination
  by (relation "measure length") (auto dest: ref_at_shorter)

declare var_pieces.simps [simp del]

text \<open>The rests after each closing brace of a line, nearest first: the ends of \<open>{.*?}\<close>\<close>

fun after_braces :: "string \<Rightarrow> string list" where
  "after_braces [] = []"
| "after_braces (c # cs) = (if c = CHR ''}'' then cs # after_braces cs else if c = CHR ''\<newline>'' then [] else after_braces cs)"

fun first_some :: "('a \<Rightarrow> 'b option) \<Rightarrow> 'a list \<Rightarrow> 'b option" where
  "first_some f [] = None"
| "first_some f (x # xs) = (case f x of Some y \<Rightarrow> Some y | None \<Rightarrow> first_some f xs)"

lemma first_some_cong [fundef_cong]: "xs = ys \<Longrightarrow> (\<And>x. x \<in> set ys \<Longrightarrow> f x = g x) \<Longrightarrow> first_some f xs = first_some g ys"
  by (induction ys arbitrary: xs) (auto split: option.split)

lemma after_braces_shorter: "r \<in> set (after_braces s) \<Longrightarrow> length r < length s"
  by (induction s) (auto split: if_splits)

text \<open>\<open>(?:{.*?}|.)+?}\<close> at the head of a text: the rest after the closing brace, found as the matcher
  of Python does, with a group in braces before a single character and a short match before a long
  one\<close>

function code_end :: "string \<Rightarrow> string option" where
  "code_end s =
     (case s of [] \<Rightarrow> None
      | c # cs \<Rightarrow>
          case (if c = CHR ''{'' then first_some (\<lambda>rest. case rest of d # r \<Rightarrow> if d = CHR ''}'' then Some r else code_end rest | [] \<Rightarrow> None)
                  (after_braces cs) else None) of
            Some r \<Rightarrow> Some r
          | None \<Rightarrow> if c = CHR ''\<newline>'' then None
                    else case cs of d # r \<Rightarrow> if d = CHR ''}'' then Some r else code_end cs | [] \<Rightarrow> None)"
  by pat_completeness auto
termination
  by (relation "measure length") (auto dest: after_braces_shorter)

declare code_end.simps [simp del]

lemma first_some_member: "first_some f xs = Some y \<Longrightarrow> \<exists>x \<in> set xs. f x = Some y"
  by (induction xs) (auto split: option.splits)

lemma code_end_shorter: "code_end s = Some rest \<Longrightarrow> length rest < length s"
proof (induction s arbitrary: rest rule: code_end.induct)
  case (1 s)
  let ?close = "\<lambda>rest. case rest of d # r \<Rightarrow> if d = CHR ''}'' then Some r else code_end rest | [] \<Rightarrow> None"
  obtain c cs where s: "s = c # cs" using "1.prems" by (cases s) (auto simp: code_end.simps)
  have near: "length rest < length s" if "?close x = Some rest" "length x < length s" "c = CHR ''{''" "x \<in> set (after_braces cs)" for x
  proof (cases x)
    case (Cons d r)
    with that "1.IH"(1)[OF s that(3,4) Cons] show ?thesis by (auto split: if_splits)
  qed (use that in simp)
  have last: "length rest < length s"
    if "(case cs of d # r \<Rightarrow> if d = CHR ''}'' then Some r else code_end cs | [] \<Rightarrow> None) = Some rest" "c \<noteq> CHR ''\<newline>''"
      "(if c = CHR ''{'' then first_some ?close (after_braces cs) else None) = None"
  proof (cases cs)
    case (Cons d r)
    with that "1.IH"(2)[OF s that(3,2) Cons] s show ?thesis by (auto split: if_splits)
  qed (use that in simp)
  show ?case
  proof (cases "if c = CHR ''{'' then first_some ?close (after_braces cs) else None")
    case None
    with "1.prems" s last show ?thesis by (simp add: code_end.simps[of "c # cs"] split: if_splits)
  next
    case (Some r)
    then have c: "c = CHR ''{''" "first_some ?close (after_braces cs) = Some r" by (simp_all split: if_splits)
    have "r = rest" using "1.prems" Some unfolding s by (simp add: code_end.simps[of "c # cs"])
    from first_some_member[OF c(2)] obtain x where x: "x \<in> set (after_braces cs)" "?close x = Some rest" using \<open>r = rest\<close> by blast
    from near[OF x(2) _ c(1) x(1)] after_braces_shorter[OF x(1)] s show ?thesis by simp
  qed
qed

function code_pieces :: "string \<Rightarrow> piece list" where
  "code_pieces s =
     (case (if startswith s ''${@'' then code_end (drop 3 s) else None) of
        Some rest \<Rightarrow> Code (take (length s - length rest - 4) (drop 3 s)) # code_pieces rest
      | None \<Rightarrow> (case s of [] \<Rightarrow> [] | c # cs \<Rightarrow> Plain c # code_pieces cs))"
  by pat_completeness auto
termination
  by (relation "measure length") (fastforce dest: code_end_shorter split: if_splits)+

declare code_pieces.simps [simp del]

definition has_ref :: "string \<Rightarrow> bool" where
  "has_ref s \<longleftrightarrow> list_ex (\<lambda>p. case p of Ref k \<Rightarrow> True | _ \<Rightarrow> False) (var_pieces s)"

section \<open>Expansion\<close>

text \<open>The arguments of \<open>getVarFlag\<close> are the variable, the flag, \<open>expand\<close>, \<open>noweakdefault\<close>, \<open>parsing\<close> and
  \<open>retparser\<close>.\<close>

type_synonym reader = "string \<Rightarrow> string \<Rightarrow> bool \<Rightarrow> bool \<Rightarrow> bool \<Rightarrow> bool \<Rightarrow> (dstore, dvalue \<times> parse option) act"

text \<open>Inline Python: compiling and parsing it gives the names it refers to, evaluating it a text.\<close>

record python =
  py_compile :: "string \<Rightarrow> string \<Rightarrow> (string list \<times> string list) res"
  py_eval :: "string \<Rightarrow> (dstore, string) act"

text \<open>\<open>python_sub\<close> of a code without references: the names are kept also when the rest fails. With a
  variable its flag \<open>vardeps\<close> is read.\<close>

definition run_python :: "reader \<Rightarrow> python \<Rightarrow> string \<Rightarrow> string \<Rightarrow> string list \<times> string list \<Rightarrow> (dstore, string \<times> string list \<times> string list) act" where
  "run_python get py varname code = (\<lambda>(refs, conts).
     act_bind (act_lift (py_compile py varname code)) (\<lambda>(rs, cs).
     act_then (if varname = [] then act_return () else act_bind (get varname ''vardeps'' True False False False) (\<lambda>_. act_return ()))
    (act_bind (py_eval py code) (\<lambda>t. act_return (t, set_union refs rs, set_union conts cs)))))"


definition get_content :: "reader \<Rightarrow> string \<Rightarrow> bool \<Rightarrow> (dstore, dvalue) act" where
  "get_content get var expand = act_bind (get var ''_content'' expand False False False) (\<lambda>(v, p). act_return v)"

definition var_sub :: "reader \<Rightarrow> string \<Rightarrow> string \<Rightarrow> (dstore, string) act" where
  "var_sub get varname key =
     (if varname \<noteq> [] \<and> varname = key then act_raise (SelfReference key)
      else act_bind (get_content get key True) (\<lambda>v. case v of
        NoneV \<Rightarrow> act_return (''${'' @ key @ ''}'')
      | Text t \<Rightarrow> act_return t
      | _ \<Rightarrow> act_raise TypeError))"

definition sub_piece :: "reader \<Rightarrow> string \<Rightarrow> piece \<Rightarrow> (dstore, string) act" where
  "sub_piece get varname p = (case p of Plain c \<Rightarrow> act_return [c] | Ref key \<Rightarrow> var_sub get varname key | Code code \<Rightarrow> act_return code)"

definition sub_vars :: "reader \<Rightarrow> string \<Rightarrow> string \<Rightarrow> (dstore, string) act" where
  "sub_vars get varname s = act_bind (act_map (sub_piece get varname) (var_pieces s)) (\<lambda>ts. act_return (List.concat ts))"

definition refs_of :: "string \<Rightarrow> string list" where
  "refs_of s = List.concat (List.map (\<lambda>p. case p of Ref k \<Rightarrow> [k] | _ \<Rightarrow> []) (var_pieces s))"

text \<open>The substitution of inline Python; a text that ends within a string literal stays (\<open>None\<close>).\<close>

fun sub_code ::
  "reader \<Rightarrow> python \<Rightarrow> string \<Rightarrow> piece list \<Rightarrow> string \<times> string list \<times> string list \<Rightarrow> (dstore, string option \<times> string list \<times> string list) act" where
  "sub_code get py varname [] (out, refs, conts) = act_return (Some out, refs, conts)"
| "sub_code get py varname (p # ps) (out, refs, conts) =
     (case p of
        Plain c \<Rightarrow> sub_code get py varname ps (out @ [c], refs, conts)
      | Ref key \<Rightarrow> sub_code get py varname ps (out, refs, conts)
      | Code code \<Rightarrow>
          if has_ref code then sub_code get py varname ps (out @ ''${@'' @ code @ ''}'', refs, conts)
          else act_bind (act_catch (act_bind (run_python get py varname code (refs, conts)) (\<lambda>r. act_return (Some r)))
              (\<lambda>e. if e = SyntaxError True then act_return None else act_raise e)) (\<lambda>r. case r of
            None \<Rightarrow> act_return (None, refs, conts)
          | Some (t, refs, conts) \<Rightarrow> sub_code get py varname ps (out @ t, refs, conts)))"

text \<open>How an exception leaves \<open>expandWithRefs\<close>\<close>

definition expansion_error :: "string \<Rightarrow> string \<Rightarrow> exn \<Rightarrow> exn" where
  "expansion_error varname s e = (case e of
       ExpansionError vs \<Rightarrow> ExpansionError (if varname \<noteq> [] then vs @ [varname] else vs)
     | SkipRecipe reason \<Rightarrow> e | BBHandledException \<Rightarrow> e | SystemExit \<Rightarrow> e | OutOfFuel \<Rightarrow> e
     | _ \<Rightarrow> ExpansionError [if varname \<noteq> [] then varname else s])"

definition expanding :: "string \<Rightarrow> string \<Rightarrow> (dstore, 'a) act \<Rightarrow> (dstore, 'a) act" where
  "expanding varname s m = act_catch m (\<lambda>e. act_raise (expansion_error varname s e))"

fun expand_rounds ::
  "reader \<Rightarrow> python \<Rightarrow> string \<Rightarrow> nat \<Rightarrow> string \<times> string list \<times> string list \<Rightarrow> (dstore, string \<times> string list \<times> string list) act" where
  "expand_rounds get py varname 0 (s, refs, conts) = act_raise OutOfFuel"
| "expand_rounds get py varname (Suc k) (s, refs, conts) =
     (if \<not> contains s ''${'' then act_return (s, refs, conts)
      else act_bind (expanding varname s (sub_vars get varname s)) (\<lambda>t.
           act_bind (expanding varname t (sub_code get py varname (code_pieces t) ([], set_union refs (refs_of s), conts))) (\<lambda>(out, refs, conts).
           let s' = (case out of None \<Rightarrow> t | Some u \<Rightarrow> u)
           in if s' = s then act_return (s', refs, conts) else expand_rounds get py varname k (s', refs, conts))))"

definition expandWithRefs :: "reader \<Rightarrow> python \<Rightarrow> nat \<Rightarrow> dvalue \<Rightarrow> string \<Rightarrow> (dstore, parse) act" where
  "expandWithRefs get py k v varname = (case v of
       Text s \<Rightarrow> act_bind (expand_rounds get py varname k (s, [], [])) (\<lambda>(t, refs, conts).
         act_return \<lparr>vp_value = Text t, vp_unexpanded = v, vp_references = refs, vp_contains = conts, vp_removes = None\<rparr>)
     | _ \<Rightarrow> act_return \<lparr>vp_value = v, vp_unexpanded = v, vp_references = [], vp_contains = [], vp_removes = None\<rparr>)"

section \<open>Overrides\<close>

definition overrides_in :: "dvalue \<Rightarrow> string list res" where
  "overrides_in v = (case v of
       Text t \<Rightarrow> Inr (split_on CHR '':'' t)
     | _ \<Rightarrow> if truthy_value v then Inl AttributeError else Inr [[]])"

definition read_overrides :: "reader \<Rightarrow> (dstore, string list) act" where
  "read_overrides get = act_bind (get_content get ''OVERRIDES'' True) (\<lambda>v. act_lift (overrides_in v))"

fun overrides_loop :: "reader \<Rightarrow> nat \<Rightarrow> (dstore, unit) act" where
  "overrides_loop get 0 = act_raise BBHandledException"
| "overrides_loop get (Suc count) =
     act_then (act_modify (\<lambda>s. s\<lparr>ds_inoverride := True, ds_overrides := Some [], ds_overridesset := []\<rparr>))
    (act_bind (read_overrides get) (\<lambda>os.
     act_then (act_modify (\<lambda>s. s\<lparr>ds_overrides := Some os, ds_overridesset := os, ds_inoverride := False, ds_cache := []\<rparr>))
    (act_bind (read_overrides get) (\<lambda>new.
     act_bind (act_gets (\<lambda>s. ds_overrides s = Some new)) (\<lambda>stable.
     if stable then act_return ()
     else act_then (act_modify (\<lambda>s. s\<lparr>ds_overrides := Some new, ds_overridesset := new\<rparr>)) (overrides_loop get count))))))"

definition need_overrides :: "reader \<Rightarrow> (dstore, unit) act" where
  "need_overrides get =
     act_bind (act_gets (\<lambda>s. ds_overrides s \<noteq> None \<or> ds_inoverride s)) (\<lambda>settled. if settled then act_return () else overrides_loop get 5)"

definition override_active :: "string list \<Rightarrow> string \<Rightarrow> bool" where
  "override_active oset o' \<longleftrightarrow> o' \<in> set oset \<or> (CHR '':'' \<in> set o' \<and> set (split_on CHR '':'' o') \<subseteq> set oset)"

definition active_overrides :: "string list \<Rightarrow> (string \<times> string) list \<Rightarrow> (string, string) dict" where
  "active_overrides oset od = fold (\<lambda>(r, o') active. if override_active oset o' then AList.update o' r active else active) od []"

text \<open>One pass over the active overrides for one name of \<open>OVERRIDES\<close>: the state is \<open>active\<close>, \<open>match\<close> and \<open>mod\<close>.\<close>

definition override_key :: "string \<Rightarrow> string \<Rightarrow> (string, string) dict \<times> string \<times> bool \<Rightarrow> (string, string) dict \<times> string \<times> bool" where
  "override_key o' a = (\<lambda>(active, match, modified).
     case map_of active a of
       None \<Rightarrow> (active, match, modified)
     | Some t \<Rightarrow>
         if endswith a ('':'' @ o') then (AList.update (remove_sub ('':'' @ o') a) t (AList.delete a active), match, True)
         else if a = o' then (AList.delete a active, t, modified)
         else (active, match, modified))"

definition override_pass :: "string \<Rightarrow> (string, string) dict \<times> string \<times> bool \<Rightarrow> (string, string) dict \<times> string \<times> bool" where
  "override_pass o' = (\<lambda>(active, match, modified). fold (override_key o') (dict_keys active) (active, match, modified))"

fun override_rounds :: "nat \<Rightarrow> string list \<Rightarrow> (string, string) dict \<Rightarrow> string \<Rightarrow> string res" where
  "override_rounds 0 overrides active match = Inl OutOfFuel"
| "override_rounds (Suc k) overrides active match =
     (case fold override_pass overrides (active, match, False) of (active, match, modified) \<Rightarrow>
        if modified then override_rounds k overrides active match else Inr match)"

definition resolve_override :: "string list \<Rightarrow> (string, string) dict \<Rightarrow> string res" where
  "resolve_override overrides active = override_rounds (Suc (sum_list (List.map length (dict_keys active)))) overrides active []"

section \<open>Reading a variable\<close>

definition op_applies :: "string list option \<Rightarrow> string option \<Rightarrow> bool res" where
  "op_applies overrides o' = (case o' of
       None \<Rightarrow> Inr True
     | Some t \<Rightarrow> if t = [] then Inr True
                 else case overrides of None \<Rightarrow> Inl TypeError | Some os \<Rightarrow> Inr (set (split_on CHR '':'' t) \<subseteq> set os))"

definition applied_ops :: "string list option \<Rightarrow> (dvalue \<times> string option) list \<Rightarrow> dvalue list res" where
  "applied_ops overrides ops = res_bind (res_map (\<lambda>(r, o'). res_bind (op_applies overrides o') (\<lambda>b. Inr (b, r))) ops)
     (\<lambda>l. Inr (List.map snd (filter fst l)))"

text \<open>\<open>value + r\<close> and \<open>r + value\<close>, with an empty text for no value\<close>

definition add_text :: "bool \<Rightarrow> dvalue \<Rightarrow> dvalue \<Rightarrow> dvalue res" where
  "add_text before r v = (case (r, if v = NoneV then Text [] else v) of
       (Text r, Text t) \<Rightarrow> Inr (Text (if before then r @ t else t @ r))
     | _ \<Rightarrow> Inl TypeError)"

text \<open>The local value of a flag, or its weak default\<close>

definition stored_flag :: "flags option \<Rightarrow> string \<Rightarrow> bool \<Rightarrow> dvalue" where
  "stored_flag local flag noweak = (case local of
       None \<Rightarrow> NoneV
     | Some f \<Rightarrow> (case map_of f flag of
         Some v \<Rightarrow> v
       | None \<Rightarrow>
           if flag = ''_content'' \<and> has_key f ''_defaultval'' \<and> \<not> noweak then get_or (map_of f ''_defaultval'') NoneV
           else if has_key f (''_defaultval_flag_'' @ flag) \<and> \<not> noweak then get_or (map_of f (''_defaultval_flag_'' @ flag)) NoneV
           else NoneV))"

definition local_op :: "flags option \<Rightarrow> string \<Rightarrow> (dvalue \<times> string option) list option" where
  "local_op local keyword = (case local of None \<Rightarrow> None | Some f \<Rightarrow> map_option ops_of (map_of f keyword))"

text \<open>The value of the variable whose override applies, with what is to be removed from it, and its name\<close>

definition overriding :: "reader \<Rightarrow> string \<Rightarrow> (dstore, dvalue \<times> dvalue list \<times> string) act" where
  "overriding get var =
     act_bind (act_gets (\<lambda>s. map_of (ds_overridedata s) var)) (\<lambda>found. case found of
       None \<Rightarrow> act_return (NoneV, [], [])
     | Some od \<Rightarrow>
         act_then (need_overrides get)
        (act_bind (act_gets (\<lambda>s. (ds_overrides s, active_overrides (ds_overridesset s) od))) (\<lambda>(os, active).
         act_bind (act_lift (case os of None \<Rightarrow> Inl TypeError | Some os \<Rightarrow> resolve_override os active)) (\<lambda>match.
         if match = [] then act_return (NoneV, [], [])
         else act_bind (get match ''_content'' False False False True) (\<lambda>(v, sub).
              act_return (v, (case sub of None \<Rightarrow> [] | Some p \<Rightarrow> get_or (vp_removes p) []), match))))))"

definition apply_op :: "reader \<Rightarrow> flags option \<Rightarrow> string \<Rightarrow> bool \<Rightarrow> dvalue \<Rightarrow> (dstore, dvalue) act" where
  "apply_op get local keyword before v = (case local_op local keyword of
       None \<Rightarrow> act_return v
     | Some ops \<Rightarrow>
         act_then (need_overrides get)
        (act_bind (act_gets ds_overrides) (\<lambda>os.
         act_lift (res_bind (applied_ops os ops) (\<lambda>l. res_fold (add_text before) l v)))))"

text \<open>The names \<open>:remove\<close> takes away. The set is that of the overriding variable, so what is added is seen there.\<close>

definition add_removes :: "dvalue list \<Rightarrow> parse \<Rightarrow> parse" where
  "add_removes added p = p\<lparr>vp_removes := map_option (\<lambda>l. set_union l added) (vp_removes p)\<rparr>"

definition collect_removes :: "reader \<Rightarrow> flags option \<Rightarrow> string \<Rightarrow> dvalue list \<Rightarrow> (dstore, dvalue list) act" where
  "collect_removes get local match removes = (case local_op local '':remove'' of
       None \<Rightarrow> act_return removes
     | Some ops \<Rightarrow>
         act_then (need_overrides get)
        (act_bind (act_gets ds_overrides) (\<lambda>os.
         act_bind (act_lift (applied_ops os ops)) (\<lambda>added.
         act_then (act_when (match \<noteq> []) (act_modify (\<lambda>s. s\<lparr>ds_cache := AList.map_entry match (add_removes added) (ds_cache s)\<rparr>)))
           (act_return (set_union removes added))))))"

text \<open>\<open>re.split(r'(\s)', s)\<close> without its empty strings\<close>

fun ws_tokens :: "string \<Rightarrow> string \<Rightarrow> string list" where
  "ws_tokens word [] = (if word = [] then [] else [word])"
| "ws_tokens word (c # cs) =
     (if py_space c then (if word = [] then [] else [word]) @ [c] # ws_tokens [] cs else ws_tokens (word @ [c]) cs)"

definition remove_words :: "reader \<Rightarrow> python \<Rightarrow> nat \<Rightarrow> dvalue list \<Rightarrow> parse \<Rightarrow> (dstore, parse) act" where
  "remove_words get py k removes p =
     act_bind (act_map (\<lambda>r. act_bind (expandWithRefs get py k r []) (\<lambda>q. case vp_value q of
          Text t \<Rightarrow> act_return (r, split_ws t)
        | _ \<Rightarrow> act_raise AttributeError)) removes) (\<lambda>expanded. case vp_value p of
         Text t \<Rightarrow> act_return (p\<lparr>vp_value := Text (List.concat (filter (\<lambda>v. \<not> list_ex (\<lambda>(r, ws). v \<in> set ws) expanded) (ws_tokens [] t))),
             vp_removes := Some (List.map fst (filter (\<lambda>(r, ws). list_ex (\<lambda>v. v \<in> set ws) (ws_tokens [] t)) expanded))\<rparr>)
       | _ \<Rightarrow> act_raise TypeError)"

definition get_body :: "python \<Rightarrow> nat \<Rightarrow> reader \<Rightarrow> reader" where
  "get_body py k get var flag expand noweak parsing retparser =
     (let content = (flag = ''_content''); cachename = (if content then var else var @ ''['' @ flag @ '']'')
      in if flag = [] then act_return (NoneV, None)
         else act_bind (act_gets (\<lambda>s. map_of (ds_cache s) cachename)) (\<lambda>cached.
         case (if expand \<or> retparser then cached else None) of
           Some p \<Rightarrow> act_return (if expand then vp_value p else vp_unexpanded p, Some p)
         | None \<Rightarrow>
         act_bind (act_gets (\<lambda>s. find_var (ds_layers s) var)) (\<lambda>local.
         act_bind (if content \<and> \<not> parsing then overriding get var else act_return (NoneV, [], [])) (\<lambda>(v, removes, match).
         let v = (if v = NoneV then stored_flag local flag noweak else v)
         in act_bind (if content \<and> \<not> parsing then apply_op get local '':append'' False v else act_return v) (\<lambda>v.
            act_bind (if content \<and> \<not> parsing then apply_op get local '':prepend'' True v else act_return v) (\<lambda>v.
            if \<not> expand \<and> \<not> retparser then
              act_then (if truthy_value v \<and> content \<and> \<not> parsing then act_then (collect_removes get local match removes) (act_return ()) else act_return ())
                (act_return (v, None))
            else act_bind (expandWithRefs get py k v cachename) (\<lambda>p.
                 let shown = (if expand then vp_value p else v)
                 in act_bind (if truthy_value shown \<and> content \<and> \<not> parsing then collect_removes get local match removes else act_return removes) (\<lambda>removes.
                    act_bind (if truthy_value shown \<and> content \<and> \<not> parsing \<and> removes \<noteq> [] then remove_words get py k removes p else act_return p) (\<lambda>q.
                    act_then (act_modify (\<lambda>s. s\<lparr>ds_cache := AList.update cachename q (ds_cache s)\<rparr>))
                      (act_return (if expand then vp_value q else v, Some q)))))))))))"

primrec get_var_flag :: "python \<Rightarrow> nat \<Rightarrow> reader" where
  "get_var_flag py 0 = (\<lambda>var flag expand noweak parsing retparser. act_raise OutOfFuel)"
| "get_var_flag py (Suc n) = get_body py n (get_var_flag py n)"

definition getVarFlag :: "python \<Rightarrow> nat \<Rightarrow> string \<Rightarrow> string \<Rightarrow> bool \<Rightarrow> (dstore, dvalue) act" where
  "getVarFlag py n var flag expand = act_bind (get_var_flag py n var flag expand False False False) (\<lambda>(v, p). act_return v)"

definition getVar :: "python \<Rightarrow> nat \<Rightarrow> string \<Rightarrow> bool \<Rightarrow> (dstore, dvalue) act" where
  "getVar py n var expand = getVarFlag py n var ''_content'' expand"

definition expand_text :: "python \<Rightarrow> nat \<Rightarrow> string \<Rightarrow> (dstore, string) act" where
  "expand_text py n t = act_bind (expandWithRefs (get_var_flag py n) py n (Text t) []) (\<lambda>p.
     act_return (case vp_value p of Text u \<Rightarrow> u | _ \<Rightarrow> []))"

section \<open>The names of overrides in a name\<close>

definition override_start :: "string \<Rightarrow> bool" where
  "override_start t \<longleftrightarrow> (case t of [] \<Rightarrow> False | c # cs \<Rightarrow> is_digit c \<or> (let n = (of_char c :: nat) in 97 \<le> n \<and> n \<le> 122))"

text \<open>\<open>var[:var.rfind(':')]\<close> and \<open>var[var.rfind(':')+1:]\<close>, which for a name without a colon are the name
  less its last character and the whole name\<close>

definition colon_split :: "string \<Rightarrow> string \<times> string" where
  "colon_split var = (if CHR '':'' \<in> set var
     then (take (length var - length (after_last CHR '':'' var) - 1) var, after_last CHR '':'' var) else (butlast var, var))"

text \<open>The pairs of a shorter name and an override that the loops of \<open>_setvar_update_overrides\<close> and
  \<open>delVar\<close> visit\<close>

function override_steps :: "string \<Rightarrow> string \<Rightarrow> string \<Rightarrow> (string \<times> string) list" where
  "override_steps var shortvar override =
     (if \<not> override_start override then []
      else (shortvar, override) #
        (if CHR '':'' \<in> set shortvar \<and> fst (colon_split shortvar) \<noteq> []
         then override_steps var (fst (colon_split shortvar)) (drop (length (fst (colon_split shortvar)) + 1) var) else []))"
  by pat_completeness auto
termination
  by (relation "measure (\<lambda>(var, shortvar, override). length shortvar)") (auto simp: colon_split_def)

declare override_steps.simps [simp del]

definition steps_of :: "string \<Rightarrow> (string \<times> string) list" where
  "steps_of var = (case colon_split var of (shortvar, override) \<Rightarrow> override_steps var shortvar override)"

definition add_override :: "string \<Rightarrow> string \<times> string \<Rightarrow> (string, (string \<times> string) list) dict \<Rightarrow> (string, (string \<times> string) list) dict" where
  "add_override var = (\<lambda>(shortvar, override) od. AList.update shortvar (set_add (var, override) (dict_list od shortvar)) od)"

definition setvar_update_overrides :: "string \<Rightarrow> (dstore, unit) act" where
  "setvar_update_overrides var = act_modify (\<lambda>s. s\<lparr>ds_overridedata := fold (add_override var) (steps_of var) (ds_overridedata s)\<rparr>)"

definition drop_override :: "string \<Rightarrow> string \<times> string \<Rightarrow> (string, (string \<times> string) list) dict \<Rightarrow> (string, (string \<times> string) list) dict" where
  "drop_override var = (\<lambda>(shortvar, override). AList.map_entry shortvar (remove1 (var, override)))"

definition delVar :: "string \<Rightarrow> (dstore, unit) act" where
  "delVar var = act_modify (\<lambda>s.
     let s = set_flags var [] (clear_cache s); od = AList.delete var (ds_overridedata s)
     in s\<lparr>ds_overridedata := (if CHR '':'' \<in> set var then fold (drop_override var) (steps_of var) od else od)\<rparr>)"

section \<open>Writing a variable\<close>

text \<open>The operator at the end of a name: \<open>(.*?)(:append|:prepend|:remove)(:[^A-Z]*)?$\<close>, where the end may be before a last
  line end\<close>

definition upper :: "char \<Rightarrow> bool" where
  "upper c \<longleftrightarrow> (let n = (of_char c :: nat) in 65 \<le> n \<and> n \<le> 90)"

definition keyword_here :: "string \<Rightarrow> string \<Rightarrow> (string \<times> string option) option" where
  "keyword_here keyword s =
     (if \<not> startswith s keyword then None
      else case drop (length keyword) s of
        [] \<Rightarrow> Some (keyword, None)
      | c # cs \<Rightarrow> if c = CHR '':'' \<and> \<not> list_ex upper cs then Some (keyword, Some cs)
                  else if c = CHR ''\<newline>'' \<and> cs = [] then Some (keyword, None) else None)"

fun keyword_match :: "string \<Rightarrow> string \<Rightarrow> (string \<times> string \<times> string option) option" where
  "keyword_match base [] = None"
| "keyword_match base (c # cs) =
     (case first_some (\<lambda>k. keyword_here k (c # cs)) ['':append'', '':prepend'', '':remove''] of
        Some (keyword, add) \<Rightarrow> Some (base, keyword, add)
      | None \<Rightarrow> if c = CHR ''\<newline>'' then None else keyword_match (base @ [c]) cs)"

definition old_syntax :: "string \<Rightarrow> bool" where
  "old_syntax var \<longleftrightarrow> \<not> startswith var ''__anon_'' \<and> (contains var ''_append'' \<or> contains var ''_prepend'' \<or> contains var ''_remove'')"

fun new_overridevars :: "python \<Rightarrow> nat \<Rightarrow> nat \<Rightarrow> string list \<Rightarrow> (dstore, unit) act" where
  "new_overridevars py n 0 new = act_raise OutOfFuel"
| "new_overridevars py n (Suc k) new =
     act_bind (act_gets (\<lambda>s. set new \<subseteq> set (ds_overridevars s))) (\<lambda>known.
     if known then act_return ()
     else act_then (act_modify (\<lambda>s. s\<lparr>ds_overridevars := set_union (ds_overridevars s) new\<rparr>))
         (act_bind (act_map (\<lambda>i. act_bind (getVar py n i True) (\<lambda>v.
             act_bind (expandWithRefs (get_var_flag py n) py n v i) (\<lambda>p. act_return (vp_references p @ vp_contains p)))) new) (\<lambda>found.
          new_overridevars py n k (set_union [] (List.concat found)))))"

definition setvar_update_overridevars :: "python \<Rightarrow> nat \<Rightarrow> string \<Rightarrow> dvalue \<Rightarrow> (dstore, unit) act" where
  "setvar_update_overridevars py n var value =
     act_bind (expandWithRefs (get_var_flag py n) py n value var) (\<lambda>p.
     act_then (new_overridevars py n n (set_union (vp_references p) (vp_contains p)))
       (act_modify (\<lambda>s. s\<lparr>ds_overrides := None, ds_cache := []\<rparr>)))"

definition if_overridevar :: "python \<Rightarrow> nat \<Rightarrow> string \<Rightarrow> string \<Rightarrow> dvalue \<Rightarrow> (dstore, unit) act" where
  "if_overridevar py n base var value =
     act_bind (act_gets (\<lambda>s. base \<in> set (ds_overridevars s))) (\<lambda>b. act_when b (setvar_update_overridevars py n var value))"

definition put_flag :: "string \<Rightarrow> string \<Rightarrow> dvalue \<Rightarrow> dstore \<Rightarrow> dstore" where
  "put_flag var flag value s = (let s = make_shadow_copy var s in set_flags var (AList.update flag value (local_flags s var)) s)"

text \<open>The overrides of a variable that apply are deleted when it is set again.\<close>

definition without_operators :: "flags \<Rightarrow> flags" where
  "without_operators f = AList.delete '':remove'' (AList.delete '':prepend'' (AList.delete '':append'' f))"

definition drop_operators :: "python \<Rightarrow> nat \<Rightarrow> string \<Rightarrow> (dstore, unit) act" where
  "drop_operators py n var =
     act_then (act_modify (\<lambda>s. set_flags var (without_operators (local_flags s var)) s))
    (act_bind (act_gets (\<lambda>s. has_key (ds_overridedata s) var)) (\<lambda>found.
     act_when found (act_then (need_overrides (get_var_flag py n))
       (act_bind (act_read (\<lambda>s. dict_get (ds_overridedata s) var)) (\<lambda>od.
        act_bind (act_gets (\<lambda>s. List.map fst (filter (\<lambda>(r, o'). override_active (ds_overridesset s) o') od))) (\<lambda>active.
        act_then (act_for active delVar)
       (act_bind (act_read (\<lambda>s. dict_get (ds_overridedata s) var)) (\<lambda>_.
          act_modify (\<lambda>s. s\<lparr>ds_overridedata := AList.delete var (ds_overridedata s)\<rparr>)))))))))"

text \<open>\<open>setVar\<close> of a name without an operator\<close>

definition set_plain :: "python \<Rightarrow> nat \<Rightarrow> string \<Rightarrow> dvalue \<Rightarrow> bool \<Rightarrow> (dstore, unit) act" where
  "set_plain py n var value parsing =
     act_then (act_modify (\<lambda>s. make_shadow_copy var (clear_cache s)))
    (act_then (act_when (\<not> parsing) (drop_operators py n var))
    (act_then (act_when (CHR '':'' \<in> set var) (setvar_update_overrides var))
    (act_then (act_modify (\<lambda>s. set_flags var (AList.update ''_content'' value (local_flags s var)) s))
      (if_overridevar py n var var value))))"

text \<open>A renamed variable is reported, with the new name or a text that has spaces, and
  \<open>_FAILPARSINGERRORHANDLED\<close> is set. If that name is renamed too, setting it does not end.\<close>

definition renamed_mark :: string where "renamed_mark = ''_FAILPARSINGERRORHANDLED''"

definition note_renamed :: "python \<Rightarrow> nat \<Rightarrow> string \<Rightarrow> (dstore, unit) act" where
  "note_renamed py n var = act_bind (act_gets ds_renames) (\<lambda>renames. case map_of renames var of
       None \<Rightarrow> act_return ()
     | Some v \<Rightarrow>
         if (case v of NoneV \<Rightarrow> True | Truth b \<Rightarrow> True | Num i \<Rightarrow> True | _ \<Rightarrow> False) then act_raise TypeError
         else if has_key renames renamed_mark then act_raise OutOfFuel
         else set_plain py n renamed_mark (Truth True) False)"

text \<open>The list of exported variables is one set, which a shadow copy shares with the layers it was copied
  from: a name is added to it in all of them.\<close>

definition add_to_exports :: "string \<Rightarrow> dstore \<Rightarrow> dstore" where
  "add_to_exports var s =
     (let s = make_shadow_copy ''__exportlist'' s
      in if has_key (local_flags s ''__exportlist'') ''_content'' then
           s\<lparr>ds_layers := List.map (AList.map_entry ''__exportlist'' (AList.map_entry ''_content''
             (\<lambda>v. case v of Names l \<Rightarrow> Names (set_add var l) | _ \<Rightarrow> v))) (ds_layers s)\<rparr>
         else put_flag ''__exportlist'' ''_content'' (Names [var]) s)"

definition setVarFlag :: "python \<Rightarrow> nat \<Rightarrow> string \<Rightarrow> string \<Rightarrow> dvalue \<Rightarrow> (dstore, unit) act" where
  "setVarFlag py n var flag value =
     act_then (act_modify (\<lambda>s. let s = clear_cache s
       in if var = ''BB_RENAMED_VARIABLES'' then s\<lparr>ds_renames := AList.update flag value (ds_renames s)\<rparr> else s))
    (act_then (note_renamed py n var)
    (act_then (act_modify (put_flag var flag value))
    (act_then (act_when (flag = ''_defaultval'' \<and> CHR '':'' \<in> set var) (setvar_update_overrides var))
    (act_then (if flag = ''_defaultval'' then if_overridevar py n var var value else act_return ())
      (act_when (flag = ''unexport'' \<or> flag = ''export'') (act_modify (add_to_exports var)))))))"

definition setVar :: "python \<Rightarrow> nat \<Rightarrow> string \<Rightarrow> dvalue \<Rightarrow> bool \<Rightarrow> (dstore, unit) act" where
  "setVar py n var value parsing =
     (if old_syntax var then act_raise BBHandledException
      else act_then (note_renamed py n (fst (partition_at CHR '':'' var)))
      (case keyword_match [] var of
         None \<Rightarrow> set_plain py n var value parsing
       | Some (base, keyword, add) \<Rightarrow>
           act_then (act_modify clear_cache)
          (act_bind (getVarFlag py n base keyword False) (\<lambda>l.
           act_then (setVarFlag py n base keyword (Ops (ops_of l @ [(value, add)])))
          (act_then (setvar_update_overrides base)
            (if_overridevar py n base var value))))))"

definition appendVar :: "python \<Rightarrow> nat \<Rightarrow> string \<Rightarrow> string \<Rightarrow> (dstore, unit) act" where
  "appendVar py n var value = setVar py n (var @ '':append'') (Text value) True"

definition prependVar :: "python \<Rightarrow> nat \<Rightarrow> string \<Rightarrow> string \<Rightarrow> (dstore, unit) act" where
  "prependVar py n var value = setVar py n (var @ '':prepend'') (Text value) True"

section \<open>Flags\<close>

definition delVarFlag :: "string \<Rightarrow> string \<Rightarrow> (dstore, unit) act" where
  "delVarFlag var flag = act_modify (\<lambda>s. let s = clear_cache s in
     case find_var (ds_layers s) var of
       Some (f # fs) \<Rightarrow>
         (let s = make_shadow_copy var s; flags = local_flags s var
          in if has_key flags flag then set_flags var (AList.delete (''_defaultval_flag_'' @ flag) (AList.delete flag flags)) s else s)
     | _ \<Rightarrow> s)"

definition appendVarFlag :: "python \<Rightarrow> nat \<Rightarrow> string \<Rightarrow> string \<Rightarrow> string \<Rightarrow> (dstore, unit) act" where
  "appendVarFlag py n var flag value =
     act_bind (getVarFlag py n var flag False) (\<lambda>v.
     act_bind (act_lift (add_text False (Text value) (if truthy_value v then v else Text []))) (setVarFlag py n var flag))"

definition prependVarFlag :: "python \<Rightarrow> nat \<Rightarrow> string \<Rightarrow> string \<Rightarrow> string \<Rightarrow> (dstore, unit) act" where
  "prependVarFlag py n var flag value =
     act_bind (getVarFlag py n var flag False) (\<lambda>v.
     act_bind (act_lift (add_text True (Text value) (if truthy_value v then v else Text []))) (setVarFlag py n var flag))"

definition setVarFlags :: "string \<Rightarrow> flags \<Rightarrow> (dstore, unit) act" where
  "setVarFlags var flags = act_modify (\<lambda>s. let s = make_shadow_copy var (clear_cache s)
     in set_flags var (fold (\<lambda>(i, v) f. if i = ''_content'' then f else AList.update i v f) flags (local_flags s var)) s)"

text \<open>One entry of \<open>getVarFlags\<close>: the name it is entered under, if any\<close>

definition weak_prefix :: string where "weak_prefix = ''_defaultval_flag_''"

definition enter_flag :: "flags \<Rightarrow> bool \<Rightarrow> string \<times> dvalue \<Rightarrow> flags \<Rightarrow> (string \<times> flags) option" where
  "enter_flag local internal = (\<lambda>(i, v) flags.
     if startswith i weak_prefix \<and> \<not> internal then
       (let j = drop (length weak_prefix) i in Some (j, if has_key local j then flags else AList.update j v flags))
     else if (startswith i ''_'' \<or> startswith i '':'') \<and> \<not> internal then None
     else Some (i, AList.update i v flags))"

fun collect_flags :: "python \<Rightarrow> nat \<Rightarrow> string \<Rightarrow> string list \<Rightarrow> bool \<Rightarrow> flags \<Rightarrow> flags \<Rightarrow> flags \<Rightarrow> (dstore, flags) act" where
  "collect_flags py n var expand internal local [] flags = act_return flags"
| "collect_flags py n var expand internal local (e # es) flags =
     (case enter_flag local internal e flags of
        None \<Rightarrow> collect_flags py n var expand internal local es flags
      | Some (i, flags) \<Rightarrow>
          if i \<in> set expand then
            act_bind (act_lift (dict_get flags i)) (\<lambda>v.
            act_bind (expandWithRefs (get_var_flag py n) py n v (var @ ''['' @ i @ '']'')) (\<lambda>p.
            collect_flags py n var expand internal local es (AList.update i (vp_value p) flags)))
          else collect_flags py n var expand internal local es flags)"

definition getVarFlags :: "python \<Rightarrow> nat \<Rightarrow> string \<Rightarrow> string list \<Rightarrow> bool \<Rightarrow> (dstore, flags option) act" where
  "getVarFlags py n var expand internal =
     act_bind (act_gets (\<lambda>s. get_or (find_var (ds_layers s) var) [])) (\<lambda>local.
     act_bind (collect_flags py n var expand internal local local []) (\<lambda>flags.
     act_return (if flags = [] then None else Some flags)))"

definition delVarFlags :: "string \<Rightarrow> (dstore, unit) act" where
  "delVarFlags var = act_modify (\<lambda>s. let s = make_shadow_copy var (clear_cache s)
     in case map_of (local_flags s var) ''_content'' of
          Some v \<Rightarrow> set_flags var [(''_content'', v)] s
        | None \<Rightarrow> put_local (AList.delete var (local_dict s)) s)"

section \<open>Renaming and iteration\<close>

text \<open>\<open>s.replace(old, new)\<close>\<close>

function replace_sub :: "string \<Rightarrow> string \<Rightarrow> string \<Rightarrow> string" where
  "replace_sub old new s =
     (if old = [] then new @ List.concat (List.map (\<lambda>c. c # new) s)
      else case s of [] \<Rightarrow> []
      | c # cs \<Rightarrow> if startswith s old then new @ replace_sub old new (drop (length old) s) else c # replace_sub old new cs)"
  by pat_completeness auto
termination
  by (relation "measure (\<lambda>(old, new, s). length s)") auto

declare replace_sub.simps [simp del]

definition move_operators :: "python \<Rightarrow> nat \<Rightarrow> string \<Rightarrow> flags \<Rightarrow> (dstore, unit) act" where
  "move_operators py n newkey flags = act_for (filter (\<lambda>(i, v). i \<in> set ['':append'', '':prepend'', '':remove'']) flags) (\<lambda>(i, v).
     act_bind (getVarFlag py n newkey i False) (\<lambda>dest. setVarFlag py n newkey i (Ops (ops_of dest @ ops_of v))))"

fun renameVar :: "python \<Rightarrow> nat \<Rightarrow> nat \<Rightarrow> string \<Rightarrow> string \<Rightarrow> (dstore, unit) act" where
  "renameVar py n 0 key newkey = act_raise OutOfFuel"
| "renameVar py n (Suc k) key newkey =
     (if key = newkey then act_return ()
      else act_bind (get_var_flag py n key ''_content'' False False True False) (\<lambda>(val, p).
           act_then (act_when (val \<noteq> NoneV) (setVar py n newkey val True))
          (act_bind (getVarFlags py n key [] True) (\<lambda>flags.
           act_then (move_operators py n newkey (get_or flags []))
          (act_bind (act_gets (\<lambda>s. map_of (ds_overridedata s) key)) (\<lambda>od.
           act_then (case od of None \<Rightarrow> act_return ()
             | Some l \<Rightarrow> act_then (act_modify (\<lambda>s. s\<lparr>ds_overridedata := AList.update newkey [] (ds_overridedata s)\<rparr>))
                 (act_for l (\<lambda>(v, o'). act_bind (act_read (\<lambda>s. dict_get (ds_overridedata s) newkey)) (\<lambda>_.
                    act_then (act_modify (\<lambda>s. s\<lparr>ds_overridedata := dict_append newkey (replace_sub key newkey v, o') (ds_overridedata s)\<rparr>))
                      (renameVar py n k v (replace_sub key newkey v))))))
          (act_then (act_when (CHR '':'' \<in> set newkey \<and> val = NoneV) (setvar_update_overrides newkey))
             (delVar key))))))))"

text \<open>The keys of a datastore: a key whose nearest flags are empty is deleted.\<close>

fun keylist :: "string list \<Rightarrow> string list \<Rightarrow> (string, flags) dict list \<Rightarrow> string list" where
  "keylist overrides gone [] = []"
| "keylist overrides gone (d # ds) =
     (let live = filter (\<lambda>(k, f). k \<notin> set gone \<and> k \<notin> set overrides) d
      in set_union (List.map fst (filter (\<lambda>(k, f). f \<noteq> []) live))
           (keylist overrides (gone @ List.map fst (filter (\<lambda>(k, f). f = []) live)) ds))"

definition store_keys :: "python \<Rightarrow> nat \<Rightarrow> (dstore, string list) act" where
  "store_keys py n =
     act_then (need_overrides (get_var_flag py n)) (act_gets (\<lambda>s.
       let overrides = List.map fst (filter (\<lambda>(v, l). list_ex (\<lambda>(r, o'). override_active (ds_overridesset s) o') l) (ds_overridedata s))
       in keylist overrides [] (ds_layers s) @ overrides))"

definition expandVarref :: "python \<Rightarrow> nat \<Rightarrow> string \<Rightarrow> bool \<Rightarrow> (dstore, unit) act" where
  "expandVarref py n variable parents =
     act_bind (if parents then store_keys py n else act_gets (\<lambda>s. dict_keys (local_dict s))) (\<lambda>keys.
     act_bind (getVar py n variable False) (\<lambda>value.
     act_for keys (\<lambda>key. act_bind (getVar py n key False) (\<lambda>v. case v of
       Text t \<Rightarrow> if t \<noteq> [] \<and> contains t (''${'' @ variable @ ''}'')
                then (case value of Text u \<Rightarrow> setVar py n key (Text (replace_sub (''${'' @ variable @ ''}'') u t)) False | _ \<Rightarrow> act_raise TypeError)
                else act_return ()
     | _ \<Rightarrow> act_return ()))))"

text \<open>\<open>expandKeys\<close> of \<open>data.py\<close>\<close>

definition expandKeys :: "python \<Rightarrow> nat \<Rightarrow> (dstore, unit) act" where
  "expandKeys py n =
     act_bind (store_keys py n) (\<lambda>keys.
     act_bind (act_map (\<lambda>key. act_bind (expand_text py n key) (\<lambda>ekey. act_return (key, ekey))) (filter (\<lambda>k. contains k ''${'') keys)) (\<lambda>todo.
     act_for (sort (List.map fst (filter (\<lambda>(k, e). k \<noteq> e) todo))) (\<lambda>key.
       act_bind (act_lift (dict_get todo key)) (\<lambda>ekey.
       act_bind (getVar py n ekey False) (\<lambda>newval.
       act_then (if newval \<noteq> NoneV then act_bind (getVar py n key False) (\<lambda>_. act_return ()) else act_return ())
         (renameVar py n n key ekey))))))"

end
