(* ===== verification/Data_Facts.thy ===== *)
theory Data_Facts
  imports Data_Store
begin

text \<open>
  What the methods of the datastore keep: reading keeps the variables, and writing to a copy keeps what
  it was copied from. \<open>ds_write\<close> lists the methods that write.
\<close>

section \<open>What reading keeps\<close>

text \<open>What a reader keeps is kept by everything made of it: a predicate that does not look at the cache, and
  that inline Python and the computation of the overrides keep.\<close>

definition quietly_reads :: "(dstore \<Rightarrow> bool) \<Rightarrow> python \<Rightarrow> reader \<Rightarrow> bool" where
  "quietly_reads I py get \<longleftrightarrow>
     (\<forall>code. keeps I (py_eval py code)) \<and> (\<forall>var flag expand noweak parsing retparser. keeps I (get var flag expand noweak parsing retparser)) \<and>
     keeps I (need_overrides get) \<and> (\<forall>s c. I s \<longrightarrow> I (s\<lparr>ds_cache := c\<rparr>))"

lemma quiet_py: "quietly_reads I py get \<Longrightarrow> keeps I (py_eval py code)"
  and quiet_get: "quietly_reads I py get \<Longrightarrow> keeps I (get var flag expand noweak parsing retparser)"
  and quiet_needs: "quietly_reads I py get \<Longrightarrow> keeps I (need_overrides get)"
  and quiet_cache: "quietly_reads I py get \<Longrightarrow> I s \<Longrightarrow> I (s\<lparr>ds_cache := c\<rparr>)"
  unfolding quietly_reads_def by blast+

lemma get_content_quiet: "quietly_reads I py get \<Longrightarrow> keeps I (get_content get var expand)"
  unfolding get_content_def by (intro keeps_bind quiet_get[of I py get]) (auto intro: keeps_return)

lemma sub_vars_quiet: "quietly_reads I py get \<Longrightarrow> keeps I (sub_vars get varname s)"
  unfolding sub_vars_def sub_piece_def var_sub_def
  by (intro keeps_bind keeps_map keeps_return) (auto intro!: keeps_return keeps_raise keeps_bind get_content_quiet split: piece.split dvalue.split)

lemma run_python_quiet: "quietly_reads I py get \<Longrightarrow> keeps I (run_python get py varname code known)"
  unfolding run_python_def
  by (cases known) (auto intro!: keeps_return keeps_bind keeps_then keeps_lift quiet_py[of I py get] quiet_get[of I py get])

lemma sub_code_quiet: "quietly_reads I py get \<Longrightarrow> keeps I (sub_code get py varname ps (out, refs, conts))"
proof (induction ps arbitrary: out refs conts)
  case (Cons p ps)
  then show ?case
    by (auto intro!: keeps_return keeps_bind keeps_catch keeps_raise run_python_quiet split: piece.split option.split prod.split)
qed (simp add: keeps_return)

lemma expand_rounds_quiet: "quietly_reads I py get \<Longrightarrow> keeps I (expand_rounds get py varname k (s, refs, conts))"
proof (induction k arbitrary: s refs conts)
  case (Suc k)
  then show ?case
    by (auto intro!: keeps_return keeps_bind keeps_catch keeps_raise sub_vars_quiet sub_code_quiet simp: expanding_def Let_def)
qed (simp add: keeps_raise)

lemma expandWithRefs_quiet: "quietly_reads I py get \<Longrightarrow> keeps I (expandWithRefs get py k v varname)"
  unfolding expandWithRefs_def by (cases v) (auto intro!: keeps_return keeps_bind expand_rounds_quiet)

lemma read_overrides_quiet: "quietly_reads I py get \<Longrightarrow> keeps I (read_overrides get)"
  unfolding read_overrides_def by (intro keeps_bind keeps_lift get_content_quiet)

lemma overriding_quiet: "quietly_reads I py get \<Longrightarrow> keeps I (overriding get var)"
  unfolding overriding_def
  by (auto intro!: keeps_bind keeps_gets keeps_if keeps_return keeps_then keeps_lift quiet_needs[of I py get] quiet_get[of I py get] split: option.split prod.split)

lemma apply_op_quiet: "quietly_reads I py get \<Longrightarrow> keeps I (apply_op get local keyword before v)"
  unfolding apply_op_def by (auto intro!: keeps_bind keeps_gets keeps_return keeps_then keeps_lift quiet_needs[of I py get] split: option.split)

lemma collect_removes_quiet: "quietly_reads I py get \<Longrightarrow> keeps I (collect_removes get local match removes)"
  unfolding collect_removes_def
  by (auto intro!: keeps_bind keeps_gets keeps_return keeps_then keeps_lift keeps_when keeps_modify quiet_cache[of I py get] quiet_needs[of I py get]
      split: option.split)

lemma remove_words_quiet: "quietly_reads I py get \<Longrightarrow> keeps I (remove_words get py k removes p)"
  unfolding remove_words_def
  by (auto intro!: keeps_bind keeps_map keeps_return keeps_raise expandWithRefs_quiet split: dvalue.split)

lemma get_body_quiet: "quietly_reads I py get \<Longrightarrow> keeps I (get_body py k get var flag expand noweak parsing retparser)"
  unfolding get_body_def Let_def
  by (auto intro!: keeps_bind keeps_gets keeps_if keeps_return keeps_then keeps_modify quiet_cache[of I py get] overriding_quiet apply_op_quiet collect_removes_quiet
      remove_words_quiet expandWithRefs_quiet split: option.split prod.split)

lemma quietly_get_var_flag:
  assumes py: "\<And>code. keeps I (py_eval py code)" and cache: "\<And>s c. I s \<Longrightarrow> I (s\<lparr>ds_cache := c\<rparr>)"
    and needs: "\<And>get. keeps I (read_overrides get) \<Longrightarrow> keeps I (need_overrides get)"
  shows "quietly_reads I py (get_var_flag py n)"
proof (induction n)
  case 0
  have "keeps I (get_content (get_var_flag py 0) var expand)" for var expand
    unfolding get_content_def by (auto intro!: keeps_bind keeps_raise keeps_return)
  then have "keeps I (read_overrides (get_var_flag py 0))" unfolding read_overrides_def by (intro keeps_bind keeps_lift)
  from needs[OF this] show ?case by (simp add: quietly_reads_def py cache keeps_raise)
next
  case (Suc n)
  note body = get_body_quiet[OF Suc]
  have "keeps I (get_content (get_var_flag py (Suc n)) var expand)" for var expand
    unfolding get_content_def by (auto intro!: keeps_bind keeps_return body)
  then have "keeps I (read_overrides (get_var_flag py (Suc n)))" unfolding read_overrides_def by (intro keeps_bind keeps_lift)
  from needs[OF this] show ?case by (simp add: quietly_reads_def py cache body)
qed

section \<open>Reading leaves the variables alone\<close>

definition same_variables :: "dstore \<Rightarrow> dstore \<Rightarrow> bool" where
  "same_variables s t \<longleftrightarrow> ds_layers t = ds_layers s \<and> ds_overridedata t = ds_overridedata s \<and> ds_overridevars t = ds_overridevars s \<and>
     ds_renames t = ds_renames s"

definition quiet_python :: "python \<Rightarrow> bool" where
  "quiet_python py \<longleftrightarrow> (\<forall>code s. same_variables s (snd (py_eval py code s)))"

lemma same_variables_refl [simp]: "same_variables s s"
  by (simp add: same_variables_def)

lemma same_variables_trans: "same_variables s t \<Longrightarrow> same_variables t u \<Longrightarrow> same_variables s u"
  by (simp add: same_variables_def)

lemma same_variables_updates [simp]:
  "same_variables s (t\<lparr>ds_cache := c\<rparr>) = same_variables s t"
  "same_variables s (t\<lparr>ds_overrides := os\<rparr>) = same_variables s t"
  "same_variables s (t\<lparr>ds_overridesset := l\<rparr>) = same_variables s t"
  "same_variables s (t\<lparr>ds_inoverride := b\<rparr>) = same_variables s t"
  by (simp_all add: same_variables_def)


lemma overrides_loop_variables: "keeps (same_variables s0) (read_overrides get) \<Longrightarrow> keeps (same_variables s0) (overrides_loop get count)"
  by (induction count) (auto intro!: keeps_raise keeps_then keeps_bind keeps_gets keeps_if keeps_return keeps_modify)

lemma quiet_variables:
  assumes "quiet_python py"
  shows "quietly_reads (same_variables s0) py (get_var_flag py n)"
proof (rule quietly_get_var_flag)
  show "keeps (same_variables s0) (py_eval py code)" for code
    using assms same_variables_trans by (auto simp: quiet_python_def intro!: keepsI)
  show "keeps (same_variables s0) (need_overrides get)" if "keeps (same_variables s0) (read_overrides get)" for get
    unfolding need_overrides_def by (intro keeps_bind keeps_gets keeps_if keeps_return overrides_loop_variables[OF that])
qed simp

lemma quiet_anyI: "(\<And>s0. keeps (same_variables s0) m) \<Longrightarrow> same_variables s (snd (m s))"
  using keepsD[of "same_variables s" m s] by simp

lemma getVarFlag_quiet: "quiet_python py \<Longrightarrow> keeps (same_variables s0) (getVarFlag py n var flag expand)"
  unfolding getVarFlag_def by (auto intro!: keeps_bind keeps_return quiet_get[OF quiet_variables[of py s0 n]])

lemma getVar_quiet: "quiet_python py \<Longrightarrow> keeps (same_variables s0) (getVar py n var expand)"
  unfolding getVar_def by (rule getVarFlag_quiet)

lemma expand_text_quiet: "quiet_python py \<Longrightarrow> keeps (same_variables s0) (expand_text py n t)"
  unfolding expand_text_def by (intro keeps_bind keeps_return expandWithRefs_quiet[OF quiet_variables])

lemma collect_flags_quiet: "quiet_python py \<Longrightarrow> keeps (same_variables s0) (collect_flags py n var names internal local es flags)"
  by (induction es arbitrary: flags)
    (auto intro!: keeps_return keeps_bind keeps_lift expandWithRefs_quiet[OF quiet_variables] split: option.split)

lemma getVarFlags_quiet: "quiet_python py \<Longrightarrow> keeps (same_variables s0) (getVarFlags py n var names internal)"
  unfolding getVarFlags_def by (intro keeps_bind keeps_gets keeps_return collect_flags_quiet)

lemma store_keys_quiet: "quiet_python py \<Longrightarrow> keeps (same_variables s0) (store_keys py n)"
  unfolding store_keys_def by (intro keeps_then keeps_gets quiet_needs[OF quiet_variables])

text \<open>Reading never writes: whatever is read from the datastore, expanded or listed, with whatever
  errors, the variables, their flags, the registered overrides and the renames stay as they are, when the
  inline Python of the metadata leaves them alone.\<close>

theorem reading_keeps_variables:
  assumes "quiet_python py"
  shows "same_variables s (snd (getVarFlag py n var flag expand s)) \<and> same_variables s (snd (getVarFlags py n var names internal s)) \<and>
    same_variables s (snd (expand_text py n t s)) \<and> same_variables s (snd (store_keys py n s))"
  using quiet_anyI[OF getVarFlag_quiet[OF assms]] quiet_anyI[OF getVarFlags_quiet[OF assms]] quiet_anyI[OF expand_text_quiet[OF assms]]
    quiet_anyI[OF store_keys_quiet[OF assms]] by blast

section \<open>Writes stay in a copy\<close>

definition own_writes :: "dstore \<Rightarrow> dstore \<Rightarrow> bool" where
  "own_writes s t \<longleftrightarrow> ds_layers t \<noteq> [] \<and> tl (ds_layers t) = tl (ds_layers s)"

lemma keeps_own_reading: "(\<And>s0. keeps (same_variables s0) m) \<Longrightarrow> keeps (own_writes s) m"
proof (rule keepsI)
  fix t
  assume quiet: "\<And>s0. keeps (same_variables s0) m" and t: "own_writes s t"
  from quiet_anyI[OF quiet] t show "own_writes s (snd (m t))" by (simp add: own_writes_def same_variables_def)
qed

lemma own_writes_updates [simp]:
  "own_writes s (t\<lparr>ds_cache := c\<rparr>) = own_writes s t"
  "own_writes s (t\<lparr>ds_overrides := os\<rparr>) = own_writes s t"
  "own_writes s (t\<lparr>ds_overridedata := od\<rparr>) = own_writes s t"
  "own_writes s (t\<lparr>ds_overridevars := l\<rparr>) = own_writes s t"
  "own_writes s (t\<lparr>ds_renames := r\<rparr>) = own_writes s t"
  by (simp_all add: own_writes_def)

lemma own_writes_local [simp]: "own_writes s t \<Longrightarrow> own_writes s (put_local d t)" "own_writes s t \<Longrightarrow> own_writes s (set_flags var f t)"
  "own_writes s t \<Longrightarrow> own_writes s (clear_cache t)"
  by (simp_all add: own_writes_def put_local_def set_flags_def clear_cache_def)

lemma own_writes_shadow [simp]: "own_writes s t \<Longrightarrow> own_writes s (make_shadow_copy var t)"
  by (simp add: make_shadow_copy_def init_var_def Let_def split: option.split list.split)

lemma delVar_own: "keeps (own_writes s) (delVar var)"
  unfolding delVar_def by (rule keeps_modify) (simp add: Let_def)

lemma setvar_update_overrides_own: "keeps (own_writes s) (setvar_update_overrides var)"
  unfolding setvar_update_overrides_def by (rule keeps_modify) simp

lemma new_overridevars_own: "quiet_python py \<Longrightarrow> keeps (own_writes s) (new_overridevars py n k new)"
  by (induction k arbitrary: new)
    (auto intro!: keeps_raise keeps_bind keeps_gets keeps_if keeps_return keeps_then keeps_modify keeps_map keeps_own_reading[OF getVar_quiet]
      keeps_own_reading[OF expandWithRefs_quiet[OF quiet_variables]])

lemma if_overridevar_own: "quiet_python py \<Longrightarrow> keeps (own_writes s) (if_overridevar py n base var value)"
  unfolding if_overridevar_def setvar_update_overridevars_def
  by (auto intro!: keeps_bind keeps_gets keeps_when keeps_then keeps_modify keeps_own_reading[OF expandWithRefs_quiet[OF quiet_variables]]
      new_overridevars_own)

lemma set_plain_own: "quiet_python py \<Longrightarrow> keeps (own_writes s) (set_plain py n var value parsing)"
  unfolding set_plain_def drop_operators_def
  by (auto intro!: keeps_bind keeps_gets keeps_read keeps_when keeps_then keeps_modify keeps_for keeps_own_reading[OF quiet_needs[OF quiet_variables]] delVar_own setvar_update_overrides_own if_overridevar_own)

lemma note_renamed_own: "quiet_python py \<Longrightarrow> keeps (own_writes s) (note_renamed py n var)"
  unfolding note_renamed_def by (intro keeps_bind keeps_gets) (auto intro!: keeps_return keeps_raise keeps_if set_plain_own split: option.split)

lemma setVarFlag_own:
  assumes "quiet_python py" and "flag \<noteq> ''export''" and "flag \<noteq> ''unexport''"
  shows "keeps (own_writes s) (setVarFlag py n var flag value)"
  unfolding setVarFlag_def put_flag_def
  by (auto intro!: keeps_then keeps_modify keeps_when keeps_if keeps_return note_renamed_own setvar_update_overrides_own if_overridevar_own
      simp: Let_def assms)

lemma first_some_cases: "first_some f xs = Some y \<Longrightarrow> (\<And>x. x \<in> set xs \<Longrightarrow> f x = Some y \<Longrightarrow> P) \<Longrightarrow> P"
  using first_some_member by metis

lemma keyword_match_keyword: "keyword_match base s = Some (b, keyword, add) \<Longrightarrow> keyword \<in> {'':append'', '':prepend'', '':remove''}"
proof (induction base s rule: keyword_match.induct)
  case (2 base c cs)
  then show ?case
    by (auto simp: keyword_here_def split: option.splits if_splits list.splits prod.splits)
qed simp

lemma setVar_own: "quiet_python py \<Longrightarrow> keeps (own_writes s) (setVar py n var value parsing)"
proof -
  assume py: "quiet_python py"
  have op: "keyword \<noteq> ''export'' \<and> keyword \<noteq> ''unexport''" if "keyword_match [] var = Some (b, keyword, add)" for b keyword add
    using keyword_match_keyword[OF that] by auto
  show ?thesis unfolding setVar_def
    by (auto intro!: keeps_if keeps_raise keeps_bind keeps_then keeps_modify note_renamed_own set_plain_own keeps_own_reading[OF getVarFlag_quiet]
        setVarFlag_own setvar_update_overrides_own if_overridevar_own py dest: op split: option.split)
qed

lemma move_operators_own: "quiet_python py \<Longrightarrow> keeps (own_writes s) (move_operators py n newkey flags)"
  unfolding move_operators_def
  by (auto intro!: keeps_for keeps_bind keeps_own_reading[OF getVarFlag_quiet] setVarFlag_own split: prod.split)

lemma renameVar_own: "quiet_python py \<Longrightarrow> keeps (own_writes s) (renameVar py n k key newkey)"
proof (induction k arbitrary: key newkey)
  case (Suc k)
  then show ?case
    by (auto intro!: keeps_return keeps_bind keeps_then keeps_when keeps_gets keeps_read keeps_modify keeps_for setVar_own move_operators_own
        setvar_update_overrides_own delVar_own keeps_own_reading[OF quiet_get[OF quiet_variables]] keeps_own_reading[OF getVarFlags_quiet]
        split: option.split)
qed (simp add: keeps_raise)

lemma delVarFlag_own: "keeps (own_writes s) (delVarFlag var flag)"
  unfolding delVarFlag_def by (rule keeps_modify) (simp add: Let_def split: option.split list.split)

lemma delVarFlags_own: "keeps (own_writes s) (delVarFlags var)"
  unfolding delVarFlags_def by (rule keeps_modify) (simp add: Let_def split: option.split)

lemma setVarFlags_own: "keeps (own_writes s) (setVarFlags var flags)"
  unfolding setVarFlags_def by (rule keeps_modify) (simp add: Let_def)

lemma expandVarref_own: "quiet_python py \<Longrightarrow> keeps (own_writes s) (expandVarref py n variable parents)"
  unfolding expandVarref_def
  by (auto intro!: keeps_bind keeps_gets keeps_for keeps_return keeps_raise keeps_own_reading[OF store_keys_quiet] keeps_own_reading[OF getVar_quiet]
      setVar_own split: dvalue.split)

lemma expandKeys_own: "quiet_python py \<Longrightarrow> keeps (own_writes s) (expandKeys py n)"
  unfolding expandKeys_def
  by (auto intro!: keeps_bind keeps_then keeps_map keeps_lift keeps_for keeps_return keeps_own_reading[OF store_keys_quiet]
      keeps_own_reading[OF getVar_quiet] keeps_own_reading[OF expand_text_quiet] renameVar_own)

text \<open>The methods that write\<close>

datatype ds_write =
    Set string dvalue
  | Append string string
  | Prepend string string
  | Delete string
  | Rename string string
  | Set_Flag string string dvalue
  | Append_Flag string string string
  | Prepend_Flag string string string
  | Delete_Flag string string
  | Set_Flags string flags
  | Delete_Flags string
  | Expand_Keys
  | Expand_Ref string bool

fun do_write :: "python \<Rightarrow> nat \<Rightarrow> ds_write \<Rightarrow> (dstore, unit) act" where
  "do_write py n (Set var v) = setVar py n var v False"
| "do_write py n (Append var t) = appendVar py n var t"
| "do_write py n (Prepend var t) = prependVar py n var t"
| "do_write py n (Delete var) = delVar var"
| "do_write py n (Rename var new) = renameVar py n n var new"
| "do_write py n (Set_Flag var flag v) = setVarFlag py n var flag v"
| "do_write py n (Append_Flag var flag t) = appendVarFlag py n var flag t"
| "do_write py n (Prepend_Flag var flag t) = prependVarFlag py n var flag t"
| "do_write py n (Delete_Flag var flag) = delVarFlag var flag"
| "do_write py n (Set_Flags var fs) = setVarFlags var fs"
| "do_write py n (Delete_Flags var) = delVarFlags var"
| "do_write py n Expand_Keys = expandKeys py n"
| "do_write py n (Expand_Ref var parents) = expandVarref py n var parents"

fun exporting :: "ds_write \<Rightarrow> bool" where
  "exporting (Set_Flag var flag v) \<longleftrightarrow> flag = ''export'' \<or> flag = ''unexport''"
| "exporting (Append_Flag var flag t) \<longleftrightarrow> flag = ''export'' \<or> flag = ''unexport''"
| "exporting (Prepend_Flag var flag t) \<longleftrightarrow> flag = ''export'' \<or> flag = ''unexport''"
| "exporting _ \<longleftrightarrow> False"

lemma do_write_own:
  assumes "quiet_python py" and "\<not> exporting w"
  shows "keeps (own_writes s) (do_write py n w)"
  using assms
  by (cases w)
    (auto simp: appendVar_def prependVar_def appendVarFlag_def prependVarFlag_def intro!: setVar_own delVar_own renameVar_own setVarFlag_own
      keeps_bind keeps_lift keeps_own_reading[OF getVarFlag_quiet] delVarFlag_own delVarFlags_own setVarFlags_own expandKeys_own expandVarref_own)


end
