(* ===== verification/Data_Overrides.thy ===== *)
theory Data_Overrides
  imports Data_Facts
begin

text \<open>
  What the overrides of the datastore do: a failed computation of \<open>OVERRIDES\<close>, and the override that
  applies to a variable.
\<close>

section \<open>A failed computation\<close>

definition overrides_known :: "dstore \<Rightarrow> bool" where
  "overrides_known s \<longleftrightarrow> ds_overrides s \<noteq> None"

definition steady_python :: "python \<Rightarrow> bool" where
  "steady_python py \<longleftrightarrow> (\<forall>code. keeps overrides_known (py_eval py code))"

lemma overrides_known_updates [simp]:
  "overrides_known (s\<lparr>ds_overrides := os\<rparr>) \<longleftrightarrow> os \<noteq> None"
  "overrides_known (s\<lparr>ds_overridesset := l\<rparr>) = overrides_known s"
  "overrides_known (s\<lparr>ds_inoverride := b\<rparr>) = overrides_known s"
  "overrides_known (s\<lparr>ds_cache := c\<rparr>) = overrides_known s"
  by (simp_all add: overrides_known_def)

lemma needs_known: "overrides_known s \<Longrightarrow> need_overrides get s = (Inr (), s)"
  by (simp add: need_overrides_def overrides_known_def act_simps)

lemma quiet_known: "steady_python py \<Longrightarrow> quietly_reads overrides_known py (get_var_flag py n)"
  by (rule quietly_get_var_flag) (auto simp: steady_python_def needs_known intro: keepsI)

lemma loop_leaves_known:
  assumes "quietly_reads overrides_known py get" and "0 < count"
  shows "overrides_known (snd (overrides_loop get count s))"
proof -
  let ?start = "\<lambda>s. s\<lparr>ds_inoverride := True, ds_overrides := Some [], ds_overridesset := []\<rparr>"
  have reads: "keeps overrides_known (read_overrides get)" by (rule read_overrides_quiet[OF assms(1)])
  have loop: "keeps overrides_known (overrides_loop get k)" for k
    by (induction k) (auto intro!: keeps_raise keeps_then keeps_bind keeps_gets keeps_if keeps_return keeps_modify reads)
  obtain k where k: "count = Suc k" using assms(2) by (cases count) auto
  let ?rest = "\<lambda>os. act_then (act_modify (\<lambda>s. s\<lparr>ds_overrides := Some os, ds_overridesset := os, ds_inoverride := False, ds_cache := []\<rparr>))
    (act_bind (read_overrides get) (\<lambda>new.
     act_bind (act_gets (\<lambda>s. ds_overrides s = Some new)) (\<lambda>stable.
     if stable then act_return ()
     else act_then (act_modify (\<lambda>s. s\<lparr>ds_overrides := Some new, ds_overridesset := new\<rparr>)) (overrides_loop get k))))"
  have "keeps overrides_known (act_bind (read_overrides get) ?rest)"
    by (intro keeps_bind keeps_then keeps_gets keeps_if keeps_return keeps_modify reads loop) simp_all
  from keepsD[OF this, of "?start s"] show ?thesis unfolding k by (simp add: act_simps)
qed

text \<open>C32: When \<open>OVERRIDES\<close> cannot be computed, because a reference in it fails or it does not settle, the error
  is raised once: the datastore keeps the overrides it had got to, the empty list at first, and no later
  read computes them again.\<close>

theorem failed_overrides_not_retried:
  assumes "steady_python py" and "need_overrides (get_var_flag py n) s = (Inl e, t)"
  shows "need_overrides (get_var_flag py m) t = (Inr (), t)"
proof -
  have "\<not> (ds_overrides s \<noteq> None \<or> ds_inoverride s)" using assms(2) by (auto simp: need_overrides_def act_simps split: if_splits)
  with assms(2) have "overrides_loop (get_var_flag py n) 5 s = (Inl e, t)" by (simp add: need_overrides_def act_simps)
  with loop_leaves_known[OF quiet_known[OF assms(1)], of 5 n s] have "overrides_known t" by simp
  then show ?thesis by (rule needs_known)
qed

section \<open>The override that applies\<close>

lemma override_key_plain: "CHR '':'' \<notin> set a \<Longrightarrow> override_key o' a (active, match, b) =
   (if a = o' \<and> map_of active a \<noteq> None then (AList.delete a active, get_or (map_of active a) [], b) else (active, match, b))"
proof -
  assume "CHR '':'' \<notin> set a"
  then have "\<not> endswith a ('':'' @ o')" by (auto simp: endswith_iff)
  then show ?thesis by (cases "a = o'") (auto simp: override_key_def get_or_def split: option.split)
qed

lemma override_keys_plain:
  "list_all (\<lambda>a. CHR '':'' \<notin> set a) ks \<Longrightarrow> fold (override_key o') ks (active, match, b) =
   (if o' \<in> set ks \<and> map_of active o' \<noteq> None then (AList.delete o' active, get_or (map_of active o') [], b) else (active, match, b))"
  by (induction ks arbitrary: active match) (auto simp: override_key_plain)

lemma override_pass_plain:
  assumes "list_all (\<lambda>a. CHR '':'' \<notin> set a) (dict_keys active)"
  shows "override_pass o' (active, match, b) =
    (case map_of active o' of None \<Rightarrow> (active, match, b) | Some t \<Rightarrow> (AList.delete o' active, t, b))"
proof -
  have "o' \<in> set (dict_keys active) \<longleftrightarrow> map_of active o' \<noteq> None" by (simp add: map_of_eq_None_iff)
  then show ?thesis
    unfolding override_pass_def prod.case override_keys_plain[OF assms] by (auto simp: get_or_def split: option.split)
qed

text \<open>A list in the order of the first occurrences, backwards\<close>

lemma find_remdups_snoc: "find P (remdups (xs @ [x])) = (case find (\<lambda>y. P y \<and> y \<noteq> x) (remdups xs) of None \<Rightarrow> (if P x then Some x else None) | Some y \<Rightarrow> Some y)"
  by (induction xs) (auto split: option.split)

lemma override_rest_plain:
  assumes "list_all (\<lambda>a. CHR '':'' \<notin> set a) (dict_keys active)"
  shows "\<exists>active'. fold override_pass os (active, match, b) =
    (active', (case find (has_key active) (remdups (rev os)) of None \<Rightarrow> match | Some o' \<Rightarrow> get_or (map_of active o') []), b)"
  using assms
proof (induction os arbitrary: active match)
  case (Cons o' os)
  have has: "has_key active o' \<longleftrightarrow> map_of active o' \<noteq> None" by (rule has_key_map_of)
  show ?case
  proof (cases "map_of active o'")
    case None
    then have "find (\<lambda>y. has_key active y \<and> y \<noteq> o') (remdups (rev os)) = find (has_key active) (remdups (rev os))"
      using has by (metis (no_types, lifting))
    with Cons.IH[OF Cons.prems, of match] None has show ?thesis
      by (simp add: override_pass_plain[OF Cons.prems] find_remdups_snoc split: option.splits)
  next
    case (Some t)
    have del: "list_all (\<lambda>a. CHR '':'' \<notin> set a) (dict_keys (AList.delete o' active))"
      using Cons.prems by (auto simp: delete_keys list_all_iff)
    have keys: "has_key (AList.delete o' active) y \<longleftrightarrow> has_key active y \<and> y \<noteq> o'" for y by (simp add: has_key_map_of)
    have "find (has_key (AList.delete o' active)) (remdups (rev os)) = find (\<lambda>y. has_key active y \<and> y \<noteq> o') (remdups (rev os))"
      by (rule arg_cong[where f = "\<lambda>P. find P (remdups (rev os))"]) (rule ext, rule keys)
    then obtain active' where rest: "fold override_pass os (AList.delete o' active, t, b) =
        (active', (case find (\<lambda>y. has_key active y \<and> y \<noteq> o') (remdups (rev os)) of None \<Rightarrow> t
           | Some y \<Rightarrow> get_or (map_of (AList.delete o' active) y) []), b)"
      using Cons.IH[OF del, of t] by auto
    have "y \<noteq> o'" if "find (\<lambda>y. has_key active y \<and> y \<noteq> o') (remdups (rev os)) = Some y" for y
      using that by (auto simp: find_Some_iff)
    with rest Some has show ?thesis
      by (cases "find (\<lambda>y. has_key active y \<and> y \<noteq> o') (remdups (rev os))")
        (auto simp: override_pass_plain[OF Cons.prems] find_remdups_snoc get_or_def)
  qed
qed simp

text \<open>C10: The override that applies to a variable is the last name of \<open>OVERRIDES\<close> for which there is an active
  override, where a repeated name counts at its first place; without one none applies. This is so
  when no override is a combination of names.\<close>

theorem last_override_applies:
  assumes "list_all (\<lambda>a. CHR '':'' \<notin> set a) (dict_keys active)"
  shows "resolve_override os active = Inr (case find (has_key active) (remdups (rev os)) of None \<Rightarrow> [] | Some o' \<Rightarrow> get_or (map_of active o') [])"
  using override_rest_plain[OF assms, of os "[]" False] by (auto simp: resolve_override_def)

section \<open>The resolution ends\<close>

lemma remove_sub_length: "length (remove_sub sub s) \<le> length s"
proof (induction sub s rule: remove_sub.induct)
  case (1 sub s)
  then show ?case
    by (subst remove_sub.simps) (auto split: list.split intro: le_trans le_SucI)
qed

lemma remove_sub_removes: "sub \<noteq> [] \<Longrightarrow> length (remove_sub sub (t @ sub)) < length (t @ sub)"
proof (induction "t @ sub" arbitrary: t rule: length_induct)
  case 1
  show ?case
  proof (cases "startswith (t @ sub) sub")
    case True
    then obtain c cs where s: "t @ sub = c # cs" using "1.prems" by (cases "t @ sub") auto
    have "length (remove_sub sub (drop (length sub) (t @ sub))) \<le> length (drop (length sub) (t @ sub))" by (rule remove_sub_length)
    also have "\<dots> < length (t @ sub)"
      using "1.prems" by (metis add_gr_0 diff_less length_append length_drop length_greater_0_conv)
    finally show ?thesis using True s "1.prems" by (subst remove_sub.simps) simp
  next
    case False
    then obtain c cs where t: "t = c # cs" by (cases t) (auto simp: startswith_def)
    have "length (remove_sub sub (cs @ sub)) < length (cs @ sub)"
      using "1.hyps" "1.prems" t by (metis append_Cons length_Cons lessI)
    with False t "1.prems" show ?thesis by (subst remove_sub.simps) simp
  qed
qed

definition keys_size :: "(string, string) dict \<Rightarrow> nat" where
  "keys_size active = sum_list (List.map length (dict_keys active))"

lemma keys_size_update: "keys_size (AList.update k v d) \<le> keys_size d + length k"
  by (induction d) (auto simp: keys_size_def)

lemma keys_size_delete: "k \<in> set (dict_keys d) \<Longrightarrow> keys_size (AList.delete k d) + length k \<le> keys_size d"
proof (induction d)
  case (Cons p d)
  then show ?case by (cases "k \<in> set (dict_keys d)") (auto simp: keys_size_def delete_idem)
qed simp

definition shrunk :: "(string, string) dict \<Rightarrow> bool \<Rightarrow> (string, string) dict \<times> string \<times> bool \<Rightarrow> bool" where
  "shrunk active b = (\<lambda>(active', match, b'). keys_size active' \<le> keys_size active \<and> (b' \<longrightarrow> b \<or> keys_size active' < keys_size active))"

lemma shrunk_trans: "shrunk active b (active', match, b') \<Longrightarrow> shrunk active' b' r \<Longrightarrow> shrunk active b r"
  by (auto simp: shrunk_def)

lemma override_key_shrinks: "shrunk active b (override_key o' a (active, match, b))"
proof (cases "map_of active a")
  case (Some t)
  then have a: "a \<in> set (dict_keys active)" using map_of_SomeD by force
  note del = keys_size_delete[OF a]
  have "keys_size (AList.update (remove_sub ('':'' @ o') a) t (AList.delete a active)) < keys_size active" if "endswith a ('':'' @ o')"
  proof -
    from that obtain u where "a = u @ '':'' @ o'" by (auto simp: endswith_iff)
    then have "length (remove_sub ('':'' @ o') a) < length a" using remove_sub_removes[of "'':'' @ o'" u] by simp
    with del keys_size_update[of "remove_sub ('':'' @ o') a" t "AList.delete a active"] show ?thesis by linarith
  qed
  with Some del show ?thesis by (auto simp: override_key_def shrunk_def)
qed (simp add: override_key_def shrunk_def)

lemma fold_shrinks:
  assumes "\<And>x active match b. x \<in> set xs \<Longrightarrow> shrunk active b (f x (active, match, b))"
  shows "shrunk active b (fold f xs (active, match, b))"
  using assms
proof (induction xs arbitrary: active match b)
  case (Cons x xs)
  obtain active' match' b' where x: "f x (active, match, b) = (active', match', b')" using prod_cases3 by blast
  with Cons.prems[of x active b match] have "shrunk active b (active', match', b')" by simp
  moreover have "shrunk active' b' (fold f xs (active', match', b'))" using Cons.prems by (intro Cons.IH) simp
  ultimately show ?case using x by (simp add: shrunk_trans)
qed (simp add: shrunk_def)

lemma override_pass_shrinks: "shrunk active b (override_pass o' (active, match, b))"
  unfolding override_pass_def prod.case by (rule fold_shrinks) (rule override_key_shrinks)

lemma override_rounds_end: "keys_size active < k \<Longrightarrow> \<exists>m. override_rounds k os active match = Inr m"
proof (induction k arbitrary: active match)
  case (Suc k)
  obtain active' match' b' where r: "fold override_pass os (active, match, False) = (active', match', b')" using prod_cases3 by blast
  have "shrunk active False (active', match', b')" unfolding r[symmetric] by (rule fold_shrinks) (rule override_pass_shrinks)
  then have "b' \<Longrightarrow> keys_size active' < k" using Suc.prems by (auto simp: shrunk_def)
  with r Suc.IH show ?case by (cases b') auto
qed simp

text \<open>C14: Finding the override that applies ends, for every list of overrides, empty names and combinations of
  names included: a round that is repeated has made the names of the active overrides shorter.\<close>

theorem override_resolution_ends: "\<exists>name. resolve_override os active = Inr name"
  unfolding resolve_override_def by (rule override_rounds_end) (simp add: keys_size_def)

end
