(* ===== verification/Data_Values.thy ===== *)
theory Data_Values
  imports Data_Overrides
begin

text \<open>
  The value of a variable: its text with what is prepended, appended and removed, what is read after
  a write, and the texts that expansion leaves as they are.
\<close>

section \<open>Texts without references\<close>

fun piece_text :: "piece \<Rightarrow> string" where
  "piece_text (Plain c) = [c]"
| "piece_text (Ref key) = ''${'' @ key @ ''}''"
| "piece_text (Code code) = ''${@'' @ code @ ''}''"

lemma ref_at_text: "ref_at s = Some (key, rest) \<Longrightarrow> s = ''${'' @ key @ ''}'' @ rest"
proof -
  assume ref: "ref_at s = Some (key, rest)"
  then have start: "startswith s ''${''" by (simp add: ref_at_def split: if_splits)
  have key: "key = takeWhile key_char (drop 2 s)" and rest: "drop (2 + length key) s = CHR ''}'' # rest"
    using ref by (auto simp: ref_at_def Let_def split: if_splits list.splits)
  have "key @ drop (length key) (drop 2 s) = drop 2 s"
    unfolding key by (metis dropWhile_eq_drop takeWhile_dropWhile_id)
  then have "drop 2 s = key @ CHR ''}'' # rest" using rest by (simp add: add.commute)
  moreover have "take 2 s = ''${''" using start by (simp add: startswith_def numeral_2_eq_2)
  with append_take_drop_id[of 2 s] have "s = ''${'' @ drop 2 s" by simp
  ultimately show ?thesis by simp
qed

text \<open>The text of a variable is read into pieces, references and single characters, that are the text again when
  they are written one after the other.\<close>

theorem pieces_are_the_text: "List.concat (List.map piece_text (var_pieces s)) = s"
proof (induction s rule: var_pieces.induct)
  case (1 s)
  show ?case
  proof (cases "ref_at s")
    case None
    with 1 show ?thesis by (subst var_pieces.simps) (auto split: list.split)
  next
    case (Some kr)
    obtain key rest where kr: "kr = (key, rest)" by (cases kr)
    with Some 1 ref_at_text[of s key rest] show ?thesis by (subst var_pieces.simps) auto
  qed
qed

definition no_refs :: "string \<Rightarrow> bool" where
  "no_refs s \<longleftrightarrow> \<not> contains s ''${''"

lemma expand_no_refs:
  "no_refs t \<Longrightarrow> expandWithRefs get py (Suc k) (Text t) varname s =
    (Inr \<lparr>vp_value = Text t, vp_unexpanded = Text t, vp_references = [], vp_contains = [], vp_removes = None\<rparr>, s)"
  by (simp add: expandWithRefs_def no_refs_def act_simps)

section \<open>The value of a variable\<close>

text \<open>The texts of an operator that apply\<close>

definition applies :: "string list \<Rightarrow> string option \<Rightarrow> bool" where
  "applies os o' \<longleftrightarrow> (case o' of None \<Rightarrow> True | Some t \<Rightarrow> t = [] \<or> set (split_on CHR '':'' t) \<subseteq> set os)"

definition applied_texts :: "string list \<Rightarrow> (string \<times> string option) list \<Rightarrow> string list" where
  "applied_texts os l = List.map fst (filter (\<lambda>(t, o'). applies os o') l)"

definition text_ops :: "flags \<Rightarrow> string \<Rightarrow> (string \<times> string option) list \<Rightarrow> bool" where
  "text_ops f keyword l \<longleftrightarrow> (case map_of f keyword of None \<Rightarrow> l = [] | Some v \<Rightarrow> v = Ops (List.map (\<lambda>(t, o'). (Text t, o')) l))"

lemma applied_ops_texts: "applied_ops (Some os) (List.map (\<lambda>(t, o'). (Text t, o')) l) = Inr (List.map Text (applied_texts os l))"
proof -
  have "res_map (\<lambda>(r, o'). res_bind (op_applies (Some os) o') (\<lambda>b. Inr (b, r))) (List.map (\<lambda>(t, o'). (Text t, o')) l) =
      Inr (List.map (\<lambda>(t, o'). (applies os o', Text t)) l)"
    by (induction l) (auto simp: op_applies_def applies_def split: option.split)
  then show ?thesis by (simp add: applied_ops_def applied_texts_def filter_map comp_def case_prod_unfold)
qed

lemma add_texts: "res_fold (add_text before) (List.map Text ts) (Text t) =
   Inr (Text (if before then List.concat (rev ts) @ t else t @ List.concat ts))"
  by (induction ts arbitrary: t) (auto simp: add_text_def)

lemma apply_op_texts:
  assumes "text_ops f keyword l" and "ds_overrides s = Some os"
  shows "apply_op get (Some f) keyword before (Text t) s =
    (Inr (Text (if before then List.concat (rev (applied_texts os l)) @ t else t @ List.concat (applied_texts os l))), s)"
proof (cases "map_of f keyword")
  case None
  with assms(1) show ?thesis by (simp add: apply_op_def local_op_def text_ops_def applied_texts_def act_simps)
next
  case (Some v)
  have "overrides_known s" using assms(2) by (simp add: overrides_known_def)
  with Some assms show ?thesis
    by (simp add: apply_op_def local_op_def text_ops_def ops_of_def act_simps needs_known applied_ops_texts add_texts)
qed

definition joined :: "string list \<Rightarrow> (string \<times> string option) list \<Rightarrow> string \<Rightarrow> (string \<times> string option) list \<Rightarrow> string" where
  "joined os ps t as = List.concat (rev (applied_texts os ps)) @ t @ List.concat (applied_texts os as)"

text \<open>A text less the words that are removed from it\<close>

definition without_words :: "string list \<Rightarrow> string \<Rightarrow> string" where
  "without_words rs t = List.concat (filter (\<lambda>v. \<not> list_ex (\<lambda>r. v \<in> set (split_ws r)) rs) (ws_tokens [] t))"

text \<open>A variable that has a text, operators with texts and no overrides, in a datastore whose overrides are known\<close>

record described =
  d_text :: string
  d_prepends :: "(string \<times> string option) list"
  d_appends :: "(string \<times> string option) list"
  d_removes :: "(string \<times> string option) list"

definition describes :: "dstore \<Rightarrow> string list \<Rightarrow> string \<Rightarrow> described \<Rightarrow> bool" where
  "describes s os var d \<longleftrightarrow> ds_overrides s = Some os \<and> map_of (ds_overridedata s) var = None \<and>
     (\<exists>f. find_var (ds_layers s) var = Some f \<and> map_of f ''_content'' = Some (Text (d_text d)) \<and>
        text_ops f '':prepend'' (d_prepends d) \<and> text_ops f '':append'' (d_appends d) \<and> text_ops f '':remove'' (d_removes d))"

definition value_of :: "string list \<Rightarrow> described \<Rightarrow> string" where
  "value_of os d = joined os (d_prepends d) (d_text d) (d_appends d)"

lemma overriding_none: "map_of (ds_overridedata s) var = None \<Longrightarrow> overriding get var s = (Inr (NoneV, [], []), s)"
  by (simp add: overriding_def act_simps)

lemma collect_removes_texts:
  assumes "text_ops f '':remove'' l" and "ds_overrides s = Some os"
  shows "collect_removes get (Some f) [] [] s = (Inr (set_union [] (List.map Text (applied_texts os l))), s)"
proof (cases "map_of f '':remove''")
  case None
  with assms(1) show ?thesis by (simp add: collect_removes_def local_op_def text_ops_def applied_texts_def act_simps set_union_def)
next
  case (Some v)
  have "overrides_known s" using assms(2) by (simp add: overrides_known_def)
  with Some assms show ?thesis
    by (simp add: collect_removes_def local_op_def text_ops_def ops_of_def act_simps needs_known applied_ops_texts)
qed

lemma unexpanded_body:
  assumes "describes s os var d"
  shows "get_body py k get var ''_content'' False noweak False False s = (Inr (Text (value_of os d), None), s)"
proof -
  from assms obtain f where f: "find_var (ds_layers s) var = Some f" "map_of f ''_content'' = Some (Text (d_text d))"
      "text_ops f '':prepend'' (d_prepends d)" "text_ops f '':append'' (d_appends d)" "text_ops f '':remove'' (d_removes d)"
    and s: "ds_overrides s = Some os" "map_of (ds_overridedata s) var = None"
    unfolding describes_def by blast
  show ?thesis
    by (simp add: get_body_def Let_def act_simps overriding_none[OF s(2)] f(1) stored_flag_def f(2) apply_op_texts[OF f(4) s(1)]
        apply_op_texts[OF f(3) s(1)] collect_removes_texts[OF f(5) s(1)] value_of_def joined_def)
qed

lemma tokens_text: "List.concat (ws_tokens w s) = w @ s"
  by (induction w s rule: ws_tokens.induct) auto

lemma remove_words_texts:
  assumes "list_all no_refs rs" and "vp_value p = Text t"
  shows "\<exists>q. remove_words get py (Suc k) (List.map Text rs) p s = (Inr q, s) \<and> vp_value q = Text (without_words rs t)"
proof -
  have "act_map (\<lambda>r. act_bind (expandWithRefs get py (Suc k) r []) (\<lambda>q. case vp_value q of
          Text t \<Rightarrow> act_return (r, split_ws t)
        | _ \<Rightarrow> act_raise AttributeError)) (List.map Text rs) s = (Inr (List.map (\<lambda>r. (Text r, split_ws r)) rs), s)"
    using assms(1) by (induction rs) (simp_all add: act_simps expand_no_refs)
  then show ?thesis
    using assms(2) by (simp add: remove_words_def act_simps without_words_def list_ex_iff)
qed

lemma without_no_words: "without_words [] t = t"
  by (simp add: without_words_def tokens_text)

lemma without_words_cong: "set rs = set rs' \<Longrightarrow> without_words rs t = without_words rs' t"
  by (simp add: without_words_def list_ex_iff)

lemma dedup_texts: "\<exists>rs'. set_union [] (List.map Text rs) = List.map Text rs' \<and> set rs' = set rs"
proof -
  have "\<exists>rs'. set_union [] l = List.map Text rs'" if "\<exists>rs'. l = List.map Text rs'" for l :: "dvalue list"
  proof -
    from that have "set (set_union [] l) \<subseteq> range Text" by auto
    then show ?thesis by (metis (mono_tags, lifting) ex_map_conv subsetD imageE)
  qed
  then obtain rs' where rs': "set_union [] (List.map Text rs) = List.map Text rs'" by blast
  have "set (List.map Text rs') = set (List.map Text rs)" unfolding rs'[symmetric] by simp
  then have "set rs' = set rs" by (auto simp: inj_image_eq_iff inj_def)
  with rs' show ?thesis by blast
qed

lemma expanded_body:
  assumes "describes s os var d" and uncached: "map_of (ds_cache s) var = None"
    and refs: "no_refs (value_of os d)" "list_all no_refs (List.map fst (d_removes d))"
  shows "\<exists>p q. get_body py (Suc k) get var ''_content'' True noweak False False s =
    (Inr (Text (without_words (applied_texts os (d_removes d)) (value_of os d)), q), s\<lparr>ds_cache := AList.update var p (ds_cache s)\<rparr>)"
proof -
  let ?v = "value_of os d" and ?rs = "applied_texts os (d_removes d)"
  from assms(1) obtain f where f: "find_var (ds_layers s) var = Some f" "map_of f ''_content'' = Some (Text (d_text d))"
      "text_ops f '':prepend'' (d_prepends d)" "text_ops f '':append'' (d_appends d)" "text_ops f '':remove'' (d_removes d)"
    and s: "ds_overrides s = Some os" "map_of (ds_overridedata s) var = None"
    unfolding describes_def by blast
  let ?p = "\<lparr>vp_value = Text ?v, vp_unexpanded = Text ?v, vp_references = [], vp_contains = [], vp_removes = None\<rparr>"
  obtain rs' where rs': "set_union [] (List.map Text ?rs) = List.map Text rs'" "set rs' = set ?rs" using dedup_texts by blast
  have "list_all no_refs rs'" using refs(2) rs'(2) by (auto simp: list_all_iff applied_texts_def)
  from remove_words_texts[OF this, of ?p ?v get py k s] obtain q
    where q: "remove_words get py (Suc k) (List.map Text rs') ?p s = (Inr q, s)" "vp_value q = Text (without_words ?rs ?v)"
    using without_words_cong[OF rs'(2)] by auto
  have empty: "?rs = []" if "rs' = []" using that rs'(2) by simp
  have blank: "without_words ?rs [] = []" by (simp add: without_words_def)
  show ?thesis
    using q empty blank
    by (auto simp: get_body_def Let_def act_simps overriding_none[OF s(2)] f(1) uncached stored_flag_def f(2) apply_op_texts[OF f(4) s(1)]
        apply_op_texts[OF f(3) s(1)] collect_removes_texts[OF f(5) s(1)] value_of_def[symmetric] joined_def[symmetric]
        expand_no_refs[OF refs(1)] rs'(1) truthy_value_def without_no_words)
qed

text \<open>C2: The value of a variable without overrides is its text with what is prepended before it, the last of it
  first, and what is appended behind it, in order, as far as it is for the overrides in force. Expansion
  of a text without references takes from it the words to be removed and leaves everything else,
  spaces included, as it is.\<close>

theorem variable_value:
  assumes "describes s os var d"
  shows "getVar py (Suc n) var False s = (Inr (Text (value_of os d)), s) \<and>
    (map_of (ds_cache s) var = None \<and> no_refs (value_of os d) \<and> list_all no_refs (List.map fst (d_removes d)) \<longrightarrow>
      fst (getVar py (Suc (Suc n)) var True s) = Inr (Text (without_words (applied_texts os (d_removes d)) (value_of os d))))"
proof -
  have "getVar py (Suc n) var False s = (Inr (Text (value_of os d)), s)"
    by (simp add: getVar_def getVarFlag_def act_simps unexpanded_body[OF assms])
  moreover have "fst (getVar py (Suc (Suc n)) var True s) = Inr (Text (without_words (applied_texts os (d_removes d)) (value_of os d)))"
    if "map_of (ds_cache s) var = None" "no_refs (value_of os d)" "list_all no_refs (List.map fst (d_removes d))"
    using expanded_body[OF assms that, of py n "get_var_flag py (Suc n)" False] by (auto simp: getVar_def getVarFlag_def act_simps)
  ultimately show ?thesis by blast
qed

end
