(* ===== verification/Data_Writes.thy ===== *)
theory Data_Writes
  imports Data_Values
begin

text \<open>
  Writing a variable and reading it again: what is set, appended and prepended is what is read, other
  variables stay, and where the registration of overrides and the deletion of flags go wrong.
\<close>

section \<open>Flags of the first layer\<close>

lemma local_dict_set_flags [simp]: "local_dict (set_flags v f s) = AList.update v f (local_dict s)"
  by (simp add: local_dict_def set_flags_def put_local_def)

lemma local_flags_set_flags [simp]: "local_flags (set_flags v f s) x = (if x = v then f else local_flags s x)"
  by (simp add: local_flags_def)

lemma layers_set_flags [simp]: "ds_layers (set_flags v f s) \<noteq> []"
  by (simp add: set_flags_def put_local_def)

lemma set_flags_fields [simp]:
  "ds_overridedata (set_flags v f s) = ds_overridedata s" "ds_overrides (set_flags v f s) = ds_overrides s"
  "ds_overridesset (set_flags v f s) = ds_overridesset s" "ds_overridevars (set_flags v f s) = ds_overridevars s"
  "ds_renames (set_flags v f s) = ds_renames s" "ds_cache (set_flags v f s) = ds_cache s"
  by (simp_all add: set_flags_def put_local_def)

lemma find_var_set_flags [simp]:
  "ds_layers s \<noteq> [] \<Longrightarrow> find_var (ds_layers (set_flags v f s)) x = (if x = v then Some f else find_var (ds_layers s) x)"
  by (cases "ds_layers s") (simp_all add: set_flags_def put_local_def local_dict_def)

lemma clear_cache_fields [simp]:
  "ds_layers (clear_cache s) = ds_layers s" "ds_overridedata (clear_cache s) = ds_overridedata s" "ds_overrides (clear_cache s) = ds_overrides s"
  "ds_overridesset (clear_cache s) = ds_overridesset s" "ds_overridevars (clear_cache s) = ds_overridevars s"
  "ds_renames (clear_cache s) = ds_renames s" "ds_cache (clear_cache s) = []"
  "local_dict (clear_cache s) = local_dict s" "local_flags (clear_cache s) x = local_flags s x"
  by (simp_all add: clear_cache_def local_dict_def local_flags_def)

lemma shadow_fields [simp]:
  "ds_overridedata (make_shadow_copy v s) = ds_overridedata s" "ds_overrides (make_shadow_copy v s) = ds_overrides s"
  "ds_overridesset (make_shadow_copy v s) = ds_overridesset s" "ds_overridevars (make_shadow_copy v s) = ds_overridevars s"
  "ds_renames (make_shadow_copy v s) = ds_renames s"
  by (simp_all add: make_shadow_copy_def init_var_def Let_def split: option.split list.split)

lemma local_overridedata [simp]: "local_dict (s\<lparr>ds_overridedata := od\<rparr>) = local_dict s" "local_flags (s\<lparr>ds_overridedata := od\<rparr>) x = local_flags s x"
  by (simp_all add: local_flags_def local_dict_def)

lemma find_local: "has_key (local_dict s) v \<Longrightarrow> find_var (ds_layers s) v = Some (local_flags s v)"
  by (auto simp: has_key_map_of local_dict_def local_flags_def split: list.splits option.splits)

text \<open>A shadow copy changes neither what is found of other variables nor what is found of a variable with flags.\<close>

lemma shadow_copy:
  assumes "ds_layers s \<noteq> []"
  shows "has_key (local_dict (make_shadow_copy v s)) v" "ds_layers (make_shadow_copy v s) \<noteq> []"
    "x \<noteq> v \<Longrightarrow> find_var (ds_layers (make_shadow_copy v s)) x = find_var (ds_layers s) x"
    "local_flags (make_shadow_copy v s) v = get_or (find_var (ds_layers s) v) []"
proof -
  show "has_key (local_dict (make_shadow_copy v s)) v"
    by (auto simp: make_shadow_copy_def init_var_def Let_def has_key_map_of split: option.split list.split)
  show "ds_layers (make_shadow_copy v s) \<noteq> []"
    using assms by (simp add: make_shadow_copy_def init_var_def Let_def split: option.split list.split)
  show "x \<noteq> v \<Longrightarrow> find_var (ds_layers (make_shadow_copy v s)) x = find_var (ds_layers s) x"
    using assms by (simp add: make_shadow_copy_def init_var_def Let_def split: option.split list.split)
  show "local_flags (make_shadow_copy v s) v = get_or (find_var (ds_layers s) v) []"
  proof (cases "has_key (local_dict s) v")
    case True
    then show ?thesis using find_local[OF True] by (simp add: make_shadow_copy_def get_or_def)
  next
    case False
    then have "local_flags s v = []" by (simp add: local_flags_def has_key_map_of)
    with False show ?thesis
      by (simp add: make_shadow_copy_def init_var_def Let_def get_or_def split: option.split list.split)
  qed
qed

section \<open>Registering an override\<close>

lemma colon_split_shorter: "var \<noteq> [] \<Longrightarrow> length (fst (colon_split var)) < length var"
  by (auto simp: colon_split_def)

lemma override_steps_shorter: "(sv, o') \<in> set (override_steps var shortvar override) \<Longrightarrow> length sv \<le> length shortvar"
proof (induction var shortvar override rule: override_steps.induct)
  case (1 var shortvar override)
  show ?case
  proof (cases "(sv, o') = (shortvar, override)")
    case False
    with "1.prems" have go: "override_start override" "CHR '':'' \<in> set shortvar \<and> fst (colon_split shortvar) \<noteq> []"
      "(sv, o') \<in> set (override_steps var (fst (colon_split shortvar)) (drop (length (fst (colon_split shortvar)) + 1) var))"
      by (auto simp: override_steps.simps[of var shortvar override] split: if_splits)
    then have "length sv \<le> length (fst (colon_split shortvar))" using "1.IH" by blast
    moreover have "shortvar \<noteq> []" using go(2) by auto
    ultimately show ?thesis using colon_split_shorter[of shortvar] by linarith
  qed simp
qed

lemma add_overrides_other:
  assumes "\<And>sv o'. (sv, o') \<in> set steps \<Longrightarrow> sv \<noteq> k"
  shows "map_of (fold (add_override var) steps od) k = map_of od k"
  using assms
proof (induction steps arbitrary: od)
  case (Cons p steps)
  obtain sv o' where p: "p = (sv, o')" by (cases p)
  with Cons.prems have "sv \<noteq> k" by auto
  then have "map_of (add_override var p od) k = map_of od k" by (simp add: p add_override_def)
  with Cons.IH[of "add_override var p od"] Cons.prems show ?case by auto
qed simp

lemma own_overrides_kept: "map_of (fold (add_override var) (steps_of var) od) var = map_of od var"
proof (cases "var = []")
  case True
  then show ?thesis by (simp add: steps_of_def colon_split_def override_steps.simps override_start_def)
next
  case False
  show ?thesis
  proof (rule add_overrides_other)
    fix sv o' assume "(sv, o') \<in> set (steps_of var)"
    then have "length sv \<le> length (fst (colon_split var))" by (cases "colon_split var") (auto simp: steps_of_def dest: override_steps_shorter)
    then show "sv \<noteq> var" using colon_split_shorter[OF False] by auto
  qed
qed

lemma drop_overrides_keys: "map_of (fold (drop_override var) steps od) k = None \<longleftrightarrow> map_of od k = None"
proof (induction steps arbitrary: od)
  case (Cons p steps)
  obtain sv o' where p: "p = (sv, o')" by (cases p)
  have "map_of (drop_override var p od) k = None \<longleftrightarrow> map_of od k = None" by (simp add: p drop_override_def map_of_map_entry split: option.split)
  with Cons.IH[of "drop_override var p od"] show ?case by simp
qed simp

section \<open>Setting a variable\<close>

text \<open>A state on the way: the layers but for \<open>var\<close> and \<open>gone\<close>, what is known of the overrides\<close>

definition underway :: "dstore \<Rightarrow> string list \<Rightarrow> string \<Rightarrow> string set \<Rightarrow> dstore \<Rightarrow> bool" where
  "underway s0 os var gone t \<longleftrightarrow> ds_layers t \<noteq> [] \<and> has_key (local_dict t) var \<and> ds_overrides t = Some os \<and>
     ds_overridesset t = ds_overridesset s0 \<and> ds_overridevars t = ds_overridevars s0 \<and> ds_renames t = ds_renames s0 \<and>
     (\<forall>x. x \<noteq> var \<and> x \<notin> gone \<longrightarrow> find_var (ds_layers t) x = find_var (ds_layers s0) x)"

lemma underway_set [simp]: "underway s0 os var gone t \<Longrightarrow> underway s0 os var gone (set_flags var f t)"
  by (simp add: underway_def has_key_map_of)

lemma underway_overridedata [simp]: "underway s0 os var gone (t\<lparr>ds_overridedata := od\<rparr>) = underway s0 os var gone t"
  by (simp add: underway_def local_dict_def)

lemma delVar_fields:
  "snd (delVar a t) = (set_flags a [] (clear_cache t))\<lparr>ds_overridedata := (let od = AList.delete a (ds_overridedata t)
     in if CHR '':'' \<in> set a then fold (drop_override a) (steps_of a) od else od)\<rparr>" "fst (delVar a t) = Inr ()"
  by (simp_all add: delVar_def act_simps Let_def)

lemma deleting_underway:
  assumes "underway s0 os var gone t" and "a \<in> gone" and "a \<noteq> var" and "map_of (ds_overridedata t) var \<noteq> None"
  shows "ends (delVar a) t (\<lambda>_ u. underway s0 os var gone u \<and> map_of (ds_overridedata u) var \<noteq> None \<and> local_flags u var = local_flags t var)"
proof -
  have u: "underway s0 os var gone (set_flags a [] (clear_cache t))"
    using assms(1-3) by (auto simp: underway_def has_key_map_of)
  have "map_of (AList.delete a (ds_overridedata t)) var \<noteq> None" using assms(3,4) by simp
  then have "map_of (ds_overridedata (snd (delVar a t))) var \<noteq> None"
    unfolding delVar_fields by (simp add: Let_def drop_overrides_keys del: not_None_eq)
  moreover have "underway s0 os var gone (snd (delVar a t))" unfolding delVar_fields by (simp add: u)
  moreover have "local_flags (snd (delVar a t)) var = local_flags t var"
    unfolding delVar_fields using assms(3) by simp
  ultimately show ?thesis using delVar_fields(2)[of a t] by (cases "delVar a t") (auto simp: ends_def)
qed

definition active_names :: "dstore \<Rightarrow> string \<Rightarrow> string set" where
  "active_names s var = {r. \<exists>o'. (r, o') \<in> set (dict_list (ds_overridedata s) var) \<and> override_active (ds_overridesset s) o'}"

lemma drop_operators_ends:
  assumes t: "underway s0 os var gone t" and gone: "gone = active_names t var" "var \<notin> gone"
  shows "ends (drop_operators py n var) t (\<lambda>_ u. underway s0 os var gone u \<and> map_of (ds_overridedata u) var = None \<and>
    local_flags u var = without_operators (local_flags t var))"
proof -
  let ?f = "without_operators (local_flags t var)"
  let ?t = "set_flags var ?f t"
  have known: "overrides_known ?t" using t by (simp add: overrides_known_def underway_def)
  have start: "underway s0 os var gone ?t" "local_flags ?t var = ?f" using t by simp_all
  show ?thesis
  proof (cases "map_of (ds_overridedata t) var")
    case None
    with start show ?thesis by (simp add: drop_operators_def ends_simps has_key_map_of)
  next
    case (Some od)
    let ?active = "List.map fst (filter (\<lambda>(r, o'). override_active (ds_overridesset t) o') od)"
    have active: "set ?active = gone" using Some by (auto simp: gone(1) active_names_def dict_list_def image_iff)
    have "ends (act_for ?active delVar) ?t (\<lambda>_ u. underway s0 os var gone u \<and> map_of (ds_overridedata u) var \<noteq> None \<and> local_flags u var = ?f)"
    proof (rule ends_forI)
      show "underway s0 os var gone ?t \<and> map_of (ds_overridedata ?t) var \<noteq> None \<and> local_flags ?t var = ?f" using start Some by simp
      fix ys a zs u
      assume split: "?active = ys @ a # zs" and u: "underway s0 os var gone u \<and> map_of (ds_overridedata u) var \<noteq> None \<and> local_flags u var = ?f"
      have "a \<in> set ?active" by (simp only: split) simp
      with active gone(2) have "a \<in> gone" "a \<noteq> var" by auto
      with u show "ends (delVar a) u (\<lambda>_ u. underway s0 os var gone u \<and> map_of (ds_overridedata u) var \<noteq> None \<and> local_flags u var = ?f)"
        using deleting_underway[of s0 os var gone u a] by simp
    qed
    from ends_run[OF this] obtain u where run: "act_for ?active delVar ?t = (Inr (), u)"
      and u: "underway s0 os var gone u" "map_of (ds_overridedata u) var \<noteq> None" "local_flags u var = ?f" by auto
    from u(2) obtain l where l: "map_of (ds_overridedata u) var = Some l" by blast
    have "drop_operators py n var t = (Inr (), u\<lparr>ds_overridedata := AList.delete var (ds_overridedata u)\<rparr>)"
      using Some run l by (simp add: drop_operators_def act_simps has_key_map_of needs_known[OF known])
    moreover have "local_flags (u\<lparr>ds_overridedata := AList.delete var (ds_overridedata u)\<rparr>) var = ?f"
      using u(3) by (simp add: local_flags_def local_dict_def)
    ultimately show ?thesis using u by (simp add: ends_def)
  qed
qed

text \<open>A name without an operator, that is not renamed and that no override depends on\<close>

definition plain_target :: "dstore \<Rightarrow> string \<Rightarrow> bool" where
  "plain_target s var \<longleftrightarrow> \<not> old_syntax var \<and> keyword_match [] var = None \<and>
     \<not> has_key (ds_renames s) (fst (partition_at CHR '':'' var)) \<and> var \<notin> set (ds_overridevars s)"

lemma note_not_renamed: "\<not> has_key (ds_renames s) v \<Longrightarrow> note_renamed py n v s = (Inr (), s)"
  by (simp add: note_renamed_def act_simps has_key_map_of)

lemma overridevar_unused: "v \<notin> set (ds_overridevars s) \<Longrightarrow> if_overridevar py n v w value s = (Inr (), s)"
  by (simp add: if_overridevar_def act_simps)

lemma without_operators_none:
  "map_of (without_operators f) '':append'' = None" "map_of (without_operators f) '':prepend'' = None" "map_of (without_operators f) '':remove'' = None"
  by (simp_all add: without_operators_def)

definition bare :: "string \<Rightarrow> described" where
  "bare t = \<lparr>d_text = t, d_prepends = [], d_appends = [], d_removes = []\<rparr>"

lemma value_of_bare: "value_of os (bare t) = t"
  by (simp add: value_of_def joined_def applied_texts_def bare_def)

text \<open>A value without operators and overrides\<close>

definition holds :: "dstore \<Rightarrow> string list \<Rightarrow> string \<Rightarrow> dvalue \<Rightarrow> bool" where
  "holds s os var v \<longleftrightarrow> ds_overrides s = Some os \<and> map_of (ds_overridedata s) var = None \<and>
     (\<exists>f. find_var (ds_layers s) var = Some f \<and> map_of f ''_content'' = Some v \<and> list_all (\<lambda>k. map_of f k = None) ['':append'', '':prepend'', '':remove''])"

lemma holds_text: "holds s os var (Text t) \<Longrightarrow> describes s os var (bare t)"
  by (auto simp: holds_def describes_def text_ops_def bare_def)

lemma set_plain_run:
  assumes s: "ds_layers s \<noteq> []" "ds_overrides s = Some os" and target: "var \<notin> set (ds_overridevars s)" and gone: "var \<notin> active_names s var"
  shows "ends (set_plain py n var value False) s (\<lambda>_ u. underway s os var (active_names s var) u \<and> holds u os var value)"
proof -
  let ?gone = "active_names s var" and ?start = "make_shadow_copy var (clear_cache s)"
  have start: "underway s os var ?gone ?start"
    using s by (auto simp: underway_def shadow_copy)
  have active: "?gone = active_names ?start var" by (simp add: active_names_def)
  let ?op = "\<lambda>f. map_of f '':append'' = None \<and> map_of f '':prepend'' = None \<and> map_of f '':remove'' = None"
  have last: "ends (act_then (act_when (CHR '':'' \<in> set var) (setvar_update_overrides var))
      (act_then (act_modify (\<lambda>s. set_flags var (AList.update ''_content'' value (local_flags s var)) s)) (if_overridevar py n var var value))) u
      (\<lambda>_ v. underway s os var ?gone v \<and> holds v os var value)"
    if u: "underway s os var ?gone u" "map_of (ds_overridedata u) var = None" "?op (local_flags u var)" for u
  proof -
    have finish: "ends (act_then (act_modify (\<lambda>s. set_flags var (AList.update ''_content'' value (local_flags s var)) s))
        (if_overridevar py n var var value)) v (\<lambda>_ v. underway s os var ?gone v \<and> holds v os var value)"
      if v: "underway s os var ?gone v" "map_of (ds_overridedata v) var = None" "?op (local_flags v var)" for v
    proof -
      let ?v = "set_flags var (AList.update ''_content'' value (local_flags v var)) v"
      have "var \<notin> set (ds_overridevars ?v)" using v(1) target by (simp add: underway_def)
      moreover have "holds ?v os var value"
        using v by (simp add: holds_def underway_def)
      ultimately show ?thesis using v(1) by (simp add: ends_def act_simps overridevar_unused)
    qed
    let ?reg = "u\<lparr>ds_overridedata := fold (add_override var) (steps_of var) (ds_overridedata u)\<rparr>"
    have "ends (act_when (CHR '':'' \<in> set var) (setvar_update_overrides var)) u
        (\<lambda>_ v. underway s os var ?gone v \<and> map_of (ds_overridedata v) var = None \<and> ?op (local_flags v var))"
      using u own_overrides_kept[of var "ds_overridedata u"] by (simp add: ends_def act_simps setvar_update_overrides_def)
    then show ?thesis unfolding ends_steps(5)[of "act_when _ _"] by (rule ends_weaken) (use finish in blast)
  qed
  have drop: "ends (act_when (\<not> False) (drop_operators py n var)) ?start
      (\<lambda>_ u. underway s os var ?gone u \<and> map_of (ds_overridedata u) var = None \<and> ?op (local_flags u var))"
    unfolding act_when_def
    by (simp, rule ends_weaken[OF drop_operators_ends[OF start active gone]]) (simp add: without_operators_none)
  have "ends (act_then (act_when (\<not> False) (drop_operators py n var))
      (act_then (act_when (CHR '':'' \<in> set var) (setvar_update_overrides var))
      (act_then (act_modify (\<lambda>s. set_flags var (AList.update ''_content'' value (local_flags s var)) s)) (if_overridevar py n var var value)))) ?start
      (\<lambda>_ v. underway s os var ?gone v \<and> holds v os var value)"
    unfolding ends_steps(5)[of "act_when (\<not> False) _"] by (rule ends_weaken[OF drop]) (use last in blast)
  then show ?thesis by (simp add: set_plain_def ends_steps)
qed


section \<open>Appending and prepending\<close>

definition operators :: "string list" where
  "operators = ['':append'', '':prepend'', '':remove'']"

text \<open>A name without colon and line end\<close>

definition plain_base :: "dstore \<Rightarrow> string \<Rightarrow> bool" where
  "plain_base s var \<longleftrightarrow> CHR '':'' \<notin> set var \<and> CHR ''\<newline>'' \<notin> set var \<and> list_all (\<lambda>k. \<not> old_syntax (var @ k)) ([] # operators) \<and>
     var \<noteq> ''BB_RENAMED_VARIABLES'' \<and> \<not> has_key (ds_renames s) var \<and> var \<notin> set (ds_overridevars s) \<and> ds_layers s \<noteq> [] \<and>
     list_all (\<lambda>k. \<not> has_key (get_or (find_var (ds_layers s) var) []) (''_defaultval_flag_'' @ k)) operators"

lemma no_colon_here: "c \<noteq> CHR '':'' \<Longrightarrow> first_some (\<lambda>k. keyword_here k (c # cs)) ['':append'', '':prepend'', '':remove''] = None"
  by (auto simp: keyword_here_def startswith_def)

lemma keyword_match_none: "CHR '':'' \<notin> set s \<Longrightarrow> keyword_match base s = None"
  by (induction s arbitrary: base) (auto simp: no_colon_here simp del: first_some.simps)

lemma keyword_match_operator:
  "CHR '':'' \<notin> set var \<Longrightarrow> CHR ''\<newline>'' \<notin> set var \<Longrightarrow> k \<in> set operators \<Longrightarrow> keyword_match base (var @ k) = Some (base @ var, k, None)"
proof (induction var arbitrary: base)
  case Nil
  then show ?case by (auto simp: operators_def keyword_here_def startswith_def)
next
  case (Cons c cs)
  then show ?case by (auto simp: no_colon_here simp del: first_some.simps)
qed

lemma partition_plain: "CHR '':'' \<notin> set var \<Longrightarrow> fst (partition_at CHR '':'' (var @ CHR '':'' # rest)) = var"
  "CHR '':'' \<notin> set var \<Longrightarrow> fst (partition_at CHR '':'' var) = var"
  by (simp_all add: partition_at_def takeWhile_tail) (metis takeWhile_eq_all_conv)+

lemma plain_base_target: "plain_base s var \<Longrightarrow> plain_target s var"
  by (simp add: plain_base_def plain_target_def keyword_match_none partition_plain(2))

definition with_operator :: "string \<Rightarrow> string \<Rightarrow> described \<Rightarrow> described" where
  "with_operator k a d = (if k = '':append'' then d\<lparr>d_appends := d_appends d @ [(a, None)]\<rparr>
     else if k = '':prepend'' then d\<lparr>d_prepends := d_prepends d @ [(a, None)]\<rparr> else d\<lparr>d_removes := d_removes d @ [(a, None)]\<rparr>)"

lemma operator_flag: "k \<in> set operators \<Longrightarrow> k \<noteq> ''_content'' \<and> k \<noteq> [] \<and> k \<noteq> ''_defaultval'' \<and> k \<noteq> ''export'' \<and> k \<noteq> ''unexport'' \<and>
    (\<forall>k'. ''_defaultval_flag_'' @ k' \<noteq> k) \<and> k \<noteq> ''_content''"
  by (auto simp: operators_def)

lemma stored_operator:
  assumes "find_var (ds_layers s) var = Some f" and "k \<in> set operators" and "text_ops f k l" and "\<not> has_key f (''_defaultval_flag_'' @ k)"
  shows "\<exists>v. getVarFlag py (Suc n) var k False s = (Inr v, s) \<and> ops_of v = List.map (\<lambda>(t, o'). (Text t, o')) l"
proof -
  have k: "k \<noteq> ''_content''" "k \<noteq> []" using assms(2) using operator_flag[OF assms(2)] by simp_all
  have "getVarFlag py (Suc n) var k False s = (Inr (stored_flag (Some f) k False), s)"
    using k by (simp add: getVarFlag_def get_body_def Let_def act_simps assms(1))
  moreover have "ops_of (stored_flag (Some f) k False) = List.map (\<lambda>(t, o'). (Text t, o')) l"
    using k assms(3,4) by (auto simp: stored_flag_def text_ops_def ops_of_def split: option.splits)
  ultimately show ?thesis by blast
qed

lemma setVarFlag_plain:
  assumes "\<not> has_key (ds_renames s) var" and "var \<noteq> ''BB_RENAMED_VARIABLES''" and "flag \<notin> {''_defaultval'', ''export'', ''unexport''}"
  shows "setVarFlag py n var flag v s = (Inr (), put_flag var flag v (clear_cache s))"
proof -
  have "note_renamed py n var (clear_cache s) = (Inr (), clear_cache s)" using assms(1) by (intro note_not_renamed) simp
  with assms(2,3) show ?thesis by (simp add: setVarFlag_def act_simps Let_def)
qed

lemma put_flag_find: "ds_layers s \<noteq> [] \<Longrightarrow> find_var (ds_layers (put_flag v k x s)) y =
    (if y = v then Some (AList.update k x (get_or (find_var (ds_layers s) v) [])) else find_var (ds_layers s) y)"
  by (simp add: put_flag_def Let_def shadow_copy)

lemma put_flag_fields [simp]:
  "ds_overridedata (put_flag v k x s) = ds_overridedata s" "ds_overrides (put_flag v k x s) = ds_overrides s"
  "ds_overridevars (put_flag v k x s) = ds_overridevars s" "ds_renames (put_flag v k x s) = ds_renames s" "ds_layers (put_flag v k x s) \<noteq> []"
  by (simp_all add: put_flag_def Let_def)

lemma operator_run:
  assumes base: "plain_base s var" and d: "describes s os var d" and k: "k \<in> set operators"
  shows "\<exists>u. setVar py (Suc n) (var @ k) (Text a) True s = (Inr (), u) \<and> plain_base u var \<and> describes u os var (with_operator k a d) \<and>
    (\<forall>x. x \<noteq> var \<longrightarrow> find_var (ds_layers u) x = find_var (ds_layers s) x) \<and>
    ds_overridedata u = fold (add_override var) (steps_of var) (ds_overridedata s)"
proof -
  from d obtain f where f: "find_var (ds_layers s) var = Some f" "map_of f ''_content'' = Some (Text (d_text d))"
      "text_ops f '':prepend'' (d_prepends d)" "text_ops f '':append'' (d_appends d)" "text_ops f '':remove'' (d_removes d)"
    and s: "ds_overrides s = Some os" "map_of (ds_overridedata s) var = None"
    unfolding describes_def by blast
  note P = base[unfolded plain_base_def]
  let ?s = "clear_cache s" and ?l = "if k = '':append'' then d_appends d else if k = '':prepend'' then d_prepends d else d_removes d"
  have l: "text_ops f k ?l" using k f(3-5) by (auto simp: operators_def)
  have weak: "\<not> has_key f (''_defaultval_flag_'' @ k)" using P k f(1) by (auto simp: list_all_iff get_or_def)
  have "find_var (ds_layers ?s) var = Some f" using f(1) by simp
  from stored_operator[OF this k l weak, of py n] obtain v
    where v: "getVarFlag py (Suc n) var k False ?s = (Inr v, ?s)" "ops_of v = List.map (\<lambda>(t, o'). (Text t, o')) ?l" by blast
  let ?ops = "Ops (List.map (\<lambda>(t, o'). (Text t, o')) (?l @ [(a, None)]))"
  let ?t = "put_flag var k ?ops (clear_cache ?s)"
  let ?u = "?t\<lparr>ds_overridedata := fold (add_override var) (steps_of var) (ds_overridedata ?t)\<rparr>"
  have colon: "\<exists>rest. k = CHR '':'' # rest" using k by (auto simp: operators_def)
  have match: "keyword_match [] (var @ k) = Some (var, k, None)" using keyword_match_operator[OF _ _ k, of var "[]"] P by simp
  have flag: "setVarFlag py (Suc n) var k ?ops ?s = (Inr (), ?t)"
    using P operator_flag[OF k] by (intro setVarFlag_plain) simp_all
  have "\<not> old_syntax (var @ k)" using P k by (auto simp: operators_def)
  moreover have "fst (partition_at CHR '':'' (var @ k)) = var" using colon P partition_plain(1) by auto
  ultimately have run: "setVar py (Suc n) (var @ k) (Text a) True s = (Inr (), ?u)"
    using P v flag match by (simp add: setVar_def act_simps note_not_renamed setvar_update_overrides_def overridevar_unused)
  have find: "find_var (ds_layers ?u) x = (if x = var then Some (AList.update k ?ops f) else find_var (ds_layers s) x)" for x
    using P f(1) by (simp add: put_flag_find get_or_def)
  have od: "map_of (ds_overridedata ?u) var = None" using own_overrides_kept[of var "ds_overridedata s"] s(2) by simp
  let ?f = "AList.update k ?ops f"
  have other: "text_ops ?f k' l' = text_ops f k' l'" if "k' \<noteq> k" for k' l' using that by (simp add: text_ops_def)
  have own: "text_ops ?f k (?l @ [(a, None)])" by (simp add: text_ops_def)
  have which: "k = '':append'' \<or> k = '':prepend'' \<or> k = '':remove''" using k by (simp add: operators_def)
  have "text_ops ?f '':prepend'' (d_prepends (with_operator k a d))"
    using which own f(3) other[of "'':prepend''"] by (elim disjE) (simp_all add: with_operator_def)
  moreover have "text_ops ?f '':append'' (d_appends (with_operator k a d))"
    using which own f(4) other[of "'':append''"] by (elim disjE) (simp_all add: with_operator_def)
  moreover have "text_ops ?f '':remove'' (d_removes (with_operator k a d))"
    using which own f(5) other[of "'':remove''"] by (elim disjE) (simp_all add: with_operator_def)
  moreover have "map_of ?f ''_content'' = Some (Text (d_text (with_operator k a d)))"
    using f(2) operator_flag[OF k] by (auto simp: with_operator_def)
  moreover have "ds_overrides ?u = Some os" using s(1) by simp
  ultimately have "describes ?u os var (with_operator k a d)" unfolding describes_def using od find[of var] by auto
  moreover have "plain_base ?u var"
    using P operator_flag[OF k] f(1) find[of var] by (auto simp: plain_base_def list_all_iff get_or_def has_key_map_of)
  ultimately show ?thesis using run find by auto
qed


section \<open>Where a name has no colon and a variable no text\<close>

text \<open>C33: Appending to a variable whose name starts with a small letter or a digit also registers it as an override of
  the variable that is called like it without the last character: the search for the last colon
  finds none and counts it as the last but one position.\<close>

theorem append_registers_prefix:
  assumes "plain_base s var" and "describes s os var d" and "override_start var"
  shows "\<exists>u. appendVar py (Suc n) var a s = (Inr (), u) \<and> (var, var) \<in> set (dict_list (ds_overridedata u) (butlast var))"
proof -
  have "'':append'' \<in> set operators" by (simp add: operators_def)
  from operator_run[OF assms(1,2) this, of py n a] obtain u where u: "setVar py (Suc n) (var @ '':append'') (Text a) True s = (Inr (), u)"
    "ds_overridedata u = fold (add_override var) (steps_of var) (ds_overridedata s)" by blast
  have colon: "CHR '':'' \<notin> set var" using assms(1) by (simp add: plain_base_def)
  then have "CHR '':'' \<notin> set (butlast var)" using in_set_butlastD by fast
  with colon assms(3) have "steps_of var = [(butlast var, var)]"
    by (simp add: steps_of_def colon_split_def override_steps.simps[of var "butlast var" var])
  with u show ?thesis by (simp add: appendVar_def add_override_def set_add_def)
qed

text \<open>Deleting the flags of a variable keeps its text. A variable without one is deleted from the layer
  with its flags, and what the datastore it was copied from knows of it is found again: there the
  flags of a copy cannot be deleted.\<close>

theorem delete_flags_effect:
  assumes "ds_layers s \<noteq> []"
  shows "find_var (ds_layers (snd (delVarFlags var s))) var =
    (case Option.bind (find_var (ds_layers s) var) (\<lambda>f. map_of f ''_content'') of
       Some v \<Rightarrow> Some [(''_content'', v)]
     | None \<Rightarrow> find_var (tl (ds_layers s)) var)"
proof -
  let ?t = "make_shadow_copy var (clear_cache s)"
  have t: "ds_layers ?t \<noteq> []" "local_flags ?t var = get_or (find_var (ds_layers s) var) []" using assms by (simp_all add: shadow_copy)
  have "tl (ds_layers ?t) = tl (ds_layers s)"
    by (simp add: make_shadow_copy_def init_var_def Let_def set_flags_def put_local_def clear_cache_def split: option.split list.split)
  then have gone: "find_var (ds_layers (put_local (AList.delete var (local_dict ?t)) ?t)) var = find_var (tl (ds_layers s)) var"
    by (simp add: put_local_def)
  show ?thesis
  proof (cases "Option.bind (find_var (ds_layers s) var) (\<lambda>f. map_of f ''_content'')")
    case None
    then have "map_of (local_flags ?t var) ''_content'' = None" by (cases "find_var (ds_layers s) var") (simp_all add: t(2) get_or_def)
    with None gone show ?thesis by (simp add: delVarFlags_def act_simps Let_def)
  next
    case (Some v)
    then have "map_of (local_flags ?t var) ''_content'' = Some v" by (cases "find_var (ds_layers s) var") (simp_all add: t(2) get_or_def)
    with Some t(1) show ?thesis by (simp add: delVarFlags_def act_simps Let_def)
  qed
qed

end
