(* ===== verification/Data_Demo.thy ===== *)
theory Data_Demo
  imports Data_Writes
begin

text \<open>
  A small datastore with an empty evaluator of inline Python: the theorems on the datastore applied to it.
\<close>

definition no_python :: python where
  "no_python = \<lparr>py_compile = (\<lambda>varname code. Inl (SyntaxError False)), py_eval = (\<lambda>code. act_return [])\<rparr>"

lemma no_python_quiet: "quiet_python no_python"
  by (simp add: quiet_python_def no_python_def act_simps)

lemma no_python_steady: "steady_python no_python"
  by (simp add: steady_python_def no_python_def keeps_return)

text \<open>A variable with a text and words to remove, one with a space in its text, and the overrides in force\<close>

definition small_flags :: flags where
  "small_flags = [(''_content'', Text ''a b''), ('':append'', Ops [(Text '' c'', None), (Text '' d'', Some ''arm'')]), ('':remove'', Ops [(Text ''b'', None)])]"

definition small_store :: dstore where
  "small_store = (new_dstore [])\<lparr>ds_layers := [[(''V'', small_flags), (''W'', [(''doc'', Text ''w'')])]], ds_overrides := Some [''arm'', ''x''],
     ds_overridesset := [''arm'', ''x'']\<rparr>"

definition small_described :: described where
  "small_described = \<lparr>d_text = ''a b'', d_prepends = [], d_appends = [('' c'', None), ('' d'', Some ''arm'')], d_removes = [(''b'', None)]\<rparr>"

lemma small_describes: "describes small_store [''arm'', ''x''] ''V'' small_described"
  by (simp add: describes_def small_store_def new_dstore_def small_flags_def small_described_def text_ops_def)

lemma small_base: "plain_base small_store ''V''"
  by (simp add: plain_base_def small_store_def new_dstore_def small_flags_def operators_def old_syntax_def startswith_def has_key_def get_or_def)

theorem reading_keeps_variables_witness:
  "same_variables small_store (snd (getVarFlag no_python 3 ''V'' ''_content'' True small_store)) \<and>
    same_variables small_store (snd (getVarFlags no_python 3 ''V'' [''doc''] False small_store)) \<and>
    same_variables small_store (snd (expand_text no_python 3 ''${V}'' small_store)) \<and> same_variables small_store (snd (store_keys no_python 3 small_store))"
  by (rule reading_keeps_variables[OF no_python_quiet])


theorem last_override_applies_witness:
  "resolve_override [''arm'', ''x'', ''arm''] [(''arm'', ''V:arm''), (''x'', ''V:x'')] = Inr ''V:x''"
  by (subst last_override_applies) (simp_all add: has_key_def get_or_def)

theorem variable_value_witness:
  "getVar no_python 1 ''V'' False small_store = (Inr (Text ''a b c d''), small_store) \<and>
    fst (getVar no_python 2 ''V'' True small_store) = Inr (Text ''a  c d'')"
proof -
  have v: "value_of [''arm'', ''x''] small_described = ''a b c d''" by code_simp
  have "no_refs ''a b c d''" by code_simp
  moreover have "list_all no_refs (List.map fst (d_removes small_described))" by code_simp
  moreover have "without_words (applied_texts [''arm'', ''x''] (d_removes small_described)) ''a b c d'' = ''a  c d''" by code_simp
  moreover have "map_of (ds_cache small_store) ''V'' = None" by (simp add: small_store_def new_dstore_def)
  ultimately show ?thesis using variable_value[OF small_describes, of no_python 0] by (simp add: v numeral_2_eq_2)
qed



text \<open>A reference of \<open>OVERRIDES\<close> to itself\<close>

definition looping_store :: dstore where
  "looping_store = (new_dstore [])\<lparr>ds_layers := [[(''OVERRIDES'', [(''_content'', Text ''${OVERRIDES}'')])]]\<rparr>"

definition looping_after :: dstore where
  "looping_after = snd (need_overrides (get_var_flag no_python 2) looping_store)"

lemma looping_fails: "need_overrides (get_var_flag no_python 2) looping_store = (Inl (ExpansionError [''OVERRIDES'']), looping_after)"
proof -
  have "var_pieces ''${OVERRIDES}'' = [Ref ''OVERRIDES'']" "contains ''${OVERRIDES}'' ''${''" by code_simp+
  then have "fst (need_overrides (get_var_flag no_python 2) looping_store) = Inl (ExpansionError [''OVERRIDES''])"
    by (simp add: need_overrides_def act_simps looping_store_def new_dstore_def read_overrides_def get_content_def numeral_2_eq_2 numeral_Bit1
        get_body_def overriding_def apply_op_def local_op_def stored_flag_def Let_def expandWithRefs_def expanding_def sub_vars_def sub_piece_def
        var_sub_def expansion_error_def)
  then show ?thesis by (simp add: looping_after_def prod_eq_iff)
qed

theorem failed_overrides_not_retried_witness:
  "need_overrides (get_var_flag no_python 5) looping_after = (Inr (), looping_after)"
  by (rule failed_overrides_not_retried[OF no_python_steady looping_fails])

text \<open>The name of a program and one that is called like it with an \<open>s\<close>\<close>

definition named_store :: dstore where
  "named_store = (new_dstore [])\<lparr>ds_layers := [[(''foos'', [(''_content'', Text ''b'')]), (''foo'', [(''_content'', Text ''a'')])]],
     ds_overrides := Some [''foos''], ds_overridesset := [''foos'']\<rparr>"

theorem append_registers_prefix_witness:
  "\<exists>u. appendVar no_python 2 ''foos'' ''c'' named_store = (Inr (), u) \<and> (''foos'', ''foos'') \<in> set (dict_list (ds_overridedata u) ''foo'')"
proof -
  have "plain_base named_store ''foos''"
    by (simp add: plain_base_def named_store_def new_dstore_def operators_def old_syntax_def startswith_def has_key_def get_or_def)
  moreover have "describes named_store [''foos''] ''foos'' (bare ''b'')"
    by (simp add: describes_def named_store_def new_dstore_def bare_def text_ops_def)
  moreover have "override_start ''foos''" by code_simp
  ultimately show ?thesis using append_registers_prefix[of named_store "''foos''" "[''foos'']" "bare ''b''" no_python 1 "''c''"] by (simp add: numeral_2_eq_2)
qed

theorem delete_flags_effect_witness:
  "find_var (ds_layers (snd (delVarFlags ''W'' (createCopy small_store)))) ''W'' = Some [(''doc'', Text ''w'')]"
proof -
  have "ds_layers (createCopy small_store) \<noteq> []" by (simp add: createCopy_def)
  from delete_flags_effect[OF this, of "''W''"] show ?thesis by (simp add: createCopy_def small_store_def new_dstore_def)
qed

text \<open>The variable \<open>foo\<close> reads as \<open>foos\<close>.\<close>

lemma prefix_is_overridden:
  "fst (act_then (appendVar no_python 3 ''foos'' ''c'') (getVar no_python 4 ''foo'' False) named_store) = Inr (Text ''bc'')"
  by code_simp

end
