(* ===== verification/Meta_Lines.thy ===== *)
theory Meta_Lines
  imports Py_Action
begin

text \<open>
  The parsers of the metadata: \<open>ConfHandler.py\<close> and \<open>BBHandler.py\<close> read a file line by line into the
  statements of \<open>ast.py\<close>. A regular expression is the function that its matcher computes: the
  alternatives in order, the longest match of a repetition first. A line is a list of characters
  without its line end; an object of \<open>ast.py\<close> is its file, its line and what it says.
\<close>

section \<open>Statements\<close>

datatype assign_op = Set_Now | Immediate | Weak | Default | Append_Space | Prepend_Space | Prepend_Dot | Append_Dot

record assignment =
  as_export :: bool
  as_var :: string
  as_flag :: "string option"
  as_op :: assign_op
  as_value :: string

datatype statement =
    Assign assignment
  | Include_File string bool
  | Include_All string
  | Export_Var string
  | Unset_Var string
  | Unset_Flag string string
  | Py_Lib string string
  | Add_Fragments string string string string
  | Method string "string list" bool bool
  | Py_Method string string "string list"
  | Export_Funcs string string
  | Add_Task string string string
  | Del_Task string
  | Add_Handler string
  | Inherit_Class string
  | Inherit_Defer string

type_synonym node = "string \<times> nat \<times> statement"

section \<open>Pieces of the regular expressions\<close>

fun first_match :: "('a \<Rightarrow> 'b option) \<Rightarrow> 'a list \<Rightarrow> 'b option" where
  "first_match f [] = None"
| "first_match f (x # xs) = (case f x of Some y \<Rightarrow> Some y | None \<Rightarrow> first_match f xs)"

text \<open>\<open>\\w\<close>\<close>

definition word_char :: "char \<Rightarrow> bool" where
  "word_char c \<longleftrightarrow> is_alpha c \<or> is_digit c \<or> c = CHR ''_'' \<or>
     (let n = (of_char c :: nat) in n \<in> {170, 178, 179, 181, 185, 186, 188, 189, 190} \<or> (192 \<le> n \<and> n \<noteq> 215 \<and> n \<noteq> 247))"

text \<open>What may follow \<open>keyword\s+\<close>, after the most white space first\<close>

definition after_keyword :: "string \<Rightarrow> string \<Rightarrow> string list" where
  "after_keyword keyword s =
     (if startswith s keyword then
        let t = drop (length keyword) s
        in List.map (\<lambda>k. drop k t) (rev [1..<Suc (length (takeWhile py_space t))])
      else [])"

text \<open>\<open>keyword\s+(P+)\<close>\<close>

definition keyword_group :: "(char \<Rightarrow> bool) \<Rightarrow> string \<Rightarrow> string \<Rightarrow> string option" where
  "keyword_group P keyword s = first_match (\<lambda>t. let g = takeWhile P t in if g = [] then None else Some g) (after_keyword keyword s)"

text \<open>\<open>keyword\s+(P+)$\<close>\<close>

definition keyword_whole :: "(char \<Rightarrow> bool) \<Rightarrow> string \<Rightarrow> string \<Rightarrow> string option" where
  "keyword_whole P keyword s = first_match (\<lambda>t. if t \<noteq> [] \<and> list_all P t then Some t else None) (after_keyword keyword s)"

definition any_char :: "char \<Rightarrow> bool" where
  "any_char c = True"

text \<open>\<open>(.+)\s+ ... (.+)\<close> with \<open>k\<close> gaps\<close>

fun greedy_groups :: "nat \<Rightarrow> string \<Rightarrow> string list option" where
  "greedy_groups 0 t = (if t = [] then None else Some [t])"
| "greedy_groups (Suc k) t =
     first_match (\<lambda>i. first_match (\<lambda>j. map_option (\<lambda>gs. take i t # gs) (greedy_groups k (drop (i + j) t)))
         (rev [1..<Suc (length (takeWhile py_space (drop i t)))]))
       (rev [1..<Suc (length t)])"

definition keyword_groups :: "nat \<Rightarrow> string \<Rightarrow> string \<Rightarrow> string list option" where
  "keyword_groups k keyword s = first_match (greedy_groups k) (after_keyword keyword s)"

section \<open>An assignment\<close>

definition var_char :: "char \<Rightarrow> bool" where
  "var_char c \<longleftrightarrow> is_alpha c \<or> is_digit c \<or> c \<in> set ''-_+.${}/~:''"

definition flag_start :: "char \<Rightarrow> bool" where
  "flag_start c \<longleftrightarrow> is_alpha c \<or> is_digit c \<or> c \<in> set ''-_+.''"

definition flag_char :: "char \<Rightarrow> bool" where
  "flag_char c \<longleftrightarrow> flag_start c \<or> c = CHR ''@'' \<or> c = CHR ''/''"

text \<open>\<open>(\[flag\])?\<close> at the head of a text: the ways it matches\<close>

definition flag_options :: "string \<Rightarrow> (string option \<times> string) list" where
  "flag_options s =
     (case s of
        c # t \<Rightarrow>
          if c = CHR ''['' then
            (case takeWhile flag_char t of
               f # fs \<Rightarrow> (if flag_start f \<and> startswith (drop (length (f # fs)) t) '']'' then [(Some (f # fs), drop (length (f # fs) + 1) t)] else [])
             | [] \<Rightarrow> [])
          else []
      | [] \<Rightarrow> []) @ [(None, s)]"

definition op_texts :: "(string \<times> assign_op) list" where
  "op_texts = [('':='', Immediate), (''??='', Weak), (''?='', Default), (''+='', Append_Space), (''=+'', Prepend_Space), (''=.'', Prepend_Dot),
     (''.='', Append_Dot), (''='', Set_Now)]"

text \<open>\<open>(?!q[^q]*q[^q]*q$)\<close>: the text has three quotes, the first and the last character among them.\<close>

definition three_quotes :: "char \<Rightarrow> string \<Rightarrow> bool" where
  "three_quotes q s \<longleftrightarrow> length (filter (\<lambda>c. c = q) s) = 3 \<and> hd s = q \<and> last s = q"

definition quoted :: "string \<Rightarrow> string option" where
  "quoted s =
     (case s of
        [] \<Rightarrow> None
      | q # t \<Rightarrow>
          if (q = CHR 0x27 \<or> q = CHR ''\"'') \<and> t \<noteq> [] \<and> last t = q \<and> \<not> three_quotes CHR 0x27 s \<and> \<not> three_quotes CHR ''\"'' s
          then Some (butlast t) else None)"

definition skip_space :: "string \<Rightarrow> string" where
  "skip_space s = dropWhile py_space s"

definition assigned :: "string \<Rightarrow> (assign_op \<times> string) option" where
  "assigned s = first_match (\<lambda>(text, op). if startswith s text then map_option (\<lambda>v. (op, v)) (quoted (skip_space (drop (length text) s))) else None) op_texts"

definition assign_at :: "bool \<Rightarrow> string \<Rightarrow> assignment option" where
  "assign_at exp t = first_match (\<lambda>i. first_match (\<lambda>(flag, u).
       map_option (\<lambda>(op, v). \<lparr>as_export = exp, as_var = take i t, as_flag = flag, as_op = op, as_value = v\<rparr>) (assigned (skip_space u)))
       (flag_options (drop i t))) [0..<Suc (length (takeWhile var_char t))]"

definition config_line :: "string \<Rightarrow> assignment option" where
  "config_line s = first_match (\<lambda>(exp, t). assign_at exp t) (List.map (\<lambda>t. (True, t)) (after_keyword ''export'' s) @ [(False, s)])"

section \<open>The lines of a configuration file\<close>

text \<open>\<open>feeder\<close> of \<open>ConfHandler.py\<close>\<close>

definition export_char :: "char \<Rightarrow> bool" where
  "export_char c \<longleftrightarrow> is_alpha c \<or> is_digit c \<or> c \<in> set ''-_+.${}/~''"

definition unset_flag :: "string \<Rightarrow> (string \<times> string) option" where
  "unset_flag s = first_match (\<lambda>t.
     let var = takeWhile export_char t; rest = drop (length var) t
     in if var \<noteq> [] \<and> startswith rest ''['' \<and> endswith rest '']'' \<and> 4 \<le> length rest \<and> flag_start (rest ! 1) \<and>
           list_all (\<lambda>c. flag_start c \<or> c = CHR ''@'') (butlast (drop 2 rest))
        then Some (var, butlast (tl rest)) else None) (after_keyword ''unset'' s)"

definition first_of :: "'a option list \<Rightarrow> 'a option" where
  "first_of xs = first_match id xs"

definition conf_statement :: "bool \<Rightarrow> bool \<Rightarrow> string \<Rightarrow> statement option" where
  "conf_statement baseconfig conffile s = first_of
     [map_option (\<lambda>f. Include_File f False) (keyword_group any_char ''include'' s),
      map_option (\<lambda>f. Include_File f True) (keyword_group any_char ''require'' s),
      map_option Include_All (keyword_group any_char ''include_all'' s),
      map_option Export_Var (keyword_whole export_char ''export'' s),
      map_option Unset_Var (keyword_whole export_char ''unset'' s),
      map_option (\<lambda>(v, f). Unset_Flag v f) (unset_flag s),
      (if baseconfig \<and> conffile then (case keyword_groups 1 ''addpylib'' s of Some [a, b] \<Rightarrow> Some (Py_Lib a b) | _ \<Rightarrow> None) else None),
      (case keyword_groups 3 ''addfragments'' s of Some [a, b, c, d] \<Rightarrow> Some (Add_Fragments a b c d) | _ \<Rightarrow> None)]"

definition conf_feeder :: "bool \<Rightarrow> bool \<Rightarrow> string \<Rightarrow> nat \<Rightarrow> string \<Rightarrow> node list \<Rightarrow> node list res" where
  "conf_feeder baseconfig conffile fn lineno s statements =
     (case config_line s of
        Some a \<Rightarrow> if as_var a = [] then Inl (ParseError fn lineno) else Inr (statements @ [(fn, lineno, Assign a)])
      | None \<Rightarrow> (case conf_statement baseconfig conffile s of
          Some st \<Rightarrow> Inr (statements @ [(fn, lineno, st)])
        | None \<Rightarrow> Inl (ParseError fn lineno)))"

text \<open>A line that ends in a backslash goes on in the next one, which at the end of the file is empty. A
  line of a backslash alone followed by an empty one has no last character then.\<close>

definition rstrip :: "string \<Rightarrow> string" where
  "rstrip s = rstrip_chars py_space s"

definition mixed_comment :: "string \<Rightarrow> string \<Rightarrow> bool" where
  "mixed_comment s s2 \<longleftrightarrow> (s2 = [] \<or> hd s2 \<noteq> CHR ''#'') \<and> hd s = CHR ''#''"

function joined_line :: "nat \<Rightarrow> string \<Rightarrow> string list \<Rightarrow> (nat \<times> string \<times> string list) res" where
  "joined_line lineno s lines =
     (if s = [] then Inl IndexError
      else if last s \<noteq> CHR 0x5C then Inr (lineno, s, lines)
      else let s2 = (case lines of [] \<Rightarrow> [] | l # ls \<Rightarrow> rstrip l)
           in if mixed_comment s s2 then Inl BBHandledException
              else joined_line (Suc lineno) (butlast s @ s2) (tl lines))"
  by pat_completeness auto
termination
  by (relation "measures [\<lambda>(lineno, s, lines). length lines, \<lambda>(lineno, s, lines). length s]") (auto split: list.splits)

declare joined_line.simps [simp del]

lemma joined_line_rest: "joined_line lineno s lines = Inr (lineno', s', lines') \<Longrightarrow> length lines' \<le> length lines"
proof (induction lineno s lines arbitrary: lineno' s' lines' rule: joined_line.induct)
  case (1 lineno s lines)
  from "1.prems" show ?case
    by (subst (asm) joined_line.simps) (fastforce dest: "1.IH"[rotated -1] split: if_splits simp: Let_def)
qed

function conf_nodes :: "bool \<Rightarrow> string \<Rightarrow> nat \<Rightarrow> string list \<Rightarrow> node list \<Rightarrow> node list res" where
  "conf_nodes baseconfig fn lineno [] statements = Inr statements"
| "conf_nodes baseconfig fn lineno (l # ls) statements =
     (if strip_chars py_space l = [] then conf_nodes baseconfig fn (Suc lineno) ls statements
      else case joined_line (Suc lineno) (rstrip l) ls of
        Inl e \<Rightarrow> Inl e
      | Inr (n, s, rest) \<Rightarrow>
          if hd s = CHR ''#'' then conf_nodes baseconfig fn n rest statements
          else (case conf_feeder baseconfig True fn n s statements of
              Inl e \<Rightarrow> Inl e
            | Inr statements \<Rightarrow> conf_nodes baseconfig fn n rest statements))"
  by pat_completeness auto
termination
  by (relation "measure (\<lambda>(b, fn, lineno, lines, statements). length lines)") (auto dest: joined_line_rest)

section \<open>The lines of a recipe or class\<close>

text \<open>The variables of the module: \<open>__infunc__\<close> (name, line of the head, \<open>python\<close>, \<open>fakeroot\<close>), \<open>__inpython__\<close>,
  \<open>__body__\<close>, \<open>__residue__\<close>, and the statements so far\<close>

record bb_state =
  bb_infunc :: "(string \<times> nat \<times> bool \<times> bool) option"
  bb_inpython :: "string option"
  bb_body :: "string list"
  bb_residue :: "string list"
  bb_nodes :: "node list"

definition new_bb_state :: bb_state where
  "new_bb_state = \<lparr>bb_infunc = None, bb_inpython = None, bb_body = [], bb_residue = [], bb_nodes = []\<rparr>"

text \<open>The head of a function: \<open>python\<close> and \<open>fakeroot\<close>, a name, empty parentheses and a brace\<close>

function func_words :: "bool \<Rightarrow> bool \<Rightarrow> string \<Rightarrow> bool \<times> bool \<times> string" where
  "func_words py fr s =
     (if startswith s ''python'' \<and> (\<exists>c \<in> set (take 1 (drop 6 s)). py_space c \<or> c = CHR ''('') then func_words True fr (skip_space (drop 6 s))
      else if startswith s ''fakeroot'' \<and> (\<exists>c \<in> set (take 1 (drop 8 s)). py_space c) then func_words py True (skip_space (drop 8 s))
      else (py, fr, s))"
  by pat_completeness auto

lemma skip_space_length: "length (skip_space s) \<le> length s"
  by (simp add: skip_space_def length_dropWhile_le)

lemma words_shorter: "startswith s w \<Longrightarrow> w \<noteq> [] \<Longrightarrow> length (skip_space (drop (length w) s)) < length s"
proof -
  assume w: "startswith s w" "w \<noteq> []"
  have "length w \<le> length s" using w(1) unfolding startswith_def by (metis length_take min.cobounded1)
  moreover have "0 < length w" using w(2) by simp
  ultimately have "length (drop (length w) s) < length s" unfolding length_drop by linarith
  with skip_space_length[of "drop (length w) s"] show ?thesis by linarith
qed

lemma func_words_shorter:
  "startswith s ''python'' \<Longrightarrow> length (skip_space (drop 6 s)) < length s"
  "startswith s ''fakeroot'' \<Longrightarrow> length (skip_space (drop 8 s)) < length s"
  using words_shorter[of s "''python''"] words_shorter[of s "''fakeroot''"] by (simp_all add: eval_nat_numeral)

termination func_words
  by (relation "measure (\<lambda>(py, fr, s). length s)") (simp_all add: func_words_shorter)

declare func_words.simps [simp del]

definition func_char :: "char \<Rightarrow> bool" where
  "func_char c \<longleftrightarrow> word_char c \<or> c \<in> set ''.-+{}$:''"

definition func_start :: "string \<Rightarrow> (string \<times> bool \<times> bool) option" where
  "func_start s = (case func_words False False s of (py, fr, t) \<Rightarrow>
     let func = takeWhile func_char t; t = skip_space (drop (length func) t)
     in if startswith t ''('' \<and> startswith (skip_space (drop 1 t)) '')'' \<and> skip_space (drop 1 (skip_space (drop 1 t))) = ''{''
        then Some (if func = [] then ''__anonymous'' else func, py, fr) else None)"

text \<open>\<open>def name ... :\<close>\<close>

definition def_start :: "string \<Rightarrow> string option" where
  "def_start s = first_match (\<lambda>t. let w = takeWhile word_char t in if w \<noteq> [] \<and> CHR '':'' \<in> set (drop (length w) t) then Some w else None)
     (after_keyword ''def'' s)"

text \<open>\<open>s.split(sub)\<close>\<close>

function split_sub :: "string \<Rightarrow> string \<Rightarrow> string list" where
  "split_sub sub s = (if sub \<noteq> [] \<and> contains s sub then before_sub sub s # split_sub sub (after_sub sub s) else [s])"
  by pat_completeness auto

lemma after_sub_shorter: "sub \<noteq> [] \<Longrightarrow> contains s sub \<Longrightarrow> length (after_sub sub s) < length s"
  by (induction s) (auto split: if_splits)

termination split_sub
  by (relation "measure (\<lambda>(sub, s). length s)") (auto dest: after_sub_shorter)

declare split_sub.simps [simp del]

text \<open>The names after every \<open>keyword\<close> of an \<open>addtask\<close> line, in the parts before the next \<open>other\<close>\<close>

definition task_clause :: "string \<Rightarrow> string \<Rightarrow> string \<Rightarrow> string" where
  "task_clause keyword other g =
     List.concat (List.map (\<lambda>exp. let e2 = split_sub keyword exp in if 1 < length e2 then join '' '' (tl e2) else []) (split_sub other g))"

definition add_task_line :: "string \<Rightarrow> statement" where
  "add_task_line g = Add_Task (hd (split_sub '' after '' (hd (split_sub '' before '' g)))) (task_clause '' before '' '' after '' g)
     (task_clause '' after '' '' before '' g)"

definition not_comment :: "char \<Rightarrow> bool" where
  "not_comment c \<longleftrightarrow> c \<noteq> CHR ''#''"

definition keyword_in_task :: "string \<Rightarrow> bool" where
  "keyword_in_task s \<longleftrightarrow> list_ex (\<lambda>te. list_ex (\<lambda>k. contains te (k @ ''_'')) ['':append'', '':prepend'', '':remove'']) (split_ws s)"

text \<open>A statement in one line that is no function\<close>

definition bb_statement :: "string \<Rightarrow> string \<Rightarrow> nat \<Rightarrow> string \<Rightarrow> bb_state \<Rightarrow> bb_state res" where
  "bb_statement classname fn lineno s st =
     (let put = (\<lambda>x. Inr (st\<lparr>bb_nodes := bb_nodes st @ [(fn, lineno, x)]\<rparr>)) in
      case keyword_group any_char ''EXPORT_FUNCTIONS'' s of Some fns \<Rightarrow> put (Export_Funcs fns classname) | None \<Rightarrow>
     (case keyword_group not_comment ''addtask'' s of Some g \<Rightarrow> (if keyword_in_task s then Inl (ParseError fn 0) else put (add_task_line g)) | None \<Rightarrow>
     (case keyword_group not_comment ''deltask'' s of Some g \<Rightarrow> put (Del_Task g) | None \<Rightarrow>
     (case keyword_group any_char ''addhandler'' s of Some g \<Rightarrow> put (Add_Handler g) | None \<Rightarrow>
     (case keyword_group any_char ''inherit'' s of Some g \<Rightarrow> put (Inherit_Class g) | None \<Rightarrow>
     (case keyword_group any_char ''inherit_defer'' s of Some g \<Rightarrow> put (Inherit_Defer g) | None \<Rightarrow>
      res_bind (conf_feeder False False fn lineno s (bb_nodes st)) (\<lambda>nodes. Inr (st\<lparr>bb_nodes := nodes\<rparr>))))))))"

text \<open>A line outside of a function: comments, continuation lines and statements. The first line that was
  continued is looked at by its first character.\<close>

definition residue_comment :: "bb_state \<Rightarrow> bool res" where
  "residue_comment st = (case bb_residue st of [] \<Rightarrow> Inr False | r # rs \<Rightarrow> (case r of [] \<Rightarrow> Inl IndexError | c # cs \<Rightarrow> Inr (c = CHR ''#'')))"

definition bb_line :: "string \<Rightarrow> string \<Rightarrow> nat \<Rightarrow> string \<Rightarrow> bb_state \<Rightarrow> bb_state res" where
  "bb_line classname fn lineno s st =
     res_bind (residue_comment st) (\<lambda>commented.
     let comment = startswith s ''#'' in
     if bb_residue st \<noteq> [] \<and> comment \<noteq> commented then Inl BBHandledException
     else if s \<noteq> [] \<and> last s = CHR 0x5C then Inr (st\<lparr>bb_residue := bb_residue st @ [butlast s]\<rparr>)
     else let s = List.concat (bb_residue st) @ s; st = st\<lparr>bb_residue := []\<rparr>
       in if s = [] \<or> startswith s ''#'' then Inr st
          else (case func_start s of
              Some (func, py, fr) \<Rightarrow> Inr (st\<lparr>bb_infunc := Some (func, lineno, py, fr)\<rparr>)
            | None \<Rightarrow> (case def_start s of
                Some f \<Rightarrow> Inr (st\<lparr>bb_body := bb_body st @ [s], bb_inpython := Some f\<rparr>)
              | None \<Rightarrow> bb_statement classname fn lineno s st)))"

text \<open>\<open>feeder\<close> of \<open>BBHandler.py\<close>; \<open>root\<close> is the base name of the file\<close>

definition python_line :: "string \<Rightarrow> bool" where
  "python_line s \<longleftrightarrow> (case s of [] \<Rightarrow> True | c # cs \<Rightarrow> py_space c \<or> c = CHR ''#'')"

definition bb_feeder :: "string \<Rightarrow> string \<Rightarrow> string \<Rightarrow> nat \<Rightarrow> string \<Rightarrow> bool \<Rightarrow> bb_state \<Rightarrow> bb_state res" where
  "bb_feeder classname fn root lineno s eof st =
     (case bb_infunc st of
        Some (func, start, py, fr) \<Rightarrow>
          if s = ''}'' then Inr (st\<lparr>bb_nodes := bb_nodes st @ [(fn, lineno, Method func (bb_body st @ [[]]) py fr)], bb_infunc := None, bb_body := []\<rparr>)
          else Inr (st\<lparr>bb_body := bb_body st @ [s]\<rparr>)
      | None \<Rightarrow> (case bb_inpython st of
          Some f \<Rightarrow>
            if python_line s \<and> \<not> eof then Inr (st\<lparr>bb_body := bb_body st @ [s]\<rparr>)
            else let st = st\<lparr>bb_nodes := bb_nodes st @ [(fn, lineno, Py_Method f root (bb_body st))], bb_body := [], bb_inpython := None\<rparr>
                 in if eof then Inr st else bb_line classname fn lineno s st
        | None \<Rightarrow> bb_line classname fn lineno s st))"

fun bb_feed :: "string \<Rightarrow> string \<Rightarrow> string \<Rightarrow> nat \<Rightarrow> string list \<Rightarrow> bb_state \<Rightarrow> bb_state res" where
  "bb_feed classname fn root lineno [] st = Inr st"
| "bb_feed classname fn root lineno (l # ls) st =
     res_bind (bb_feeder classname fn root (Suc lineno) (rstrip l) False st) (bb_feed classname fn root (Suc lineno) ls)"

text \<open>\<open>get_statements\<close>: a file that ends in a function or in a continued line is an error. A shell function
  that is not closed is noticed by \<open>handle\<close> only if it has no line.\<close>

definition bb_close :: "string \<Rightarrow> string \<Rightarrow> string \<Rightarrow> nat \<Rightarrow> bb_state \<Rightarrow> bb_state res" where
  "bb_close classname fn root lineno st =
     res_bind (if bb_inpython st \<noteq> None then bb_feeder classname fn root lineno [] True st else Inr st) (\<lambda>st.
     if bb_residue st \<noteq> [] \<or> bb_body st \<noteq> [] then Inl (ParseError fn lineno) else Inr st)"

definition bb_statements :: "string \<Rightarrow> string \<Rightarrow> string \<Rightarrow> string list \<Rightarrow> bb_state res" where
  "bb_statements classname fn root lines =
     res_bind (bb_feed classname fn root 0 lines new_bb_state) (bb_close classname fn root (Suc (length lines)))"

end
