(* ===== verification/Meta_Facts.thy ===== *)
theory Meta_Facts
  imports Meta_Lines
begin

text \<open>
  What the parsers read: an assignment is read as it is written, a function with its body, and lines
  that are misread.
\<close>

section \<open>Alternatives\<close>

lemma first_match_head: "f x = Some y \<Longrightarrow> first_match f (x # xs) = Some y"
  by simp

lemma first_match_skip: "(\<And>x. x \<in> set xs \<Longrightarrow> f x = None) \<Longrightarrow> first_match f (xs @ ys) = first_match f ys"
  by (induction xs) simp_all

section \<open>An assignment\<close>

definition op_text :: "assign_op \<Rightarrow> string" where
  "op_text op = (case op of Set_Now \<Rightarrow> ''='' | Immediate \<Rightarrow> '':='' | Weak \<Rightarrow> ''??='' | Default \<Rightarrow> ''?='' | Append_Space \<Rightarrow> ''+=''
     | Prepend_Space \<Rightarrow> ''=+'' | Prepend_Dot \<Rightarrow> ''=.'' | Append_Dot \<Rightarrow> ''.='')"

definition flag_text :: "string option \<Rightarrow> string" where
  "flag_text f = (case f of None \<Rightarrow> [] | Some t \<Rightarrow> ''['' @ t @ '']'')"

text \<open>An assignment as it is written\<close>

definition assignment_text :: "char \<Rightarrow> assignment \<Rightarrow> string" where
  "assignment_text q a = (if as_export a then ''export '' else []) @ as_var a @ flag_text (as_flag a) @ '' '' @ op_text (as_op a) @ '' '' @
     [q] @ as_value a @ [q]"

definition writable :: "char \<Rightarrow> assignment \<Rightarrow> bool" where
  "writable q a \<longleftrightarrow> (q = CHR 0x27 \<or> q = CHR ''\"'') \<and> list_all var_char (as_var a) \<and>
     (case as_flag a of None \<Rightarrow> True | Some f \<Rightarrow> list_all flag_char f \<and> f \<noteq> [] \<and> flag_start (hd f)) \<and>
     length (filter (\<lambda>c. c = q) (as_value a)) \<noteq> 1 \<and> (as_export a \<or> as_var a \<noteq> ''export'' \<or> as_flag a \<noteq> None)"

lemma quoted_text:
  assumes "q = CHR 0x27 \<or> q = CHR ''\"''" and "length (filter (\<lambda>c. c = q) v) \<noteq> 1"
  shows "quoted (q # v @ [q]) = Some v"
proof -
  have "\<not> three_quotes r (q # v @ [q])" if "r = CHR 0x27 \<or> r = CHR ''\"''" for r
    using assms(2) by (auto simp: three_quotes_def)
  then show ?thesis using assms(1) by (auto simp: quoted_def butlast_append)
qed

lemma assigned_text:
  assumes "quoted s = Some v" and "\<not> py_space (hd s)"
  shows "assigned (op_text op @ '' '' @ s) = Some (op, v)"
proof -
  from assms(1) obtain q t where s: "s = q # t" "q = CHR 0x27 \<or> q = CHR ''\"''" by (auto simp: quoted_def split: list.splits if_splits)
  have skip: "skip_space (CHR '' '' # s) = s" using assms(2) s(1) by (simp add: skip_space_def py_space_def)
  show ?thesis using s(2) skip assms(1)
    by (cases op) (auto simp: assigned_def op_texts_def op_text_def startswith_def s(1))
qed

text \<open>No shorter variable is followed by something that can be assigned with.\<close>

lemma var_char_space: "var_char c \<Longrightarrow> \<not> py_space c"
  by (auto simp: var_char_def py_space_def is_alpha_def is_digit_def Let_def)

lemma var_char_bracket: "var_char c \<Longrightarrow> c \<noteq> CHR ''[''"
  by (auto simp: var_char_def is_alpha_def is_digit_def Let_def)

lemma var_char_equals: "var_char c \<Longrightarrow> c \<noteq> CHR ''=''"
  by (auto simp: var_char_def is_alpha_def is_digit_def Let_def)

lemma var_char_question: "var_char c \<Longrightarrow> c \<noteq> CHR ''?''"
  by (auto simp: var_char_def is_alpha_def is_digit_def Let_def)

lemma var_char_op:
  assumes "var_char c" and "d \<noteq> CHR ''=''"
  shows "assigned (skip_space (c # d # rest)) = None"
proof -
  have "c \<noteq> CHR ''=''" "c \<noteq> CHR ''?''" "skip_space (c # d # rest) = c # d # rest"
    using assms(1) var_char_space by (auto simp: skip_space_def var_char_equals var_char_question)
  with assms(2) show ?thesis by (simp add: assigned_def op_texts_def startswith_def)
qed

lemma flag_options_plain: "c \<noteq> CHR ''['' \<Longrightarrow> flag_options (c # t) = [(None, c # t)]"
  by (simp add: flag_options_def)

lemma flag_options_text:
  assumes "list_all flag_char f" and "f \<noteq> []" and "flag_start (hd f)"
  shows "flag_options (CHR ''['' # f @ CHR '']'' # rest) = [(Some f, rest), (None, CHR ''['' # f @ CHR '']'' # rest)]"
proof -
  have "\<not> flag_char CHR '']''" by (simp add: flag_char_def flag_start_def is_alpha_def is_digit_def)
  with assms(1) have "takeWhile flag_char (f @ CHR '']'' # rest) = f" by (simp add: takeWhile_append2 list_all_iff)
  with assms(2,3) show ?thesis by (cases f) (simp_all add: flag_options_def startswith_def)
qed

text \<open>A name followed by a flag or white space: the shorter names are tried first and do not match.\<close>

lemma assign_at_text:
  assumes var: "list_all var_char var" and flag: "case flag of None \<Rightarrow> True | Some f \<Rightarrow> list_all flag_char f \<and> f \<noteq> [] \<and> flag_start (hd f)"
    and s: "quoted s = Some v" "\<not> py_space (hd s)"
  shows "assign_at exp (var @ flag_text flag @ '' '' @ op_text op @ '' '' @ s) =
    Some \<lparr>as_export = exp, as_var = var, as_flag = flag, as_op = op, as_value = v\<rparr>"
proof -
  let ?rest = "'' '' @ op_text op @ '' '' @ s" and ?n = "length var"
  let ?t = "var @ flag_text flag @ ?rest"
  let ?attempt = "\<lambda>i. first_match (\<lambda>(flag, u).
       map_option (\<lambda>(op, v). \<lparr>as_export = exp, as_var = take i ?t, as_flag = flag, as_op = op, as_value = v\<rparr>) (assigned (skip_space u)))
       (flag_options (drop i ?t))"
  obtain c tail where tail: "flag_text flag @ ?rest = c # tail" "c = CHR ''['' \<or> c = CHR '' ''" by (cases flag) (auto simp: flag_text_def)
  have "\<not> var_char c" using tail(2) var_char_bracket var_char_space[of "CHR '' ''"] by (auto simp: py_space_def)
  then have word: "takeWhile var_char ?t = var" using var tail(1) by (simp add: takeWhile_append2 list_all_iff)
  have short: "?attempt i = None" if i: "i < ?n" for i
  proof -
    let ?c = "var ! i"
    obtain d rest where d: "drop (Suc i) ?t = d # rest" "d \<noteq> CHR ''=''"
    proof (cases "Suc i < ?n")
      case True
      then have "drop (Suc i) ?t = var ! Suc i # drop (Suc (Suc i)) var @ flag_text flag @ ?rest" by (simp add: Cons_nth_drop_Suc[symmetric])
      moreover have "var ! Suc i \<noteq> CHR ''=''" using var True var_char_equals by (auto simp: list_all_length)
      ultimately show thesis using that by blast
    next
      case False
      with i have "drop (Suc i) ?t = c # tail" using tail(1) by simp
      then show thesis using that tail(2) by blast
    qed
    have c: "var_char ?c" using var i by (simp add: list_all_length)
    have drop: "drop i ?t = ?c # d # rest" using d(1) i by (metis Cons_nth_drop_Suc length_append nth_append trans_less_add1)
    show ?thesis unfolding drop using var_char_op[OF c d(2)] var_char_bracket[OF c] by (simp add: flag_options_plain)
  qed
  have skip: "skip_space ?rest = op_text op @ '' '' @ s"
    by (cases op) (simp_all add: skip_space_def op_text_def py_space_def)
  have full: "?attempt ?n = Some \<lparr>as_export = exp, as_var = var, as_flag = flag, as_op = op, as_value = v\<rparr>"
  proof (cases flag)
    case None
    then show ?thesis using skip assigned_text[OF s] by (simp add: flag_text_def flag_options_plain)
  next
    case (Some f)
    with flag have "flag_options (flag_text flag @ ?rest) = [(Some f, ?rest), (None, flag_text flag @ ?rest)]"
      using flag_options_text[of f ?rest] by (simp add: flag_text_def)
    with Some show ?thesis using skip assigned_text[OF s] by simp
  qed
  have "assign_at exp ?t = first_match ?attempt ([0..<?n] @ [?n])" unfolding assign_at_def word by simp
  also have "\<dots> = first_match ?attempt [?n]" by (rule first_match_skip) (use short in simp)
  finally show ?thesis using full by simp
qed

lemma after_keyword_one:
  assumes "py_space d" and "t \<noteq> []" and "\<not> py_space (hd t)"
  shows "after_keyword w (w @ d # t) = [t]"
proof -
  have "takeWhile py_space (d # t) = [d]" using assms by (cases t) simp_all
  then show ?thesis by (simp add: after_keyword_def startswith_def)
qed

lemma after_keyword_inside:
  assumes word: "list_all (\<lambda>c. \<not> py_space c) w" and space: "py_space d" and keyword: "list_all (\<lambda>c. \<not> py_space c) k" and "w \<noteq> k"
  shows "after_keyword k (w @ d # t) = []"
proof (cases "startswith (w @ d # t) k")
  case True
  then have take: "take (length k) (w @ d # t) = k" by (simp add: startswith_def)
  have "length k \<le> length w"
  proof (rule ccontr)
    assume "\<not> length k \<le> length w"
    then have "(w @ d # t) ! length w = k ! length w" using take by (metis not_le nth_take)
    moreover have "\<not> py_space (k ! length w)" using keyword \<open>\<not> length k \<le> length w\<close> by (simp add: list_all_length)
    ultimately show False using space by simp
  qed
  moreover have "length k \<noteq> length w" using take \<open>w \<noteq> k\<close> by auto
  ultimately have less: "length k < length w" by simp
  then have "drop (length k) (w @ d # t) = w ! length k # drop (Suc (length k)) w @ d # t" by (simp add: Cons_nth_drop_Suc[symmetric])
  moreover have "\<not> py_space (w ! length k)" using word less by (simp add: list_all_length)
  ultimately show ?thesis by (simp add: after_keyword_def)
qed (simp add: after_keyword_def)

lemma flag_char_space: "flag_char c \<Longrightarrow> \<not> py_space c"
  by (auto simp: flag_char_def flag_start_def py_space_def is_alpha_def is_digit_def Let_def)

text \<open>C13: An assignment that is written in one line, with or without \<open>export\<close>, with any flag, operator and quotes, is read as what
  it says. The text must not have exactly one of its own quotes in it, and a variable
  that is called \<open>export\<close> cannot be assigned without a flag.\<close>

theorem assignment_read_back:
  assumes "writable q a" and "as_var a \<noteq> []"
  shows "config_line (assignment_text q a) = Some a"
proof -
  let ?s = "q # as_value a @ [q]" and ?w = "as_var a @ flag_text (as_flag a)"
  let ?t = "as_var a @ flag_text (as_flag a) @ '' '' @ op_text (as_op a) @ '' '' @ ?s"
  have var: "list_all var_char (as_var a)" and q: "q = CHR 0x27 \<or> q = CHR ''\"''"
    and flag: "case as_flag a of None \<Rightarrow> True | Some f \<Rightarrow> list_all flag_char f \<and> f \<noteq> [] \<and> flag_start (hd f)"
    using assms(1) by (simp_all add: writable_def)
  have s: "quoted ?s = Some (as_value a)" using assms(1) q by (intro quoted_text) (simp_all add: writable_def)
  have "\<not> py_space (hd ?s)" using q by (auto simp: py_space_def)
  from assign_at_text[OF var flag s this]
  have at: "assign_at exp ?t = Some \<lparr>as_export = exp, as_var = as_var a, as_flag = as_flag a, as_op = as_op a, as_value = as_value a\<rparr>" for exp
    by simp
  have word: "list_all (\<lambda>c. \<not> py_space c) ?w"
  proof -
    have "\<not> py_space CHR ''[''" "\<not> py_space CHR '']''" by (simp_all add: py_space_def)
    then have "list_all (\<lambda>c. \<not> py_space c) (flag_text (as_flag a))"
      using flag flag_char_space by (cases "as_flag a") (auto simp: flag_text_def list_all_iff)
    then show ?thesis using var var_char_space by (auto simp: list_all_iff)
  qed
  show ?thesis
  proof (cases "as_export a")
    case True
    have "\<not> py_space (hd ?t)" using assms(2) var var_char_space by (cases "as_var a") auto
    then have "after_keyword ''export'' (''export'' @ CHR '' '' # ?t) = [?t]"
      using assms(2) by (intro after_keyword_one) (simp_all add: py_space_def)
    then have "config_line (''export'' @ CHR '' '' # ?t) = assign_at True ?t"
      using at[of True] by (simp add: config_line_def)
    with True at show ?thesis by (simp add: assignment_text_def)
  next
    case False
    have "?w \<noteq> ''export''"
    proof
      assume w: "?w = ''export''"
      show False
      proof (cases "as_flag a")
        case None
        with w False assms(1) show False by (simp add: flag_text_def writable_def)
      next
        case (Some f)
        then have "last ?w = CHR '']''" by (simp add: flag_text_def)
        with w show False by simp
      qed
    qed
    from after_keyword_inside[OF word _ _ this, of "CHR '' ''" "op_text (as_op a) @ '' '' @ ?s"]
    have "after_keyword ''export'' ?t = []" by (simp add: py_space_def)
    with False at show ?thesis by (simp add: config_line_def assignment_text_def)
  qed
qed

theorem assignment_read_back_witness:
  "config_line (''export SRC_URI[md5] ?= '' @ [CHR 0x22] @ ''a'' @ [CHR 0x22]) =
    Some \<lparr>as_export = True, as_var = ''SRC_URI'', as_flag = Some ''md5'', as_op = Default, as_value = ''a''\<rparr>"
proof -
  let ?a = "\<lparr>as_export = True, as_var = ''SRC_URI'', as_flag = Some ''md5'', as_op = Default, as_value = ''a''\<rparr>"
  have "writable CHR 0x22 ?a" by (simp add: writable_def var_char_def flag_char_def flag_start_def is_alpha_def is_digit_def)
  from assignment_read_back[OF this] show ?thesis by (simp add: assignment_text_def flag_text_def op_text_def)
qed

section \<open>A function\<close>

definition between_functions :: "bb_state \<Rightarrow> bool" where
  "between_functions st \<longleftrightarrow> bb_infunc st = None \<and> bb_inpython st = None \<and> bb_body st = [] \<and> bb_residue st = []"

lemma feed_body:
  assumes "bb_infunc st = Some (func, start, py, fr)" and "list_all (\<lambda>l. rstrip l \<noteq> ''}'') ls"
  shows "bb_feed classname fn root lineno (ls @ [''}'']) st =
    Inr (st\<lparr>bb_nodes := bb_nodes st @ [(fn, lineno + length ls + 1, Method func (bb_body st @ List.map rstrip ls @ [[]]) py fr)], bb_infunc := None,
      bb_body := []\<rparr>)"
  using assms
proof (induction ls arbitrary: st lineno)
  case Nil
  have "rstrip ''}'' = ''}''" by (simp add: rstrip_def rstrip_chars_def py_space_def)
  with Nil show ?case by (simp add: bb_feeder_def)
next
  case (Cons l ls)
  have "bb_feeder classname fn root (Suc lineno) (rstrip l) False st = Inr (st\<lparr>bb_body := bb_body st @ [rstrip l]\<rparr>)"
    using Cons.prems by (simp add: bb_feeder_def)
  with Cons.IH[of "st\<lparr>bb_body := bb_body st @ [rstrip l]\<rparr>" "Suc lineno"] Cons.prems show ?case by simp
qed

text \<open>C21: A function is read with its body: from a line that starts one, all lines up to the closing brace at the
  start of a line, whatever they look like, are its body in order, and what follows is read as
  before.\<close>

theorem function_read:
  assumes "between_functions st" and "func_start (rstrip h) = Some (func, py, fr)" and "\<not> startswith (rstrip h) ''#''"
    and "last (rstrip h) \<noteq> CHR 0x5C" and "list_all (\<lambda>l. rstrip l \<noteq> ''}'') ls"
  shows "bb_feed classname fn root lineno (h # ls @ [''}'']) st =
    Inr (st\<lparr>bb_nodes := bb_nodes st @ [(fn, lineno + length ls + 2, Method func (List.map rstrip ls @ [[]]) py fr)]\<rparr>)"
proof -
  let ?st = "st\<lparr>bb_infunc := Some (func, Suc lineno, py, fr)\<rparr>"
  have "rstrip h \<noteq> []"
  proof
    assume "rstrip h = []"
    moreover have "func_start [] = None" by (simp add: func_start_def func_words.simps startswith_def skip_space_def)
    ultimately show False using assms(2) by simp
  qed
  then have "bb_feeder classname fn root (Suc lineno) (rstrip h) False st = Inr (?st\<lparr>bb_residue := []\<rparr>)"
    using assms(1-4) by (simp add: bb_feeder_def bb_line_def residue_comment_def between_functions_def)
  moreover have "?st\<lparr>bb_residue := []\<rparr> = ?st" using assms(1) by (simp add: between_functions_def)
  moreover have "st\<lparr>bb_infunc := None, bb_body := []\<rparr> = st" using assms(1) by (simp add: between_functions_def)
  ultimately show ?thesis
    using feed_body[of ?st func "Suc lineno" py fr ls classname fn root "Suc lineno"] assms(1,5) by (simp add: between_functions_def)
qed

theorem function_read_witness:
  "bb_feed [] ''a.bb'' ''a'' 0 [''do_x() {'', ''  : '', ''}''] new_bb_state =
    Inr (new_bb_state\<lparr>bb_nodes := [(''a.bb'', 3, Method ''do_x'' [''  :'', []] False False)]\<rparr>)"
proof -
  have "between_functions new_bb_state" by (simp add: between_functions_def new_bb_state_def)
  moreover have "func_start (rstrip ''do_x() {'') = Some (''do_x'', False, False)" by code_simp
  moreover have "\<not> startswith (rstrip ''do_x() {'') ''#''" and "last (rstrip ''do_x() {'') \<noteq> CHR 0x5C" by code_simp+
  moreover have "rstrip ''  : '' = ''  :''" by code_simp
  ultimately show ?thesis
    using function_read[of new_bb_state "''do_x() {''" "''do_x''" False False "[''  : '']" "[]" "''a.bb''" "''a''" 0]
    by (simp add: new_bb_state_def eval_nat_numeral)
qed

section \<open>Three surprises\<close>

lemma two_after_clauses_run_together:
  "add_task_line ''a after b before c after d'' = Add_Task ''a'' ''c'' ''bd''"
  by code_simp

lemma lone_backslash_raises:
  "joined_line lineno [CHR 0x5C] ([CHR 0x0A] # lines) = Inl IndexError"
  "bb_feed [] fn root n [[CHR 0x5C], ''X = 1''] new_bb_state = Inl IndexError"
proof -
  have "rstrip [CHR 0x0A] = []" by code_simp
  then show "joined_line lineno [CHR 0x5C] ([CHR 0x0A] # lines) = Inl IndexError"
    by (simp add: joined_line.simps mixed_comment_def Let_def)
  have "rstrip [CHR 0x5C] = [CHR 0x5C]" "rstrip ''X = 1'' = ''X = 1''" by code_simp+
  then show "bb_feed [] fn root n [[CHR 0x5C], ''X = 1''] new_bb_state = Inl IndexError"
    by (simp add: bb_feeder_def bb_line_def residue_comment_def new_bb_state_def startswith_def Let_def)
qed

lemma one_character_flag_cannot_be_unset:
  "conf_feeder False True fn n ''unset V[f]'' nodes = Inl (ParseError fn n)"
  "conf_feeder False True fn n (''V[f] = '' @ [CHR 0x22, CHR 0x22]) nodes =
     Inr (nodes @ [(fn, n, Assign \<lparr>as_export = False, as_var = ''V'', as_flag = Some ''f'', as_op = Set_Now, as_value = []\<rparr>)])"
proof -
  have "config_line ''unset V[f]'' = None" "conf_statement False True ''unset V[f]'' = None" by code_simp+
  then show "conf_feeder False True fn n ''unset V[f]'' nodes = Inl (ParseError fn n)" by (simp add: conf_feeder_def)
  have "config_line (''V[f] = '' @ [CHR 0x22, CHR 0x22]) =
      Some \<lparr>as_export = False, as_var = ''V'', as_flag = Some ''f'', as_op = Set_Now, as_value = []\<rparr>" by code_simp
  then show "conf_feeder False True fn n (''V[f] = '' @ [CHR 0x22, CHR 0x22]) nodes =
     Inr (nodes @ [(fn, n, Assign \<lparr>as_export = False, as_var = ''V'', as_flag = Some ''f'', as_op = Set_Now, as_value = []\<rparr>)])"
    by (simp add: conf_feeder_def)
qed

end
