(* ===== verification/Task_Decl.thy ===== *)
theory Task_Decl
  imports Data_Store
begin

text \<open>
  The tasks of a recipe, as \<open>build.py\<close> keeps them in the datastore: \<open>addtask\<close> and \<open>deltask\<close> change the list
  \<open>__BBTASKS\<close> and the flags \<open>deps\<close>, \<open>add_tasks\<close> makes the dictionary \<open>_task_deps\<close> that the recipe cache
  is filled from, and two functions ask for chains of tasks.
\<close>

section \<open>The datastore as the parser uses it\<close>

record evaluator =
  ev_python :: python
  ev_fuel :: nat

definition get_var :: "'x evaluator_scheme \<Rightarrow> string \<Rightarrow> bool \<Rightarrow> (dstore, dvalue) act" where
  "get_var ev var expand = getVar (ev_python ev) (ev_fuel ev) var expand"

definition set_var :: "'x evaluator_scheme \<Rightarrow> string \<Rightarrow> dvalue \<Rightarrow> (dstore, unit) act" where
  "set_var ev var v = setVar (ev_python ev) (ev_fuel ev) var v False"

definition get_flag :: "'x evaluator_scheme \<Rightarrow> string \<Rightarrow> string \<Rightarrow> bool \<Rightarrow> (dstore, dvalue) act" where
  "get_flag ev var flag expand = getVarFlag (ev_python ev) (ev_fuel ev) var flag expand"

definition set_flag :: "'x evaluator_scheme \<Rightarrow> string \<Rightarrow> string \<Rightarrow> dvalue \<Rightarrow> (dstore, unit) act" where
  "set_flag ev var flag v = setVarFlag (ev_python ev) (ev_fuel ev) var flag v"

definition expand_with :: "'x evaluator_scheme \<Rightarrow> dvalue \<Rightarrow> (dstore, dvalue) act" where
  "expand_with ev v = act_bind (expandWithRefs (get_var_flag (ev_python ev) (ev_fuel ev)) (ev_python ev) (ev_fuel ev) v []) (\<lambda>p. act_return (vp_value p))"

definition expand_string :: "'x evaluator_scheme \<Rightarrow> string \<Rightarrow> (dstore, string) act" where
  "expand_string ev t = expand_text (ev_python ev) (ev_fuel ev) t"

text \<open>\<open>v or []\<close> of a list of names\<close>

definition names_of :: "dvalue \<Rightarrow> string list res" where
  "names_of v = (case v of Names l \<Rightarrow> Inr l | _ \<Rightarrow> if truthy_value v then Inl AttributeError else Inr [])"

definition get_names :: "'x evaluator_scheme \<Rightarrow> string \<Rightarrow> (dstore, string list) act" where
  "get_names ev var = act_bind (get_var ev var False) (\<lambda>v. act_lift (names_of v))"

definition get_deps :: "'x evaluator_scheme \<Rightarrow> string \<Rightarrow> (dstore, string list) act" where
  "get_deps ev task = act_bind (get_flag ev task ''deps'' False) (\<lambda>v. act_lift (names_of v))"

section \<open>Adding and deleting a task\<close>

definition ensure_task_prefix :: "string \<Rightarrow> string" where
  "ensure_task_prefix name = (if take 3 name \<noteq> ''do_'' then ''do_'' @ name else name)"

definition add_before :: "'x evaluator_scheme \<Rightarrow> string \<Rightarrow> string \<Rightarrow> (dstore, unit) act" where
  "add_before ev task entry =
     (let entry = ensure_task_prefix entry
      in act_bind (get_deps ev entry) (\<lambda>existing.
         act_when (task \<notin> set existing) (set_flag ev entry ''deps'' (Names (task # existing)))))"

definition addtask :: "'x evaluator_scheme \<Rightarrow> string \<Rightarrow> string \<Rightarrow> string \<Rightarrow> (dstore, unit) act" where
  "addtask ev name before after =
     (let task = ensure_task_prefix name
      in act_then (set_flag ev task ''task'' (Num 1))
        (act_bind (get_names ev ''__BBTASKS'') (\<lambda>bbtasks.
         act_then (set_var ev ''__BBTASKS'' (Names (set_add task bbtasks)))
        (act_bind (get_deps ev task) (\<lambda>existing.
         act_then (set_flag ev task ''deps'' (Names (fold (\<lambda>entry. set_add (ensure_task_prefix entry)) (split_ws after) existing)))
           (act_for (split_ws before) (add_before ev task)))))))"

definition drop_dep :: "'x evaluator_scheme \<Rightarrow> string \<Rightarrow> string \<Rightarrow> (dstore, unit) act" where
  "drop_dep ev task bbtask =
     act_bind (get_deps ev bbtask) (\<lambda>deps. act_when (task \<in> set deps) (set_flag ev bbtask ''deps'' (Names (remove1 task deps))))"

definition deltask :: "'x evaluator_scheme \<Rightarrow> string \<Rightarrow> (dstore, unit) act" where
  "deltask ev name =
     (let task = ensure_task_prefix name
      in act_bind (get_names ev ''__BBTASKS'') (\<lambda>bbtasks.
         act_then (act_when (task \<in> set bbtasks)
           (act_then (delVarFlag task ''task'') (set_var ev ''__BBTASKS'' (Names (remove1 task bbtasks)))))
        (act_then (delVarFlag task ''deps'')
        (act_bind (get_names ev ''__BBTASKS'') (\<lambda>left. act_for left (drop_dep ev task))))))"

section \<open>The dictionary of the tasks\<close>

definition task_flags :: "string list" where
  "task_flags = [''mcdepends'', ''depends'', ''rdepends'', ''deptask'', ''rdeptask'', ''recrdeptask'', ''recideptask'', ''nostamp'', ''fakeroot'',
     ''noexec'', ''umask'']"

text \<open>\<open>getTask\<close>: the dictionary of the flag, with the expanded flag of the task\<close>

definition get_task ::
  "'x evaluator_scheme \<Rightarrow> flags \<Rightarrow> string \<Rightarrow> string \<Rightarrow> (string, (string, dvalue) dict) dict \<Rightarrow> (dstore, (string, (string, dvalue) dict) dict) act" where
  "get_task ev flags task name named =
     (let named = (if has_key named name then named else AList.update name [] named)
      in case map_of flags name of
           None \<Rightarrow> act_return named
         | Some v \<Rightarrow> act_bind (expand_with ev v) (\<lambda>deptask. act_return (AList.update name (AList.update task deptask (dict_list named name)) named)))"

fun get_tasks ::
  "'x evaluator_scheme \<Rightarrow> flags \<Rightarrow> string \<Rightarrow> string list \<Rightarrow> (string, (string, dvalue) dict) dict \<Rightarrow> (dstore, (string, (string, dvalue) dict) dict) act" where
  "get_tasks ev flags task [] named = act_return named"
| "get_tasks ev flags task (name # names) named = act_bind (get_task ev flags task name named) (get_tasks ev flags task names)"

text \<open>What a loop over a flag goes through: a text by its characters\<close>

definition items_of :: "dvalue \<Rightarrow> string list res" where
  "items_of v = (case v of Names l \<Rightarrow> Inr l | Text t \<Rightarrow> Inr (List.map (\<lambda>c. [c]) t) | _ \<Rightarrow> Inl TypeError)"

record task_dict =
  td_tasks :: "string list"
  td_parents :: "(string, string list) dict"
  td_named :: "(string, (string, dvalue) dict) dict"

definition enter_task :: "'x evaluator_scheme \<Rightarrow> string \<Rightarrow> task_dict \<Rightarrow> (dstore, task_dict) act" where
  "enter_task ev name td =
     act_bind (expand_string ev name) (\<lambda>task.
     act_then (set_flag ev task ''task'' (Num 1))
    (act_bind (getVarFlags (ev_python ev) (ev_fuel ev) task [] False) (\<lambda>found.
     let flags = get_or found [] in
     act_bind (get_tasks ev flags task task_flags (td_named td)) (\<lambda>named.
     act_bind (case map_of flags ''deps'' of
         None \<Rightarrow> act_return []
       | Some v \<Rightarrow> act_bind (act_lift (items_of v)) (\<lambda>deps. act_map (expand_string ev) deps)) (\<lambda>parents.
     act_return (td\<lparr>td_tasks := set_add task (td_tasks td), td_named := named, td_parents := AList.update task parents (td_parents td)\<rparr>))))))"

fun enter_tasks :: "'x evaluator_scheme \<Rightarrow> string list \<Rightarrow> task_dict \<Rightarrow> (dstore, task_dict) act" where
  "enter_tasks ev [] td = act_return td"
| "enter_tasks ev (task # tasks) td = act_bind (enter_task ev task td) (enter_tasks ev tasks)"

definition add_tasks_of :: "'x evaluator_scheme \<Rightarrow> string list \<Rightarrow> (dstore, unit) act" where
  "add_tasks_of ev tasklist =
     act_bind (get_var ev ''_task_deps'' False) (\<lambda>v.
     act_bind (case v of
         Task_Deps tasks parents named \<Rightarrow> act_return \<lparr>td_tasks = tasks, td_parents = parents, td_named = named\<rparr>
       | _ \<Rightarrow> if truthy_value v then act_raise TypeError else act_return \<lparr>td_tasks = [], td_parents = [], td_named = []\<rparr>) (\<lambda>td.
     act_bind (enter_tasks ev tasklist td) (\<lambda>td.
     set_var ev ''_task_deps'' (Task_Deps (td_tasks td) (td_parents td) (td_named td)))))"

section \<open>Chains of tasks\<close>

text \<open>\<open>task not in tasks\<close> raises without a list of tasks.\<close>

definition member_of :: "string \<Rightarrow> dvalue \<Rightarrow> bool res" where
  "member_of x v = (case v of Names l \<Rightarrow> Inr (x \<in> set l) | Text t \<Rightarrow> Inr (contains t x) | _ \<Rightarrow> Inl TypeError)"

definition preceedtask :: "'x evaluator_scheme \<Rightarrow> string \<Rightarrow> bool \<Rightarrow> (dstore, string list) act" where
  "preceedtask ev task with_recrdeptasks =
     act_bind (get_var ev ''__BBTASKS'' False) (\<lambda>tasks.
     act_bind (act_lift (member_of task tasks)) (\<lambda>known.
     if \<not> known then act_return []
     else act_bind (get_flag ev task ''deps'' True) (\<lambda>deps.
          act_bind (act_lift (if truthy_value deps then items_of deps else Inr [])) (\<lambda>preceed.
          if \<not> with_recrdeptasks then act_return (set_union [] preceed)
          else act_bind (get_flag ev task ''recrdeptask'' True) (\<lambda>v. case v of
                 Text t \<Rightarrow> act_return (set_union preceed (split_ws t))
               | _ \<Rightarrow> if truthy_value v then act_raise AttributeError else act_return (set_union [] preceed))))))"

text \<open>\<open>follow_chain\<close> of \<open>tasksbetween\<close>: a chain has every task once, so that its depth is bounded by their number.\<close>

fun follow_chain :: "'x evaluator_scheme \<Rightarrow> string list \<Rightarrow> string \<Rightarrow> nat \<Rightarrow> string \<Rightarrow> string list \<Rightarrow> string list \<Rightarrow> (dstore, string list) act"
  and follow_others :: "'x evaluator_scheme \<Rightarrow> string list \<Rightarrow> string \<Rightarrow> nat \<Rightarrow> string \<Rightarrow> string list \<Rightarrow> string list \<Rightarrow> string list \<Rightarrow> (dstore, string list) act" where
  "follow_chain ev tasks endtask 0 task chain out = act_raise OutOfFuel"
| "follow_chain ev tasks endtask (Suc k) task chain out =
     (if task \<in> set chain then act_raise BBHandledException
      else follow_others ev tasks endtask k task (chain @ [task]) tasks out)"
| "follow_others ev tasks endtask k task chain [] out = act_return out"
| "follow_others ev tasks endtask k task chain (other # others) out =
     (if other = task then follow_others ev tasks endtask k task chain others out
      else if task = endtask then follow_others ev tasks endtask k task chain others (set_union out chain)
      else act_bind (get_flag ev other ''deps'' False) (\<lambda>deps.
           act_bind (act_lift (member_of task deps)) (\<lambda>after.
           act_bind (if after then follow_chain ev tasks endtask k other chain out else act_return out) (\<lambda>out.
           follow_others ev tasks endtask k task chain others out))))"

fun tasks_of_keys :: "'x evaluator_scheme \<Rightarrow> string list \<Rightarrow> (dstore, string list) act" where
  "tasks_of_keys ev [] = act_return []"
| "tasks_of_keys ev (k # ks) =
     act_bind (get_flag ev k ''task'' True) (\<lambda>v. act_bind (tasks_of_keys ev ks) (\<lambda>l. act_return (if truthy_value v then k # l else l)))"

definition tasksbetween :: "'x evaluator_scheme \<Rightarrow> string \<Rightarrow> string \<Rightarrow> (dstore, string list) act" where
  "tasksbetween ev task_start task_end =
     act_bind (store_keys (ev_python ev) (ev_fuel ev)) (\<lambda>keys.
     act_bind (tasks_of_keys ev keys) (\<lambda>tasks.
     follow_chain ev tasks task_end (length tasks + 2) task_start [] []))"

definition listtasks :: "'x evaluator_scheme \<Rightarrow> (dstore, string list) act" where
  "listtasks ev = get_names ev ''__BBTASKS''"

end
