(* ===== verification/Task_Facts.thy ===== *)
theory Task_Facts
  imports Data_Demo Task_Decl
begin

text \<open>
  What \<open>addtask\<close> and \<open>deltask\<close> do to the tasks of a recipe, seen as a list of tasks and the tasks each one
  comes after.
\<close>

section \<open>Reading without expansion\<close>

lemma flag_read:
  "flag \<noteq> ''_content'' \<Longrightarrow> flag \<noteq> [] \<Longrightarrow>
   getVarFlag py (Suc n) var flag False s = (Inr (stored_flag (find_var (ds_layers s) var) flag False), s)"
  by (simp add: getVarFlag_def get_body_def Let_def act_simps)

definition no_operators :: "dstore \<Rightarrow> string \<Rightarrow> bool" where
  "no_operators s var \<longleftrightarrow> map_of (ds_overridedata s) var = None \<and>
     list_all (\<lambda>k. local_op (find_var (ds_layers s) var) k = None) ['':append'', '':prepend'', '':remove'']"

lemma var_read:
  "no_operators s var \<Longrightarrow> getVar py (Suc n) var False s = (Inr (stored_flag (find_var (ds_layers s) var) ''_content'' False), s)"
  by (simp add: no_operators_def getVar_def getVarFlag_def get_body_def Let_def act_simps overriding_none apply_op_def collect_removes_def)

lemma holds_read: "holds s os var v \<Longrightarrow> no_operators s var \<and> stored_flag (find_var (ds_layers s) var) ''_content'' False = v"
  by (auto simp: holds_def no_operators_def stored_flag_def local_op_def)

section \<open>Tasks and what they come after\<close>

definition names_in :: "dvalue \<Rightarrow> string list" where
  "names_in v = (case v of Names l \<Rightarrow> l | _ \<Rightarrow> [])"

definition a_list :: "dvalue \<Rightarrow> bool" where
  "a_list v \<longleftrightarrow> v = NoneV \<or> (\<exists>l. v = Names l)"

definition tasks_of :: "dstore \<Rightarrow> string list" where
  "tasks_of s = names_in (stored_flag (find_var (ds_layers s) ''__BBTASKS'') ''_content'' False)"

definition do_name :: "string \<Rightarrow> bool" where
  "do_name task \<longleftrightarrow> take 3 task = ''do_''"

definition deps_of :: "dstore \<Rightarrow> string \<Rightarrow> string list" where
  "deps_of s task = (if do_name task then names_in (stored_flag (find_var (ds_layers s) task) ''deps'' False) else [])"

lemma do_nameE: "do_name task \<Longrightarrow> (\<And>t. task = ''do_'' @ t \<Longrightarrow> P) \<Longrightarrow> P"
  unfolding do_name_def by (metis append_take_drop_id)

lemma do_name_ensured: "do_name (ensure_task_prefix name)"
  by (simp add: ensure_task_prefix_def do_name_def numeral_3_eq_3)

text \<open>A datastore whose overrides are known, where the list of tasks has neither operators nor overrides, nothing
  that concerns it or a task is renamed, and the flags hold lists\<close>

definition task_store :: "string list \<Rightarrow> dstore \<Rightarrow> bool" where
  "task_store os s \<longleftrightarrow> ds_layers s \<noteq> [] \<and> ds_overrides s = Some os \<and> no_operators s ''__BBTASKS'' \<and>
     ''__BBTASKS'' \<notin> set (ds_overridevars s) \<and> \<not> has_key (ds_renames s) ''__BBTASKS'' \<and> (\<forall>t. do_name t \<longrightarrow> \<not> has_key (ds_renames s) t) \<and>
     a_list (stored_flag (find_var (ds_layers s) ''__BBTASKS'') ''_content'' False) \<and>
     (\<forall>t. do_name t \<longrightarrow> a_list (stored_flag (find_var (ds_layers s) t) ''deps'' False) \<and>
       \<not> has_key (get_or (find_var (ds_layers s) t) []) ''_defaultval_flag_deps'')"

lemma names_of_list: "a_list v \<Longrightarrow> names_of v = Inr (names_in v)"
  by (auto simp: a_list_def names_of_def names_in_def truthy_value_def)

lemma get_deps_run:
  assumes "task_store os s" and "ev_fuel ev = Suc n" and "do_name task"
  shows "get_deps ev task s = (Inr (deps_of s task), s)"
  using assms by (simp add: get_deps_def get_flag_def act_simps flag_read task_store_def names_of_list deps_of_def)

lemma get_tasks_run:
  assumes "task_store os s" and "ev_fuel ev = Suc n"
  shows "get_names ev ''__BBTASKS'' s = (Inr (tasks_of s), s)"
  using assms by (simp add: get_names_def get_var_def act_simps var_read task_store_def names_of_list tasks_of_def)

lemma stored_other:
  assumes "k' \<noteq> k" and "k \<noteq> ''_defaultval''" and "k \<noteq> ''_defaultval_flag_'' @ k'"
  shows "stored_flag (Some (AList.update k v f)) k' weak = stored_flag (Some f) k' weak"
proof -
  have m: "map_of (AList.update k v f) x = map_of f x" if "x \<noteq> k" for x using that by simp
  have "''_defaultval'' \<noteq> k" "''_defaultval_flag_'' @ k' \<noteq> k" using assms by metis+
  show ?thesis unfolding stored_flag_def option.case has_key_map_of m[OF assms(1)] m[OF \<open>''_defaultval'' \<noteq> k\<close>]
      m[OF \<open>''_defaultval_flag_'' @ k' \<noteq> k\<close>] by (rule refl)
qed

text \<open>Setting a flag of a task: only that flag changes.\<close>

lemma set_flag_run:
  assumes s: "task_store os s" and task: "do_name task" and k: "k \<in> {''deps'', ''task''}" and v: "k = ''deps'' \<longrightarrow> a_list v"
  shows "\<exists>u. set_flag ev task k v s = (Inr (), u) \<and> task_store os u \<and> tasks_of u = tasks_of s \<and>
    deps_of u = (if k = ''deps'' then (deps_of s)(task := names_in v) else deps_of s)"
proof -
  let ?u = "put_flag task k v (clear_cache s)" and ?f = "get_or (find_var (ds_layers s) task) []"
  have other_name: "task \<noteq> ''BB_RENAMED_VARIABLES''" "''__BBTASKS'' \<noteq> task" using task by (auto simp: do_name_def)
  have run: "set_flag ev task k v s = (Inr (), ?u)"
    unfolding set_flag_def using s k task other_name(1) by (intro setVarFlag_plain) (auto simp: task_store_def)
  have find: "find_var (ds_layers ?u) y = (if y = task then Some (AList.update k v ?f) else find_var (ds_layers s) y)" for y
    using s by (simp add: put_flag_find task_store_def)
  have old: "stored_flag (Some ?f) k' weak = stored_flag (find_var (ds_layers s) task) k' weak" for k' weak
    by (cases "find_var (ds_layers s) task") (simp_all add: get_or_def stored_flag_def has_key_map_of)
  have other: "stored_flag (Some (AList.update k v ?f)) k' False = stored_flag (find_var (ds_layers s) task) k' False" if "k' \<noteq> k" for k'
    unfolding old[symmetric] using that k by (intro stored_other) auto
  have own: "stored_flag (Some (AList.update k v ?f)) k False = v" by (simp add: stored_flag_def)
  have bbtasks: "find_var (ds_layers ?u) ''__BBTASKS'' = find_var (ds_layers s) ''__BBTASKS''" using other_name(2) by (simp add: find)
  have deps: "stored_flag (find_var (ds_layers ?u) y) ''deps'' False =
      (if y = task \<and> k = ''deps'' then v else stored_flag (find_var (ds_layers s) y) ''deps'' False)" for y
    using other[of "''deps''"] own by (auto simp: find)
  have "\<not> has_key (get_or (find_var (ds_layers ?u) y) []) ''_defaultval_flag_deps''" if "do_name y" for y
    using s k that by (auto simp: find task_store_def has_key_map_of get_or_def)
  then have "task_store os ?u"
    unfolding task_store_def bbtasks using s v by (simp add: task_store_def no_operators_def bbtasks deps)
  moreover have "tasks_of ?u = tasks_of s" by (simp add: tasks_of_def bbtasks)
  moreover have "deps_of ?u = (if k = ''deps'' then (deps_of s)(task := names_in v) else deps_of s)"
  proof
    fix y
    show "deps_of ?u y = (if k = ''deps'' then (deps_of s)(task := names_in v) else deps_of s) y"
      using task deps[of y] by (auto simp: deps_of_def)
  qed
  ultimately show ?thesis using run by blast
qed

text \<open>Setting the list of tasks\<close>

lemma set_tasks_run:
  assumes s: "task_store os s"
  shows "\<exists>u. set_var ev ''__BBTASKS'' (Names l) s = (Inr (), u) \<and> task_store os u \<and> tasks_of u = l \<and> deps_of u = deps_of s"
proof -
  let ?v = "''__BBTASKS''"
  have name: "\<not> old_syntax ?v" "keyword_match [] ?v = None" "fst (partition_at CHR '':'' ?v) = ?v" by code_simp+
  have none: "active_names s ?v = {}" using s by (simp add: active_names_def task_store_def no_operators_def dict_list_def)
  have "setVar (ev_python ev) (ev_fuel ev) ?v (Names l) False s = set_plain (ev_python ev) (ev_fuel ev) ?v (Names l) False s"
    unfolding setVar_def using name s by (simp add: act_simps note_not_renamed task_store_def)
  moreover have "ends (set_plain (ev_python ev) (ev_fuel ev) ?v (Names l) False) s
      (\<lambda>_ u. underway s os ?v (active_names s ?v) u \<and> holds u os ?v (Names l))"
    using s none by (intro set_plain_run) (simp_all add: task_store_def)
  from ends_run[OF this] obtain u where u: "set_plain (ev_python ev) (ev_fuel ev) ?v (Names l) False s = (Inr (), u)"
    "underway s os ?v (active_names s ?v) u" "holds u os ?v (Names l)" by auto
  have find: "find_var (ds_layers u) t = find_var (ds_layers s) t" if "do_name t" for t
  proof -
    have "t \<noteq> ?v" using that by (auto simp: do_name_def)
    with u(2) none show ?thesis by (simp add: underway_def)
  qed
  have "task_store os u"
    using s u(2) holds_read[OF u(3)] find by (auto simp: task_store_def underway_def a_list_def)
  moreover have "tasks_of u = l" using holds_read[OF u(3)] by (simp add: tasks_of_def names_in_def)
  moreover have "deps_of u = deps_of s" by (rule ext) (simp add: deps_of_def find)
  ultimately show ?thesis using u(1) \<open>setVar _ _ _ _ _ _ = _\<close> by (auto simp: set_var_def)
qed

section \<open>Adding a task\<close>

definition before_deps :: "string \<Rightarrow> string \<Rightarrow> (string \<Rightarrow> string list) \<Rightarrow> string \<Rightarrow> string list" where
  "before_deps task entry deps =
     (let e = ensure_task_prefix entry in if task \<in> set (deps e) then deps else deps(e := task # deps e))"

text \<open>What a declaration means: the task is in the list, after all it is declared to come after, and what it is
  declared to come before is after it.\<close>

definition declared :: "string \<Rightarrow> string list \<Rightarrow> string list \<Rightarrow> string list \<times> (string \<Rightarrow> string list) \<Rightarrow> string list \<times> (string \<Rightarrow> string list)" where
  "declared task before after = (\<lambda>(tasks, deps).
     (set_add task tasks, fold (before_deps task) before (deps(task := fold (\<lambda>e. set_add (ensure_task_prefix e)) after (deps task)))))"

lemma add_before_run:
  assumes "task_store os s" and "ev_fuel ev = Suc n"
  shows "\<exists>u. add_before ev task entry s = (Inr (), u) \<and> task_store os u \<and> tasks_of u = tasks_of s \<and> deps_of u = before_deps task entry (deps_of s)"
proof -
  let ?e = "ensure_task_prefix entry"
  have "\<exists>u. set_flag ev ?e ''deps'' (Names (task # deps_of s ?e)) s = (Inr (), u) \<and> task_store os u \<and> tasks_of u = tasks_of s \<and>
      deps_of u = (deps_of s)(?e := task # deps_of s ?e)"
    using set_flag_run[OF assms(1) do_name_ensured[of entry], of "''deps''" "Names (task # deps_of s ?e)" ev] by (simp add: a_list_def names_in_def)
  then show ?thesis
    using get_deps_run[OF assms do_name_ensured[of entry]] assms(1)
    by (auto simp: add_before_def Let_def act_simps before_deps_def)
qed

lemma add_befores_run:
  assumes "task_store os s" and "ev_fuel ev = Suc n"
  shows "\<exists>u. act_for before (add_before ev task) s = (Inr (), u) \<and> task_store os u \<and> tasks_of u = tasks_of s \<and>
    deps_of u = fold (before_deps task) before (deps_of s)"
  using assms(1)
proof (induction before arbitrary: s)
  case (Cons entry before)
  from add_before_run[OF Cons.prems assms(2), of task entry] obtain t
    where t: "add_before ev task entry s = (Inr (), t)" "task_store os t" "tasks_of t = tasks_of s" "deps_of t = before_deps task entry (deps_of s)"
    by blast
  from Cons.IH[OF t(2)] t show ?case by (auto simp: act_simps)
qed (simp add: act_simps)

text \<open>C12: Adding a task is what its declaration means: seen as the list of tasks and the tasks that each one comes after,
  \<open>addtask\<close> is \<open>declared\<close>, for a task that is new or known and for names with and without \<open>do_\<close>.\<close>

theorem addtask_refines:
  assumes "task_store os s" and "ev_fuel ev = Suc n"
  shows "\<exists>u. addtask ev name before after s = (Inr (), u) \<and> task_store os u \<and>
    (tasks_of u, deps_of u) = declared (ensure_task_prefix name) (split_ws before) (split_ws after) (tasks_of s, deps_of s)"
proof -
  let ?t = "ensure_task_prefix name"
  note task = do_name_ensured[of name]
  from set_flag_run[OF assms(1) task, of "''task''" "Num 1" ev] obtain a
    where a: "set_flag ev ?t ''task'' (Num 1) s = (Inr (), a)" "task_store os a" "tasks_of a = tasks_of s" "deps_of a = deps_of s" by auto
  from set_tasks_run[OF a(2), of ev "set_add ?t (tasks_of s)"] obtain b
    where b: "set_var ev ''__BBTASKS'' (Names (set_add ?t (tasks_of s))) a = (Inr (), b)" "task_store os b" "tasks_of b = set_add ?t (tasks_of s)"
      "deps_of b = deps_of s" using a(4) by auto
  let ?after = "fold (\<lambda>e. set_add (ensure_task_prefix e)) (split_ws after) (deps_of s ?t)"
  from set_flag_run[OF b(2) task, of "''deps''" "Names ?after" ev] obtain c
    where c: "set_flag ev ?t ''deps'' (Names ?after) b = (Inr (), c)" "task_store os c" "tasks_of c = set_add ?t (tasks_of s)"
      "deps_of c = (deps_of s)(?t := ?after)" using b(3,4) by (auto simp: a_list_def names_in_def)
  from add_befores_run[OF c(2) assms(2), of "split_ws before" ?t] obtain u
    where u: "act_for (split_ws before) (add_before ev ?t) c = (Inr (), u)" "task_store os u" "tasks_of u = set_add ?t (tasks_of s)"
      "deps_of u = fold (before_deps ?t) (split_ws before) ((deps_of s)(?t := ?after))" using c(3,4) by auto
  have "addtask ev name before after s = (Inr (), u)"
    using a b c u get_tasks_run[OF a(2) assms(2)] get_deps_run[OF b(2) assms(2) task] by (simp add: addtask_def Let_def act_simps)
  with u show ?thesis by (auto simp: declared_def)
qed

section \<open>Deleting a task\<close>

lemma delVarFlag_find:
  assumes "ds_layers s \<noteq> []"
  shows "delVarFlag var flag s = (Inr (), snd (delVarFlag var flag s))"
    and "ds_layers (snd (delVarFlag var flag s)) \<noteq> []"
    and "find_var (ds_layers (snd (delVarFlag var flag s))) y = (if y = var
      then map_option (\<lambda>f. if has_key f flag then AList.delete (''_defaultval_flag_'' @ flag) (AList.delete flag f) else f) (find_var (ds_layers s) var)
      else find_var (ds_layers s) y)"
proof -
  let ?c = "clear_cache s" and ?t = "make_shadow_copy var (clear_cache s)"
  show "delVarFlag var flag s = (Inr (), snd (delVarFlag var flag s))" by (simp add: delVarFlag_def act_simps)
  have t: "ds_layers ?t \<noteq> []" "local_flags ?t var = get_or (find_var (ds_layers s) var) []" "has_key (local_dict ?t) var"
    "\<And>x. x \<noteq> var \<Longrightarrow> find_var (ds_layers ?t) x = find_var (ds_layers s) x"
    using assms by (simp_all add: shadow_copy)
  from find_local[OF t(3)] t(2) have own: "find_var (ds_layers ?t) var = Some (get_or (find_var (ds_layers s) var) [])" by simp
  have run: "snd (delVarFlag var flag s) = (case find_var (ds_layers s) var of
      Some (f # fs) \<Rightarrow> (if has_key (f # fs) flag then set_flags var (AList.delete (''_defaultval_flag_'' @ flag) (AList.delete flag (f # fs))) ?t else ?t)
    | _ \<Rightarrow> ?c)"
    by (auto simp: delVarFlag_def act_simps Let_def t(2) get_or_def split: option.split list.split)
  show "ds_layers (snd (delVarFlag var flag s)) \<noteq> []" unfolding run using assms t(1) by (auto split: option.split list.split)
  show "find_var (ds_layers (snd (delVarFlag var flag s))) y = (if y = var
      then map_option (\<lambda>f. if has_key f flag then AList.delete (''_defaultval_flag_'' @ flag) (AList.delete flag f) else f) (find_var (ds_layers s) var)
      else find_var (ds_layers s) y)"
  proof (cases "\<exists>f fs. find_var (ds_layers s) var = Some (f # fs)")
    case True
    then obtain f fs where f: "find_var (ds_layers s) var = Some (f # fs)" by blast
    then show ?thesis unfolding run using t own by (simp add: get_or_def)
  next
    case False
    then have "find_var (ds_layers s) var = None \<or> find_var (ds_layers s) var = Some []"
      by (metis list.exhaust not_None_eq)
    then show ?thesis unfolding run using assms by (auto simp: has_key_def)
  qed
qed

lemma delVarFlag_fields:
  "ds_overridedata (snd (delVarFlag var flag s)) = ds_overridedata s" "ds_overrides (snd (delVarFlag var flag s)) = ds_overrides s"
  "ds_overridevars (snd (delVarFlag var flag s)) = ds_overridevars s" "ds_renames (snd (delVarFlag var flag s)) = ds_renames s"
  by (simp_all add: delVarFlag_def act_simps Let_def split: option.split list.split)

lemma delete_flag_run:
  assumes s: "task_store os s" and task: "do_name task" and k: "k \<in> {''deps'', ''task''}"
  shows "\<exists>u. delVarFlag task k s = (Inr (), u) \<and> task_store os u \<and> tasks_of u = tasks_of s \<and>
    deps_of u = (if k = ''deps'' then (deps_of s)(task := []) else deps_of s)"
proof -
  have layers: "ds_layers s \<noteq> []" using s by (simp add: task_store_def)
  let ?u = "snd (delVarFlag task k s)"
  note find = delVarFlag_find(3)[OF layers, of task k] and fields = delVarFlag_fields[of task k s]
  have bbtasks: "find_var (ds_layers ?u) ''__BBTASKS'' = find_var (ds_layers s) ''__BBTASKS''"
    using task by (auto simp: find do_name_def)
  have weak: "\<not> has_key (get_or (find_var (ds_layers s) y) []) ''_defaultval_flag_deps''" if "do_name y" for y
    using s that by (simp add: task_store_def)
  have gone: "stored_flag (map_option (\<lambda>f. if has_key f k then AList.delete (''_defaultval_flag_'' @ k) (AList.delete k f) else f) g) ''deps'' False =
      (if k = ''deps'' then NoneV else stored_flag g ''deps'' False)"
    if "\<not> has_key (get_or g []) ''_defaultval_flag_deps''" for g
    using that k by (cases g) (auto simp: stored_flag_def has_key_map_of get_or_def)
  have deps: "stored_flag (find_var (ds_layers ?u) y) ''deps'' False =
      (if y = task \<and> k = ''deps'' then NoneV else stored_flag (find_var (ds_layers s) y) ''deps'' False)" if "do_name y" for y
  proof (cases "y = task")
    case True
    with gone[OF weak[OF that]] show ?thesis by (simp only: find True if_True simp_thms)
  next
    case False
    then show ?thesis by (simp add: find)
  qed
  have "\<not> has_key (get_or (find_var (ds_layers ?u) y) []) ''_defaultval_flag_deps''" if "do_name y" for y
    using weak[OF that] by (auto simp: find has_key_map_of get_or_def split: option.splits)
  then have "task_store os ?u"
    unfolding task_store_def bbtasks using s delVarFlag_find(2)[OF layers, of task k]
    by (simp add: task_store_def no_operators_def bbtasks deps fields a_list_def)
  moreover have "tasks_of ?u = tasks_of s" by (simp add: tasks_of_def bbtasks)
  moreover have "deps_of ?u = (if k = ''deps'' then (deps_of s)(task := []) else deps_of s)"
  proof
    fix y
    show "deps_of ?u y = (if k = ''deps'' then (deps_of s)(task := []) else deps_of s) y"
      using task deps[of y] by (auto simp: deps_of_def names_in_def)
  qed
  ultimately show ?thesis using delVarFlag_find(1)[OF layers, of task k] by blast
qed

definition without_dep :: "string \<Rightarrow> string \<Rightarrow> (string \<Rightarrow> string list) \<Rightarrow> string \<Rightarrow> string list" where
  "without_dep task t deps = (if task \<in> set (deps t) then deps(t := remove1 task (deps t)) else deps)"

definition undeclared :: "string \<Rightarrow> string list \<times> (string \<Rightarrow> string list) \<Rightarrow> string list \<times> (string \<Rightarrow> string list)" where
  "undeclared task = (\<lambda>(tasks, deps). (remove1 task tasks, fold (without_dep task) (remove1 task tasks) (deps(task := []))))"

lemma drop_deps_run:
  assumes "task_store os s" and "ev_fuel ev = Suc n" and "list_all do_name left"
  shows "\<exists>u. act_for left (drop_dep ev task) s = (Inr (), u) \<and> task_store os u \<and> tasks_of u = tasks_of s \<and>
    deps_of u = fold (without_dep task) left (deps_of s)"
  using assms(1,3)
proof (induction left arbitrary: s)
  case (Cons t left)
  then have t: "do_name t" by simp
  have "\<exists>v. drop_dep ev task t s = (Inr (), v) \<and> task_store os v \<and> tasks_of v = tasks_of s \<and> deps_of v = without_dep task t (deps_of s)"
    using set_flag_run[OF Cons.prems(1) t, of "''deps''" "Names (remove1 task (deps_of s t))" ev] get_deps_run[OF Cons.prems(1) assms(2) t] Cons.prems(1)
    by (auto simp: drop_dep_def act_simps without_dep_def a_list_def names_in_def)
  then obtain v where v: "drop_dep ev task t s = (Inr (), v)" "task_store os v" "tasks_of v = tasks_of s" "deps_of v = without_dep task t (deps_of s)"
    by blast
  from Cons.IH[OF v(2)] Cons.prems(2) v show ?case by (auto simp: act_simps)
qed (simp add: act_simps)

lemma fold_without_dep:
  assumes "\<And>t. distinct (deps t)"
  shows "fold (without_dep task) left deps t = (if t \<in> set left then remove1 task (deps t) else deps t)"
  using assms
proof (induction left arbitrary: deps)
  case (Cons x left)
  have "distinct (without_dep task x deps y)" for y using Cons.prems by (simp add: without_dep_def distinct_remove1)
  from Cons.IH[OF this] Cons.prems show ?case
    by (auto simp: without_dep_def remove1_idem distinct_remove1 set_remove1_eq)
qed simp


text \<open>Declaring and deleting tasks never puts a task twice into a list.\<close>

theorem declared_distinct:
  assumes "distinct (fst (tasks, deps))" and "\<forall>t. distinct (deps t)"
  shows "(let (tasks', deps') = declared task before after (tasks, deps) in distinct tasks' \<and> (\<forall>t. distinct (deps' t))) \<and>
    (let (tasks', deps') = undeclared task (tasks, deps) in distinct tasks' \<and> (\<forall>t. distinct (deps' t)))"
proof -
  have "distinct (fold (\<lambda>e. set_add (ensure_task_prefix e)) es l)" if "distinct l" for es l
    using that by (induction es arbitrary: l) (simp_all add: set_add_def)
  then have start: "\<forall>t. distinct ((deps(task := fold (\<lambda>e. set_add (ensure_task_prefix e)) after (deps task))) t)" using assms(2) by simp
  have "\<forall>t. distinct (fold (before_deps task) es d t)" if "\<forall>t. distinct (d t)" for es and d :: "string \<Rightarrow> string list"
    using that by (induction es arbitrary: d) (simp_all add: before_deps_def Let_def)
  from this[OF start] have one: "\<forall>t. distinct (fold (before_deps task) before (deps(task := fold (\<lambda>e. set_add (ensure_task_prefix e)) after (deps task))) t)" .
  have "\<forall>t. distinct (fold (without_dep task) es d t)" if "\<forall>t. distinct (d t)" for es and d :: "string \<Rightarrow> string list"
    using that by (induction es arbitrary: d) (simp_all add: without_dep_def)
  from this[of "deps(task := [])"] have two: "\<forall>t. distinct (fold (without_dep task) (remove1 task tasks) (deps(task := [])) t)" using assms(2) by simp
  show ?thesis using assms(1) one two by (simp add: declared_def undeclared_def set_add_def)
qed

section \<open>A recipe without tasks\<close>

definition recipe_store :: dstore where
  "recipe_store = (new_dstore [])\<lparr>ds_overrides := Some []\<rparr>"

lemma recipe_store_tasks: "task_store [] recipe_store" "tasks_of recipe_store = []" "deps_of recipe_store t = []"
  by (simp_all add: recipe_store_def new_dstore_def task_store_def no_operators_def local_op_def stored_flag_def a_list_def has_key_def get_or_def
    tasks_of_def deps_of_def names_in_def)

definition plain_evaluator :: evaluator where
  "plain_evaluator = \<lparr>ev_python = no_python, ev_fuel = 1\<rparr>"

lemma plain_fuel: "ev_fuel plain_evaluator = Suc 0"
  by (simp add: plain_evaluator_def)

lemma some_words: "split_ws ''do_compile'' = [''do_compile'']" "split_ws ''patch do_fetch'' = [''patch'', ''do_fetch'']"
  by code_simp+

theorem addtask_refines_witness:
  "\<exists>u. addtask plain_evaluator ''configure'' ''do_compile'' ''patch do_fetch'' recipe_store = (Inr (), u) \<and>
    tasks_of u = [''do_configure''] \<and> deps_of u ''do_configure'' = [''do_patch'', ''do_fetch''] \<and> deps_of u ''do_compile'' = [''do_configure'']"
  using addtask_refines[OF recipe_store_tasks(1) plain_fuel, of "''configure''" "''do_compile''" "''patch do_fetch''"]
  by (auto simp: some_words recipe_store_tasks declared_def before_deps_def ensure_task_prefix_def set_add_def Let_def)


theorem declared_distinct_witness:
  "distinct (fst (declared ''do_b'' [''c''] [''a'', ''do_a''] ([], \<lambda>t. []))) \<and> distinct (fst (undeclared ''do_b'' ([], \<lambda>t. [])))"
  using declared_distinct[of "[]" "\<lambda>t. []" "''do_b''" "[''c'']" "[''a'', ''do_a'']"] by (auto simp: Let_def split: prod.splits)

end
